(* ===== verification/Prelude.thy ===== *)
theory Prelude
  imports
    Main
    "HOL-Library.AList"
    "HOL-Library.Multiset"
    "HOL-Library.Word"
begin

text \<open>
  What every component of the development shares: the two ways a Go function can end (it
  returns a value or it panics), Go maps as association lists with distinct keys together
  with the order in which a \<^verbatim>\<open>range\<close> loop visits them, and the generic list lemmas the
  component theories use through the collections \<open>go_map\<close> and \<open>go_ret\<close>.
\<close>

named_theorems go_map \<open>lookup, insertion and deletion on Go maps\<close>
named_theorems go_ret \<open>sequencing of computations that may panic\<close>

section \<open>Returning and panicking\<close>

datatype panic =
    IndexOutOfRange
  | NilDereference
  | FlagSetFailed
  | CloseOfClosedChannel
  | VersionRequired
  | DoubleRegistration
  | NilMapWrite
  | ExplicitPanic
  | InterfaceConversion

text \<open>A computation ends with \<open>Inr v\<close> (it returned \<open>v\<close>) or \<open>Inl p\<close> (it panicked).\<close>

type_synonym 'a go = "panic + 'a"

definition go_bind :: "'a go \<Rightarrow> ('a \<Rightarrow> 'b go) \<Rightarrow> 'b go" where
  "go_bind m f = (case m of Inl p \<Rightarrow> Inl p | Inr v \<Rightarrow> f v)"

lemma go_bind_Inr [simp]: "go_bind (Inr v) f = f v"
  by (simp add: go_bind_def)

lemma go_bind_Inl [simp]: "go_bind (Inl p) f = Inl p"
  by (simp add: go_bind_def)

lemma go_bind_eq_Inr [go_ret]:
  "go_bind m f = Inr w \<longleftrightarrow> (\<exists>v. m = Inr v \<and> f v = Inr w)"
  by (cases m) simp_all

lemma go_bind_eq_Inl [go_ret]:
  "go_bind m f = Inl p \<longleftrightarrow> m = Inl p \<or> (\<exists>v. m = Inr v \<and> f v = Inl p)"
  by (cases m) simp_all

text \<open>Indexing a slice: Go panics where HOL's \<open>!\<close> is unspecified.\<close>

definition go_nth :: "'a list \<Rightarrow> nat \<Rightarrow> 'a go" where
  "go_nth xs i = (if i < length xs then Inr (xs ! i) else Inl IndexOutOfRange)"

lemma go_nth_eq_Inr [go_ret]: "go_nth xs i = Inr x \<longleftrightarrow> i < length xs \<and> x = xs ! i"
  by (auto simp: go_nth_def)

lemma go_nth_eq_Inl [go_ret]: "go_nth xs i = Inl p \<longleftrightarrow> length xs \<le> i \<and> p = IndexOutOfRange"
  by (auto simp: go_nth_def)

lemma go_nth_in [simp]: "i < length xs \<Longrightarrow> go_nth xs i = Inr (xs ! i)"
  by (simp add: go_nth_def)

text \<open>Dereferencing a pointer, with \<open>None\<close> for \<^verbatim>\<open>nil\<close>.\<close>

definition go_deref :: "'a option \<Rightarrow> 'a go" where
  "go_deref p = (case p of None \<Rightarrow> Inl NilDereference | Some x \<Rightarrow> Inr x)"

lemma go_deref_simps [simp]: "go_deref None = Inl NilDereference" "go_deref (Some x) = Inr x"
  by (simp_all add: go_deref_def)

section \<open>Go maps\<close>

text \<open>
  A Go map is an association list with distinct keys. Lookup, assignment and deletion are
  the library's; the list order is not observable in Go, so a \<^verbatim>\<open>range\<close> loop goes through an
  \<open>order\<close>, a function that permutes the entries.
\<close>

type_synonym ('k, 'v) gomap = "('k \<times> 'v) list"

abbreviation gm_get :: "('k, 'v) gomap \<Rightarrow> 'k \<Rightarrow> 'v option" where
  "gm_get m k \<equiv> map_of m k"

abbreviation gm_set :: "'k \<Rightarrow> 'v \<Rightarrow> ('k, 'v) gomap \<Rightarrow> ('k, 'v) gomap" where
  "gm_set k v m \<equiv> AList.update k v m"

abbreviation gm_del :: "'k \<Rightarrow> ('k, 'v) gomap \<Rightarrow> ('k, 'v) gomap" where
  "gm_del k m \<equiv> AList.delete k m"

abbreviation gm_wf :: "('k, 'v) gomap \<Rightarrow> bool" where
  "gm_wf m \<equiv> distinct (map fst m)"

lemma gm_get_set [go_map]: "gm_get (gm_set k v m) j = (if j = k then Some v else gm_get m j)"
  by (simp add: update_conv')

lemma gm_get_del [go_map]: "gm_get (gm_del k m) j = (if j = k then None else gm_get m j)"
  by (simp add: delete_conv')

lemma gm_wf_set [go_map]: "gm_wf m \<Longrightarrow> gm_wf (gm_set k v m)"
  by (rule distinct_update)

lemma gm_wf_del [go_map]: "gm_wf m \<Longrightarrow> gm_wf (gm_del k m)"
  by (rule distinct_delete)

lemma set_gm_set [go_map]:
  "gm_wf m \<Longrightarrow> set (gm_set k v m) = insert (k, v) {e \<in> set m. fst e \<noteq> k}"
  by (induction m) force+

lemma set_gm_del [go_map]: "set (gm_del k m) = {e \<in> set m. fst e \<noteq> k}"
  by (auto simp: AList.delete_eq)

lemma gm_get_mem [go_map]: "gm_wf m \<Longrightarrow> gm_get m k = Some v \<longleftrightarrow> (k, v) \<in> set m"
  by (simp add: map_of_eq_Some_iff)

text \<open>An iteration order: each visit of a map goes over its entries, each once.\<close>

definition is_order :: "(('k \<times> 'v) list \<Rightarrow> ('k \<times> 'v) list) \<Rightarrow> bool" where
  "is_order ord \<longleftrightarrow> (\<forall>m. mset (ord m) = mset m)"

lemma is_order_id [simp]: "is_order (\<lambda>m. m)"
  by (simp add: is_order_def)

lemma is_order_rev [simp]: "is_order rev"
  by (simp add: is_order_def)

lemma is_order_mset: "is_order ord \<Longrightarrow> mset (ord m) = mset m"
  by (simp add: is_order_def)

lemma is_order_set: "is_order ord \<Longrightarrow> set (ord m) = set m"
  by (metis is_order_mset set_mset_mset)

lemma is_order_length: "is_order ord \<Longrightarrow> length (ord m) = length m"
  by (metis is_order_mset size_mset)

lemma is_order_Nil [simp]: "is_order ord \<Longrightarrow> ord [] = []"
  using is_order_length [of ord "[]"] by simp

lemma is_order_single [simp]: "is_order ord \<Longrightarrow> ord [e] = [e]"
  by (metis is_order_mset mset_single_iff_right mset.simps)

section \<open>Generic list facts\<close>

lemma set_tlD: "x \<in> set (tl xs) \<Longrightarrow> x \<in> set xs"
  by (cases xs) simp_all

lemma mset_concat_map: "mset (concat (map f xs)) = (\<Sum>x \<leftarrow> xs. mset (f x))"
  by (induction xs) simp_all

lemma length_concat_map: "length (concat (map f xs)) = (\<Sum>x \<leftarrow> xs. length (f x))"
  by (induction xs) simp_all

end
