(* ===== verification/Go_Strings.thy ===== *)
theory Go_Strings
  imports Prelude "HOL-Library.Char_ord" "HOL-Library.List_Lexorder"
begin

text \<open>
  The parts of Go's \<^verbatim>\<open>strings\<close>, \<^verbatim>\<open>regexp\<close> and \<^verbatim>\<open>strconv\<close> packages that the program calls, on
  strings as byte sequences: splitting and byte replacement, the replacement of every rune
  that matches \<^verbatim>\<open>\W\<close> (runes are decoded from UTF-8, an invalid byte is one rune), case
  mapping on ASCII, and decimal rendering of integers. String comparison is Go's bytewise
  lexicographic order, which is the library's order on character lists.
\<close>

section \<open>Bytes\<close>

abbreviation byte :: "char \<Rightarrow> nat" where
  "byte c \<equiv> of_char c"

abbreviation newline :: char where
  "newline \<equiv> CHR 0x0A"

abbreviation dquote :: char where
  "dquote \<equiv> CHR 0x22"

abbreviation backslash :: char where
  "backslash \<equiv> CHR 0x5C"

definition is_digit :: "char \<Rightarrow> bool" where
  "is_digit c \<longleftrightarrow> 48 \<le> byte c \<and> byte c \<le> 57"

definition is_upper :: "char \<Rightarrow> bool" where
  "is_upper c \<longleftrightarrow> 65 \<le> byte c \<and> byte c \<le> 90"

definition is_lower :: "char \<Rightarrow> bool" where
  "is_lower c \<longleftrightarrow> 97 \<le> byte c \<and> byte c \<le> 122"

text \<open>The class \<^verbatim>\<open>\w\<close>: \<^verbatim>\<open>[0-9A-Za-z_]\<close>; \<^verbatim>\<open>\W\<close> is its complement.\<close>

definition is_word :: "char \<Rightarrow> bool" where
  "is_word c \<longleftrightarrow> is_digit c \<or> is_upper c \<or> is_lower c \<or> c = CHR ''_''"

definition lower_char :: "char \<Rightarrow> char" where
  "lower_char c = (if is_upper c then char_of (byte c + 32) else c)"

definition upper_char :: "char \<Rightarrow> char" where
  "upper_char c = (if is_lower c then char_of (byte c - 32) else c)"

lemmas char_class_defs = is_digit_def is_upper_def is_lower_def is_word_def

lemma byte_lower_char:
  "byte (lower_char c) = (if is_upper c then byte c + 32 else byte c)"
  by (auto simp: lower_char_def is_upper_def)

lemma lower_char_not_upper [simp]: "\<not> is_upper (lower_char c)"
  by (auto simp: is_upper_def byte_lower_char)

lemma lower_char_idem [simp]: "lower_char (lower_char c) = lower_char c"
  by (subst lower_char_def) simp

lemma lower_char_word: "is_word c \<Longrightarrow> is_word (lower_char c)"
  by (cases "is_upper c") (auto simp: lower_char_def is_word_def is_lower_def is_upper_def)

section \<open>Case mapping and byte replacement\<close>

text \<open>\<^verbatim>\<open>strings.ToLower\<close> and \<^verbatim>\<open>strings.ToUpper\<close>, on the ASCII strings they are given.\<close>

definition ToLower :: "string \<Rightarrow> string" where
  "ToLower s = map lower_char s"

definition ToUpper :: "string \<Rightarrow> string" where
  "ToUpper s = map upper_char s"

text \<open>\<^verbatim>\<open>strings.ReplaceAll(s, a, b)\<close> for single bytes \<open>a\<close> and \<open>b\<close>.\<close>

definition ReplaceAll :: "string \<Rightarrow> char \<Rightarrow> char \<Rightarrow> string" where
  "ReplaceAll s a b = map (\<lambda>c. if c = a then b else c) s"

section \<open>Runes that match \<open>\W\<close>\<close>

definition in_range :: "nat \<Rightarrow> nat \<Rightarrow> char \<Rightarrow> bool" where
  "in_range lo hi c \<longleftrightarrow> lo \<le> byte c \<and> byte c \<le> hi"

abbreviation is_cont :: "char \<Rightarrow> bool" where
  "is_cont \<equiv> in_range 128 191"

text \<open>
  The accepted range of the second byte of a multi-byte rune, by its first byte, and the
  number of bytes the first byte announces (\<open>unicode/utf8\<close>, \<^verbatim>\<open>DecodeRuneInString\<close>).
\<close>

definition second_ok :: "char \<Rightarrow> char \<Rightarrow> bool" where
  "second_ok c d = (let b = byte c in
     if b = 224 then in_range 160 191 d
     else if b = 237 then in_range 128 159 d
     else if b = 240 then in_range 144 191 d
     else if b = 244 then in_range 128 143 d
     else is_cont d)"

definition lead_width :: "char \<Rightarrow> nat" where
  "lead_width c = (let b = byte c in
     if 194 \<le> b \<and> b \<le> 223 then 2
     else if 224 \<le> b \<and> b \<le> 239 then 3
     else if 240 \<le> b \<and> b \<le> 244 then 4
     else 1)"

text \<open>The width of the first rune; an invalid sequence is a rune of one byte.\<close>

definition rune_width :: "string \<Rightarrow> nat" where
  "rune_width s = (case s of [] \<Rightarrow> 0
     | c # ds \<Rightarrow> (let n = lead_width c in
         if n = 1 then 1
         else if n \<le> length s \<and> second_ok c (hd ds) \<and> list_all is_cont (take (n - 2) (tl ds))
         then n else 1))"

lemma rune_width_pos: "s \<noteq> [] \<Longrightarrow> 0 < rune_width s"
  by (auto simp: rune_width_def lead_width_def Let_def split: list.splits)

lemma rune_width_le: "rune_width s \<le> length s"
  by (auto simp: rune_width_def Let_def split: list.splits)

text \<open>\<^verbatim>\<open>regexp.MustCompile(`\W`).ReplaceAllString(s, "_")\<close>.\<close>

fun replace_nonword :: "string \<Rightarrow> string" where
  "replace_nonword [] = []"
| "replace_nonword (c # cs) =
     (if is_word c then c # replace_nonword cs
      else CHR ''_'' # replace_nonword (drop (rune_width (c # cs) - 1) cs))"

lemma replace_nonword_word: "c \<in> set (replace_nonword s) \<Longrightarrow> is_word c"
  by (induction s rule: replace_nonword.induct) (auto simp: is_word_def split: if_splits)

lemma replace_nonword_id: "list_all is_word s \<Longrightarrow> replace_nonword s = s"
  by (induction s) auto

lemma replace_nonword_length: "length (replace_nonword s) \<le> length s"
  by (induction s rule: replace_nonword.induct) (auto intro: le_trans)

lemma replace_nonword_idem [simp]: "replace_nonword (replace_nonword s) = replace_nonword s"
  by (rule replace_nonword_id) (simp add: list_all_iff replace_nonword_word)

section \<open>Splitting\<close>

text \<open>\<^verbatim>\<open>strings.Split(s, sep)\<close> for a separator of one byte: never empty.\<close>

fun Split :: "char \<Rightarrow> string \<Rightarrow> string list" where
  "Split sep [] = [[]]"
| "Split sep (c # cs) =
     (if c = sep then [] # Split sep cs
      else (c # hd (Split sep cs)) # tl (Split sep cs))"

fun Join :: "char \<Rightarrow> string list \<Rightarrow> string" where
  "Join sep [] = []"
| "Join sep [s] = s"
| "Join sep (s # t # ss) = s @ sep # Join sep (t # ss)"

lemma Split_not_Nil [simp]: "Split sep s \<noteq> []"
  by (cases s) auto

lemma Split_no_sep: "sep \<notin> set s \<Longrightarrow> Split sep s = [s]"
  by (induction s) auto

lemma Split_append_sep:
  "sep \<notin> set s \<Longrightarrow> Split sep (s @ sep # t) = s # Split sep t"
  by (induction s) auto

lemma length_Split: "length (Split sep s) = Suc (count_list s sep)"
  by (induction s) auto

lemma Join_Cons_ne: "ss \<noteq> [] \<Longrightarrow> Join sep (s # ss) = s @ sep # Join sep ss"
  by (cases ss) simp_all

lemma Join_Split: "Join sep (Split sep s) = s"
proof (induction s)
  case Nil
  then show ?case by simp
next
  case (Cons c cs)
  obtain t ts where "Split sep cs = t # ts"
    by (meson Split_not_Nil neq_Nil_conv)
  with Cons show ?case
    by (cases ts) auto
qed

lemma Split_Join:
  "ss \<noteq> [] \<Longrightarrow> \<forall>s \<in> set ss. sep \<notin> set s \<Longrightarrow> Split sep (Join sep ss) = ss"
  by (induction sep ss rule: Join.induct) (auto simp: Split_no_sep Split_append_sep)

text \<open>\<^verbatim>\<open>strings.Join\<close> for a separator of any length.\<close>

fun intersperse :: "string \<Rightarrow> string list \<Rightarrow> string" where
  "intersperse sep [] = []"
| "intersperse sep [s] = s"
| "intersperse sep (s # t # ss) = s @ sep @ intersperse sep (t # ss)"

section \<open>Decimal rendering\<close>

definition digit_char :: "nat \<Rightarrow> char" where
  "digit_char d = char_of (48 + d)"

definition digit_val :: "char \<Rightarrow> nat" where
  "digit_val c = byte c - 48"

lemma byte_digit_char: "d < 10 \<Longrightarrow> byte (digit_char d) = 48 + d"
  by (simp add: digit_char_def)

lemma is_digit_digit_char [simp]: "d < 10 \<Longrightarrow> is_digit (digit_char d)"
  by (simp add: is_digit_def byte_digit_char)

lemma digit_val_digit_char [simp]: "d < 10 \<Longrightarrow> digit_val (digit_char d) = d"
  by (simp add: digit_val_def byte_digit_char)

fun show_nat :: "nat \<Rightarrow> string" where
  "show_nat n = (if n < 10 then [digit_char n] else show_nat (n div 10) @ [digit_char (n mod 10)])"

declare show_nat.simps [simp del]

text \<open>\<^verbatim>\<open>strconv.Itoa\<close>, and \<^verbatim>\<open>%v\<close> on signed integers.\<close>

definition show_int :: "int \<Rightarrow> string" where
  "show_int i = (if i < 0 then CHR ''-'' # show_nat (nat (- i)) else show_nat (nat i))"

definition nat_of_digits :: "string \<Rightarrow> nat" where
  "nat_of_digits = foldl (\<lambda>a c. 10 * a + digit_val c) 0"

lemma nat_of_digits_snoc: "nat_of_digits (s @ [c]) = 10 * nat_of_digits s + digit_val c"
  by (simp add: nat_of_digits_def)

lemma nat_of_digits_Nil [simp]: "nat_of_digits [] = 0"
  by (simp add: nat_of_digits_def)

lemma show_nat_not_Nil [simp]: "show_nat n \<noteq> []"
  by (subst show_nat.simps) simp

lemma show_nat_digits: "list_all is_digit (show_nat n)"
  by (induction n rule: show_nat.induct) (subst show_nat.simps, auto)

lemma nat_of_digits_single [simp]: "nat_of_digits [c] = digit_val c"
  by (simp add: nat_of_digits_def)

lemma nat_of_digits_show_nat [simp]: "nat_of_digits (show_nat n) = n"
  by (induction n rule: show_nat.induct)
    (subst show_nat.simps, simp add: nat_of_digits_snoc)

lemma show_nat_inject [simp]: "show_nat m = show_nat n \<longleftrightarrow> m = n"
  by (metis nat_of_digits_show_nat)

end
