(* ===== verification/Go_Float.thy ===== *)
theory Go_Float
  imports Complex_Main Go_Strings
begin

text \<open>
  Go's \<^verbatim>\<open>float64\<close> as far as the program uses it: \<^verbatim>\<open>strconv.ParseFloat(s, 64)\<close> with its whole
  syntax (sign, decimal and hexadecimal mantissas, exponents, digit separators, the special
  names), rounding to the nearest double with ties to even, and the two renderings
  \<^verbatim>\<open>%f\<close> (six fraction digits, correctly rounded) and \<^verbatim>\<open>%v\<close> (the shortest digits that read
  back as the same value). The theorems at the end say that a decimal integer below
  \<open>2 ^ 53\<close> is read exactly and printed as itself followed by \<^verbatim>\<open>.000000\<close>.
\<close>

section \<open>Values and rounding\<close>

text \<open>
  \<open>Fin s m e\<close> is \<open>(-1)^s * m * 2^e\<close>. Overflow is not a value: \<^verbatim>\<open>ParseFloat\<close> reports it as a
  range error.
\<close>

datatype float64 = Fin bool nat int | Infty bool | NaN

fun bitlen :: "nat \<Rightarrow> nat" where
  "bitlen n = (if n = 0 then 0 else Suc (bitlen (n div 2)))"

declare bitlen.simps [simp del]

text \<open>Division rounded to nearest, ties to even.\<close>

definition round_div :: "nat \<Rightarrow> nat \<Rightarrow> nat" where
  "round_div a b = (let q = a div b; r = a mod b in
     if 2 * r < b \<or> (2 * r = b \<and> even q) then q else Suc q)"

text \<open>The quotient \<open>a / b / 2^e\<close> as a numerator and a denominator.\<close>

definition scale :: "nat \<Rightarrow> nat \<Rightarrow> int \<Rightarrow> nat \<times> nat" where
  "scale a b e = (if 0 \<le> e then (a, b * 2 ^ nat e) else (a * 2 ^ nat (- e), b))"

text \<open>The exponent that leaves 53 bits of mantissa, or the smallest one (subnormals).\<close>

definition float_exp :: "nat \<Rightarrow> nat \<Rightarrow> int" where
  "float_exp a b = (let l = int (bitlen a) - int (bitlen b) - 53;
                        (x, y) = scale a b l
                    in max (- 1074) (if 2 ^ 53 \<le> x div y then l + 1 else l))"

definition round_ratio :: "bool \<Rightarrow> nat \<Rightarrow> nat \<Rightarrow> float64 option" where
  "round_ratio neg a b =
     (if a = 0 then Some (Fin neg 0 (- 1074))
      else let e = float_exp a b;
               (x, y) = scale a b e;
               m = round_div x y;
               (m', e') = (if m = 2 ^ 53 then (2 ^ 52, e + 1) else (m, e))
           in if 971 < e' then None else Some (Fin neg m' e'))"

section \<open>\<open>ParseFloat\<close>\<close>

text \<open>\<^verbatim>\<open>readFloat\<close>: the mantissa loop, with the loop variables of the source in a record.\<close>

record mant =
  underscores :: bool
  sawdot :: bool
  sawdigits :: bool
  mantissa :: nat
  nd :: nat
  dp :: int

definition mant_init :: mant where
  "mant_init = \<lparr>underscores = False, sawdot = False, sawdigits = False, mantissa = 0, nd = 0, dp = 0\<rparr>"

definition is_hex_letter :: "char \<Rightarrow> bool" where
  "is_hex_letter c \<longleftrightarrow> 97 \<le> byte (lower_char c) \<and> byte (lower_char c) \<le> 102"

fun mant_loop :: "bool \<Rightarrow> mant \<Rightarrow> string \<Rightarrow> mant \<times> string" where
  "mant_loop hex st [] = (st, [])"
| "mant_loop hex st (c # cs) =
     (if c = CHR ''_'' then mant_loop hex (st\<lparr>underscores := True\<rparr>) cs
      else if c = CHR ''.'' then
        (if sawdot st then (st, c # cs)
         else mant_loop hex (st\<lparr>sawdot := True, dp := int (nd st)\<rparr>) cs)
      else if is_digit c then
        (if c = CHR ''0'' \<and> nd st = 0
         then mant_loop hex (st\<lparr>sawdigits := True, dp := dp st - 1\<rparr>) cs
         else mant_loop hex (st\<lparr>sawdigits := True, nd := Suc (nd st),
                mantissa := (if hex then 16 else 10) * mantissa st + digit_val c\<rparr>) cs)
      else if hex \<and> is_hex_letter c then
        mant_loop hex (st\<lparr>sawdigits := True, nd := Suc (nd st),
          mantissa := 16 * mantissa st + (byte (lower_char c) - 87)\<rparr>) cs
      else (st, c # cs))"

text \<open>The exponent digits; the source stops accumulating at 10000.\<close>

fun exp_loop :: "nat \<Rightarrow> bool \<Rightarrow> string \<Rightarrow> nat \<times> bool \<times> string" where
  "exp_loop e u [] = (e, u, [])"
| "exp_loop e u (c # cs) =
     (if c = CHR ''_'' then exp_loop e True cs
      else if is_digit c then exp_loop (if e < 10000 then 10 * e + digit_val c else e) u cs
      else (e, u, c # cs))"

text \<open>\<^verbatim>\<open>underscoreOK\<close>: the state is the class of the previous character.\<close>

datatype prev_char = PStart | PDigit | PUnder | POther

fun under_loop :: "bool \<Rightarrow> prev_char \<Rightarrow> string \<Rightarrow> bool" where
  "under_loop hex i [] = (i \<noteq> PUnder)"
| "under_loop hex i (c # cs) =
     (if is_digit c \<or> (hex \<and> is_hex_letter c) then under_loop hex PDigit cs
      else if c = CHR ''_'' then i = PDigit \<and> under_loop hex PUnder cs
      else i \<noteq> PUnder \<and> under_loop hex POther cs)"

definition strip_sign :: "string \<Rightarrow> bool \<times> string" where
  "strip_sign s = (case s of
       c # cs \<Rightarrow> (if c = CHR ''+'' then (False, cs) else if c = CHR ''-'' then (True, cs) else (False, s))
     | [] \<Rightarrow> (False, []))"

definition under_ok :: "string \<Rightarrow> bool" where
  "under_ok s = (case snd (strip_sign s) of
       z # x # cs \<Rightarrow>
         (if z = CHR ''0'' \<and> lower_char x \<in> {CHR ''b'', CHR ''o'', CHR ''x''}
          then under_loop (lower_char x = CHR ''x'') PDigit cs
          else under_loop False PStart (z # x # cs))
     | t \<Rightarrow> under_loop False PStart t)"

text \<open>The exponent part: its value, whether it had separators, and the rest of the input.\<close>

definition read_exp :: "bool \<Rightarrow> string \<Rightarrow> (int \<times> bool \<times> string) option" where
  "read_exp hex s =
     (case s of
        c # cs \<Rightarrow>
          if lower_char c = (if hex then CHR ''p'' else CHR ''e'') then
            (let (neg, ds) = strip_sign cs in
             case ds of
               [] \<Rightarrow> None
             | d # _ \<Rightarrow> if is_digit d
                 then (let (e, u, r) = exp_loop 0 False ds in Some (if neg then - int e else int e, u, r))
                 else None)
          else if hex then None else Some (0, False, s)
      | [] \<Rightarrow> if hex then None else Some (0, False, s))"

definition hex_prefix :: "string \<Rightarrow> bool" where
  "hex_prefix t \<longleftrightarrow> (case t of z # x # _ # _ \<Rightarrow> z = CHR ''0'' \<and> lower_char x = CHR ''x'' | _ \<Rightarrow> False)"

text \<open>The sign, the mantissa, the exponent (of ten, or of two) and the rest.\<close>

definition read_float :: "string \<Rightarrow> (bool \<times> nat \<times> int \<times> bool \<times> string) option" where
  "read_float s =
     (let (neg, t) = strip_sign s;
          hex = hex_prefix t;
          (st, r) = mant_loop hex mant_init (if hex then drop 2 t else t)
      in if \<not> sawdigits st then None
         else let dp' = (if sawdot st then dp st else int (nd st)) in
           case read_exp hex r of
             None \<Rightarrow> None
           | Some (e, u, rest) \<Rightarrow>
               let ex = (if mantissa st = 0 then 0
                         else if hex then 4 * dp' + e - 4 * int (nd st)
                         else dp' + e - int (nd st))
               in if (underscores st \<or> u) \<and> \<not> under_ok (take (length s - length rest) s) then None
                  else Some (neg, mantissa st, ex, hex, rest))"

fun common_prefix :: "string \<Rightarrow> string \<Rightarrow> nat" where
  "common_prefix (a # as) (b # bs) = (if lower_char a = b then Suc (common_prefix as bs) else 0)"
| "common_prefix _ _ = 0"

text \<open>\<^verbatim>\<open>special\<close>: the value and the number of bytes it spans.\<close>

definition special :: "string \<Rightarrow> (float64 \<times> nat) option" where
  "special s =
     (let inf = (\<lambda>neg k t. let n = common_prefix t ''infinity'';
                               n' = (if 3 < n \<and> n < 8 then 3 else n)
                           in if n' = 3 \<or> n' = 8 then Some (Infty neg, k + n') else None)
      in case s of
           [] \<Rightarrow> None
         | c # cs \<Rightarrow>
             if c = CHR ''+'' then inf False 1 cs
             else if c = CHR ''-'' then inf True 1 cs
             else if lower_char c = CHR ''i'' then inf False 0 s
             else if lower_char c = CHR ''n'' then
               (if common_prefix s ''nan'' = 3 then Some (NaN, 3) else None)
             else None)"

definition to_float :: "bool \<Rightarrow> nat \<Rightarrow> int \<Rightarrow> bool \<Rightarrow> float64 option" where
  "to_float neg m ex hex =
     (let base = (if hex then 2 else 10) in
      if 0 \<le> ex then round_ratio neg (m * base ^ nat ex) 1
      else round_ratio neg m (base ^ nat (- ex)))"

text \<open>\<open>None\<close> is an error, of syntax or of range: the callers treat both alike.\<close>

definition ParseFloat :: "string \<Rightarrow> float64 option" where
  "ParseFloat s =
     (case special s of
        Some (f, n) \<Rightarrow> if n = length s then Some f else None
      | None \<Rightarrow> (case read_float s of
          None \<Rightarrow> None
        | Some (neg, m, ex, hex, rest) \<Rightarrow> if rest = [] then to_float neg m ex hex else None))"

section \<open>Rendering\<close>

definition pad_left :: "nat \<Rightarrow> string \<Rightarrow> string" where
  "pad_left n s = replicate (n - length s) CHR ''0'' @ s"

text \<open>The value in millionths, rounded to nearest even.\<close>

definition millionths :: "nat \<Rightarrow> int \<Rightarrow> nat" where
  "millionths m e = (if 0 \<le> e then m * 2 ^ nat e * 1000000 else round_div (m * 1000000) (2 ^ nat (- e)))"

text \<open>\<^verbatim>\<open>fmt.Fprintf(w, "%f", x)\<close>.\<close>

fun format_f :: "float64 \<Rightarrow> string" where
  "format_f NaN = ''NaN''"
| "format_f (Infty neg) = (if neg then ''-Inf'' else ''+Inf'')"
| "format_f (Fin neg m e) =
     (let u = millionths m e in
      (if neg then ''-'' else []) @ show_nat (u div 1000000) @ ''.'' @ pad_left 6 (show_nat (u mod 1000000)))"

text \<open>
  \<^verbatim>\<open>%v\<close>: the fewest decimal digits that read back as the same double. \<open>v = x / d\<close> with
  rounding interval \<open>lo / d .. hi / d\<close> (closed when the mantissa is even); for
  \<open>k = 0, 1, ...\<close> digits the truncated value and its successor are tried, the nearer one
  when both lie in the interval.
\<close>

record decimal_in =
  numer :: nat
  denom :: nat
  lo :: nat
  hi :: nat
  closed_ends :: bool

definition decimal_of :: "nat \<Rightarrow> int \<Rightarrow> decimal_in" where
  "decimal_of m e =
     (let f = (if 2 \<le> e then 2 ^ nat (e - 2) else 1) in
      \<lparr>numer = 4 * m * f,
       denom = (if 2 \<le> e then 1 else 2 ^ nat (2 - e)),
       lo = (if m = 2 ^ 52 \<and> - 1074 < e then 4 * m - 1 else 4 * m - 2) * f,
       hi = (4 * m + 2) * f,
       closed_ends = even m\<rparr>)"

text \<open>The value in units of \<open>10^p\<close> as a fraction, and whether \<open>c * 10^p\<close> is in the interval.\<close>

definition in_units :: "nat \<Rightarrow> nat \<Rightarrow> int \<Rightarrow> nat \<times> nat" where
  "in_units x d p = (if 0 \<le> p then (x, d * 10 ^ nat p) else (x * 10 ^ nat (- p), d))"

definition reads_back :: "decimal_in \<Rightarrow> nat \<Rightarrow> int \<Rightarrow> bool" where
  "reads_back v c p =
     (let (l, d) = in_units (lo v) (denom v) p; (h, _) = in_units (hi v) (denom v) p in
      (l < c * d \<or> (closed_ends v \<and> l = c * d)) \<and> (c * d < h \<or> (closed_ends v \<and> c * d = h)))"

fun lead_zeros :: "nat \<Rightarrow> nat \<Rightarrow> nat \<Rightarrow> nat" where
  "lead_zeros 0 x d = 0"
| "lead_zeros (Suc fuel) x d = (if d \<le> 10 * x then 0 else Suc (lead_zeros fuel (10 * x) d))"

definition decimal_point :: "decimal_in \<Rightarrow> int" where
  "decimal_point v = (if denom v \<le> numer v then int (length (show_nat (numer v div denom v)))
     else - int (lead_zeros 400 (numer v) (denom v)))"

fun shortest_from :: "nat \<Rightarrow> decimal_in \<Rightarrow> int \<Rightarrow> nat \<times> int" where
  "shortest_from fuel v p =
     (let (x, d) = in_units (numer v) (denom v) p; t = x div d in
      case fuel of
        0 \<Rightarrow> (t, p)
      | Suc n \<Rightarrow>
          if reads_back v t p \<and> reads_back v (Suc t) p then (round_div x d, p)
          else if reads_back v t p then (t, p)
          else if reads_back v (Suc t) p then (Suc t, p)
          else shortest_from n v (p - 1))"

definition show_exp :: "int \<Rightarrow> string" where
  "show_exp x = (if x < 0 then ''-'' else ''+'') @ pad_left 2 (show_nat (nat \<bar>x\<bar>))"

definition format_g :: "string \<Rightarrow> int \<Rightarrow> string" where
  "format_g ds point =
     (let x = point - 1; n = int (length ds) in
      if x < - 4 \<or> 6 \<le> x then
        (if length ds = 1 then ds else hd ds # ''.'' @ tl ds) @ ''e'' @ show_exp x
      else if point \<le> 0 then ''0.'' @ replicate (nat (- point)) CHR ''0'' @ ds
      else if n \<le> point then ds @ replicate (nat (point - n)) CHR ''0''
      else take (nat point) ds @ ''.'' @ drop (nat point) ds)"

fun format_v :: "float64 \<Rightarrow> string" where
  "format_v NaN = ''NaN''"
| "format_v (Infty neg) = (if neg then ''-Inf'' else ''+Inf'')"
| "format_v (Fin neg m e) = (if neg then ''-'' else []) @
     (if m = 0 then ''0''
      else let v = decimal_of m e;
               (c, p) = shortest_from 18 v (decimal_point v);
               ds = show_nat c
           in format_g ds (int (length ds) + p))"

section \<open>Integers are read and printed exactly\<close>

lemma round_div_exact: "0 < b \<Longrightarrow> round_div (a * b) b = a"
  by (simp add: round_div_def)

lemma round_div_1 [simp]: "round_div a 1 = a" "round_div a (Suc 0) = a"
  using round_div_exact [of "1" a] by simp_all

lemma bitlen_0 [simp]: "bitlen 0 = 0"
  by (simp add: bitlen.simps)

lemma bitlen_pos: "0 < n \<Longrightarrow> 0 < bitlen n"
  by (simp add: bitlen.simps [of n])

lemma bitlen_1 [simp]: "bitlen (Suc 0) = Suc 0"
  by (simp add: bitlen.simps)

lemma bitlen_upper: "n < 2 ^ bitlen n"
proof (induction n rule: bitlen.induct)
  case (1 n)
  show ?case
  proof (cases "n = 0")
    case False
    with 1 have "n div 2 < 2 ^ bitlen (n div 2)" by simp
    then have "n < 2 * 2 ^ bitlen (n div 2)" by linarith
    with False show ?thesis by (simp add: bitlen.simps [of n])
  qed simp
qed

lemma bitlen_lower: "0 < n \<Longrightarrow> 2 ^ (bitlen n - 1) \<le> n"
proof (induction n rule: bitlen.induct)
  case (1 n)
  show ?case
  proof (cases "n div 2 = 0")
    case True
    with 1 have "n = 1" by linarith
    then show ?thesis by simp
  next
    case False
    with 1 have IH: "2 ^ (bitlen (n div 2) - 1) \<le> n div 2" by simp
    have "(2::nat) ^ bitlen (n div 2) = 2 * 2 ^ (bitlen (n div 2) - 1)"
      using bitlen_pos [of "n div 2"] False by (simp flip: power_Suc)
    with IH have "2 ^ bitlen (n div 2) \<le> n" by linarith
    with 1 show ?thesis by (simp add: bitlen.simps [of n])
  qed
qed

lemma bitlen_le: 
  assumes "n < 2 ^ k" shows "bitlen n \<le> k"
proof (cases "n = 0")
  case False
  then have "2 ^ (bitlen n - 1) < (2::nat) ^ k"
    using bitlen_lower [of n] assms by linarith
  then have "bitlen n - 1 < k" by (metis power_strict_increasing_iff one_less_numeral_iff semiring_norm(76))
  then show ?thesis by linarith
qed simp

lemma round_ratio_int:
  assumes "0 < n" and "n < 2 ^ 53"
  shows "round_ratio neg n 1 = Some (Fin neg (n * 2 ^ (53 - bitlen n)) (int (bitlen n) - 53))"
proof -
  let ?L = "bitlen n"
  have L: "0 < ?L" "?L \<le> 53"
    using assms bitlen_pos bitlen_le by auto
  have low: "2 ^ (?L - 1) \<le> n" by (rule bitlen_lower) (rule assms)
  have up: "n < 2 ^ ?L" by (rule bitlen_upper)
  have sc: "scale n 1 (int ?L - 54) = (n * 2 ^ (54 - ?L), 1)"
    using L by (simp add: scale_def nat_diff_distrib)
  have "(2::nat) ^ (?L - 1) * 2 ^ (54 - ?L) = 2 ^ 53"
    using L by (simp flip: power_add)
  then have ge: "2 ^ 53 \<le> n * 2 ^ (54 - ?L)"
    using mult_le_mono1 [OF low, of "2 ^ (54 - ?L)"] by simp
  have fe: "float_exp n 1 = int ?L - 53"
    using ge sc L by (simp add: float_exp_def)
  have sc2: "scale n 1 (int ?L - 53) = (n * 2 ^ (53 - ?L), 1)"
    using L by (auto simp add: scale_def nat_diff_distrib)
  have "(2::nat) ^ ?L * 2 ^ (53 - ?L) = 2 ^ 53"
    using L by (simp flip: power_add)
  then have lt: "n * 2 ^ (53 - ?L) < 2 ^ 53"
    using mult_less_mono1 [OF up, of "2 ^ (53 - ?L)"] by simp
  show ?thesis
    using assms L lt by (simp add: round_ratio_def fe sc2 Let_def del: One_nat_def) 
qed

lemma mant_loop_digits:
  assumes "list_all is_digit ds" and "nd st = 0 \<Longrightarrow> mantissa st = 0"
  shows "\<exists>st'. mant_loop False st ds = (st', [])
      \<and> mantissa st' = foldl (\<lambda>a c. 10 * a + digit_val c) (mantissa st) ds
      \<and> sawdot st' = sawdot st \<and> underscores st' = underscores st
      \<and> sawdigits st' = (sawdigits st \<or> ds \<noteq> [])"
  using assms
proof (induction ds arbitrary: st)
  case (Cons c cs)
  have cs: "list_all is_digit cs" and "is_digit c"
    using Cons.prems(1) by simp_all
  then have c: "is_digit c" "c \<noteq> CHR ''_''" "c \<noteq> CHR ''.''"
    by (auto simp: is_digit_def)
  show ?case
  proof (cases "c = CHR ''0'' \<and> nd st = 0")
    case True
    then show ?thesis
      using Cons.IH [OF cs, of "st\<lparr>sawdigits := True, dp := dp st - 1\<rparr>"] Cons.prems(2) c
      by (auto simp: digit_val_def)
  next
    case False
    let ?st = "st\<lparr>sawdigits := True, nd := Suc (nd st), mantissa := 10 * mantissa st + digit_val c\<rparr>"
    from False c have "mant_loop False st (c # cs) = mant_loop False ?st cs"
      by auto
    then show ?thesis
      using Cons.IH [OF cs, of ?st] by simp
  qed
qed simp

lemma digits_special_None:
  assumes "list_all is_digit ds" and "ds \<noteq> []"
  shows "special ds = None"
proof -
  obtain d cs where ds: "ds = d # cs" using assms(2) by (cases ds) auto
  with assms have "is_digit d" by simp
  then have "d \<noteq> CHR ''+''" "d \<noteq> CHR ''-''" "lower_char d = d" "byte d < 58"
    by (auto simp: is_digit_def lower_char_def is_upper_def)
  then show ?thesis by (auto simp: special_def ds Let_def)
qed

lemma digits_strip_sign:
  assumes "list_all is_digit ds" shows "strip_sign ds = (False, ds)"
  using assms by (cases ds) (auto simp: strip_sign_def is_digit_def)

lemma digits_not_hex: "list_all is_digit ds \<Longrightarrow> \<not> hex_prefix ds"
  by (auto simp: hex_prefix_def is_digit_def lower_char_def is_upper_def split: list.splits)

lemma read_float_digits:
  assumes "list_all is_digit ds" and "ds \<noteq> []"
  shows "read_float ds = Some (False, nat_of_digits ds, 0, False, [])"
proof -
  obtain st where st: "mant_loop False mant_init ds = (st, [])"
    "mantissa st = nat_of_digits ds" "\<not> sawdot st" "\<not> underscores st" "sawdigits st"
    using mant_loop_digits [OF assms(1), of mant_init] assms(2)
    by (auto simp: mant_init_def nat_of_digits_def)
  then show ?thesis
    using digits_not_hex [OF assms(1)]
    by (simp add: read_float_def digits_strip_sign [OF assms(1)] read_exp_def Let_def)
qed

lemma ParseFloat_digits:
  assumes "list_all is_digit ds" and "ds \<noteq> []"
  shows "ParseFloat ds = round_ratio False (nat_of_digits ds) 1"
  using assms by (simp add: ParseFloat_def digits_special_None read_float_digits to_float_def)

lemma ParseFloat_neg_digits:
  assumes "list_all is_digit ds" and "ds \<noteq> []"
  shows "ParseFloat (CHR ''-'' # ds) = round_ratio True (nat_of_digits ds) 1"
proof -
  obtain st where st: "mant_loop False mant_init ds = (st, [])"
    "mantissa st = nat_of_digits ds" "\<not> sawdot st" "\<not> underscores st" "sawdigits st"
    using mant_loop_digits [OF assms(1), of mant_init] assms(2)
    by (auto simp: mant_init_def nat_of_digits_def)
  obtain d cs where ds: "ds = d # cs" using assms(2) by (cases ds) auto
  have "is_digit d" using assms by (simp add: ds)
  then have "lower_char d = d" "byte d < 58" by (auto simp: lower_char_def is_upper_def is_digit_def)
  then have "common_prefix ds ''infinity'' = 0" by (auto simp: ds)
  then have "special (CHR ''-'' # ds) = None" by (simp add: special_def)
  moreover have "read_float (CHR ''-'' # ds) = Some (True, nat_of_digits ds, 0, False, [])"
    using st digits_not_hex [OF assms(1)]
    by (simp add: read_float_def strip_sign_def read_exp_def Let_def)
  ultimately show ?thesis by (simp add: ParseFloat_def to_float_def)
qed

lemma millionths_int:
  "k \<le> 53 \<Longrightarrow> millionths (n * 2 ^ (53 - k)) (int k - 53) = n * 1000000"
proof -
  assume k: "k \<le> 53"
  have "nat (- (int k - 53)) = 53 - k" using k by simp
  moreover have "round_div (n * 2 ^ (53 - k) * 1000000) (2 ^ (53 - k)) = n * 1000000"
    using round_div_exact [of "2 ^ (53 - k)" "n * 1000000"] by (simp only: mult_ac) simp
  ultimately show ?thesis
    using k by (auto simp: millionths_def)
qed

lemma format_round_int:
  assumes "n < 2 ^ 53"
  shows "map_option format_f (round_ratio neg n 1)
       = Some ((if neg then ''-'' else []) @ show_nat n @ ''.000000'')"
proof -
  have s0: "show_nat 0 = ''0''" and p0: "pad_left 6 ''0'' = ''000000''" by code_simp+
  show ?thesis
  proof (cases "n = 0")
    case True
    then show ?thesis by (simp add: round_ratio_def millionths_def round_div_def p0 s0)
  next
    case False
    then have "millionths (n * 2 ^ (53 - bitlen n)) (int (bitlen n) - 53) = n * 1000000"
      using assms by (intro millionths_int bitlen_le) 
    with False assms show ?thesis
      by (simp add: round_ratio_int del: One_nat_def) (simp add: p0 s0 Let_def)
  qed
qed

theorem format_ParseFloat_int:
  assumes "\<bar>i\<bar> < 2 ^ 53"
  shows "map_option format_f (ParseFloat (show_int i)) = Some (show_int i @ ''.000000'')"
proof -
  have n: "nat \<bar>i\<bar> < 2 ^ 53" using assms by (simp add: nat_less_iff)
  show ?thesis
  proof (cases "i < 0")
    case True
    then have "show_int i = CHR ''-'' # show_nat (nat \<bar>i\<bar>)" by (simp add: show_int_def)
    then show ?thesis using format_round_int [OF n, of True]
      by (simp add: ParseFloat_neg_digits show_nat_digits)
  next
    case False
    then have "show_int i = show_nat (nat \<bar>i\<bar>)" by (simp add: show_int_def)
    then show ?thesis using format_round_int [OF n, of False]
      by (simp add: ParseFloat_digits show_nat_digits)
  qed
qed

section \<open>Every finite result is the nearest double\<close>

definition ratio :: "nat \<Rightarrow> nat \<Rightarrow> real" where
  "ratio a b = real a / real b"

lemma round_div_nearest:
  assumes "0 < b" shows "\<bar>real (round_div a b) - ratio a b\<bar> \<le> 1 / 2"
proof -
  have "real a = real b * real (a div b) + real (a mod b)"
    by (metis mult_div_mod_eq of_nat_add of_nat_mult)
  then have r: "ratio a b = real (a div b) + real (a mod b) / real b"
    using assms by (simp add: ratio_def field_simps)
  have "real (a mod b) / real b < 1" using assms by simp
  then show ?thesis
    using assms by (auto simp: round_div_def r Let_def field_simps abs_le_iff)
qed

lemma round_div_le:
  assumes "0 < b" and "ratio a b < real k" shows "round_div a b \<le> k"
proof -
  have "a < k * b" using assms by (simp add: ratio_def field_simps flip: of_nat_mult)
  then have "a div b < k" using assms(1) by (simp add: div_less_iff_less_mult)
  then show ?thesis by (auto simp: round_div_def Let_def)
qed

lemma round_div_ge:
  assumes "0 < b" and "real k \<le> ratio a b" shows "k \<le> round_div a b"
proof -
  have "k * b \<le> a" using assms by (simp add: ratio_def field_simps flip: of_nat_mult)
  then have "k \<le> a div b" using assms(1) by (simp add: less_eq_div_iff_mult_less_eq)
  then show ?thesis by (auto simp: round_div_def Let_def)
qed

lemma scale_ratio:
  assumes "scale a b e = (x, y)" and "0 < b"
  shows "0 < y \<and> ratio x y = ratio a b / 2 powi e"
  using assms by (auto simp: scale_def ratio_def power_int_def field_simps split: if_splits)

lemma ratio_bitlen:
  assumes "0 < a" and "0 < b"
  shows "ratio a b < 2 powi (int (bitlen a) - int (bitlen b) + 1)"
    and "2 powi (int (bitlen a) - int (bitlen b) - 1) < ratio a b"
proof -
  have a: "real a < 2 ^ bitlen a" "2 ^ (bitlen a - 1) \<le> real a"
    using bitlen_upper [of a] bitlen_lower [OF assms(1)]
    by (simp_all flip: of_nat_less_iff of_nat_le_iff)
  have b: "real b < 2 ^ bitlen b" "2 ^ (bitlen b - 1) \<le> real b"
    using bitlen_upper [of b] bitlen_lower [OF assms(2)]
    by (simp_all flip: of_nat_less_iff of_nat_le_iff)
  have p: "(2::real) powi (int (bitlen a) - int (bitlen b) + 1) = 2 ^ bitlen a / 2 ^ (bitlen b - 1)"
    "(2::real) powi (int (bitlen a) - int (bitlen b) - 1) = 2 ^ (bitlen a - 1) / 2 ^ bitlen b"
    using bitlen_pos [OF assms(1)] bitlen_pos [OF assms(2)]
    by (simp_all add: power_int_diff power_int_add power_diff)
  have "ratio a b < 2 ^ bitlen a / 2 ^ (bitlen b - 1)"
    unfolding ratio_def using a b assms by (intro frac_less) simp_all
  then show "ratio a b < 2 powi (int (bitlen a) - int (bitlen b) + 1)" by (simp only: p)
  have "2 ^ (bitlen a - 1) / 2 ^ bitlen b < ratio a b"
    unfolding ratio_def using a b assms by (intro frac_less2) simp_all
  then show "2 powi (int (bitlen a) - int (bitlen b) - 1) < ratio a b" by (simp only: p)
qed

lemma float_exp_bounds:
  assumes "0 < a" and "0 < b"
  shows "ratio a b < 2 powi (float_exp a b + 53)"
    and "float_exp a b = - 1074 \<or> 2 powi (float_exp a b + 52) \<le> ratio a b"
proof -
  define l where "l = int (bitlen a) - int (bitlen b) - 53"
  obtain x y where xy: "scale a b l = (x, y)" by fastforce
  have y: "0 < y" and r: "ratio x y = ratio a b / 2 powi l"
    using scale_ratio [OF xy assms(2)] by simp_all
  have l1: "ratio a b < 2 powi (l + 54)" "2 powi (l + 52) < ratio a b"
    using ratio_bitlen [OF assms] by (simp_all add: l_def algebra_simps)
  define e where "e = (if 2 ^ 53 \<le> x div y then l + 1 else l)"
  have fe: "float_exp a b = max (- 1074) e"
    by (simp add: float_exp_def e_def l_def [symmetric] xy Let_def)
  have "2 ^ 53 \<le> x div y \<longleftrightarrow> real (2 ^ 53 * y) \<le> real x"
    using y by (simp only: less_eq_div_iff_mult_less_eq of_nat_le_iff)
  also have "\<dots> \<longleftrightarrow> 2 ^ 53 \<le> ratio x y"
    using y by (simp add: ratio_def field_simps)
  also have "\<dots> \<longleftrightarrow> 2 powi (l + 53) \<le> ratio a b"
    by (simp add: r power_int_add field_simps)
  finally have e1: "ratio a b < 2 powi (e + 53)" "2 powi (e + 52) \<le> ratio a b"
    using l1 by (auto simp: e_def add.commute)
  have "(2::real) powi (e + 53) \<le> 2 powi (float_exp a b + 53)"
    by (rule power_int_increasing) (simp_all add: fe)
  with e1(1) show "ratio a b < 2 powi (float_exp a b + 53)" by linarith
  show "float_exp a b = - 1074 \<or> 2 powi (float_exp a b + 52) \<le> ratio a b"
    using e1(2) by (auto simp: fe max_def)
qed

text \<open>The canonical doubles.\<close>

definition float_wf :: "float64 \<Rightarrow> bool" where
  "float_wf f = (case f of
     Fin s m e \<Rightarrow> m < 2 ^ 53 \<and> - 1074 \<le> e \<and> e \<le> 971 \<and> (e = - 1074 \<or> 2 ^ 52 \<le> m)
   | _ \<Rightarrow> True)"

lemma round_ratio_wf:
  assumes "round_ratio neg a b = Some f" and "0 < b"
  shows "float_wf f"
proof (cases "a = 0")
  case True
  with assms show ?thesis by (auto simp: round_ratio_def float_wf_def)
next
  case False
  define e where "e = float_exp a b"
  obtain x y where xy: "scale a b e = (x, y)" by fastforce
  have y: "0 < y" and r: "ratio x y = ratio a b / 2 powi e"
    using scale_ratio [OF xy assms(2)] by simp_all
  have "ratio x y < real (2 ^ 53)"
    using float_exp_bounds(1) [of a b] False assms(2) by (simp add: r e_def power_int_add field_simps)
  then have le: "round_div x y \<le> 2 ^ 53" by (rule round_div_le [OF y])
  have ge: "e = - 1074 \<or> 2 ^ 52 \<le> round_div x y"
    using float_exp_bounds(2) [of a b] False assms(2) round_div_ge [OF y, of "2 ^ 52"]
    by (auto simp: r e_def power_int_add field_simps)
  have "- 1074 \<le> e" by (simp add: e_def float_exp_def Let_def split: prod.split)
  with assms(1) False le ge show ?thesis
    by (auto simp: round_ratio_def e_def [symmetric] xy Let_def float_wf_def split: if_splits)
qed

lemma round_ratio_nearest:
  assumes "round_ratio neg a b = Some (Fin s m e)" and "0 < b"
  shows "s = neg \<and> \<bar>real m * 2 powi e - ratio a b\<bar> \<le> 2 powi e / 2"
proof (cases "a = 0")
  case True
  with assms show ?thesis by (auto simp: round_ratio_def ratio_def)
next
  case False
  define e0 where "e0 = float_exp a b"
  obtain x y where xy: "scale a b e0 = (x, y)" by fastforce
  have y: "0 < y" and r: "ratio x y = ratio a b / 2 powi e0"
    using scale_ratio [OF xy assms(2)] by simp_all
  define m0 where "m0 = round_div x y"
  have "\<bar>real m0 - ratio a b / 2 powi e0\<bar> \<le> 1 / 2"
    using round_div_nearest [OF y, of x] by (simp add: m0_def r)
  then have "\<bar>real m0 - ratio a b / 2 powi e0\<bar> * 2 powi e0 \<le> 1 / 2 * 2 powi e0"
    by (rule mult_right_mono) simp
  then have near: "\<bar>real m0 * 2 powi e0 - ratio a b\<bar> \<le> 2 powi e0 / 2"
    by (simp add: abs_mult_pos left_diff_distrib)
  from assms(1) False have
    "s = neg" "(m, e) = (if m0 = 2 ^ 53 then (2 ^ 52, e0 + 1) else (m0, e0))"
    by (auto simp: round_ratio_def e0_def [symmetric] m0_def [symmetric] xy Let_def split: if_splits)
  moreover have "(0::real) < 2 powi e0" by simp
  with near have "\<bar>real m0 * 2 powi e0 - ratio a b\<bar> \<le> 2 powi e0" by linarith
  ultimately show ?thesis
    using near by (cases "m0 = 2 ^ 53") (simp_all add: power_int_add)
qed

end
