(* ===== verification/Sorting_Slices.thy ===== *)
theory Sorting_Slices
  imports Prelude
begin

text \<open>
  The contract of \<^verbatim>\<open>sort.Slice\<close>: for a strict weak order the result is a permutation of the
  input in which no element is less than an earlier one. Nothing is said of the order of
  equivalent elements, as in the documentation. The locale states it for any sorting
  function; \<open>insertionSort\<close>, the loop the standard library runs on slices of at most twelve
  elements, satisfies it.
\<close>

definition strict_weak :: "('a \<Rightarrow> 'a \<Rightarrow> bool) \<Rightarrow> bool" where
  "strict_weak lt \<longleftrightarrow>
     (\<forall>a b. lt a b \<longrightarrow> \<not> lt b a) \<and> (\<forall>a b c. lt a c \<longrightarrow> lt a b \<or> lt b c)"

lemma strict_weakI:
  "(\<And>a b. lt a b \<Longrightarrow> \<not> lt b a) \<Longrightarrow> (\<And>a b c. lt a c \<Longrightarrow> lt a b \<or> lt b c) \<Longrightarrow> strict_weak lt"
  unfolding strict_weak_def by blast

lemma strict_weak_asym: "strict_weak lt \<Longrightarrow> lt a b \<Longrightarrow> \<not> lt b a"
  unfolding strict_weak_def by blast

lemma strict_weak_negtrans: "strict_weak lt \<Longrightarrow> \<not> lt b a \<Longrightarrow> \<not> lt c b \<Longrightarrow> \<not> lt c a"
  unfolding strict_weak_def by blast

lemma sorted_wrt_mset_unique:
  assumes "\<And>a b. lt a b \<Longrightarrow> \<not> lt b a"
  shows "sorted_wrt lt xs \<Longrightarrow> sorted_wrt lt ys \<Longrightarrow> mset xs = mset ys \<Longrightarrow> xs = ys"
proof (induction xs arbitrary: ys)
  case (Cons x xs)
  from Cons.prems(3) obtain y ys' where ys: "ys = y # ys'"
    by (cases ys) auto
  have "x = y"
  proof (rule ccontr)
    assume "x \<noteq> y"
    have "set (x # xs) = set ys" using Cons.prems(3) by (rule mset_eq_setD)
    with \<open>x \<noteq> y\<close> have "x \<in> set ys'" and "y \<in> set xs" by (auto simp: ys)
    then have "lt y x" and "lt x y" using Cons.prems(1,2) by (auto simp: ys)
    then show False using assms by blast
  qed
  with Cons ys show ?case by auto
qed simp

lemma sorted_weak_strict:
  assumes "distinct xs" and "sorted_wrt (\<lambda>a b. \<not> lt b a) xs"
    and "\<And>a b. a \<in> set xs \<Longrightarrow> b \<in> set xs \<Longrightarrow> a \<noteq> b \<Longrightarrow> lt a b \<or> lt b a"
  shows "sorted_wrt lt xs"
  using assms
proof (induction xs)
  case (Cons x xs)
  have "lt x z" if "z \<in> set xs" for z
    using Cons.prems(1,2) Cons.prems(3) [of x z] that by auto
  moreover have "sorted_wrt lt xs"
    using Cons.prems by (intro Cons.IH) auto
  ultimately show ?case by simp
qed simp

locale slice_sort =
  fixes sort :: "('a \<Rightarrow> 'a \<Rightarrow> bool) \<Rightarrow> 'a list \<Rightarrow> 'a list"
  assumes sort_mset: "mset (sort lt xs) = mset xs"
    and sort_ordered: "strict_weak lt \<Longrightarrow> sorted_wrt (\<lambda>a b. \<not> lt b a) (sort lt xs)"
begin

lemma sort_length: "length (sort lt xs) = length xs"
  by (metis size_mset sort_mset)

lemma sort_set: "set (sort lt xs) = set xs"
  by (metis set_mset_mset sort_mset)

lemma sort_Nil: "sort lt [] = []"
  using sort_length [of lt "[]"] by simp

text \<open>Where any two different elements are comparable, the result is strictly ordered.\<close>

lemma sort_strict:
  assumes "strict_weak lt" and "distinct xs"
    and "\<And>a b. a \<in> set xs \<Longrightarrow> b \<in> set xs \<Longrightarrow> a \<noteq> b \<Longrightarrow> lt a b \<or> lt b a"
  shows "sorted_wrt lt (sort lt xs)"
proof (rule sorted_weak_strict)
  show "distinct (sort lt xs)"
    using assms(2) sort_mset mset_eq_imp_distinct_iff by blast
  show "sorted_wrt (\<lambda>a b. \<not> lt b a) (sort lt xs)"
    using assms(1) by (rule sort_ordered)
qed (use assms(3) sort_set in auto)

end

text \<open>Then any two sorting functions agree, on any two arrangements of the same elements.\<close>

lemma slice_sort_deterministic:
  assumes "slice_sort s" and "slice_sort s'" and "strict_weak lt"
    and "distinct xs" and "mset ys = mset xs"
    and total: "\<And>a b. a \<in> set xs \<Longrightarrow> b \<in> set xs \<Longrightarrow> a \<noteq> b \<Longrightarrow> lt a b \<or> lt b a"
  shows "s lt xs = s' lt ys"
proof (rule sorted_wrt_mset_unique)
  show "lt a b \<Longrightarrow> \<not> lt b a" for a b
    using assms(3) by (rule strict_weak_asym)
  show "sorted_wrt lt (s lt xs)"
    using assms(1,3,4) total by (rule slice_sort.sort_strict)
  have "distinct ys" and "set ys = set xs"
    using assms(4,5) mset_eq_imp_distinct_iff mset_eq_setD by blast+
  then show "sorted_wrt lt (s' lt ys)"
    using assms(2,3) total by (intro slice_sort.sort_strict) auto
  show "mset (s lt xs) = mset (s' lt ys)"
    using assms(1,2,5) by (simp add: slice_sort.sort_mset)
qed

section \<open>Insertion sort\<close>

text \<open>
  \<^verbatim>\<open>insertionSort_func\<close>: the sorted prefix is kept reversed, so the inner loop, which swaps the
  new element towards the front while it is less than its neighbour, walks the list.
\<close>

fun sink :: "('a \<Rightarrow> 'a \<Rightarrow> bool) \<Rightarrow> 'a \<Rightarrow> 'a list \<Rightarrow> 'a list" where
  "sink lt x [] = [x]"
| "sink lt x (y # ys) = (if lt x y then y # sink lt x ys else x # y # ys)"

definition insertionSort :: "('a \<Rightarrow> 'a \<Rightarrow> bool) \<Rightarrow> 'a list \<Rightarrow> 'a list" where
  "insertionSort lt xs = rev (fold (sink lt) xs [])"

lemma mset_sink: "mset (sink lt x ys) = add_mset x (mset ys)"
  by (induction ys) auto

lemma set_sink: "set (sink lt x ys) = insert x (set ys)"
  by (metis mset_sink set_mset_add_mset_insert set_mset_mset)

lemma mset_fold_sink: "mset (fold (sink lt) xs acc) = mset xs + mset acc"
  by (induction xs arbitrary: acc) (simp_all add: mset_sink)

lemma sink_ordered:
  assumes "strict_weak lt" and "sorted_wrt (\<lambda>a b. \<not> lt a b) ys"
  shows "sorted_wrt (\<lambda>a b. \<not> lt a b) (sink lt x ys)"
  using assms(2)
proof (induction ys)
  case (Cons y ys)
  show ?case
  proof (cases "lt x y")
    case True
    then have "\<not> lt y x" using assms(1) strict_weak_asym by metis
    with True Cons show ?thesis by (auto simp: set_sink)
  next
    case False
    then have "\<not> lt x z" if "z \<in> set ys" for z
      using Cons.prems that strict_weak_negtrans [OF assms(1), of y z x] by auto
    with False Cons.prems show ?thesis by simp
  qed
qed simp

lemma fold_sink_ordered:
  assumes "strict_weak lt" and "sorted_wrt (\<lambda>a b. \<not> lt a b) acc"
  shows "sorted_wrt (\<lambda>a b. \<not> lt a b) (fold (sink lt) xs acc)"
  using assms(2) by (induction xs arbitrary: acc) (simp_all add: sink_ordered [OF assms(1)])

interpretation insertion: slice_sort insertionSort
proof unfold_locales
  fix lt :: "'a \<Rightarrow> 'a \<Rightarrow> bool" and xs
  show "mset (insertionSort lt xs) = mset xs"
    by (simp add: insertionSort_def mset_fold_sink)
  assume "strict_weak lt"
  then show "sorted_wrt (\<lambda>a b. \<not> lt b a) (insertionSort lt xs)"
    by (simp add: insertionSort_def sorted_wrt_rev fold_sink_ordered)
qed

end
