(* ===== verification/Metric.thy ===== *)
theory Metric
  imports Go_Float Sorting_Slices
begin

text \<open>
  \<^verbatim>\<open>internal/metric.go\<close>: one time series, the ordering of its labels and its text in the
  exposition format. \<^verbatim>\<open>sort.Slice\<close> is the argument \<open>srt\<close>; the lemmas need its contract
  \<open>slice_sort\<close> only. The writer is the contents of the \<^verbatim>\<open>strings.Builder\<close>, passed in and
  returned, also when an error is returned after a partial write.
\<close>

type_synonym resolver_type = string

record metric_type =
  m_LabelKeys :: "string list"
  m_LabelValues :: "string list"
  m_Value :: string
  m_Resolver :: resolver_type

section \<open>\<open>sortLabelset\<close>\<close>

record labelset =
  labelKey :: string
  labelValue :: string

type_synonym sorter = "(labelset \<Rightarrow> labelset \<Rightarrow> bool) \<Rightarrow> labelset list \<Rightarrow> labelset list"

text \<open>Shorter keys first, keys of one length in byte order.\<close>

definition labelset_less :: "labelset \<Rightarrow> labelset \<Rightarrow> bool" where
  "labelset_less x y =
     (let a = labelKey x; b = labelKey y in
      if length a = length b then a < b else length a < length b)"

text \<open>The loop that fills \<^verbatim>\<open>labelsets\<close> from the two slices.\<close>

definition populate :: "string list \<Rightarrow> string list \<Rightarrow> labelset list" where
  "populate ks vs = map (\<lambda>(k, v). labelset.make k v) (zip ks vs)"

definition sortLabelset ::
    "sorter \<Rightarrow> string list \<Rightarrow> string list \<Rightarrow> (string list \<times> string list) go" where
  "sortLabelset srt resolvedLabelKeys resolvedLabelValues =
     (if length resolvedLabelValues < length resolvedLabelKeys then Inl IndexOutOfRange
      else
        let labelsets = populate resolvedLabelKeys resolvedLabelValues;
            ls = srt labelset_less labelsets
        in Inr (map labelKey ls,
                map labelValue ls @ drop (length resolvedLabelKeys) resolvedLabelValues))"

section \<open>\<open>writeMetricTo\<close>\<close>

datatype write_error = LengthMismatch | BadValue

text \<open>The replacer: backslash, newline and double quote are escaped.\<close>

definition escape_char :: "char \<Rightarrow> string" where
  "escape_char c =
     (if c = backslash then [backslash, backslash]
      else if c = newline then [backslash, CHR ''n'']
      else if c = dquote then [backslash, dquote]
      else [c])"

definition escape :: "string \<Rightarrow> string" where
  "escape s = concat (map escape_char s)"

text \<open>The loop over the labels; the separator is the opening brace, then a comma.\<close>

fun write_labels :: "string \<Rightarrow> string \<Rightarrow> (string \<times> string) list \<Rightarrow> string" where
  "write_labels writer separator [] = writer"
| "write_labels writer separator ((k, v) # kvs) =
     write_labels (writer @ separator @ k @ ''='' @ [dquote] @ escape v @ [dquote]) '','' kvs"

definition writeMetricTo ::
    "sorter \<Rightarrow> string \<Rightarrow> string \<Rightarrow> string \<Rightarrow> string \<Rightarrow> string \<Rightarrow> string list \<Rightarrow> string list
     \<Rightarrow> (string \<times> write_error option) go" where
  "writeMetricTo srt writer g v k resolvedValue resolvedLabelKeys resolvedLabelValues =
     (if length resolvedLabelKeys \<noteq> length resolvedLabelValues
      then Inr (writer, Some LengthMismatch)
      else go_bind (sortLabelset srt resolvedLabelKeys resolvedLabelValues) (\<lambda>(keys, vals).
        let keys = keys @ [''group'', ''version'', ''kind''];
            vals = vals @ [g, v, k];
            writer = (if 0 < length keys then write_labels writer ''{'' (zip keys vals) @ ''}'' else writer);
            writer = writer @ '' ''
        in case ParseFloat resolvedValue of
             None \<Rightarrow> Inr (writer, Some BadValue)
           | Some metricValueAsFloat \<Rightarrow>
               Inr (writer @ format_f metricValueAsFloat @ [newline], None)))"

section \<open>The order of the labels\<close>

lemma strict_weak_labelset_less: "strict_weak labelset_less"
proof (rule strict_weakI)
  show "labelset_less a b \<Longrightarrow> \<not> labelset_less b a" for a b
    by (auto simp: labelset_less_def Let_def split: if_splits)
  show "labelset_less a c \<Longrightarrow> labelset_less a b \<or> labelset_less b c" for a b c
    by (auto simp: labelset_less_def Let_def split: if_splits)
qed

lemma labelset_less_total: "labelKey a \<noteq> labelKey b \<Longrightarrow> labelset_less a b \<or> labelset_less b a"
  by (auto simp: labelset_less_def Let_def)

lemma populate_keys: "length ks = length vs \<Longrightarrow> map labelKey (populate ks vs) = ks"
  by (induction ks vs rule: list_induct2) (simp_all add: populate_def labelset.make_def)

abbreviation pair_of :: "labelset \<Rightarrow> string \<times> string" where
  "pair_of l \<equiv> (labelKey l, labelValue l)"

lemma populate_pairs: "length ks = length vs \<Longrightarrow> map pair_of (populate ks vs) = zip ks vs"
  by (induction ks vs rule: list_induct2) (simp_all add: populate_def labelset.make_def)

text \<open>The order on keys that the source writes out, as a relation on pairs.\<close>

definition key_le :: "string \<Rightarrow> string \<Rightarrow> bool" where
  "key_le a b \<longleftrightarrow> length a < length b \<or> (length a = length b \<and> a \<le> b)"

lemma key_le_less: "key_le (labelKey a) (labelKey b) \<longleftrightarrow> \<not> labelset_less b a"
  by (auto simp: key_le_def labelset_less_def Let_def)

lemma sortLabelset_spec:
  assumes "slice_sort srt" and "length ks = length vs"
  shows "\<exists>ks' vs'. sortLabelset srt ks vs = Inr (ks', vs')
      \<and> length ks' = length vs'
      \<and> mset (zip ks' vs') = mset (zip ks vs)
      \<and> sorted_wrt key_le ks'"
proof -
  let ?in = "populate ks vs"
  let ?out = "srt labelset_less ?in"
  have "sortLabelset srt ks vs = Inr (map labelKey ?out, map labelValue ?out)"
    using assms(2) by (simp add: sortLabelset_def Let_def)
  moreover have "mset (map pair_of ?out) = mset (map pair_of ?in)"
    using assms(1) by (simp only: mset_map slice_sort.sort_mset)
  then have "mset (zip (map labelKey ?out) (map labelValue ?out)) = mset (zip ks vs)"
    by (simp only: populate_pairs [OF assms(2)] zip_map_map zip_same_conv_map map_map comp_def) simp
  moreover have "sorted_wrt key_le (map labelKey ?out)"
    using slice_sort.sort_ordered [OF assms(1) strict_weak_labelset_less, of ?in]
    by (simp add: sorted_wrt_map key_le_less)
  ultimately show ?thesis by auto
qed

lemma sortLabelset_deterministic:
  assumes "slice_sort s" and "slice_sort s'"
    and "length ks = length vs" and "length ks' = length vs'"
    and "mset (zip ks vs) = mset (zip ks' vs')" and "distinct ks"
  shows "sortLabelset s ks vs = sortLabelset s' ks' vs'"
proof -
  let ?l = "populate ks vs" and ?l' = "populate ks' vs'"
  have "mset ?l' = mset ?l"
    using assms(5) by (simp add: populate_def)
  moreover have d: "distinct (map labelKey ?l)"
    using assms(3,6) by (simp add: populate_keys)
  then have "labelset_less a b \<or> labelset_less b a"
    if "a \<in> set ?l" "b \<in> set ?l" "a \<noteq> b" for a b
    using that labelset_less_total by (metis distinct_map inj_onD)
  moreover have "distinct ?l" using d by (simp add: distinct_map)
  ultimately have "s labelset_less ?l = s' labelset_less ?l'"
    by (intro slice_sort_deterministic [OF assms(1,2) strict_weak_labelset_less]) auto
  then show ?thesis using assms(3,4) by (simp add: sortLabelset_def Let_def)
qed

section \<open>The text of a series\<close>

definition show_label :: "string \<times> string \<Rightarrow> string" where
  "show_label kv = fst kv @ ''='' @ [dquote] @ escape (snd kv) @ [dquote]"

lemma write_labels_eq:
  "kvs \<noteq> [] \<Longrightarrow> write_labels w sep kvs = w @ sep @ intersperse '','' (map show_label kvs)"
proof (induction kvs arbitrary: w sep)
  case (Cons kv kvs)
  then show ?case
    by (cases kv; cases kvs) (auto simp: show_label_def)
qed simp

definition gvk_labels :: "string \<Rightarrow> string \<Rightarrow> string \<Rightarrow> (string \<times> string) list" where
  "gvk_labels g v k = [(''group'', g), (''version'', v), (''kind'', k)]"

text \<open>Everything before the value, for labels that are already in order.\<close>

definition series_head :: "(string \<times> string) list \<Rightarrow> string" where
  "series_head kvs = ''{'' @ intersperse '','' (map show_label kvs) @ ''} ''"

lemma writeMetricTo_eq:
  assumes "slice_sort srt" and "length ks = length vs"
    and "sortLabelset srt ks vs = Inr (ks', vs')"
  shows "writeMetricTo srt w g v k val ks vs =
     (let pre = w @ series_head (zip ks' vs' @ gvk_labels g v k) in
      case ParseFloat val of
        None \<Rightarrow> Inr (pre, Some BadValue)
      | Some f \<Rightarrow> Inr (pre @ format_f f @ [newline], None))"
proof -
  have "length ks' = length vs'"
    using sortLabelset_spec [OF assms(1,2)] assms(3) by auto
  then show ?thesis
    using assms by (simp add: writeMetricTo_def write_labels_eq series_head_def gvk_labels_def Let_def
        split: option.split)
qed

section \<open>Reading a series back\<close>

text \<open>
  A reader of the exposition format: a label name up to the equals sign, a quoted value with
  its escapes undone, a comma or the closing brace, a space and the value up to the end of
  the line. The fuel bounds the number of labels.
\<close>

fun read_quoted :: "string \<Rightarrow> (string \<times> string) option" where
  "read_quoted [] = None"
| "read_quoted (c # cs) =
     (if c = dquote then Some ([], cs)
      else if c = backslash then
        (case cs of
           [] \<Rightarrow> None
         | d # ds \<Rightarrow>
             if d = CHR ''n'' then map_option (apfst ((#) newline)) (read_quoted ds)
             else if d = backslash \<or> d = dquote then map_option (apfst ((#) d)) (read_quoted ds)
             else None)
      else map_option (apfst ((#) c)) (read_quoted cs))"

fun read_labels :: "nat \<Rightarrow> string \<Rightarrow> ((string \<times> string) list \<times> string) option" where
  "read_labels 0 s = None"
| "read_labels (Suc n) s =
     (case dropWhile (\<lambda>c. c \<noteq> CHR ''='') s of
        e # q # t \<Rightarrow>
          if q = dquote then
            (case read_quoted t of
               Some (v, c # u) \<Rightarrow>
                 let kv = (takeWhile (\<lambda>c. c \<noteq> CHR ''='') s, v) in
                 if c = CHR '','' then map_option (apfst ((#) kv)) (read_labels n u)
                 else if c = CHR ''}'' then Some ([kv], u)
                 else None
             | _ \<Rightarrow> None)
          else None
      | _ \<Rightarrow> None)"

definition read_series :: "string \<Rightarrow> ((string \<times> string) list \<times> string) option" where
  "read_series s =
     (case s of
        b # t \<Rightarrow> if b = CHR ''{'' then
            (case read_labels (length t) t of
               Some (kvs, sp # u) \<Rightarrow>
                 if sp = CHR '' '' then Some (kvs, takeWhile (\<lambda>c. c \<noteq> newline) u) else None
             | _ \<Rightarrow> None)
          else None
      | [] \<Rightarrow> None)"

lemma escape_Nil [simp]: "escape [] = []"
  by (simp add: escape_def)

lemma escape_Cons: "escape (c # cs) = escape_char c @ escape cs"
  by (simp add: escape_def)

lemma read_quoted_escape: "read_quoted (escape v @ dquote # rest) = Some (v, rest)"
proof (induction v)
  case (Cons c cs)
  then show ?case by (simp add: escape_Cons escape_char_def)
qed simp

lemma newline_not_in_escape: "newline \<notin> set (escape v)"
  by (induction v) (auto simp: escape_Cons escape_char_def)

lemma takeWhile_key: "c \<notin> set k \<Longrightarrow> takeWhile (\<lambda>x. x \<noteq> c) (k @ c # t) = k"
  by (induction k) auto

lemma dropWhile_key: "c \<notin> set k \<Longrightarrow> dropWhile (\<lambda>x. x \<noteq> c) (k @ c # t) = c # t"
  by (induction k) auto

lemma read_labels_show:
  assumes "kvs \<noteq> []" and "length kvs \<le> n" and "\<forall>kv \<in> set kvs. CHR ''='' \<notin> set (fst kv)"
  shows "read_labels n (intersperse '','' (map show_label kvs) @ CHR ''}'' # rest) = Some (kvs, rest)"
  using assms
proof (induction kvs arbitrary: n)
  case (Cons kv kvs)
  then obtain m where n: "n = Suc m" by (cases n) auto
  have k: "CHR ''='' \<notin> set (fst kv)" using Cons.prems(3) by simp
  show ?case
  proof (cases kvs)
    case Nil
    then show ?thesis
      using k by (simp add: n show_label_def [of kv] takeWhile_key dropWhile_key read_quoted_escape)
  next
    case (Cons kv' kvs')
    then have "read_labels m (intersperse '','' (map show_label kvs) @ CHR ''}'' # rest) = Some (kvs, rest)"
      using Cons.IH Cons.prems n by simp
    with Cons show ?thesis
      using k by (simp add: n show_label_def [of kv] takeWhile_key dropWhile_key read_quoted_escape)
  qed
qed simp

lemma length_intersperse: "length ss \<le> Suc (length (intersperse '','' ss))"
  by (induction "'',''" ss rule: intersperse.induct) auto

lemma newline_not_in_format_f: "newline \<notin> set (format_f f)"
proof -
  have d: "newline \<notin> set (show_nat n)" for n
    using show_nat_digits [of n] by (auto simp: list_all_iff is_digit_def)
  then have "newline \<notin> set (pad_left k (show_nat n))" for k n
    by (auto simp: pad_left_def)
  with d show ?thesis by (cases f) (auto simp: Let_def)
qed

lemma read_series_head:
  assumes "kvs \<noteq> []" and "\<forall>kv \<in> set kvs. CHR ''='' \<notin> set (fst kv)"
  shows "read_series (series_head kvs @ format_f f @ [newline]) = Some (kvs, format_f f)"
proof -
  let ?t = "intersperse '','' (map show_label kvs) @ CHR ''}'' # CHR '' '' # format_f f @ [newline]"
  have "length kvs \<le> length ?t"
    using length_intersperse [of "map show_label kvs"] by simp
  then have "read_labels (length ?t) ?t = Some (kvs, CHR '' '' # format_f f @ [newline])"
    using assms by (intro read_labels_show) auto
  moreover have "takeWhile (\<lambda>c. c \<noteq> newline) (format_f f @ [newline]) = format_f f"
    using newline_not_in_format_f by (rule takeWhile_key)
  ultimately show ?thesis by (simp add: read_series_def series_head_def)
qed

section \<open>Properties\<close>

text \<open>C7: a series that is written reads back, whatever bytes the label values hold: the reader
  finds the labels that were given, sorted by length and then by bytes, then group, version
  and kind, and the text of the value, provided no label name has an equals sign.\<close>

theorem writeMetricTo_roundtrip:
  assumes "slice_sort srt" and "length ks = length vs" and "ParseFloat val = Some x"
    and "\<forall>key \<in> set ks. CHR ''='' \<notin> set key"
  shows "\<exists>line kvs. writeMetricTo srt w g v k val ks vs = Inr (w @ line, None)
    \<and> read_series line = Some (kvs @ gvk_labels g v k, format_f x)
    \<and> mset kvs = mset (zip ks vs) \<and> sorted_wrt key_le (map fst kvs)"
proof -
  obtain ks' vs' where s: "sortLabelset srt ks vs = Inr (ks', vs')" "length ks' = length vs'"
    "mset (zip ks' vs') = mset (zip ks vs)" "sorted_wrt key_le ks'"
    using sortLabelset_spec [OF assms(1,2)] by blast
  have "set (zip ks' vs') = set (zip ks vs)" using mset_eq_setD [OF s(3)] .
  then have "\<forall>kv \<in> set (zip ks' vs' @ gvk_labels g v k). CHR ''='' \<notin> set (fst kv)"
    using assms(4) by (auto simp: gvk_labels_def dest: set_zip_leftD)
  then have "read_series (series_head (zip ks' vs' @ gvk_labels g v k) @ format_f x @ [newline])
      = Some (zip ks' vs' @ gvk_labels g v k, format_f x)"
    by (intro read_series_head) (simp_all add: gvk_labels_def)
  then show ?thesis
    using s assms(3) by (simp add: writeMetricTo_eq [OF assms(1,2) s(1)])
qed

theorem writeMetricTo_roundtrip_witness:
  "\<exists>line kvs. writeMetricTo insertionSort ''m'' ''g'' ''v1'' ''Foo'' (show_int 42) [''zone'', ''a''] [[dquote], ''x'']
      = Inr (''m'' @ line, None)
    \<and> read_series line = Some (kvs @ gvk_labels ''g'' ''v1'' ''Foo'', ''42.000000'')
    \<and> mset kvs = mset (zip [''zone'', ''a''] [[dquote], ''x'']) \<and> sorted_wrt key_le (map fst kvs)"
proof -
  have i: "\<bar>42 :: int\<bar> < 2 ^ 53" by simp
  obtain x where x: "ParseFloat (show_int 42) = Some x" "format_f x = show_int 42 @ ''.000000''"
    using format_ParseFloat_int [OF i] by auto
  have "show_int 42 = ''42''" by code_simp
  with x(2) have f: "format_f x = ''42.000000''" by simp
  show ?thesis
    using writeMetricTo_roundtrip [OF insertion.slice_sort_axioms _ x(1),
        of "[''zone'', ''a'']" "[[dquote], ''x'']" "''m''" "''g''" "''v1''" "''Foo''"]
    by (simp add: f)
qed

text \<open>What is written for a series depends on the set of its labels only, when their names
  are different: neither the order in which they were collected nor the sorting algorithm
  shows.\<close>

theorem writeMetricTo_deterministic:
  assumes "slice_sort s" and "slice_sort s'"
    and "length ks = length vs" and "length ks' = length vs'"
    and "mset (zip ks vs) = mset (zip ks' vs')" and "distinct ks"
  shows "writeMetricTo s w g v k val ks vs = writeMetricTo s' w g v k val ks' vs'"
proof -
  have "length (zip ks vs) = length (zip ks' vs')" using assms(5) by (metis size_mset)
  then have "length ks = length ks'" using assms(3,4) by simp
  then show ?thesis
    using assms(3,4) sortLabelset_deterministic [OF assms] by (simp add: writeMetricTo_def)
qed

theorem writeMetricTo_deterministic_witness:
  "writeMetricTo insertionSort ''m'' [] ''v1'' ''Foo'' ''1'' [''b'', ''aa''] [''1'', ''2'']
     = writeMetricTo insertionSort ''m'' [] ''v1'' ''Foo'' ''1'' [''aa'', ''b''] [''2'', ''1'']"
  by (rule writeMetricTo_deterministic) (simp_all add: insertion.slice_sort_axioms)

text \<open>C27: writing a series never panics, and it fails in two cases: when the numbers of names and
  values differ, and then nothing is written, and when the value does not parse as a float,
  and then the name and the labels have been written.\<close>

theorem writeMetricTo_errors:
  assumes "slice_sort srt"
  shows "\<exists>w' e. writeMetricTo srt w g v k val ks vs = Inr (w', e)
    \<and> (e = Some LengthMismatch) = (length ks \<noteq> length vs)
    \<and> (e = Some BadValue) = (length ks = length vs \<and> ParseFloat val = None)
    \<and> (w' = w) = (length ks \<noteq> length vs)"
proof (cases "length ks = length vs")
  case True
  obtain ks' vs' where s: "sortLabelset srt ks vs = Inr (ks', vs')"
    using sortLabelset_spec [OF assms True] by blast
  have "series_head (zip ks' vs' @ gvk_labels g v k) \<noteq> []" by (simp add: series_head_def)
  with True show ?thesis
    by (cases "ParseFloat val") (simp_all add: writeMetricTo_eq [OF assms True s] Let_def)
qed (simp add: writeMetricTo_def)

theorem writeMetricTo_errors_witness:
  "\<exists>w' e. writeMetricTo insertionSort ''m'' [] [] [] ''abc'' [''a''] [''b''] = Inr (w', e)
    \<and> (e = Some LengthMismatch) = (length [''a''] \<noteq> length [''b''])
    \<and> (e = Some BadValue) = (length [''a''] = length [''b''] \<and> ParseFloat ''abc'' = None)
    \<and> (w' = ''m'') = (length [''a''] \<noteq> length [''b''])"
  by (rule writeMetricTo_errors) (rule insertion.slice_sort_axioms)

text \<open>An integer value of less than 54 bits is exposed exactly, with six zero decimals.\<close>

theorem writeMetricTo_integer:
  assumes "slice_sort srt" and "\<bar>i\<bar> < 2 ^ 53"
  shows "writeMetricTo srt w g v k (show_int i) [] [] =
    Inr (w @ series_head (gvk_labels g v k) @ show_int i @ ''.000000'' @ [newline], None)"
proof -
  obtain x where x: "ParseFloat (show_int i) = Some x" "format_f x = show_int i @ ''.000000''"
    using format_ParseFloat_int [OF assms(2)] by auto
  have "sortLabelset srt [] [] = Inr ([], [])"
    using sortLabelset_spec [OF assms(1), of "[]" "[]"] by auto
  from writeMetricTo_eq [OF assms(1) _ this] show ?thesis by (simp add: x)
qed

theorem writeMetricTo_integer_witness:
  "writeMetricTo insertionSort ''m'' [] ''v1'' ''Foo'' (show_int (- 7)) [] [] =
    Inr (''m'' @ series_head (gvk_labels [] ''v1'' ''Foo'') @ show_int (- 7) @ ''.000000'' @ [newline], None)"
  by (rule writeMetricTo_integer) (simp_all add: insertion.slice_sort_axioms)

end
