(* ===== verification/Go_Value.thy ===== *)
theory Go_Value
  imports Go_Float
begin

text \<open>
  The dynamic values (\<^verbatim>\<open>interface{}\<close>) that make up an unstructured Kubernetes object, their
  rendering by \<^verbatim>\<open>fmt.Sprintf("%v", x)\<close>, and the lookup of a nested field that the
  unstructured resolver calls (\<^verbatim>\<open>NestedFieldNoCopy\<close> of the vendored apimachinery).
\<close>

text \<open>
  A decoded object holds \<^verbatim>\<open>nil\<close>, booleans, \<^verbatim>\<open>int64\<close>, \<^verbatim>\<open>float64\<close>, strings, slices and maps with
  string keys; \<open>GInt\<close> and \<open>GUint\<close> are Go's \<^verbatim>\<open>int\<close> and \<^verbatim>\<open>uint\<close>, and \<open>GOther\<close> is a value
  of any other Go type, with its \<^verbatim>\<open>%v\<close> text.
\<close>

datatype goval =
    GNil
  | GBool bool
  | GInt "64 word"
  | GUint "64 word"
  | GInt64 "64 word"
  | GFloat float64
  | GString string
  | GSlice "goval list"
  | GMap "(string \<times> goval) list"
  | GOther string

type_synonym obj = "(string, goval) gomap"

text \<open>Maps are printed in the order of their keys, slices and map entries separated by a space.\<close>

fun format_val :: "goval \<Rightarrow> string" where
  "format_val GNil = ''<nil>''"
| "format_val (GBool b) = (if b then ''true'' else ''false'')"
| "format_val (GInt w) = show_int (sint w)"
| "format_val (GUint w) = show_nat (unat w)"
| "format_val (GInt64 w) = show_int (sint w)"
| "format_val (GFloat f) = format_v f"
| "format_val (GString s) = s"
| "format_val (GSlice vs) = ''['' @ intersperse '' '' (map format_val vs) @ '']''"
| "format_val (GMap es) = ''map['' @ intersperse '' ''
     (map (\<lambda>(k, t). k @ '':'' @ t) (sort_key fst (map (\<lambda>(k, v). (k, format_val v)) es))) @ '']''"
| "format_val (GOther t) = t"

section \<open>Nested fields\<close>

text \<open>
  An accessor error names the fields walked so far and the value that is not a map. The
  result is Go's triple: the value, whether it was found, the error.
\<close>

datatype accessor_error = AccessorError "string list" goval

fun nested_walk :: "string list \<Rightarrow> goval \<Rightarrow> string list \<Rightarrow> goval \<times> bool \<times> accessor_error option" where
  "nested_walk done val [] = (val, True, None)"
| "nested_walk done val (f # fs) =
     (case val of
        GNil \<Rightarrow> (GNil, False, None)
      | GMap m \<Rightarrow> (case gm_get m f of
            None \<Rightarrow> (GNil, False, None)
          | Some v \<Rightarrow> nested_walk (done @ [f]) v fs)
      | _ \<Rightarrow> (GNil, False, Some (AccessorError (done @ [f]) val)))"

definition NestedFieldNoCopy :: "obj \<Rightarrow> string list \<Rightarrow> goval \<times> bool \<times> accessor_error option" where
  "NestedFieldNoCopy obj fs = nested_walk [] (GMap obj) fs"

text \<open>The walk as a function of the path: the value at it, if there is one.\<close>

fun at_path :: "goval \<Rightarrow> string list \<Rightarrow> goval option" where
  "at_path v [] = Some v"
| "at_path (GMap m) (f # fs) = (case gm_get m f of None \<Rightarrow> None | Some v \<Rightarrow> at_path v fs)"
| "at_path _ (f # fs) = None"

lemma nested_walk_found:
  "nested_walk done v fs = (w, True, e) \<longleftrightarrow> at_path v fs = Some w \<and> e = None"
proof (induction fs arbitrary: v "done")
  case (Cons f fs)
  then show ?case
    by (cases v) (auto split: option.splits)
qed auto

lemma nested_walk_error_not_found:
  "nested_walk done v fs = (w, found, Some e) \<Longrightarrow> \<not> found"
  by (induction fs arbitrary: v "done") (auto split: goval.splits option.splits)

lemma at_path_append:
  "at_path v (fs @ gs) = (case at_path v fs of None \<Rightarrow> None | Some w \<Rightarrow> at_path w gs)"
proof (induction fs arbitrary: v)
  case (Cons f fs)
  then show ?case
    by (cases v) (auto split: option.splits)
qed simp

end
