(* ===== verification/Resolver.thy ===== *)
theory Resolver
  imports Go_Value
begin

text \<open>
  \<^verbatim>\<open>pkg/resolver\<close>: the interface that evaluates a query against an object, and its two
  implementations. The CEL engine is the vendored cel-go; it is a parameter
  \<open>cel\<close> of the model, a function from the cost limit, the query and the object to the
  stage it fails at or the value it computes. The locale \<open>resolver\<close> states what the
  callers rely on: every answer is a map.
\<close>

section \<open>The unstructured resolver\<close>

text \<open>\<^verbatim>\<open>(*UnstructuredResolver).Resolve\<close>.\<close>

definition Unstructured_Resolve :: "string \<Rightarrow> obj \<Rightarrow> (string, string) gomap" where
  "Unstructured_Resolve query obj =
     (let (resolvedI, found, err) = NestedFieldNoCopy obj (Split CHR ''.'' query) in
      if \<not> found then [(query, query)]
      else if err \<noteq> None then [(query, query)]
      else [(query, format_val resolvedI)])"

section \<open>The CEL resolver\<close>

text \<open>
  What evaluating a program yields, by its CEL type. A map or a list carries the Go value
  behind it (\<^verbatim>\<open>out.Value()\<close>), which may or may not be a native Go map or slice.
\<close>

datatype cel_val =
    CBool bool
  | CDouble float64
  | CInt "64 word"
  | CString string
  | CUint "64 word"
  | CMap goval
  | CList goval
  | COther

datatype cel_result =
    EnvError
  | ParseError
  | ProgramError
  | EvalError
  | Out cel_val

type_synonym cel_engine = "nat \<Rightarrow> string \<Rightarrow> obj \<Rightarrow> cel_result"

definition costLimit :: nat where
  "costLimit = 1000000"

text \<open>
  \<^verbatim>\<open>CallCost\<close>: one unit plus the cost registered for the function; the table of custom costs
  is empty, and a missing key reads as zero.
\<close>

definition customFunctionsCosts :: "(string, 64 word) gomap" where
  "customFunctionsCosts = []"

definition CallCost :: "string \<Rightarrow> 64 word" where
  "CallCost function =
     1 + (case gm_get customFunctionsCosts function of None \<Rightarrow> 0 | Some c \<Rightarrow> c)"

text \<open>
  The type switch \<^verbatim>\<open>string, int, uint, float64, bool\<close> on the values inside a map or a list:
  anything else is skipped.
\<close>

fun is_scalar :: "goval \<Rightarrow> bool" where
  "is_scalar (GString _) = True"
| "is_scalar (GInt _) = True"
| "is_scalar (GUint _) = True"
| "is_scalar (GFloat _) = True"
| "is_scalar (GBool _) = True"
| "is_scalar _ = False"

fun resolve_list_loop :: "nat \<Rightarrow> goval list \<Rightarrow> (string, string) gomap \<Rightarrow> (string, string) gomap" where
  "resolve_list_loop i [] m = m"
| "resolve_list_loop i (v # vs) m =
     resolve_list_loop (Suc i) vs (if is_scalar v then gm_set (show_nat i) (format_val v) m else m)"

text \<open>\<open>None\<close> is the \<^verbatim>\<open>nil\<close> map of a failed cast.\<close>

definition resolveList :: "goval \<Rightarrow> (string, string) gomap option" where
  "resolveList out = (case out of GSlice vs \<Rightarrow> Some (resolve_list_loop 0 vs []) | _ \<Rightarrow> None)"

fun resolve_map_loop :: "(string \<times> goval) list \<Rightarrow> (string, string) gomap \<Rightarrow> (string, string) gomap" where
  "resolve_map_loop [] m = m"
| "resolve_map_loop ((k, v) # es) m =
     resolve_map_loop es (if is_scalar v then gm_set k (format_val v) m else m)"

definition resolveMap :: "goval \<Rightarrow> (string, string) gomap option" where
  "resolveMap out = (case out of GMap es \<Rightarrow> Some (resolve_map_loop es []) | _ \<Rightarrow> None)"

text \<open>\<^verbatim>\<open>(*CELResolver).Resolve\<close>.\<close>

definition CEL_Resolve :: "cel_engine \<Rightarrow> string \<Rightarrow> obj \<Rightarrow> (string, string) gomap" where
  "CEL_Resolve cel query obj =
     (case cel costLimit query obj of
        EnvError \<Rightarrow> [(query, query)]
      | ParseError \<Rightarrow> [(query, query)]
      | ProgramError \<Rightarrow> [(query, query)]
      | EvalError \<Rightarrow> [(query, query)]
      | Out out \<Rightarrow>
          (let m = (case out of
               CBool b \<Rightarrow> Some [(query, format_val (GBool b))]
             | CDouble f \<Rightarrow> Some [(query, format_val (GFloat f))]
             | CInt w \<Rightarrow> Some [(query, format_val (GInt64 w))]
             | CString s \<Rightarrow> Some [(query, format_val (GString s))]
             | CUint w \<Rightarrow> Some [(query, format_val (GUint w))]
             | CMap v \<Rightarrow> resolveMap v
             | CList v \<Rightarrow> resolveList v
             | COther \<Rightarrow> Some [])
           in case m of None \<Rightarrow> [(query, query)] | Some r \<Rightarrow> r))"

section \<open>The interface\<close>

text \<open>
  \<^verbatim>\<open>Resolver\<close>: one operation. The callers look the query up in the answer and otherwise range
  over it, so what they need of an implementation is that the answer is a map.
\<close>

locale resolver =
  fixes Resolve :: "string \<Rightarrow> obj \<Rightarrow> (string, string) gomap"
  assumes Resolve_map: "gm_wf (Resolve query obj)"
begin

lemma keys_distinct_after_order:
  assumes "is_order ord"
  shows "distinct (map fst (ord (Resolve query obj)))"
proof -
  have "mset (map fst (ord (Resolve query obj))) = mset (map fst (Resolve query obj))"
    using assms by (simp add: is_order_mset)
  then show ?thesis
    by (metis Resolve_map mset_eq_imp_distinct_iff)
qed

lemma visited_once:
  assumes "is_order ord" and "(k, v) \<in> set (ord (Resolve query obj))"
  shows "gm_get (Resolve query obj) k = Some v"
  using assms Resolve_map by (simp add: is_order_set gm_get_mem)

end

lemma resolve_list_loop_wf: "gm_wf m \<Longrightarrow> gm_wf (resolve_list_loop i vs m)"
  by (induction vs arbitrary: i m) (auto simp: go_map)

lemma resolve_map_loop_wf: "gm_wf m \<Longrightarrow> gm_wf (resolve_map_loop es m)"
  by (induction es arbitrary: m) (auto simp: go_map split: if_splits)

interpretation ur: resolver Unstructured_Resolve
  by unfold_locales (auto simp: Unstructured_Resolve_def split: prod.splits)

interpretation cr: resolver "CEL_Resolve cel" for cel
  by unfold_locales
    (auto simp: CEL_Resolve_def resolveMap_def resolveList_def Let_def
      intro: resolve_list_loop_wf resolve_map_loop_wf
      split: cel_result.split cel_val.split option.split goval.split)

section \<open>Properties\<close>

lemma nested_walk_missing:
  assumes "at_path v fs = None"
  shows "\<not> fst (snd (nested_walk done v fs))"
proof (cases "nested_walk done v fs")
  case (fields w found err)
  with nested_walk_found [of "done" v fs w err] nested_walk_error_not_found [of "done" v fs w found]
  show ?thesis using assms by (cases found; cases err) auto
qed

lemma Unstructured_Resolve_eq:
  "Unstructured_Resolve query obj =
     [(query, case at_path (GMap obj) (Split CHR ''.'' query) of
                Some v \<Rightarrow> format_val v
              | None \<Rightarrow> query)]"
proof (cases "at_path (GMap obj) (Split CHR ''.'' query)")
  case None
  then have "\<not> fst (snd (NestedFieldNoCopy obj (Split CHR ''.'' query)))"
    unfolding NestedFieldNoCopy_def by (rule nested_walk_missing)
  with None show ?thesis by (auto simp: Unstructured_Resolve_def split: prod.split)
next
  case (Some v)
  then have "NestedFieldNoCopy obj (Split CHR ''.'' query) = (v, True, None)"
    by (simp add: NestedFieldNoCopy_def nested_walk_found)
  with Some show ?thesis by (simp add: Unstructured_Resolve_def)
qed

text \<open>C19: the unstructured resolver answers every query with one entry, for the query itself: the
  printed value at the dotted path when the whole path leads through maps to a value, and the
  query text when it does not, whatever the reason.\<close>

theorem Unstructured_Resolve_value:
  "Unstructured_Resolve query obj =
     [(query, case at_path (GMap obj) (Split CHR ''.'' query) of
                Some v \<Rightarrow> format_val v
              | None \<Rightarrow> query)]"
  by (rule Unstructured_Resolve_eq)

lemma resolve_map_loop_get:
  "distinct (map fst es) \<Longrightarrow> gm_get (resolve_map_loop es m) k =
     (case map_of es k of
        Some v \<Rightarrow> if is_scalar v then Some (format_val v) else gm_get m k
      | None \<Rightarrow> gm_get m k)"
proof (induction es arbitrary: m)
  case (Cons e es)
  then have "map_of es (fst e) = None" by (simp add: map_of_eq_None_iff)
  with Cons show ?case by (cases e) (auto simp: gm_get_set split: option.split)
qed simp

lemma resolve_list_loop_get:
  "gm_get (resolve_list_loop i vs m) (show_nat n) =
     (if i \<le> n \<and> n < i + length vs \<and> is_scalar (vs ! (n - i)) then Some (format_val (vs ! (n - i)))
      else gm_get m (show_nat n))"
proof (induction vs arbitrary: i m n)
  case (Cons v vs)
  consider "n < i" | "n = i" | j where "n = Suc (i + j)"
    by (metis add_Suc_right less_imp_Suc_add linorder_neqE_nat)
  then show ?case by cases (simp_all add: Cons.IH gm_get_set)
qed auto

text \<open>C20: when a CEL query yields a map, the answer has exactly the entries of that map whose
  values are strings, machine integers, unsigned integers, floats or booleans: a string as it
  is, integers in decimal, floats as \<^verbatim>\<open>%v\<close> prints them, booleans by name; every other entry is
  dropped, nil, 64-bit integers, lists and nested maps included.\<close>

theorem CEL_Resolve_map_entries:
  assumes "cel costLimit query obj = Out (CMap (GMap es))" and "distinct (map fst es)"
  shows "gm_get (CEL_Resolve cel query obj) k =
     (case map_of es k of
        Some (GString s) \<Rightarrow> Some s
      | Some (GInt n) \<Rightarrow> Some (show_int (sint n))
      | Some (GUint n) \<Rightarrow> Some (show_nat (unat n))
      | Some (GFloat x) \<Rightarrow> Some (format_v x)
      | Some (GBool b) \<Rightarrow> Some (if b then ''true'' else ''false'')
      | _ \<Rightarrow> None)"
  using assms by (simp add: CEL_Resolve_def resolveMap_def resolve_map_loop_get split: option.split goval.split)

definition sample_entries :: "(string \<times> goval) list" where
  "sample_entries = [(''n'', GInt64 7), (''s'', GString ''x''), (''i'', GInt (-2)), (''u'', GUint 3), (''b'', GBool True),
     (''f'', GFloat NaN), (''z'', GNil), (''l'', GSlice []), (''m'', GMap [])]"

theorem CEL_Resolve_map_entries_witness:
  "let r = gm_get (CEL_Resolve (\<lambda>_ _ _. Out (CMap (GMap sample_entries))) ''q'' []) in
     r ''s'' = Some ''x'' \<and> r ''i'' = Some ''-2'' \<and> r ''u'' = Some ''3'' \<and> r ''b'' = Some ''true''
     \<and> r ''f'' = Some ''NaN'' \<and> r ''n'' = None \<and> r ''z'' = None \<and> r ''l'' = None \<and> r ''m'' = None"
proof -
  have "show_int (sint (- 2 :: 64 word)) = ''-2''" "show_nat (unat (3 :: 64 word)) = ''3''" by code_simp+
  then show ?thesis
    by (simp add: Let_def CEL_Resolve_map_entries [where es = sample_entries] sample_entries_def)
qed

text \<open>When a CEL query yields a list, the answer maps the decimal index of an element to its
  printed value, for elements of the same types only; the indices of the others are missing.\<close>

theorem CEL_Resolve_list_entries:
  assumes "cel costLimit query obj = Out (CList (GSlice vs))" and "n < length vs"
  shows "gm_get (CEL_Resolve cel query obj) (show_nat n) =
     (case vs ! n of
        GString s \<Rightarrow> Some s
      | GInt i \<Rightarrow> Some (show_int (sint i))
      | GUint i \<Rightarrow> Some (show_nat (unat i))
      | GFloat x \<Rightarrow> Some (format_v x)
      | GBool b \<Rightarrow> Some (if b then ''true'' else ''false'')
      | _ \<Rightarrow> None)"
  using assms by (simp add: CEL_Resolve_def resolveList_def resolve_list_loop_get split: goval.split)

theorem CEL_Resolve_list_entries_witness:
  "gm_get (CEL_Resolve (\<lambda>_ _ _. Out (CList (GSlice [GInt64 7, GString ''x'']))) ''q'' []) (show_nat 0) = None
   \<and> gm_get (CEL_Resolve (\<lambda>_ _ _. Out (CList (GSlice [GInt64 7, GString ''x'']))) ''q'' []) (show_nat 1)
     = Some ''x''"
  by (simp add: CEL_Resolve_list_entries [where vs = "[GInt64 7, GString ''x'']"])

end
