(* ===== verification/Unstructured.thy ===== *)
theory Unstructured
  imports Go_Value
begin

text \<open>
  The accessors of an unstructured object that the program calls, from the vendored
  apimachinery: the object's UID, name and namespace, and its group, version and kind, which
  is empty when \<^verbatim>\<open>apiVersion\<close> does not parse.
\<close>

definition getNestedString :: "obj \<Rightarrow> string list \<Rightarrow> string" where
  "getNestedString obj fs =
     (let (val, found, err) = NestedFieldNoCopy obj fs in
      if \<not> found \<or> err \<noteq> None then []
      else case val of GString s \<Rightarrow> s | _ \<Rightarrow> [])"

type_synonym uid = string

definition GetUID :: "obj \<Rightarrow> uid" where
  "GetUID obj = getNestedString obj [''metadata'', ''uid'']"

definition GetName :: "obj \<Rightarrow> string" where
  "GetName obj = getNestedString obj [''metadata'', ''name'']"

definition GetNamespace :: "obj \<Rightarrow> string" where
  "GetNamespace obj = getNestedString obj [''metadata'', ''namespace'']"

record gvk =
  gvk_Group :: string
  gvk_Version :: string
  gvk_Kind :: string

text \<open>\<open>None\<close> is the error.\<close>

definition ParseGroupVersion :: "string \<Rightarrow> (string \<times> string) option" where
  "ParseGroupVersion gv =
     (if length gv = 0 \<or> gv = ''/'' then Some ([], [])
      else case Split CHR ''/'' gv of
          [v] \<Rightarrow> Some ([], v)
        | [g, v] \<Rightarrow> Some (g, v)
        | _ \<Rightarrow> None)"

definition GroupVersionKind :: "obj \<Rightarrow> gvk" where
  "GroupVersionKind obj =
     (case ParseGroupVersion (getNestedString obj [''apiVersion'']) of
        None \<Rightarrow> \<lparr>gvk_Group = [], gvk_Version = [], gvk_Kind = []\<rparr>
      | Some (g, v) \<Rightarrow> \<lparr>gvk_Group = g, gvk_Version = v, gvk_Kind = getNestedString obj [''kind'']\<rparr>)"

lemma getNestedString_at_path:
  "getNestedString obj fs = (case at_path (GMap obj) fs of Some (GString s) \<Rightarrow> s | _ \<Rightarrow> [])"
proof (cases "NestedFieldNoCopy obj fs")
  case (fields val found err)
  then have f: "found \<longleftrightarrow> at_path (GMap obj) fs = Some val \<and> err = None"
    using nested_walk_found [of "[]" "GMap obj" fs val err]
    by (cases found) (auto simp: NestedFieldNoCopy_def)
  show ?thesis
  proof (cases found)
    case True
    with f fields show ?thesis by (simp add: getNestedString_def split: goval.split)
  next
    case False
    with fields have "at_path (GMap obj) fs \<noteq> Some w" for w
      using nested_walk_found [of "[]" "GMap obj" fs w None] by (auto simp: NestedFieldNoCopy_def)
    then have "at_path (GMap obj) fs = None" by (cases "at_path (GMap obj) fs") auto
    with False fields show ?thesis by (simp add: getNestedString_def)
  qed
qed

lemma ParseGroupVersion_Join:
  "CHR ''/'' \<notin> set g \<Longrightarrow> CHR ''/'' \<notin> set v \<Longrightarrow> g @ v \<noteq> [] \<Longrightarrow>
   ParseGroupVersion (g @ CHR ''/'' # v) = Some (g, v)"
  by (auto simp: ParseGroupVersion_def Split_append_sep Split_no_sep append_eq_Cons_conv)

end
