(* ===== verification/Family.thy ===== *)
theory Family
  imports Metric Resolver Unstructured
begin

text \<open>
  \<^verbatim>\<open>internal/family.go\<close>: a metric family, the choice of its resolver, its header and the text
  of its series for one object. \<open>rawFrom\<close> appends the family's label keys and values to
  each metric before it uses them, and the metrics keep them: the family is returned
  updated. The order in which the entries of a resolved label set are visited is the
  argument \<open>ord\<close>, one order per metric and label.
\<close>

definition metricTypeGauge :: string where
  "metricTypeGauge = ''gauge''"

definition kubeCustomResourcePrefix :: string where
  "kubeCustomResourcePrefix = ''kube_customresource_''"

definition ResolverTypeCEL :: resolver_type where
  "ResolverTypeCEL = ''cel''"

definition ResolverTypeUnstructured :: resolver_type where
  "ResolverTypeUnstructured = ''unstructured''"

definition ResolverTypeNone :: resolver_type where
  "ResolverTypeNone = []"

text \<open>\<open>None\<close> in the slice of metrics is a \<^verbatim>\<open>nil\<close> pointer.\<close>

record family_type =
  f_Name :: string
  f_Help :: string
  f_t :: string
  f_Metrics :: "metric_type option list"
  f_Resolver :: resolver_type
  f_LabelKeys :: "string list"
  f_LabelValues :: "string list"

section \<open>The resolver of a metric\<close>

datatype resolver_inst = CELResolver | UnstructuredResolver

fun Resolve :: "cel_engine \<Rightarrow> resolver_inst \<Rightarrow> string \<Rightarrow> obj \<Rightarrow> (string, string) gomap" where
  "Resolve cel CELResolver = CEL_Resolve cel"
| "Resolve cel UnstructuredResolver = Unstructured_Resolve"

text \<open>\<^verbatim>\<open>(*FamilyType).resolver\<close>; \<open>None\<close> is the error for an unknown resolver.\<close>

definition family_resolver :: "family_type \<Rightarrow> resolver_type \<Rightarrow> resolver_inst option" where
  "family_resolver f inheritedResolver =
     (let r = (if inheritedResolver = ResolverTypeNone then f_Resolver f else inheritedResolver) in
      if r = ResolverTypeNone \<or> r = ResolverTypeCEL then Some CELResolver
      else if r = ResolverTypeUnstructured then Some UnstructuredResolver
      else None)"

section \<open>Resolving the labels\<close>

type_synonym entry_order = "(string \<times> string) list \<Rightarrow> (string \<times> string) list"

text \<open>\<^verbatim>\<open>strings.ToLower(regexp.MustCompile(`\W`).ReplaceAllString(key, "_"))\<close>.\<close>

definition sanitize :: "string \<Rightarrow> string" where
  "sanitize key = ToLower (replace_nonword key)"

text \<open>The inner loop over a label set that does not contain the query.\<close>

fun expand_labels ::
    "string list \<Rightarrow> nat \<Rightarrow> (string \<times> string) list \<Rightarrow> string list \<Rightarrow> string list
     \<Rightarrow> (string list \<times> string list) go" where
  "expand_labels labelKeys i [] ks vs = Inr (ks, vs)"
| "expand_labels labelKeys i ((k, v) # es) ks vs =
     go_bind (go_nth labelKeys i) (\<lambda>key.
       expand_labels labelKeys i es (ks @ [sanitize (key @ k)]) (vs @ [v]))"

text \<open>The loop over the label values, from index \<open>i\<close> on.\<close>

fun resolve_labels ::
    "(string \<Rightarrow> (string, string) gomap) \<Rightarrow> (nat \<Rightarrow> entry_order) \<Rightarrow> string list \<Rightarrow> nat \<Rightarrow> string list
     \<Rightarrow> string list \<Rightarrow> string list \<Rightarrow> (string list \<times> string list) go" where
  "resolve_labels R ord labelKeys i [] ks vs = Inr (ks, vs)"
| "resolve_labels R ord labelKeys i (query # queries) ks vs =
     (let resolvedLabelset = R query in
      case gm_get resolvedLabelset query of
        Some resolvedLabelValue \<Rightarrow>
          go_bind (go_nth labelKeys i) (\<lambda>key.
            resolve_labels R ord labelKeys (Suc i) queries (ks @ [sanitize key]) (vs @ [resolvedLabelValue]))
      | None \<Rightarrow>
          go_bind (expand_labels labelKeys i (ord i resolvedLabelset) ks vs) (\<lambda>(ks, vs).
            resolve_labels R ord labelKeys (Suc i) queries ks vs))"

section \<open>\<open>rawFrom\<close>\<close>

text \<open>The metric with the label keys and values it inherits from its family.\<close>

definition inherit_labels :: "family_type \<Rightarrow> metric_type \<Rightarrow> metric_type" where
  "inherit_labels f metric =
     metric\<lparr>m_LabelKeys := m_LabelKeys metric @ f_LabelKeys f,
            m_LabelValues := m_LabelValues metric @ f_LabelValues f\<rparr>"

text \<open>
  The text of one metric, its labels inherited already; a metric that is skipped
  (\<^verbatim>\<open>continue\<close>) has none.
\<close>

definition metric_raw ::
    "sorter \<Rightarrow> cel_engine \<Rightarrow> (nat \<Rightarrow> entry_order) \<Rightarrow> family_type \<Rightarrow> obj \<Rightarrow> metric_type \<Rightarrow> string go" where
  "metric_raw srt cel ord f obj metric =
     (case family_resolver f (m_Resolver metric) of
        None \<Rightarrow> Inr []
      | Some inst \<Rightarrow>
          (let R = (\<lambda>query. Resolve cel inst query obj) in
           go_bind (resolve_labels R ord (m_LabelKeys metric) 0 (m_LabelValues metric) [] []) (\<lambda>(ks, vs).
             case gm_get (R (m_Value metric)) (m_Value metric) of
               None \<Rightarrow> Inr []
             | Some resolvedValue \<Rightarrow>
                 (let gvk = GroupVersionKind obj in
                  go_bind (writeMetricTo srt (kubeCustomResourcePrefix @ f_Name f)
                            (gvk_Group gvk) (gvk_Version gvk) (gvk_Kind gvk) resolvedValue ks vs)
                    (\<lambda>(raw, err). Inr (if err = None then raw else []))))))"

fun raw_metrics ::
    "sorter \<Rightarrow> cel_engine \<Rightarrow> (nat \<Rightarrow> nat \<Rightarrow> entry_order) \<Rightarrow> family_type \<Rightarrow> obj \<Rightarrow> nat \<Rightarrow> metric_type option list
     \<Rightarrow> (metric_type option list \<times> string) go" where
  "raw_metrics srt cel ord f obj j [] = Inr ([], [])"
| "raw_metrics srt cel ord f obj j (p # ps) =
     go_bind (go_deref p) (\<lambda>m.
       let metric = inherit_labels f m in
       go_bind (metric_raw srt cel (ord j) f obj metric) (\<lambda>raw.
         go_bind (raw_metrics srt cel ord f obj (Suc j) ps) (\<lambda>(metrics, rest).
           Inr (Some metric # metrics, raw @ rest))))"

definition rawFrom ::
    "sorter \<Rightarrow> cel_engine \<Rightarrow> (nat \<Rightarrow> nat \<Rightarrow> entry_order) \<Rightarrow> family_type \<Rightarrow> obj \<Rightarrow> (family_type \<times> string) go" where
  "rawFrom srt cel ord f obj =
     go_bind (raw_metrics srt cel ord f obj 0 (f_Metrics f)) (\<lambda>(metrics, raw).
       Inr (f\<lparr>f_Metrics := metrics\<rparr>, raw))"

section \<open>\<open>buildHeaders\<close>\<close>

text \<open>The header, and the family with its type pinned.\<close>

definition buildHeaders :: "family_type \<Rightarrow> family_type \<times> string" where
  "buildHeaders f =
     (let header = ''# HELP '' @ kubeCustomResourcePrefix @ f_Name f @ '' '' @ f_Help f @ [newline]
            @ ''# TYPE '' @ kubeCustomResourcePrefix @ f_Name f @ '' '';
          f = f\<lparr>f_t := metricTypeGauge\<rparr>
      in (f, header @ f_t f))"

section \<open>What the label loops compute\<close>

interpretation ri: resolver "Resolve cel inst" for cel inst
  by (cases inst) (simp_all add: ur.resolver_axioms cr.resolver_axioms)

text \<open>The labels one query contributes, and those of all the queries from index \<open>i\<close> on.\<close>

definition label_block ::
    "(string \<Rightarrow> (string, string) gomap) \<Rightarrow> (nat \<Rightarrow> entry_order) \<Rightarrow> string list \<Rightarrow> nat \<Rightarrow> string
     \<Rightarrow> (string \<times> string) list" where
  "label_block R ord labelKeys i query =
     (case gm_get (R query) query of
        Some v \<Rightarrow> [(sanitize (labelKeys ! i), v)]
      | None \<Rightarrow> map (\<lambda>(k, v). (sanitize (labelKeys ! i @ k), v)) (ord i (R query)))"

fun labels_from ::
    "(string \<Rightarrow> (string, string) gomap) \<Rightarrow> (nat \<Rightarrow> entry_order) \<Rightarrow> string list \<Rightarrow> nat \<Rightarrow> string list
     \<Rightarrow> (string \<times> string) list" where
  "labels_from R ord labelKeys i [] = []"
| "labels_from R ord labelKeys i (q # qs) =
     label_block R ord labelKeys i q @ labels_from R ord labelKeys (Suc i) qs"

lemma expand_labels_eq:
  "i < length labelKeys \<Longrightarrow> expand_labels labelKeys i es ks vs =
     Inr (ks @ map (\<lambda>e. sanitize (labelKeys ! i @ fst e)) es, vs @ map snd es)"
  by (induction es arbitrary: ks vs) auto

lemma expand_labels_panic:
  "length labelKeys \<le> i \<Longrightarrow> es \<noteq> [] \<Longrightarrow> expand_labels labelKeys i es ks vs = Inl IndexOutOfRange"
  by (cases es) (auto simp: go_nth_def)

lemma resolve_labels_eq:
  "i + length qs \<le> length labelKeys \<Longrightarrow> resolve_labels R ord labelKeys i qs ks vs =
     Inr (ks @ map fst (labels_from R ord labelKeys i qs), vs @ map snd (labels_from R ord labelKeys i qs))"
proof (induction qs arbitrary: i ks vs)
  case (Cons q qs)
  then show ?case
    by (auto simp: expand_labels_eq label_block_def Let_def comp_def case_prod_unfold
        split: option.split)
qed simp

lemma sanitize_chars:
  assumes "c \<in> set (sanitize key)"
  shows "is_word c" and "\<not> is_upper c"
proof -
  from assms obtain d where "d \<in> set (replace_nonword key)" and c: "c = lower_char d"
    by (auto simp: sanitize_def ToLower_def)
  then have "is_word d" by (intro replace_nonword_word)
  then show "is_word c" and "\<not> is_upper c" by (simp_all add: c lower_char_word)
qed

definition clean_key :: "string \<Rightarrow> bool" where
  "clean_key k \<longleftrightarrow> (\<forall>c \<in> set k. is_word c \<and> \<not> is_upper c)"

lemma clean_sanitize [simp]: "clean_key (sanitize key)"
  by (auto simp: clean_key_def dest: sanitize_chars)

lemma not_word_equals [simp]: "\<not> is_word CHR ''=''"
  by code_simp

lemma clean_key_no_equals: "clean_key k \<Longrightarrow> CHR ''='' \<notin> set k"
  by (auto simp: clean_key_def)

lemma label_block_clean: "kv \<in> set (label_block R ord labelKeys i q) \<Longrightarrow> clean_key (fst kv)"
  by (auto simp: label_block_def split: option.splits)

lemma labels_from_clean: "kv \<in> set (labels_from R ord labelKeys i qs) \<Longrightarrow> clean_key (fst kv)"
  by (induction qs arbitrary: i) (auto dest: label_block_clean)

lemma label_block_mset:
  "is_order (ord i) \<Longrightarrow>
   mset (label_block R ord labelKeys i q) = mset (label_block R (\<lambda>_ m. m) labelKeys i q)"
  by (auto simp: label_block_def is_order_mset [of "ord i"] split: option.split)

lemma labels_from_mset:
  "(\<And>i. is_order (ord i)) \<Longrightarrow>
   mset (labels_from R ord labelKeys i qs) = mset (labels_from R (\<lambda>_ m. m) labelKeys i qs)"
  by (induction qs arbitrary: i) (simp_all add: label_block_mset [of ord])

section \<open>What a metric contributes\<close>

text \<open>A metric whose label values all have a key.\<close>

definition metric_wf :: "metric_type \<Rightarrow> bool" where
  "metric_wf m \<longleftrightarrow> length (m_LabelValues m) \<le> length (m_LabelKeys m)"

definition metric_labels ::
    "cel_engine \<Rightarrow> (nat \<Rightarrow> entry_order) \<Rightarrow> resolver_inst \<Rightarrow> obj \<Rightarrow> metric_type \<Rightarrow> (string \<times> string) list" where
  "metric_labels cel ord inst obj m =
     labels_from (\<lambda>q. Resolve cel inst q obj) ord (m_LabelKeys m) 0 (m_LabelValues m)"

definition metric_value :: "cel_engine \<Rightarrow> resolver_inst \<Rightarrow> obj \<Rightarrow> metric_type \<Rightarrow> float64 option" where
  "metric_value cel inst obj m =
     Option.bind (gm_get (Resolve cel inst (m_Value m) obj) (m_Value m)) ParseFloat"

definition gvk_pairs :: "obj \<Rightarrow> (string \<times> string) list" where
  "gvk_pairs obj = (let gvk = GroupVersionKind obj in gvk_labels (gvk_Group gvk) (gvk_Version gvk) (gvk_Kind gvk))"

definition series_line :: "family_type \<Rightarrow> (string \<times> string) list \<Rightarrow> float64 \<Rightarrow> string" where
  "series_line f kvs x =
     kubeCustomResourcePrefix @ f_Name f @ series_head kvs @ format_f x @ [newline]"

lemma metric_raw_eq:
  assumes srt: "slice_sort srt" and wf: "metric_wf m"
    and inst: "family_resolver f (m_Resolver m) = Some inst"
  shows "\<exists>ks vs. sortLabelset srt (map fst (metric_labels cel ord inst obj m))
                                  (map snd (metric_labels cel ord inst obj m)) = Inr (ks, vs)
     \<and> metric_raw srt cel ord f obj m =
        (case metric_value cel inst obj m of
           None \<Rightarrow> Inr []
         | Some x \<Rightarrow> Inr (series_line f (zip ks vs @ gvk_pairs obj) x))"
proof -
  let ?L = "metric_labels cel ord inst obj m"
  have len: "length (map fst ?L) = length (map snd ?L)" by simp
  obtain ks vs where s: "sortLabelset srt (map fst ?L) (map snd ?L) = Inr (ks, vs)"
    using sortLabelset_spec [OF srt len] by blast
  have "resolve_labels (\<lambda>q. Resolve cel inst q obj) ord (m_LabelKeys m) 0 (m_LabelValues m) [] []
      = Inr (map fst ?L, map snd ?L)"
    using wf by (simp add: metric_wf_def metric_labels_def resolve_labels_eq)
  then have "metric_raw srt cel ord f obj m =
        (case metric_value cel inst obj m of
           None \<Rightarrow> Inr []
         | Some x \<Rightarrow> Inr (series_line f (zip ks vs @ gvk_pairs obj) x))"
    by (simp add: metric_raw_def inst writeMetricTo_eq [OF srt len s] metric_value_def
        series_line_def gvk_pairs_def Let_def split: option.split)
  with s show ?thesis by blast
qed

lemma metric_raw_no_panic:
  assumes "slice_sort srt" and "metric_wf m"
  shows "\<exists>raw. metric_raw srt cel ord f obj m = Inr raw"
proof (cases "family_resolver f (m_Resolver m)")
  case (Some inst)
  then show ?thesis
    using metric_raw_eq [OF assms Some, of cel ord obj] by (auto split: option.split)
qed (simp add: metric_raw_def)

text \<open>The sanitized label keys of the metric on this object are pairwise different.\<close>

definition distinct_labels :: "cel_engine \<Rightarrow> family_type \<Rightarrow> obj \<Rightarrow> metric_type \<Rightarrow> bool" where
  "distinct_labels cel f obj m =
     (case family_resolver f (m_Resolver m) of
        None \<Rightarrow> True
      | Some inst \<Rightarrow> distinct (map fst (metric_labels cel (\<lambda>_ m. m) inst obj m)))"

lemma metric_raw_deterministic:
  assumes s: "slice_sort s" "slice_sort s'" and o: "\<And>i. is_order (ord i)" "\<And>i. is_order (ord' i)"
    and wf: "metric_wf m" and d: "distinct_labels cel f obj m"
  shows "metric_raw s cel ord f obj m = metric_raw s' cel ord' f obj m"
proof (cases "family_resolver f (m_Resolver m)")
  case (Some inst)
  let ?L = "metric_labels cel ord inst obj m" and ?L' = "metric_labels cel ord' inst obj m"
  have "mset ?L = mset (metric_labels cel (\<lambda>_ m. m) inst obj m)"
    and "mset ?L' = mset (metric_labels cel (\<lambda>_ m. m) inst obj m)"
    unfolding metric_labels_def by (rule labels_from_mset, rule o)+
  then have ms: "mset ?L = mset (metric_labels cel (\<lambda>_ m. m) inst obj m)" "mset ?L' = mset ?L"
    by simp_all
  then have "mset (map fst ?L) = mset (map fst (metric_labels cel (\<lambda>_ m. m) inst obj m))"
    by (simp only: mset_map)
  from mset_eq_imp_distinct_iff [OF this] d Some have "distinct (map fst ?L)"
    by (simp add: distinct_labels_def)
  moreover have "mset (zip (map fst ?L) (map snd ?L)) = mset (zip (map fst ?L') (map snd ?L'))"
    using ms by (simp add: zip_map_fst_snd)
  ultimately have "sortLabelset s (map fst ?L) (map snd ?L) = sortLabelset s' (map fst ?L') (map snd ?L')"
    using s by (intro sortLabelset_deterministic) auto
  then show ?thesis
    using metric_raw_eq [OF s(1) wf Some, of cel ord obj] metric_raw_eq [OF s(2) wf Some, of cel ord' obj]
    by auto
qed (simp add: metric_raw_def)

section \<open>Families\<close>

text \<open>No \<^verbatim>\<open>nil\<close> metric, and no label value without a key, in the metrics or in the family.\<close>

definition family_wf :: "family_type \<Rightarrow> bool" where
  "family_wf f \<longleftrightarrow>
     (\<forall>p \<in> set (f_Metrics f). \<exists>m. p = Some m \<and> metric_wf m)
     \<and> length (f_LabelValues f) \<le> length (f_LabelKeys f)"

lemma inherit_labels_wf:
  "metric_wf m \<Longrightarrow> length (f_LabelValues f) \<le> length (f_LabelKeys f) \<Longrightarrow> metric_wf (inherit_labels f m)"
  by (simp add: metric_wf_def inherit_labels_def)

abbreviation inherited :: "family_type \<Rightarrow> metric_type option list" where
  "inherited f \<equiv> map (map_option (inherit_labels f)) (f_Metrics f)"

lemma raw_metrics_Inr:
  assumes "raw_metrics srt cel ord f obj j ps = Inr (ps', raw)"
  shows "ps' = map (map_option (inherit_labels f)) ps
    \<and> (\<exists>texts. raw = concat texts \<and> length texts = length ps
        \<and> (\<forall>i < length ps. \<exists>m. ps ! i = Some m
             \<and> metric_raw srt cel (ord (j + i)) f obj (inherit_labels f m) = Inr (texts ! i)))"
  using assms
proof (induction ps arbitrary: j ps' raw)
  case (Cons p ps)
  from Cons.prems obtain m t qs rest where
    p: "p = Some m" and t: "metric_raw srt cel (ord j) f obj (inherit_labels f m) = Inr t"
    and r: "raw_metrics srt cel ord f obj (Suc j) ps = Inr (qs, rest)"
    and eq: "ps' = Some (inherit_labels f m) # qs" "raw = t @ rest"
    by (cases p) (auto simp: go_bind_eq_Inr Let_def)
  from Cons.IH [OF r] obtain texts where
    "qs = map (map_option (inherit_labels f)) ps" "rest = concat texts" "length texts = length ps"
    "\<forall>i < length ps. \<exists>m. ps ! i = Some m
       \<and> metric_raw srt cel (ord (Suc j + i)) f obj (inherit_labels f m) = Inr (texts ! i)"
    by blast
  with p t eq show ?case
    by (intro conjI exI [of _ "t # texts"]) (auto simp: less_Suc_eq_0_disj)
qed simp

lemma raw_metrics_no_panic:
  assumes "slice_sort srt" and "\<forall>p \<in> set ps. \<exists>m. p = Some m \<and> metric_wf (inherit_labels f m)"
  shows "\<exists>ps' raw. raw_metrics srt cel ord f obj j ps = Inr (ps', raw)"
  using assms(2)
proof (induction ps arbitrary: j)
  case (Cons p ps)
  then obtain m where p: "p = Some m" "metric_wf (inherit_labels f m)" by auto
  obtain t where "metric_raw srt cel (ord j) f obj (inherit_labels f m) = Inr t"
    using metric_raw_no_panic [OF assms(1) p(2)] by blast
  moreover obtain qs rest where "raw_metrics srt cel ord f obj (Suc j) ps = Inr (qs, rest)"
    using Cons by fastforce
  ultimately show ?case by (simp add: p(1) Let_def)
qed simp

lemma rawFrom_no_panic:
  assumes "slice_sort srt" and "family_wf f"
  shows "\<exists>f' raw. rawFrom srt cel ord f obj = Inr (f', raw)"
proof -
  have "\<forall>p \<in> set (f_Metrics f). \<exists>m. p = Some m \<and> metric_wf (inherit_labels f m)"
    using assms(2) inherit_labels_wf by (fastforce simp: family_wf_def)
  then show ?thesis
    using raw_metrics_no_panic [OF assms(1), of "f_Metrics f" f cel ord obj 0]
    by (auto simp: rawFrom_def)
qed

lemma rawFrom_family:
  "rawFrom srt cel ord f obj = Inr (f', raw) \<Longrightarrow> f' = f\<lparr>f_Metrics := inherited f\<rparr>"
  by (auto simp: rawFrom_def go_bind_eq_Inr dest!: raw_metrics_Inr)

lemma rawFrom_wf:
  assumes "family_wf f" and "rawFrom srt cel ord f obj = Inr (f', raw)"
  shows "family_wf f'"
  using assms inherit_labels_wf
  by (fastforce simp: rawFrom_family [OF assms(2)] family_wf_def)

lemma rawFrom_texts:
  assumes "rawFrom srt cel ord f obj = Inr (f', raw)"
  shows "\<exists>texts. raw = concat texts \<and> length texts = length (f_Metrics f)
    \<and> (\<forall>i < length texts. \<exists>m. f_Metrics f ! i = Some m
         \<and> metric_raw srt cel (ord i) f obj (inherit_labels f m) = Inr (texts ! i))"
  using assms by (auto simp: rawFrom_def go_bind_eq_Inr dest!: raw_metrics_Inr)

text \<open>Every sanitized key of every metric of the family is used once on this object.\<close>

definition family_distinct :: "cel_engine \<Rightarrow> family_type \<Rightarrow> obj \<Rightarrow> bool" where
  "family_distinct cel f obj \<longleftrightarrow>
     (\<forall>m. Some m \<in> set (f_Metrics f) \<longrightarrow> distinct_labels cel f obj (inherit_labels f m))"

lemma raw_metrics_deterministic:
  assumes "slice_sort s" and "slice_sort s'"
    and "\<And>j i. is_order (ord j i)" and "\<And>j i. is_order (ord' j i)"
    and "\<forall>p \<in> set ps. \<exists>m. p = Some m \<and> metric_wf (inherit_labels f m)
           \<and> distinct_labels cel f obj (inherit_labels f m)"
  shows "raw_metrics s cel ord f obj j ps = raw_metrics s' cel ord' f obj j ps"
  using assms(5)
proof (induction ps arbitrary: j)
  case (Cons p ps)
  then obtain m where p: "p = Some m" "metric_wf (inherit_labels f m)"
    "distinct_labels cel f obj (inherit_labels f m)" by auto
  have "metric_raw s cel (ord j) f obj (inherit_labels f m)
      = metric_raw s' cel (ord' j) f obj (inherit_labels f m)"
    using assms(1-4) p(2,3) by (rule metric_raw_deterministic)
  with Cons p(1) show ?case by simp
qed simp

text \<open>The lines a family writes: each is one series that reads back.\<close>

definition readable_series :: "family_type \<Rightarrow> obj \<Rightarrow> string \<Rightarrow> bool" where
  "readable_series f obj t \<longleftrightarrow>
     (\<exists>line kvs x. t = kubeCustomResourcePrefix @ f_Name f @ line
        \<and> read_series line = Some (kvs @ gvk_pairs obj, format_f x)
        \<and> (\<forall>kv \<in> set kvs. clean_key (fst kv)) \<and> sorted_wrt key_le (map fst kvs))"

lemma series_line_readable:
  assumes "slice_sort srt" and "sortLabelset srt (map fst L) (map snd L) = Inr (ks, vs)"
    and clean: "\<forall>kv \<in> set L. clean_key (fst kv)"
  shows "readable_series f obj (series_line f (zip ks vs @ gvk_pairs obj) x)"
proof -
  have m: "mset (zip ks vs) = mset L" and so: "sorted_wrt key_le ks" and len: "length ks = length vs"
    using sortLabelset_spec [OF assms(1), of "map fst L" "map snd L"] assms(2)
    by (auto simp: zip_map_fst_snd)
  have c: "\<forall>kv \<in> set (zip ks vs). clean_key (fst kv)"
    using clean mset_eq_setD [OF m] by simp
  have "\<forall>kv \<in> set (zip ks vs @ gvk_pairs obj). CHR ''='' \<notin> set (fst kv)"
    using c clean_key_no_equals by (auto simp: gvk_pairs_def gvk_labels_def Let_def)
  then have "read_series (series_head (zip ks vs @ gvk_pairs obj) @ format_f x @ [newline])
      = Some (zip ks vs @ gvk_pairs obj, format_f x)"
    by (intro read_series_head) (auto simp: gvk_pairs_def gvk_labels_def Let_def)
  then show ?thesis
    unfolding readable_series_def series_line_def using c so len
    by (intro exI conjI) (auto simp: append_assoc)
qed

lemma metric_raw_readable:
  assumes "slice_sort srt" and "metric_wf m" and "metric_raw srt cel ord f obj m = Inr t"
  shows "t = [] \<or> readable_series f obj t"
proof (cases "family_resolver f (m_Resolver m)")
  case None
  with assms(3) show ?thesis by (simp add: metric_raw_def)
next
  case (Some inst)
  let ?L = "metric_labels cel ord inst obj m"
  obtain ks vs where s: "sortLabelset srt (map fst ?L) (map snd ?L) = Inr (ks, vs)"
    and t: "metric_raw srt cel ord f obj m = (case metric_value cel inst obj m of
           None \<Rightarrow> Inr [] | Some x \<Rightarrow> Inr (series_line f (zip ks vs @ gvk_pairs obj) x))"
    using metric_raw_eq [OF assms(1,2) Some] by blast
  have "\<forall>kv \<in> set ?L. clean_key (fst kv)"
    by (auto simp: metric_labels_def dest: labels_from_clean)
  with series_line_readable [OF assms(1) s] t assms(3) show ?thesis
    by (auto split: option.splits)
qed

section \<open>Properties\<close>

text \<open>An object and a family the examples use.\<close>

definition sample_object :: obj where
  "sample_object =
     [(''apiVersion'', GString ''contoso.com/v1''), (''kind'', GString ''Widget''),
      (''metadata'', GMap [(''name'', GString ''w1''), (''uid'', GString ''u1'')]),
      (''spec'', GMap [(''size'', GInt64 3)])]"

definition sample_metric :: metric_type where
  "sample_metric = \<lparr>m_LabelKeys = [''Name''], m_LabelValues = [''metadata.name''],
     m_Value = ''spec.size'', m_Resolver = ResolverTypeUnstructured\<rparr>"

definition sample_family :: family_type where
  "sample_family = \<lparr>f_Name = ''widget_size'', f_Help = ''size'', f_t = [],
     f_Metrics = [Some sample_metric], f_Resolver = ResolverTypeNone,
     f_LabelKeys = [], f_LabelValues = []\<rparr>"

lemma sample_family_wf: "family_wf sample_family"
  by (simp add: sample_family_def family_wf_def metric_wf_def sample_metric_def)

text \<open>C12: a family without nil metrics and with a key for every label value never panics on any
  object; its text is one part per metric, in order, and each part is empty or is one series
  of the family that reads back: labels with clean names in order, the object's group,
  version and kind, and a value.\<close>

theorem rawFrom_lines:
  assumes "slice_sort srt" and "family_wf f"
  shows "\<exists>f' texts. rawFrom srt cel ord f obj = Inr (f', concat texts)
    \<and> length texts = length (f_Metrics f)
    \<and> (\<forall>t \<in> set texts. t = [] \<or> readable_series f obj t)"
proof -
  obtain f' raw where r: "rawFrom srt cel ord f obj = Inr (f', raw)"
    using rawFrom_no_panic [OF assms] by blast
  from rawFrom_texts [OF r] obtain texts where t: "raw = concat texts" "length texts = length (f_Metrics f)"
    "\<forall>i < length texts. \<exists>m. f_Metrics f ! i = Some m
       \<and> metric_raw srt cel (ord i) f obj (inherit_labels f m) = Inr (texts ! i)"
    by blast
  have "t = [] \<or> readable_series f obj t" if "t \<in> set texts" for t
  proof -
    from that obtain i where i: "i < length texts" "t = texts ! i" by (auto simp: in_set_conv_nth)
    with t(2,3) obtain m where m: "Some m \<in> set (f_Metrics f)"
      "metric_raw srt cel (ord i) f obj (inherit_labels f m) = Inr t"
      by (metis nth_mem)
    from m(1) assms(2) have "metric_wf (inherit_labels f m)"
      by (auto simp: family_wf_def intro!: inherit_labels_wf)
    with assms(1) show ?thesis using m(2) by (rule metric_raw_readable)
  qed
  with r t show ?thesis by blast
qed

theorem rawFrom_lines_witness:
  "\<exists>f' texts. rawFrom insertionSort (\<lambda>_ _ _. EnvError) (\<lambda>_ _ m. m) sample_family sample_object = Inr (f', concat texts)
    \<and> length texts = length (f_Metrics sample_family)
    \<and> (\<forall>t \<in> set texts. t = [] \<or> readable_series sample_family sample_object t)"
  by (rule rawFrom_lines) (simp_all add: insertion.slice_sort_axioms sample_family_wf)

text \<open>C28: for a family without nil metrics and with a key for every label value, and an object on
  which the sanitized label names of each metric, the inherited ones included, are different, the
  text of the family is the same for every order in which Go visits the resolved label sets and for
  every correct sorting algorithm.\<close>

theorem rawFrom_deterministic:
  assumes "slice_sort s" and "slice_sort s'"
    and "\<And>j i. is_order (ord j i)" and "\<And>j i. is_order (ord' j i)"
    and "family_wf f" and "family_distinct cel f obj"
  shows "rawFrom s cel ord f obj = rawFrom s' cel ord' f obj"
proof -
  have "\<forall>p \<in> set (f_Metrics f). \<exists>m. p = Some m \<and> metric_wf (inherit_labels f m)
           \<and> distinct_labels cel f obj (inherit_labels f m)"
    using assms(5,6) inherit_labels_wf by (fastforce simp: family_wf_def family_distinct_def)
  then have "raw_metrics s cel ord f obj 0 (f_Metrics f) = raw_metrics s' cel ord' f obj 0 (f_Metrics f)"
    by (intro raw_metrics_deterministic assms)
  then show ?thesis by (simp add: rawFrom_def)
qed

theorem rawFrom_deterministic_witness:
  "rawFrom insertionSort (\<lambda>_ _ _. EnvError) (\<lambda>_ _ m. m) sample_family sample_object
     = rawFrom insertionSort (\<lambda>_ _ _. EnvError) (\<lambda>_ _. rev) sample_family sample_object"
proof (rule rawFrom_deterministic)
  show "family_distinct (\<lambda>_ _ _. EnvError) sample_family sample_object"
    by (auto simp: family_distinct_def sample_family_def sample_metric_def inherit_labels_def
        distinct_labels_def metric_labels_def label_block_def family_resolver_def Let_def
        ResolverTypeNone_def ResolverTypeCEL_def ResolverTypeUnstructured_def Unstructured_Resolve_eq)
qed (simp_all add: insertion.slice_sort_axioms sample_family_wf)

text \<open>A metric with as many label keys as values contributes no text exactly when its
  resolver is unknown, its value query has no answer of its own, or the answer is not a
  float.\<close>

theorem metric_skipped_iff:
  assumes "slice_sort srt" and "metric_wf m"
  shows "(metric_raw srt cel ord f obj m = Inr []) =
    (case family_resolver f (m_Resolver m) of
       None \<Rightarrow> True
     | Some inst \<Rightarrow>
         (case gm_get (Resolve cel inst (m_Value m) obj) (m_Value m) of
            None \<Rightarrow> True
          | Some v \<Rightarrow> ParseFloat v = None))"
proof (cases "family_resolver f (m_Resolver m)")
  case (Some inst)
  have "series_line f kvs x \<noteq> []" for kvs x
    by (simp add: series_line_def)
  then show ?thesis
    using metric_raw_eq [OF assms Some, of cel ord obj] Some
    by (cases "metric_value cel inst obj m") (auto simp: metric_value_def bind_eq_Some_conv split: option.splits)
qed (simp add: metric_raw_def)

theorem metric_skipped_iff_witness:
  "(metric_raw insertionSort (\<lambda>_ _ _. EnvError) (\<lambda>_ m. m) sample_family sample_object
      (sample_metric\<lparr>m_Resolver := ''other''\<rparr>) = Inr []) = True"
proof -
  have "family_resolver sample_family ''other'' = None"
    by (simp add: family_resolver_def ResolverTypeNone_def ResolverTypeCEL_def
        ResolverTypeUnstructured_def Let_def)
  then show ?thesis
    using metric_skipped_iff [OF insertion.slice_sort_axioms,
        of "sample_metric\<lparr>m_Resolver := ''other''\<rparr>" "\<lambda>_ _ _. EnvError" "\<lambda>_ m. m" sample_family sample_object]
    by (simp add: metric_wf_def sample_metric_def)
qed

lemma Unstructured_Resolve_own: "gm_get (Unstructured_Resolve query obj) query \<noteq> None"
  by (simp add: Unstructured_Resolve_eq)

lemma is_order_empty: "is_order ord \<Longrightarrow> ord m = [] \<longleftrightarrow> m = []"
  using is_order_mset [of ord m] by (metis mset_zero_iff)

text \<open>The loop over the label values reads past the keys as soon as a value beyond them yields a
  label; a value that yields none is passed over.\<close>

lemma resolve_labels_excess:
  assumes "\<And>i. is_order (ord i)" and "j < length qs" and "length labelKeys \<le> i + j" and "R (qs ! j) \<noteq> []"
  shows "resolve_labels R ord labelKeys i qs ks vs = Inl IndexOutOfRange"
  using assms(2-4)
proof (induction qs arbitrary: i j ks vs)
  case (Cons q qs)
  have here: "resolve_labels R ord labelKeys i (q # qs) ks vs = Inl IndexOutOfRange"
    if "length labelKeys \<le> i" "R q \<noteq> []"
    using that is_order_empty [OF assms(1)]
    by (cases "gm_get (R q) q") (simp_all add: Let_def go_nth_def expand_labels_panic)
  show ?case
  proof (cases j)
    case 0
    with Cons.prems here show ?thesis by simp
  next
    case (Suc k)
    with Cons.prems have later: "resolve_labels R ord labelKeys (Suc i) qs ks' vs' = Inl IndexOutOfRange" for ks' vs'
      by (intro Cons.IH [of k]) simp_all
    show ?thesis
    proof (cases "i < length labelKeys \<or> R q = []")
      case True
      then show ?thesis using later is_order_empty [OF assms(1), of i "[]"]
        by (cases "gm_get (R q) q") (auto simp: Let_def expand_labels_eq)
    qed (use here in simp)
  qed
qed simp

lemma resolve_labels_ok:
  assumes "\<And>i. is_order (ord i)" and "\<And>j. j < length qs \<Longrightarrow> length labelKeys \<le> i + j \<Longrightarrow> R (qs ! j) = []"
    and "length ks = length vs"
  shows "\<exists>ks' vs'. resolve_labels R ord labelKeys i qs ks vs = Inr (ks', vs') \<and> length ks' = length vs'"
  using assms(2,3)
proof (induction qs arbitrary: i ks vs)
  case (Cons q qs)
  have later: "\<exists>ks'' vs''. resolve_labels R ord labelKeys (Suc i) qs ks' vs' = Inr (ks'', vs'') \<and> length ks'' = length vs''"
    if "length ks' = length vs'" for ks' vs'
    using Cons.prems(1) [of "Suc _"] that by (intro Cons.IH) simp_all
  have "i < length labelKeys \<or> R q = []" using Cons.prems(1) [of 0] by (simp add: not_less [symmetric]) blast
  then show ?case using later Cons.prems(2) is_order_empty [OF assms(1), of i "[]"]
    by (cases "gm_get (R q) q") (auto simp: Let_def expand_labels_eq)
qed simp

text \<open>C31: a label value without a key is not reported as an error: a metric panics on an object, by an
  index out of range, if and only if its resolver is known and some label value beyond its keys
  resolves to at least one label there. With the unstructured resolver, whose answers are never
  empty, every excess value panics; with CEL an excess value that yields an empty map or list, or
  a composite value only, does not.\<close>

theorem excess_label_values_panic:
  assumes "slice_sort srt" and "\<And>i. is_order (ord i)"
  shows "((\<exists>e. metric_raw srt cel ord f obj m = Inl e) \<longleftrightarrow>
      (\<exists>inst j. family_resolver f (m_Resolver m) = Some inst \<and> length (m_LabelKeys m) \<le> j
         \<and> j < length (m_LabelValues m) \<and> Resolve cel inst (m_LabelValues m ! j) obj \<noteq> []))
    \<and> (\<forall>e. metric_raw srt cel ord f obj m = Inl e \<longrightarrow> e = IndexOutOfRange)"
proof (cases "family_resolver f (m_Resolver m)")
  case (Some inst)
  let ?R = "\<lambda>q. Resolve cel inst q obj"
  show ?thesis
  proof (cases "\<exists>j. length (m_LabelKeys m) \<le> j \<and> j < length (m_LabelValues m) \<and> ?R (m_LabelValues m ! j) \<noteq> []")
    case True
    then obtain j where "length (m_LabelKeys m) \<le> 0 + j" "j < length (m_LabelValues m)" "?R (m_LabelValues m ! j) \<noteq> []"
      by (elim exE conjE) simp
    from resolve_labels_excess [where R = ?R, OF assms(2) this(2,1,3)]
    have "resolve_labels ?R ord (m_LabelKeys m) 0 (m_LabelValues m) [] [] = Inl IndexOutOfRange" .
    then have "metric_raw srt cel ord f obj m = Inl IndexOutOfRange" by (simp add: metric_raw_def Some Let_def)
    with True Some show ?thesis by simp
  next
    case False
    have "\<exists>ks vs. resolve_labels ?R ord (m_LabelKeys m) 0 (m_LabelValues m) [] [] = Inr (ks, vs) \<and> length ks = length vs"
      by (rule resolve_labels_ok) (use assms(2) False in simp_all)
    then obtain ks vs where
      r: "resolve_labels ?R ord (m_LabelKeys m) 0 (m_LabelValues m) [] [] = Inr (ks, vs)" "length ks = length vs"
      by blast
    obtain ks' vs' where s: "sortLabelset srt ks vs = Inr (ks', vs')"
      using sortLabelset_spec [OF assms(1) r(2)] by blast
    have "\<exists>raw. metric_raw srt cel ord f obj m = Inr raw"
      by (simp add: metric_raw_def Some r(1) writeMetricTo_eq [OF assms(1) r(2) s] Let_def split: option.split)
    with False Some show ?thesis by auto
  qed
qed (simp add: metric_raw_def)

lemma unstructured_excess_panics:
  assumes "slice_sort srt" and "\<And>i. is_order (ord i)"
    and "family_resolver f (m_Resolver m) = Some UnstructuredResolver"
    and "length (m_LabelKeys m) < length (m_LabelValues m)"
  shows "metric_raw srt cel ord f obj m = Inl IndexOutOfRange"
proof -
  have "resolve_labels (\<lambda>q. Resolve cel UnstructuredResolver q obj) ord (m_LabelKeys m) 0 (m_LabelValues m) [] []
      = Inl IndexOutOfRange"
    by (rule resolve_labels_excess [where j = "length (m_LabelKeys m)"])
      (use assms(2,4) in \<open>simp_all add: Unstructured_Resolve_eq\<close>)
  then show ?thesis by (simp add: metric_raw_def assms(3) Let_def)
qed

theorem excess_label_values_panic_witness:
  "(\<exists>e. metric_raw insertionSort (\<lambda>_ _ _. Out (CMap (GMap [(''k'', GString ''v'')]))) (\<lambda>_ m. m) sample_family sample_object
     (sample_metric\<lparr>m_LabelKeys := [], m_Resolver := ResolverTypeCEL\<rparr>) = Inl e)
   \<and> (\<nexists>e. metric_raw insertionSort (\<lambda>_ _ _. Out (CMap (GMap []))) (\<lambda>_ m. m) sample_family sample_object
     (sample_metric\<lparr>m_LabelKeys := [], m_Resolver := ResolverTypeCEL\<rparr>) = Inl e)"
proof -
  have cel: "family_resolver sample_family ResolverTypeCEL = Some CELResolver"
    by (simp add: family_resolver_def ResolverTypeNone_def ResolverTypeCEL_def Let_def)
  note panics = excess_label_values_panic [where ord = "\<lambda>_ m. m", OF insertion.slice_sort_axioms is_order_id, THEN conjunct1]
  show ?thesis
    unfolding panics
    by (simp add: sample_metric_def cel CEL_Resolve_def resolveMap_def)
qed

end
