(* ===== verification/Cache_Store.thy ===== *)
theory Cache_Store
  imports Prelude
begin

text \<open>
  The contract between a reflector and the store it drives, as far as the keys of the store
  are concerned: an object that is added is stored under its key, an object that is deleted
  is gone, nothing else changes, and neither operation fails. The lemma about \<open>replay\<close> is
  what a reflector gets from any such store: after a sequence of changes the keys are those
  of the objects that were put and not dropped since.
\<close>

datatype 'o change = Put 'o | Drop 'o

fun replay :: "('s \<Rightarrow> 'o \<Rightarrow> 's go) \<Rightarrow> ('s \<Rightarrow> 'o \<Rightarrow> 's) \<Rightarrow> 'o change list \<Rightarrow> 's \<Rightarrow> 's go" where
  "replay add del [] s = Inr s"
| "replay add del (Put x # cs) s = go_bind (add s x) (replay add del cs)"
| "replay add del (Drop x # cs) s = replay add del cs (del s x)"

fun live_keys :: "('o \<Rightarrow> 'k) \<Rightarrow> 'o change list \<Rightarrow> 'k set \<Rightarrow> 'k set" where
  "live_keys key [] K = K"
| "live_keys key (Put x # cs) K = live_keys key cs (insert (key x) K)"
| "live_keys key (Drop x # cs) K = live_keys key cs (K - {key x})"

fun change_key :: "('o \<Rightarrow> 'k) \<Rightarrow> 'o change \<Rightarrow> 'k" where
  "change_key key (Put x) = key x"
| "change_key key (Drop x) = key x"

locale object_store =
  fixes add :: "'s \<Rightarrow> 'o \<Rightarrow> 's go"
    and del :: "'s \<Rightarrow> 'o \<Rightarrow> 's"
    and key :: "'o \<Rightarrow> 'k"
    and view :: "'s \<Rightarrow> 'k \<Rightarrow> 'v option"
    and inv :: "'s \<Rightarrow> bool"
  assumes add_ok: "inv s \<Longrightarrow> \<exists>s' v. add s x = Inr s' \<and> inv s' \<and> view s' = (view s)(key x \<mapsto> v)"
    and del_ok: "inv s \<Longrightarrow> inv (del s x) \<and> view (del s x) = (view s)(key x := None)"
begin

lemma replay_keys:
  "inv s \<Longrightarrow> \<exists>s'. replay add del cs s = Inr s' \<and> inv s'
     \<and> dom (view s') = live_keys key cs (dom (view s))"
proof (induction cs arbitrary: s)
  case (Cons c cs)
  show ?case
  proof (cases c)
    case (Put x)
    obtain s1 v where s1: "add s x = Inr s1" "inv s1" and v: "view s1 = (view s)(key x \<mapsto> v)"
      using add_ok [OF Cons.prems] by blast
    from v have "dom (view s1) = insert (key x) (dom (view s))" by simp
    with s1 Cons.IH [OF s1(2)] show ?thesis by (simp add: Put)
  next
    case (Drop x)
    have "inv (del s x)" and "dom (view (del s x)) = dom (view s) - {key x}"
      using del_ok [OF Cons.prems] by simp_all
    with Cons.IH [of "del s x"] show ?thesis by (simp add: Drop)
  qed
qed simp

lemma replay_untouched:
  assumes "inv s" and "replay add del cs s = Inr s'" and "k \<notin> change_key key ` set cs"
  shows "view s' k = view s k"
  using assms
proof (induction cs arbitrary: s)
  case (Cons c cs)
  show ?case
  proof (cases c)
    case (Put x)
    obtain s1 v where "add s x = Inr s1" "inv s1" "view s1 = (view s)(key x \<mapsto> v)"
      using add_ok [OF Cons.prems(1)] by blast
    with Cons show ?thesis by (auto simp: Put)
  next
    case (Drop x)
    have "inv (del s x)" "view (del s x) = (view s)(key x := None)"
      using del_ok [OF Cons.prems(1)] by simp_all
    with Cons show ?thesis by (auto simp: Drop)
  qed
qed simp

end

end
