(* ===== verification/Store.thy ===== *)
theory Store
  imports Family Cache_Store
begin

text \<open>
  \<^verbatim>\<open>internal/store.go\<close>: the store of the metrics of one kind of custom resource, which a
  cache reflector drives. The metrics map goes from an object's UID to the texts of the
  store's families, one text per family. \<open>Add\<close> hands the store's resolver and labels
  down to its families, which keep them; the store is returned updated. The mutex that
  every operation holds for its whole body is not part of this state.
\<close>

record store_type =
  metrics :: "(uid, string list) gomap"
  headers :: "string list"
  s_Group :: string
  s_Version :: string
  s_Kind :: string
  s_ResourceName :: string
  s_SelectorLabel :: string
  s_SelectorField :: string
  s_Families :: "family_type option list"
  s_Resolver :: resolver_type
  s_LabelKeys :: "string list"
  s_LabelValues :: "string list"

definition newStore ::
    "string list \<Rightarrow> family_type option list \<Rightarrow> resolver_type \<Rightarrow> string list \<Rightarrow> string list \<Rightarrow> store_type" where
  "newStore hdrs families rsv labelKeys labelValues =
     \<lparr>metrics = [], headers = hdrs,
      s_Group = [], s_Version = [], s_Kind = [], s_ResourceName = [],
      s_SelectorLabel = [], s_SelectorField = [],
      s_Families = families, s_Resolver = rsv,
      s_LabelKeys = labelKeys, s_LabelValues = labelValues\<rparr>"

text \<open>
  What the reflector hands to the store: an unstructured object, or something that neither
  converts to one nor has object metadata.
\<close>

datatype any_object = UnstructuredObj obj | NotAnObject

datatype store_error = ConvertError | CastError

text \<open>One order of label set entries per family, metric and label.\<close>

type_synonym range_orders = "nat \<Rightarrow> nat \<Rightarrow> nat \<Rightarrow> entry_order"

text \<open>The family with what it inherits from the store.\<close>

definition inherit_family :: "store_type \<Rightarrow> family_type \<Rightarrow> family_type" where
  "inherit_family s f =
     (let f = (if f_Resolver f = ResolverTypeNone then f\<lparr>f_Resolver := s_Resolver s\<rparr> else f) in
      f\<lparr>f_LabelKeys := f_LabelKeys f @ s_LabelKeys s,
        f_LabelValues := f_LabelValues f @ s_LabelValues s\<rparr>)"

fun add_families ::
    "sorter \<Rightarrow> cel_engine \<Rightarrow> range_orders \<Rightarrow> store_type \<Rightarrow> obj \<Rightarrow> nat \<Rightarrow> family_type option list
     \<Rightarrow> (family_type option list \<times> string list) go" where
  "add_families srt cel ord s obj i [] = Inr ([], [])"
| "add_families srt cel ord s obj i (p # ps) =
     go_bind (go_deref p) (\<lambda>f.
       go_bind (rawFrom srt cel (ord i) (inherit_family s f) obj) (\<lambda>(f', raw).
         go_bind (add_families srt cel ord s obj (Suc i) ps) (\<lambda>(fs, raws).
           Inr (Some f' # fs, raw # raws))))"

definition Add ::
    "sorter \<Rightarrow> cel_engine \<Rightarrow> range_orders \<Rightarrow> store_type \<Rightarrow> any_object
     \<Rightarrow> (store_type \<times> store_error option) go" where
  "Add srt cel ord s objectI =
     (case objectI of
        NotAnObject \<Rightarrow> Inr (s, Some ConvertError)
      | UnstructuredObj obj \<Rightarrow>
          go_bind (add_families srt cel ord s obj 0 (s_Families s)) (\<lambda>(families, familyMetrics).
            Inr (s\<lparr>s_Families := families,
                   metrics := gm_set (GetUID obj) familyMetrics (metrics s)\<rparr>, None)))"

definition Update ::
    "sorter \<Rightarrow> cel_engine \<Rightarrow> range_orders \<Rightarrow> store_type \<Rightarrow> any_object
     \<Rightarrow> (store_type \<times> store_error option) go" where
  "Update srt cel ord s objectI = Add srt cel ord s objectI"

definition Delete :: "store_type \<Rightarrow> any_object \<Rightarrow> store_type \<times> store_error option" where
  "Delete s objectI =
     (case objectI of
        NotAnObject \<Rightarrow> (s, Some CastError)
      | UnstructuredObj object \<Rightarrow> (s\<lparr>metrics := gm_del (GetUID object) (metrics s)\<rparr>, None))"

text \<open>The rest of \<^verbatim>\<open>cache.Store\<close>: the reads return nothing, \<open>Replace\<close> and \<open>Resync\<close> do nothing.\<close>

definition List :: "store_type \<Rightarrow> any_object list" where
  "List s = []"

definition ListKeys :: "store_type \<Rightarrow> string list" where
  "ListKeys s = []"

definition Get :: "store_type \<Rightarrow> any_object \<Rightarrow> any_object option \<times> bool \<times> store_error option" where
  "Get s x = (None, False, None)"

definition GetByKey :: "store_type \<Rightarrow> string \<Rightarrow> any_object option \<times> bool \<times> store_error option" where
  "GetByKey s key = (None, False, None)"

definition Replace :: "store_type \<Rightarrow> any_object list \<Rightarrow> string \<Rightarrow> store_type \<times> store_error option" where
  "Replace s objects resourceVersion = (s, None)"

definition Resync :: "store_type \<Rightarrow> store_type \<times> store_error option" where
  "Resync s = (s, None)"

section \<open>The invariant\<close>

text \<open>
  Every object has one text per header and per family, so that the writer may index the
  texts by the position of the header.
\<close>

definition store_shape :: "store_type \<Rightarrow> bool" where
  "store_shape s \<longleftrightarrow>
     gm_wf (metrics s) \<and> length (headers s) = length (s_Families s)
     \<and> (\<forall>e \<in> set (metrics s). length (snd e) = length (s_Families s))"

text \<open>The configuration has no \<^verbatim>\<open>nil\<close> pointer and no label value without a key, at any level.\<close>

definition store_config :: "store_type \<Rightarrow> bool" where
  "store_config s \<longleftrightarrow>
     (\<forall>p \<in> set (s_Families s). \<exists>f. p = Some f \<and> family_wf f)
     \<and> length (s_LabelValues s) \<le> length (s_LabelKeys s)"

definition store_wf :: "store_type \<Rightarrow> bool" where
  "store_wf s \<longleftrightarrow> store_shape s \<and> store_config s"

lemma inherit_family_wf: "family_wf f \<Longrightarrow> store_config s \<Longrightarrow> family_wf (inherit_family s f)"
  by (simp add: inherit_family_def family_wf_def store_config_def Let_def)

lemma add_families_Inr:
  assumes "add_families srt cel ord s obj i ps = Inr (fs, raws)"
  shows "length fs = length ps \<and> length raws = length ps
    \<and> (\<forall>k < length ps. \<exists>f f'. ps ! k = Some f \<and> fs ! k = Some f'
         \<and> rawFrom srt cel (ord (i + k)) (inherit_family s f) obj = Inr (f', raws ! k))"
  using assms
proof (induction ps arbitrary: i fs raws)
  case (Cons p ps)
  from Cons.prems obtain f f' raw fs' raws' where
    p: "p = Some f" and r: "rawFrom srt cel (ord i) (inherit_family s f) obj = Inr (f', raw)"
    and rec: "add_families srt cel ord s obj (Suc i) ps = Inr (fs', raws')"
    and eq: "fs = Some f' # fs'" "raws = raw # raws'"
    by (cases p) (auto simp: go_bind_eq_Inr)
  from Cons.IH [OF rec] p r eq show ?case
    by (auto simp: nth_Cons less_Suc_eq_0_disj split: nat.split)
qed simp

lemma add_families_no_panic:
  assumes "slice_sort srt" and "store_config s"
    and "\<forall>p \<in> set ps. \<exists>f. p = Some f \<and> family_wf f"
  shows "\<exists>fs raws. add_families srt cel ord s obj i ps = Inr (fs, raws)"
  using assms(3)
proof (induction ps arbitrary: i)
  case (Cons p ps)
  then obtain f where p: "p = Some f" "family_wf f" by auto
  obtain f' raw where "rawFrom srt cel (ord i) (inherit_family s f) obj = Inr (f', raw)"
    using rawFrom_no_panic [OF assms(1) inherit_family_wf [OF p(2) assms(2)]] by blast
  moreover obtain fs raws where "add_families srt cel ord s obj (Suc i) ps = Inr (fs, raws)"
    using Cons by fastforce
  ultimately show ?case by (simp add: p(1))
qed simp

lemma add_families_wf:
  assumes "add_families srt cel ord s obj i ps = Inr (fs, raws)" and "store_config s"
    and "\<forall>p \<in> set ps. \<exists>f. p = Some f \<and> family_wf f"
  shows "\<forall>p \<in> set fs. \<exists>f. p = Some f \<and> family_wf f"
proof
  fix p assume "p \<in> set fs"
  then obtain k where k: "k < length fs" "p = fs ! k" by (auto simp: in_set_conv_nth)
  with add_families_Inr [OF assms(1)] obtain f f' where
    f: "ps ! k = Some f" "p = Some f'" "k < length ps"
    "rawFrom srt cel (ord (i + k)) (inherit_family s f) obj = Inr (f', raws ! k)"
    by auto
  then have "family_wf f" using assms(3) by (metis nth_mem option.inject)
  then have "family_wf f'" using rawFrom_wf inherit_family_wf assms(2) f(4) by blast
  with f(2) show "\<exists>f. p = Some f \<and> family_wf f" by blast
qed

section \<open>What the operations do\<close>

lemma Add_object:
  assumes "slice_sort srt" and "store_wf s"
  shows "\<exists>s'. Add srt cel ord s (UnstructuredObj obj) = Inr (s', None) \<and> store_wf s'
    \<and> (\<exists>raws. metrics s' = gm_set (GetUID obj) raws (metrics s))"
proof -
  from assms(2) have c: "store_config s" and sh: "store_shape s" by (simp_all add: store_wf_def)
  from c have fw: "\<forall>p \<in> set (s_Families s). \<exists>f. p = Some f \<and> family_wf f"
    by (simp add: store_config_def)
  obtain fs raws where a: "add_families srt cel ord s obj 0 (s_Families s) = Inr (fs, raws)"
    using add_families_no_panic [OF assms(1) c fw] by blast
  let ?s' = "s\<lparr>s_Families := fs, metrics := gm_set (GetUID obj) raws (metrics s)\<rparr>"
  have len: "length fs = length (s_Families s)" "length raws = length (s_Families s)"
    using add_families_Inr [OF a] by simp_all
  have "store_shape ?s'"
    using sh len by (auto simp: store_shape_def set_gm_set gm_wf_set)
  moreover have "store_config ?s'"
    using add_families_wf [OF a c fw] c by (simp add: store_config_def)
  ultimately show ?thesis
    using a by (simp add: Add_def store_wf_def) blast
qed

lemma Delete_object:
  assumes "store_wf s"
  shows "\<exists>s'. Delete s (UnstructuredObj obj) = (s', None) \<and> store_wf s'
    \<and> metrics s' = gm_del (GetUID obj) (metrics s)"
  using assms
  by (auto simp: Delete_def store_wf_def store_shape_def store_config_def set_gm_del gm_wf_del)

text \<open>The shape needs nothing of the configuration.\<close>

lemma Add_shape:
  assumes "Add srt cel ord s objectI = Inr (s', err)" and "store_shape s"
  shows "store_shape s'"
proof (cases objectI)
  case (UnstructuredObj obj)
  with assms(1) obtain fs raws where
    a: "add_families srt cel ord s obj 0 (s_Families s) = Inr (fs, raws)"
    and s': "s' = s\<lparr>s_Families := fs, metrics := gm_set (GetUID obj) raws (metrics s)\<rparr>"
    by (auto simp: Add_def go_bind_eq_Inr)
  have "length fs = length (s_Families s)" "length raws = length (s_Families s)"
    using add_families_Inr [OF a] by simp_all
  with assms(2) show ?thesis by (auto simp: s' store_shape_def set_gm_set gm_wf_set)
next
  case NotAnObject
  with assms show ?thesis by (simp add: Add_def)
qed

lemma Delete_shape: "store_shape s \<Longrightarrow> store_shape (fst (Delete s objectI))"
  by (auto simp: Delete_def store_shape_def set_gm_del gm_wf_del split: any_object.split)

section \<open>The store as the reflector sees it\<close>

text \<open>An object comes with the orders in which its label sets are visited.\<close>

definition add_object ::
    "sorter \<Rightarrow> cel_engine \<Rightarrow> store_type \<Rightarrow> range_orders \<times> obj \<Rightarrow> store_type go" where
  "add_object srt cel s x =
     go_bind (Add srt cel (fst x) s (UnstructuredObj (snd x))) (\<lambda>(s', err). Inr s')"

definition delete_object :: "store_type \<Rightarrow> range_orders \<times> obj \<Rightarrow> store_type" where
  "delete_object s x = fst (Delete s (UnstructuredObj (snd x)))"

definition object_key :: "range_orders \<times> obj \<Rightarrow> uid" where
  "object_key x = GetUID (snd x)"

lemma store_is_object_store:
  assumes "slice_sort srt"
  shows "object_store (add_object srt cel) delete_object object_key (\<lambda>s. gm_get (metrics s)) store_wf"
proof
  fix s x assume s: "store_wf s"
  obtain s' raws where "Add srt cel (fst x) s (UnstructuredObj (snd x)) = Inr (s', None)"
    "store_wf s'" "metrics s' = gm_set (GetUID (snd x)) raws (metrics s)"
    using Add_object [OF assms s] by blast
  then show "\<exists>s' v. add_object srt cel s x = Inr s' \<and> store_wf s'
      \<and> gm_get (metrics s') = (gm_get (metrics s))(object_key x \<mapsto> v)"
    by (auto simp: add_object_def object_key_def update_conv')
  show "store_wf (delete_object s x)
      \<and> gm_get (metrics (delete_object s x)) = (gm_get (metrics s))(object_key x := None)"
    using Delete_object [OF s, of "snd x"] by (auto simp: delete_object_def object_key_def delete_conv')
qed

interpretation st: object_store "add_object insertionSort cel" delete_object object_key
    "\<lambda>s. gm_get (metrics s)" store_wf for cel
  by (rule store_is_object_store) (rule insertion.slice_sort_axioms)

section \<open>Labels accumulate\<close>

lemma Add_families:
  assumes "Add srt cel ord s (UnstructuredObj obj) = Inr (s', err)"
    and "k < length (s_Families s)"
  shows "\<exists>f raws. s_Families s ! k = Some f
    \<and> s_Families s' ! k = Some ((inherit_family s f)\<lparr>f_Metrics := inherited (inherit_family s f)\<rparr>)
    \<and> length (s_Families s') = length (s_Families s)
    \<and> s_LabelKeys s' = s_LabelKeys s \<and> s_LabelValues s' = s_LabelValues s \<and> s_Resolver s' = s_Resolver s
    \<and> gm_get (metrics s') (GetUID obj) = Some raws
    \<and> rawFrom srt cel (ord k) (inherit_family s f) obj
      = Inr ((inherit_family s f)\<lparr>f_Metrics := inherited (inherit_family s f)\<rparr>, raws ! k)"
proof -
  from assms(1) obtain fs raws where
    a: "add_families srt cel ord s obj 0 (s_Families s) = Inr (fs, raws)"
    and s': "s' = s\<lparr>s_Families := fs, metrics := gm_set (GetUID obj) raws (metrics s)\<rparr>"
    by (auto simp: Add_def go_bind_eq_Inr)
  from add_families_Inr [OF a] assms(2) obtain f f' where
    f: "s_Families s ! k = Some f" "fs ! k = Some f'"
    "rawFrom srt cel (ord k) (inherit_family s f) obj = Inr (f', raws ! k)"
    "length fs = length (s_Families s)"
    by auto
  with rawFrom_family [OF f(3)] show ?thesis by (auto simp: s' gm_get_set)
qed

fun add_all ::
    "sorter \<Rightarrow> cel_engine \<Rightarrow> store_type \<Rightarrow> (range_orders \<times> obj) list \<Rightarrow> store_type go" where
  "add_all srt cel s [] = Inr s"
| "add_all srt cel s (x # xs) = go_bind (add_object srt cel s x) (\<lambda>s'. add_all srt cel s' xs)"

text \<open>
  After \<open>n\<close> additions a family holds its own keys and \<open>n\<close> copies of the store's, and a
  metric what every one of these states of its family handed down.
\<close>

definition family_keys_after :: "string list \<Rightarrow> string list \<Rightarrow> nat \<Rightarrow> string list" where
  "family_keys_after fk sk n = fk @ concat (replicate n sk)"

fun metric_keys_after :: "string list \<Rightarrow> string list \<Rightarrow> string list \<Rightarrow> nat \<Rightarrow> string list" where
  "metric_keys_after mk fk sk 0 = mk"
| "metric_keys_after mk fk sk (Suc n) = metric_keys_after mk fk sk n @ family_keys_after fk sk (Suc n)"

lemma family_keys_after_Suc: "family_keys_after fk sk (Suc n) = family_keys_after (fk @ sk) sk n"
  by (simp add: family_keys_after_def)

lemma metric_keys_after_shift:
  "metric_keys_after (mk @ fk @ sk) (fk @ sk) sk n = metric_keys_after mk fk sk (Suc n)"
  by (induction n) (simp_all add: family_keys_after_def)

lemma length_family_keys_after: "length (family_keys_after fk sk n) = length fk + n * length sk"
  by (induction n) (simp_all add: family_keys_after_def)

lemma length_metric_keys_after:
  "2 * length (metric_keys_after mk fk sk n)
     = 2 * length mk + 2 * n * length fk + n * (n + 1) * length sk"
  by (induction n) (simp_all add: length_family_keys_after algebra_simps)

lemma add_all_keys:
  assumes "add_all srt cel s xs = Inr s'" and "k < length (s_Families s)"
    and "s_Families s ! k = Some f" and "j < length (f_Metrics f)" and "f_Metrics f ! j = Some m"
  shows "\<exists>f' m'. s_Families s' ! k = Some f' \<and> f_Metrics f' ! j = Some m'
    \<and> f_LabelKeys f' = family_keys_after (f_LabelKeys f) (s_LabelKeys s) (length xs)
    \<and> m_LabelKeys m' = metric_keys_after (m_LabelKeys m) (f_LabelKeys f) (s_LabelKeys s) (length xs)"
  using assms
proof (induction xs arbitrary: s f m)
  case Nil
  then show ?case by (simp add: family_keys_after_def)
next
  case (Cons x xs)
  from Cons.prems(1) obtain s1 err where
    a: "Add srt cel (fst x) s (UnstructuredObj (snd x)) = Inr (s1, err)"
    and rest: "add_all srt cel s1 xs = Inr s'"
    by (auto simp: add_object_def go_bind_eq_Inr)
  let ?f = "inherit_family s f"
  let ?f1 = "?f\<lparr>f_Metrics := inherited ?f\<rparr>"
  have s1: "s_Families s1 ! k = Some ?f1" "length (s_Families s1) = length (s_Families s)"
    "s_LabelKeys s1 = s_LabelKeys s"
    using Add_families [OF a Cons.prems(2)] Cons.prems(3) by auto
  have fk: "f_LabelKeys ?f = f_LabelKeys f @ s_LabelKeys s" "f_Metrics ?f = f_Metrics f"
    by (simp_all add: inherit_family_def Let_def)
  have j: "j < length (f_Metrics ?f1)" "f_Metrics ?f1 ! j = Some (inherit_labels ?f m)"
    using Cons.prems(4,5) fk by simp_all
  from Cons.IH [OF rest _ s1(1) j] Cons.prems(2) s1 obtain f' m' where
    "s_Families s' ! k = Some f'" "f_Metrics f' ! j = Some m'"
    "f_LabelKeys f' = family_keys_after (f_LabelKeys ?f1) (s_LabelKeys s1) (length xs)"
    "m_LabelKeys m' = metric_keys_after (m_LabelKeys (inherit_labels ?f m)) (f_LabelKeys ?f1) (s_LabelKeys s1) (length xs)"
    by auto
  moreover have "f_LabelKeys ?f1 = f_LabelKeys f @ s_LabelKeys s"
    and "m_LabelKeys (inherit_labels ?f m) = m_LabelKeys m @ f_LabelKeys f @ s_LabelKeys s"
    using fk by (simp_all add: inherit_labels_def)
  ultimately show ?case
    by (simp add: s1(3) family_keys_after_Suc metric_keys_after_shift del: metric_keys_after.simps)
qed

section \<open>Properties\<close>

definition sample_store :: store_type where
  "sample_store = newStore [''h''] [Some sample_family] ResolverTypeUnstructured [''Team''] [''team-a'']"

lemma sample_store_wf: "store_wf sample_store"
  using sample_family_wf
  by (simp add: sample_store_def newStore_def store_wf_def store_shape_def store_config_def)

text \<open>C5: adding an object to a well-formed store never panics and never fails. It replaces the
  texts of that object's UID and of no other, with one text per family: what the family writes
  for the object once it has inherited the store's resolver and labels. The store stays well
  formed.\<close>

theorem Add_effect:
  assumes "slice_sort srt" and "store_wf s"
  shows "\<exists>s' raws. Add srt cel ord s (UnstructuredObj obj) = Inr (s', None) \<and> store_wf s'
    \<and> gm_get (metrics s') = (gm_get (metrics s))(GetUID obj \<mapsto> raws)
    \<and> length raws = length (s_Families s)
    \<and> (\<forall>k < length raws. \<exists>f f'. s_Families s ! k = Some f
         \<and> rawFrom srt cel (ord k) (inherit_family s f) obj = Inr (f', raws ! k))"
proof -
  obtain s' raws where s': "Add srt cel ord s (UnstructuredObj obj) = Inr (s', None)" "store_wf s'"
    "metrics s' = gm_set (GetUID obj) raws (metrics s)"
    using Add_object [OF assms] by blast
  from s'(1) obtain fs raws' where
    a: "add_families srt cel ord s obj 0 (s_Families s) = Inr (fs, raws')"
    and eq: "metrics s' = gm_set (GetUID obj) raws' (metrics s)"
    by (auto simp: Add_def go_bind_eq_Inr)
  have "raws = raws'"
    using s'(3) eq by (metis gm_get_set option.inject)
  with add_families_Inr [OF a] s' show ?thesis
    by (intro exI [of _ s'] exI [of _ raws]) (auto simp: update_conv')
qed

theorem Add_effect_witness:
  "\<exists>s' raws. Add insertionSort (\<lambda>_ _ _. EnvError) (\<lambda>_ _ _ m. m) sample_store (UnstructuredObj sample_object)
      = Inr (s', None) \<and> store_wf s'
    \<and> gm_get (metrics s') = (gm_get (metrics sample_store))(GetUID sample_object \<mapsto> raws)
    \<and> length raws = length (s_Families sample_store)
    \<and> (\<forall>k < length raws. \<exists>f f'. s_Families sample_store ! k = Some f
         \<and> rawFrom insertionSort (\<lambda>_ _ _. EnvError) (\<lambda>_ _ m. m) (inherit_family sample_store f) sample_object
           = Inr (f', raws ! k))"
  by (rule Add_effect) (simp_all add: insertion.slice_sort_axioms sample_store_wf)

lemma count_family_keys_after:
  "count_list (family_keys_after fk sk n) x = count_list fk x + n * count_list sk x"
  by (induction n) (simp_all add: family_keys_after_def)

lemma count_metric_keys_after:
  "2 * count_list (metric_keys_after mk fk sk n) x
     = 2 * count_list mk x + 2 * n * count_list fk x + n * (n + 1) * count_list sk x"
  by (induction n) (simp_all add: count_family_keys_after algebra_simps)

text \<open>C14: labels are handed down anew on every addition and kept: after \<open>n\<close> additions, of any
  objects, a label key that a metric, its family and the store hold \<open>a\<close>, \<open>b\<close> and \<open>c\<close> times
  stands \<open>a + n b + n (n + 1) / 2 c\<close> times in the metric. From the second addition on, a
  label key of the store stands more than once in every metric.\<close>

theorem labels_accumulate:
  assumes "add_all srt cel s xs = Inr s'" and "k < length (s_Families s)"
    and "s_Families s ! k = Some f" and "j < length (f_Metrics f)" and "f_Metrics f ! j = Some m"
  shows "\<exists>f' m'. s_Families s' ! k = Some f' \<and> f_Metrics f' ! j = Some m'
    \<and> 2 * count_list (m_LabelKeys m') x = 2 * count_list (m_LabelKeys m) x
        + 2 * length xs * count_list (f_LabelKeys f) x
        + length xs * (length xs + 1) * count_list (s_LabelKeys s) x"
proof -
  obtain f' m' where "s_Families s' ! k = Some f'" "f_Metrics f' ! j = Some m'"
    "m_LabelKeys m' = metric_keys_after (m_LabelKeys m) (f_LabelKeys f) (s_LabelKeys s) (length xs)"
    using add_all_keys [OF assms] by blast
  then show ?thesis by (simp add: count_metric_keys_after)
qed

theorem labels_accumulate_witness:
  "\<exists>s' f' m'. add_all insertionSort (\<lambda>_ _ _. EnvError) sample_store
       [((\<lambda>_ _ _ m. m), sample_object), ((\<lambda>_ _ _ m. m), sample_object)] = Inr s'
    \<and> s_Families s' ! 0 = Some f' \<and> f_Metrics f' ! 0 = Some m'
    \<and> count_list (m_LabelKeys m') ''Team'' = 3"
proof -
  let ?x = "((\<lambda>_ _ _ m. m), sample_object) :: range_orders \<times> obj"
  have step: "\<exists>s'. add_object insertionSort (\<lambda>_ _ _. EnvError) s ?x = Inr s' \<and> store_wf s'"
    if "store_wf s" for s
    using Add_object [OF insertion.slice_sort_axioms that, of "\<lambda>_ _ _. EnvError" "\<lambda>_ _ _ m. m" sample_object]
    by (auto simp: add_object_def)
  obtain s1 where s1: "add_object insertionSort (\<lambda>_ _ _. EnvError) sample_store ?x = Inr s1" "store_wf s1"
    using step [OF sample_store_wf] by blast
  obtain s2 where "add_object insertionSort (\<lambda>_ _ _. EnvError) s1 ?x = Inr s2"
    using step [OF s1(2)] by blast
  with s1 have a: "add_all insertionSort (\<lambda>_ _ _. EnvError) sample_store [?x, ?x] = Inr s2" by simp
  obtain f' m' where f: "s_Families s2 ! 0 = Some f'" "f_Metrics f' ! 0 = Some m'"
    and c: "2 * count_list (m_LabelKeys m') ''Team'' = 6"
    using labels_accumulate [OF a, of 0 sample_family 0 sample_metric "''Team''"]
    by (auto simp: sample_store_def newStore_def sample_family_def sample_metric_def)
  from c have "count_list (m_LabelKeys m') ''Team'' = 3" by linarith
  with f a show ?thesis by blast
qed

end
