(* ===== verification/Builder.thy ===== *)
theory Builder
  imports Store
begin

text \<open>
  \<^verbatim>\<open>internal/builder.go\<close>: how a store is built from one entry of the configuration and which
  reflector is started on it. Starting the reflector is a value, the \<open>reflector_cfg\<close>: the
  resource it lists and watches, the options of its requests and the kind it expects.
\<close>

record gvr =
  gvr_Group :: string
  gvr_Version :: string
  gvr_Resource :: string

record gvkr =
  gvkr_GVK :: gvk
  gvkr_GVR :: gvr

record list_options =
  lo_LabelSelector :: string
  lo_FieldSelector :: string
  lo_ResourceVersion :: string
  lo_ResourceVersionMatch :: string

record reflector_cfg =
  rc_gvr :: gvr
  rc_options :: list_options
  rc_expectedGVK :: "gvk option"

text \<open>The two functions of the \<^verbatim>\<open>ListWatch\<close> ignore the options the reflector asks for.\<close>

definition ListFunc :: "reflector_cfg \<Rightarrow> list_options \<Rightarrow> gvr \<times> list_options" where
  "ListFunc cfg requested = (rc_gvr cfg, rc_options cfg)"

definition WatchFunc :: "reflector_cfg \<Rightarrow> list_options \<Rightarrow> gvr \<times> list_options" where
  "WatchFunc cfg requested = (rc_gvr cfg, rc_options cfg)"

text \<open>
  \<^verbatim>\<open>SetGroupVersionKind\<close> on an empty object, and what the reflector reads back from it
  (\<^verbatim>\<open>getExpectedGVKFromObject\<close>): \<^verbatim>\<open>nil\<close> when it is empty.
\<close>

definition gv_String :: "gvk \<Rightarrow> string" where
  "gv_String x = (if gvk_Group x \<noteq> [] then gvk_Group x @ ''/'' @ gvk_Version x else gvk_Version x)"

definition wrapper_object :: "gvk \<Rightarrow> obj" where
  "wrapper_object x = [(''apiVersion'', GString (gv_String x)), (''kind'', GString (gvk_Kind x))]"

definition expectedGVK :: "obj \<Rightarrow> gvk option" where
  "expectedGVK wrapper =
     (let x = GroupVersionKind wrapper in
      if gvk_Group x = [] \<and> gvk_Version x = [] \<and> gvk_Kind x = [] then None else Some x)"

text \<open>The loop that builds the headers; a \<^verbatim>\<open>nil\<close> family panics.\<close>

fun build_all_headers ::
    "family_type option list \<Rightarrow> (family_type option list \<times> string list) go" where
  "build_all_headers [] = Inr ([], [])"
| "build_all_headers (p # ps) =
     go_bind (go_deref p) (\<lambda>f.
       case buildHeaders f of (f', h) \<Rightarrow>
         go_bind (build_all_headers ps) (\<lambda>(fs, hs). Inr (Some f' # fs, h # hs)))"

definition buildStore ::
    "gvkr \<Rightarrow> family_type option list \<Rightarrow> bool \<Rightarrow> string \<Rightarrow> string \<Rightarrow> resolver_type \<Rightarrow> string list \<Rightarrow> string list
     \<Rightarrow> (store_type \<times> reflector_cfg) go" where
  "buildStore gvkWithR metricFamilies tryNoCache labelSelector fieldSelector rsv labelKeys labelValues =
     (let lwo = \<lparr>lo_LabelSelector = labelSelector, lo_FieldSelector = fieldSelector,
                 lo_ResourceVersion = [], lo_ResourceVersionMatch = []\<rparr>;
          resourceVersionLatestBestEffort = ''0'';
          lwo = (if tryNoCache
                 then lwo\<lparr>lo_ResourceVersionMatch := ''NotOlderThan'',
                          lo_ResourceVersion := resourceVersionLatestBestEffort\<rparr>
                 else lwo)
      in go_bind (build_all_headers metricFamilies) (\<lambda>(families, hdrs).
           let rsv = (if rsv = ResolverTypeNone then ResolverTypeUnstructured else rsv);
               s = newStore hdrs families rsv labelKeys labelValues
           in Inr (s, \<lparr>rc_gvr = gvkr_GVR gvkWithR, rc_options = lwo,
                       rc_expectedGVK = expectedGVK (wrapper_object (gvkr_GVK gvkWithR))\<rparr>)))"

section \<open>What is built\<close>

text \<open>The family with its type pinned, and its header.\<close>

definition header_of :: "family_type \<Rightarrow> string" where
  "header_of f = snd (buildHeaders f)"

definition pinned :: "family_type \<Rightarrow> family_type" where
  "pinned f = f\<lparr>f_t := metricTypeGauge\<rparr>"

lemma buildHeaders_eq: "buildHeaders f = (pinned f, header_of f)"
  by (simp add: header_of_def buildHeaders_def pinned_def Let_def)

lemma build_all_headers_eq:
  "build_all_headers (map Some fs) = Inr (map (\<lambda>f. Some (pinned f)) fs, map header_of fs)"
  by (induction fs) (simp_all add: buildHeaders_eq)

lemma build_all_headers_panic:
  "None \<in> set ps \<Longrightarrow> build_all_headers ps = Inl NilDereference"
proof (induction ps)
  case (Cons p ps)
  show ?case by (cases p) (use Cons in \<open>simp_all add: buildHeaders_eq\<close>)
qed simp

lemma not_None_map_Some: "None \<notin> set ps \<Longrightarrow> \<exists>fs. ps = map Some fs"
proof (induction ps)
  case (Cons p ps)
  then obtain f where f: "p = Some f" by (cases p) auto
  from Cons obtain fs where "ps = map Some fs" by auto
  with f have "p # ps = map Some (f # fs)" by simp
  then show ?case by (rule exI)
qed simp

lemma pinned_wf [simp]: "family_wf (pinned f) = family_wf f"
  by (simp add: family_wf_def pinned_def)

lemma buildStore_Some:
  "buildStore x (map Some fs) nc ls fl rsv ks vs =
     Inr (newStore (map header_of fs) (map (\<lambda>f. Some (pinned f)) fs)
            (if rsv = ResolverTypeNone then ResolverTypeUnstructured else rsv) ks vs,
          \<lparr>rc_gvr = gvkr_GVR x,
           rc_options = \<lparr>lo_LabelSelector = ls, lo_FieldSelector = fl,
             lo_ResourceVersion = (if nc then ''0'' else []),
             lo_ResourceVersionMatch = (if nc then ''NotOlderThan'' else [])\<rparr>,
           rc_expectedGVK = expectedGVK (wrapper_object (gvkr_GVK x))\<rparr>)"
  by (simp add: buildStore_def build_all_headers_eq Let_def)

lemma buildStore_wf:
  assumes "buildStore x ps nc ls fl rsv ks vs = Inr (s, cfg)"
    and "\<forall>f. Some f \<in> set ps \<longrightarrow> family_wf f" and "length vs \<le> length ks"
  shows "store_wf s"
proof -
  have "None \<notin> set ps"
    using assms(1) build_all_headers_panic by (auto simp: buildStore_def Let_def)
  then obtain fs where ps: "ps = map Some fs" using not_None_map_Some by blast
  with assms show ?thesis
    by (auto simp: buildStore_Some newStore_def store_wf_def store_shape_def store_config_def)
qed

section \<open>Properties\<close>

text \<open>The kind the reflector expects is the one the store was configured with, for every group
  and version without a slash and with a version: writing the kind into an empty object and
  reading it back loses nothing.\<close>

theorem expectedGVK_roundtrip:
  assumes "CHR ''/'' \<notin> set (gvk_Group x)" and "CHR ''/'' \<notin> set (gvk_Version x)"
    and "gvk_Version x \<noteq> []"
  shows "expectedGVK (wrapper_object x) = Some x"
proof -
  have "getNestedString (wrapper_object x) [''apiVersion''] = gv_String x"
    and "getNestedString (wrapper_object x) [''kind''] = gvk_Kind x"
    by (simp_all add: getNestedString_at_path wrapper_object_def)
  moreover have "ParseGroupVersion (gv_String x) = Some (gvk_Group x, gvk_Version x)"
  proof (cases "gvk_Group x = []")
    case True
    have "gvk_Version x \<noteq> ''/''" using assms(2) by auto
    with True assms show ?thesis
      by (simp add: gv_String_def ParseGroupVersion_def Split_no_sep)
  next
    case False
    with assms ParseGroupVersion_Join [of "gvk_Group x" "gvk_Version x"]
    show ?thesis by (simp add: gv_String_def)
  qed
  ultimately have "GroupVersionKind (wrapper_object x) = x"
    by (simp add: GroupVersionKind_def)
  then show ?thesis using assms(3) by (simp add: expectedGVK_def Let_def)
qed

theorem expectedGVK_roundtrip_witness:
  "expectedGVK (wrapper_object \<lparr>gvk_Group = ''contoso.com'', gvk_Version = ''v1'', gvk_Kind = ''Widget''\<rparr>)
     = Some \<lparr>gvk_Group = ''contoso.com'', gvk_Version = ''v1'', gvk_Kind = ''Widget''\<rparr>"
  by (rule expectedGVK_roundtrip) simp_all

text \<open>Every list and every watch of a store's reflector, whatever options the reflector asks
  for, goes to the configured resource with the configured selectors, without the resource
  version the reflector reached; with the no-cache option both ask for any version from 0 on.\<close>

theorem buildStore_requests:
  assumes "buildStore x ps nc ls fl rsv ks vs = Inr (s, cfg)"
  shows "ListFunc cfg opts = (gvkr_GVR x,
      \<lparr>lo_LabelSelector = ls, lo_FieldSelector = fl,
       lo_ResourceVersion = (if nc then ''0'' else []),
       lo_ResourceVersionMatch = (if nc then ''NotOlderThan'' else [])\<rparr>)
    \<and> WatchFunc cfg opts' = ListFunc cfg opts"
proof -
  have "None \<notin> set ps"
    using assms build_all_headers_panic by (auto simp: buildStore_def Let_def)
  then obtain fs where "ps = map Some fs" using not_None_map_Some by blast
  with assms show ?thesis by (auto simp: buildStore_Some ListFunc_def WatchFunc_def)
qed

definition sample_gvkr :: gvkr where
  "sample_gvkr =
     \<lparr>gvkr_GVK = \<lparr>gvk_Group = ''contoso.com'', gvk_Version = ''v1'', gvk_Kind = ''Widget''\<rparr>,
      gvkr_GVR = \<lparr>gvr_Group = ''contoso.com'', gvr_Version = ''v1'', gvr_Resource = ''widgets''\<rparr>\<rparr>"

theorem buildStore_requests_witness:
  "\<exists>s cfg. buildStore sample_gvkr [Some sample_family] True ''a=b'' [] ResolverTypeNone [] [] = Inr (s, cfg)
    \<and> WatchFunc cfg \<lparr>lo_LabelSelector = [], lo_FieldSelector = [], lo_ResourceVersion = ''5'',
          lo_ResourceVersionMatch = []\<rparr> = (gvkr_GVR sample_gvkr,
        \<lparr>lo_LabelSelector = ''a=b'', lo_FieldSelector = [], lo_ResourceVersion = ''0'',
         lo_ResourceVersionMatch = ''NotOlderThan''\<rparr>)"
proof -
  obtain s cfg where b:
    "buildStore sample_gvkr [Some sample_family] True ''a=b'' [] ResolverTypeNone [] [] = Inr (s, cfg)"
    using buildStore_Some [of sample_gvkr "[sample_family]"] by simp
  let ?o = "\<lparr>lo_LabelSelector = [], lo_FieldSelector = [], lo_ResourceVersion = ''5'',
          lo_ResourceVersionMatch = []\<rparr> :: list_options"
  from buildStore_requests [OF b, where opts = ?o and opts' = ?o] show ?thesis by (simp add: b)
qed

text \<open>A store without a resolver gets the unstructured one and hands it down, so that a family
  and a metric that name none resolve without CEL, although the same family on its own would
  use CEL.\<close>

theorem default_resolver:
  assumes "buildStore x ps nc ls fl ResolverTypeNone ks vs = Inr (s, cfg)"
    and "f_Resolver f = ResolverTypeNone"
  shows "family_resolver (inherit_family s f) ResolverTypeNone = Some UnstructuredResolver
    \<and> family_resolver f ResolverTypeNone = Some CELResolver"
proof -
  have "None \<notin> set ps"
    using assms(1) build_all_headers_panic by (auto simp: buildStore_def Let_def)
  then obtain fs where "ps = map Some fs" using not_None_map_Some by blast
  with assms(1) have "s_Resolver s = ResolverTypeUnstructured"
    by (auto simp: buildStore_Some newStore_def)
  with assms(2) show ?thesis
    by (simp add: family_resolver_def inherit_family_def Let_def ResolverTypeNone_def
        ResolverTypeCEL_def ResolverTypeUnstructured_def)
qed

theorem default_resolver_witness:
  "\<exists>s cfg. buildStore sample_gvkr [Some sample_family] False [] [] ResolverTypeNone [] [] = Inr (s, cfg)
    \<and> family_resolver (inherit_family s sample_family) ResolverTypeNone = Some UnstructuredResolver"
proof -
  obtain s cfg where b:
    "buildStore sample_gvkr [Some sample_family] False [] [] ResolverTypeNone [] [] = Inr (s, cfg)"
    using buildStore_Some [of sample_gvkr "[sample_family]"] by simp
  from default_resolver [OF b, of sample_family] b show ?thesis by (simp add: sample_family_def)
qed

end
