(* ===== verification/Api_Types.thy ===== *)
theory Api_Types
  imports Go_Strings
begin

text \<open>
  \<^verbatim>\<open>pkg/apis/crdmetrics/v1alpha1/types.go\<close>: the managed resource and \<open>Set\<close>, which records
  one condition in its status. The clock is the argument \<open>now\<close>. Of the object metadata the
  fields the controller reads or writes are kept; \<open>None\<close> for the labels is the \<^verbatim>\<open>nil\<close> map.
\<close>

definition ConditionType :: "string list" where
  "ConditionType = [''Processed'', ''Failed'']"

definition ConditionMessageTrue :: "string list" where
  "ConditionMessageTrue =
     [''Resource configuration has been processed successfully'', ''Resource failed to process'']"

definition ConditionMessageFalse :: "string list" where
  "ConditionMessageFalse = [''Resource configuration is yet to be processed'', ''N/A'']"

definition ConditionReasonTrue :: "string list" where
  "ConditionReasonTrue = [''EventHandlerSucceeded'', ''EventHandlerFailed'']"

definition ConditionReasonFalse :: "string list" where
  "ConditionReasonFalse = [''EventHandlerRunning'', ''N/A'']"

definition ConditionTrue :: string where
  "ConditionTrue = ''True''"

definition ConditionFalse :: string where
  "ConditionFalse = ''False''"

record condition =
  cd_Type :: string
  cd_Status :: string
  cd_ObservedGeneration :: int
  cd_LastTransitionTime :: int
  cd_Reason :: string
  cd_Message :: string

record resource =
  cr_Name :: string
  cr_Namespace :: string
  cr_UID :: string
  cr_ResourceVersion :: string
  cr_Generation :: int
  cr_Labels :: "(string, string) gomap option"
  cr_Configuration :: string
  cr_Conditions :: "condition list"

text \<open>The zero value, \<^verbatim>\<open>&v1alpha1.CRDMetricsResource{}\<close>.\<close>

definition empty_resource :: resource where
  "empty_resource = \<lparr>cr_Name = [], cr_Namespace = [], cr_UID = [], cr_ResourceVersion = [],
     cr_Generation = 0, cr_Labels = None, cr_Configuration = [], cr_Conditions = []\<rparr>"

section \<open>Setting a condition\<close>

text \<open>\<^verbatim>\<open>slices.Index\<close>; \<open>None\<close> is its -1, with which the arrays above must not be indexed.\<close>

fun Index :: "string list \<Rightarrow> string \<Rightarrow> nat option" where
  "Index [] v = None"
| "Index (n # s) v = (if n = v then Some 0 else map_option Suc (Index s v))"

definition index_at :: "string list \<Rightarrow> nat option \<Rightarrow> string go" where
  "index_at xs i = (case i of None \<Rightarrow> Inl IndexOutOfRange | Some n \<Rightarrow> go_nth xs n)"

fun put_condition :: "condition \<Rightarrow> condition list \<Rightarrow> condition list" where
  "put_condition c [] = [c]"
| "put_condition c (d # ds) = (if cd_Type d = cd_Type c then c # ds else d # put_condition c ds)"

definition Set :: "int \<Rightarrow> resource \<Rightarrow> condition list \<Rightarrow> condition \<Rightarrow> condition list go" where
  "Set now res conditions c =
     (let i = Index ConditionType (cd_Type c) in
      go_bind (index_at (if cd_Status c = ConditionTrue then ConditionReasonTrue
                         else ConditionReasonFalse) i) (\<lambda>reason.
      go_bind (index_at (if cd_Status c = ConditionTrue then ConditionMessageTrue
                         else ConditionMessageFalse) i) (\<lambda>message.
      Inr (put_condition
            (c\<lparr>cd_Reason := reason, cd_Message := message @ '': '' @ cd_Message c,
               cd_LastTransitionTime := now, cd_ObservedGeneration := cr_Generation res\<rparr>)
            conditions))))"

section \<open>What is set\<close>

text \<open>The list is a map keyed by the type, as the markers of the API declare it.\<close>

abbreviation condition_types :: "condition list \<Rightarrow> string list" where
  "condition_types ds \<equiv> map cd_Type ds"

definition condition_of :: "condition list \<Rightarrow> string \<Rightarrow> condition option" where
  "condition_of ds t = List.find (\<lambda>d. cd_Type d = t) ds"

lemma condition_of_simps [simp]:
  "condition_of [] t = None"
  "condition_of (d # ds) t = (if cd_Type d = t then Some d else condition_of ds t)"
  by (simp_all add: condition_of_def)

lemma condition_of_put:
  "condition_of (put_condition c ds) t = (if t = cd_Type c then Some c else condition_of ds t)"
  by (induction ds) auto

lemma put_condition_types:
  "condition_types (put_condition c ds)
     = (if cd_Type c \<in> set (condition_types ds) then condition_types ds
        else condition_types ds @ [cd_Type c])"
  by (induction ds) auto

lemma put_condition_distinct:
  "distinct (condition_types ds) \<Longrightarrow> distinct (condition_types (put_condition c ds))"
  by (simp add: put_condition_types)

lemma put_condition_twice:
  "cd_Type c = cd_Type d \<Longrightarrow> put_condition d (put_condition c ds) = put_condition d ds"
  by (induction ds) auto

text \<open>The two types, with the status they are set to, and what the reader sees.\<close>

definition stamped :: "int \<Rightarrow> resource \<Rightarrow> string \<Rightarrow> string \<Rightarrow> condition \<Rightarrow> condition" where
  "stamped now res reason message c =
     c\<lparr>cd_Reason := reason, cd_Message := message @ '': '' @ cd_Message c,
       cd_LastTransitionTime := now, cd_ObservedGeneration := cr_Generation res\<rparr>"

definition reason_of :: "condition \<Rightarrow> string" where
  "reason_of c =
     (if cd_Type c = ''Processed''
      then (if cd_Status c = ''True'' then ''EventHandlerSucceeded'' else ''EventHandlerRunning'')
      else (if cd_Status c = ''True'' then ''EventHandlerFailed'' else ''N/A''))"

definition message_of :: "condition \<Rightarrow> string" where
  "message_of c =
     (if cd_Type c = ''Processed''
      then (if cd_Status c = ''True'' then ''Resource configuration has been processed successfully''
            else ''Resource configuration is yet to be processed'')
      else (if cd_Status c = ''True'' then ''Resource failed to process'' else ''N/A''))"

lemmas condition_texts = ConditionType_def ConditionTrue_def ConditionFalse_def
  ConditionMessageTrue_def ConditionMessageFalse_def ConditionReasonTrue_def ConditionReasonFalse_def

lemma Set_known:
  assumes "cd_Type c \<in> {''Processed'', ''Failed''}"
  shows "Set now res ds c = Inr (put_condition (stamped now res (reason_of c) (message_of c) c) ds)"
  using assms
  by (auto simp: Set_def stamped_def reason_of_def message_of_def condition_texts index_at_def Let_def)

lemma Set_unknown:
  assumes "cd_Type c \<notin> {''Processed'', ''Failed''}"
  shows "Set now res ds c = Inl IndexOutOfRange"
  using assms by (auto simp: Set_def condition_texts index_at_def Let_def)

lemma stamped_type [simp]: "cd_Type (stamped now res r m c) = cd_Type c"
  and stamped_status [simp]: "cd_Status (stamped now res r m c) = cd_Status c"
  by (simp_all add: stamped_def)

section \<open>Properties\<close>

text \<open>C24: setting a condition of a known type never panics; afterwards the condition of that type is
  the given one, stamped with the time, the generation, the reason and the message prefix of
  its type and status, every other type has the condition it had, and the list is still a map
  by type.\<close>

theorem Set_effect:
  assumes "cd_Type c \<in> {''Processed'', ''Failed''}" and "distinct (condition_types ds)"
  shows "\<exists>ds'. Set now res ds c = Inr ds' \<and> distinct (condition_types ds')
    \<and> (\<forall>t. condition_of ds' t =
         (if t = cd_Type c then Some (stamped now res (reason_of c) (message_of c) c)
          else condition_of ds t))"
  using assms by (simp add: Set_known condition_of_put put_condition_distinct)

theorem Set_effect_witness:
  "\<exists>ds'. Set 9 (empty_resource\<lparr>cr_Generation := 2\<rparr>) []
       \<lparr>cd_Type = ''Failed'', cd_Status = ''True'', cd_ObservedGeneration = 0,
        cd_LastTransitionTime = 0, cd_Reason = [], cd_Message = ''x''\<rparr> = Inr ds'
    \<and> condition_of ds' ''Failed'' = Some
       \<lparr>cd_Type = ''Failed'', cd_Status = ''True'', cd_ObservedGeneration = 2,
        cd_LastTransitionTime = 9, cd_Reason = ''EventHandlerFailed'',
        cd_Message = ''Resource failed to process: x''\<rparr>
    \<and> condition_of ds' ''Processed'' = None"
  using Set_effect [of "\<lparr>cd_Type = ''Failed'', cd_Status = ''True'', cd_ObservedGeneration = 0,
        cd_LastTransitionTime = 0, cd_Reason = [], cd_Message = ''x''\<rparr>" "[]" 9
        "empty_resource\<lparr>cr_Generation := 2\<rparr>"]
  by (auto simp: stamped_def reason_of_def message_of_def)

end
