(* ===== verification/Config.thy ===== *)
theory Config
  imports Builder Api_Types
begin

text \<open>
  \<^verbatim>\<open>internal/config.go\<close>: the configuration of a managed resource is parsed by the YAML
  library, which is a parameter, and one store is built per entry. A store lives in the heap,
  next to the reflector that was started on it; the controller's map holds addresses of the
  heap under the UID of the managed resource. Nothing is ever taken out of the heap: each
  reflector holds its store until the process ends.
\<close>

type_synonym addr = nat

record hstate =
  heap :: "(store_type \<times> reflector_cfg) list"
  stores_map :: "(uid, addr list) gomap"

text \<open>\<^verbatim>\<open>yaml.Unmarshal\<close> into the \<open>stores\<close> field: the entries of the slice may be \<^verbatim>\<open>nil\<close>.\<close>

type_synonym yaml_engine = "string \<Rightarrow> string + store_type option list"

definition parse :: "yaml_engine \<Rightarrow> string \<Rightarrow> string + store_type option list" where
  "parse yaml raw =
     (case yaml raw of
        Inl err \<Rightarrow> Inl (''error unmarshalling configuration: '' @ err)
      | Inr stores \<Rightarrow> Inr stores)"

text \<open>The arguments one entry passes to \<open>buildStore\<close>.\<close>

definition build_entry :: "bool \<Rightarrow> store_type \<Rightarrow> (store_type \<times> reflector_cfg) go" where
  "build_entry tryNoCache sc =
     buildStore
       \<lparr>gvkr_GVK = \<lparr>gvk_Group = s_Group sc, gvk_Version = s_Version sc, gvk_Kind = s_Kind sc\<rparr>,
        gvkr_GVR = \<lparr>gvr_Group = s_Group sc, gvr_Version = s_Version sc,
                    gvr_Resource = s_ResourceName sc\<rparr>\<rparr>
       (s_Families sc) tryNoCache (s_SelectorLabel sc) (s_SelectorField sc) (s_Resolver sc)
       (s_LabelKeys sc) (s_LabelValues sc)"

definition stores_at :: "(uid, addr list) gomap \<Rightarrow> uid \<Rightarrow> addr list" where
  "stores_at m u = (case gm_get m u of None \<Rightarrow> [] | Some as \<Rightarrow> as)"

fun build :: "bool \<Rightarrow> uid \<Rightarrow> store_type option list \<Rightarrow> hstate \<Rightarrow> hstate go" where
  "build tryNoCache resourceUID [] h = Inr h"
| "build tryNoCache resourceUID (p # ps) h =
     go_bind (go_deref p) (\<lambda>sc.
     go_bind (build_entry tryNoCache sc) (\<lambda>built.
       build tryNoCache resourceUID ps
         (h\<lparr>heap := heap h @ [built],
            stores_map := gm_set resourceUID
              (stores_at (stores_map h) resourceUID @ [length (heap h)]) (stores_map h)\<rparr>)))"

section \<open>What is built\<close>

text \<open>The invariant: the map is one, and it holds addresses of the heap.\<close>

definition hstate_wf :: "hstate \<Rightarrow> bool" where
  "hstate_wf h \<longleftrightarrow>
     gm_wf (stores_map h)
     \<and> (\<forall>e \<in> set (stores_map h). distinct (snd e) \<and> (\<forall>a \<in> set (snd e). a < length (heap h)))
     \<and> (\<forall>d \<in> set (stores_map h). \<forall>e \<in> set (stores_map h).
          fst d \<noteq> fst e \<longrightarrow> set (snd d) \<inter> set (snd e) = {})"

lemma stores_at_mem:
  "gm_wf m \<Longrightarrow> (u, as) \<in> set m \<Longrightarrow> stores_at m u = as"
  by (simp add: stores_at_def)

lemma stores_at_set: "stores_at (gm_set k v m) u = (if u = k then v else stores_at m u)"
  by (simp add: stores_at_def gm_get_set)

lemma stores_at_del: "stores_at (gm_del k m) u = (if u = k then [] else stores_at m u)"
  by (simp add: stores_at_def gm_get_del)

text \<open>The same invariant over the lookup function.\<close>

lemma hstate_wf_eq:
  "hstate_wf h \<longleftrightarrow> gm_wf (stores_map h)
     \<and> (\<forall>u. distinct (stores_at (stores_map h) u)
            \<and> (\<forall>a \<in> set (stores_at (stores_map h) u). a < length (heap h)))
     \<and> (\<forall>u v. u \<noteq> v \<longrightarrow> set (stores_at (stores_map h) u) \<inter> set (stores_at (stores_map h) v) = {})"
  (is "?l = ?r")
proof (cases "gm_wf (stores_map h)")
  case wf: True
  show ?thesis
  proof
    assume l: ?l
    have some: "(u, stores_at (stores_map h) u) \<in> set (stores_map h) \<or> stores_at (stores_map h) u = []" for u
      by (cases "gm_get (stores_map h) u") (auto simp: stores_at_def dest: map_of_SomeD)
    have "distinct (stores_at (stores_map h) u) \<and> (\<forall>a \<in> set (stores_at (stores_map h) u). a < length (heap h))" for u
      using l some [of u] by (fastforce simp: hstate_wf_def)
    moreover have "set (stores_at (stores_map h) u) \<inter> set (stores_at (stores_map h) v) = {}" if "u \<noteq> v" for u v
      using l some [of u] some [of v] that by (fastforce simp: hstate_wf_def)
    ultimately show ?r using wf by blast
  next
    assume r: ?r
    have at: "\<And>u as. (u, as) \<in> set (stores_map h) \<Longrightarrow> stores_at (stores_map h) u = as"
      using wf by (rule stores_at_mem)
    show ?l unfolding hstate_wf_def using r at
      by (metis (no_types, lifting) prod.collapse)
  qed
qed (simp add: hstate_wf_def)

lemma hstate_wf_drop:
  "hstate_wf h \<Longrightarrow> hstate_wf (h\<lparr>stores_map := gm_del u (stores_map h)\<rparr>)"
  by (auto simp: hstate_wf_eq stores_at_del gm_wf_del)

lemma hstate_wf_push:
  assumes "hstate_wf h"
  shows "hstate_wf (h\<lparr>heap := heap h @ [x],
    stores_map := gm_set u (stores_at (stores_map h) u @ [length (heap h)]) (stores_map h)\<rparr>)"
  using assms unfolding hstate_wf_eq
  by (auto simp: stores_at_set gm_wf_set less_Suc_eq)

lemma build_spec:
  assumes "build nc u ps h = Inr h'" and "hstate_wf h"
  shows "hstate_wf h'
    \<and> (\<exists>bs. heap h' = heap h @ bs \<and> length bs = length ps
         \<and> (\<forall>i < length ps. \<exists>sc. ps ! i = Some sc \<and> build_entry nc sc = Inr (bs ! i))
         \<and> stores_at (stores_map h') u
            = stores_at (stores_map h) u @ [length (heap h)..<length (heap h) + length ps]
         \<and> (\<forall>v. v \<noteq> u \<longrightarrow> gm_get (stores_map h') v = gm_get (stores_map h) v)
         \<and> (ps \<noteq> [] \<longrightarrow> gm_get (stores_map h') u \<noteq> None)
         \<and> (ps = [] \<longrightarrow> h' = h))"
  using assms
proof (induction ps arbitrary: h)
  case (Cons p ps)
  from Cons.prems(1) obtain sc b where
    p: "p = Some sc" and b: "build_entry nc sc = Inr b"
    and rest: "build nc u ps (h\<lparr>heap := heap h @ [b], stores_map := gm_set u
      (stores_at (stores_map h) u @ [length (heap h)]) (stores_map h)\<rparr>) = Inr h'"
    by (cases p) (auto simp: go_bind_eq_Inr)
  let ?h = "h\<lparr>heap := heap h @ [b], stores_map := gm_set u
      (stores_at (stores_map h) u @ [length (heap h)]) (stores_map h)\<rparr>"
  from Cons.IH [OF rest hstate_wf_push [OF Cons.prems(2)]] obtain bs where
    wf: "hstate_wf h'"
    and bs: "heap h' = heap ?h @ bs" "length bs = length ps"
      "\<forall>i < length ps. \<exists>sc. ps ! i = Some sc \<and> build_entry nc sc = Inr (bs ! i)"
    and at: "stores_at (stores_map h') u
            = stores_at (stores_map ?h) u @ [length (heap ?h)..<length (heap ?h) + length ps]"
    and other: "\<forall>v. v \<noteq> u \<longrightarrow> gm_get (stores_map h') v = gm_get (stores_map ?h) v"
    and some: "ps \<noteq> [] \<longrightarrow> gm_get (stores_map h') u \<noteq> None" "ps = [] \<longrightarrow> h' = ?h"
    by blast
  have "\<forall>i < length (p # ps). \<exists>sc. (p # ps) ! i = Some sc \<and> build_entry nc sc = Inr ((b # bs) ! i)"
    using p b bs(3) by (auto simp: less_Suc_eq_0_disj)
  moreover have "stores_at (stores_map h') u
      = stores_at (stores_map h) u @ [length (heap h)..<length (heap h) + length (p # ps)]"
    using at by (simp add: stores_at_set upt_conv_Cons del: upt_Suc)
  moreover have "gm_get (stores_map h') u \<noteq> None"
    using some by (cases "ps = []") (auto simp: gm_get_set)
  ultimately show ?case
    using wf bs(1,2) other by (intro conjI exI [of _ "b # bs"]) (auto simp: gm_get_set)
qed simp


lemma build_heap:
  assumes "build nc u ps h = Inr h'"
  shows "\<exists>bs. heap h' = heap h @ bs \<and> (\<forall>b \<in> set bs. \<exists>sc. Some sc \<in> set ps \<and> build_entry nc sc = Inr b)"
  using assms
proof (induction ps arbitrary: h)
  case (Cons p ps)
  from Cons.prems obtain sc b where
    b: "p = Some sc" "build_entry nc sc = Inr b"
    and rest: "build nc u ps (h\<lparr>heap := heap h @ [b], stores_map := gm_set u
      (stores_at (stores_map h) u @ [length (heap h)]) (stores_map h)\<rparr>) = Inr h'"
    by (cases p) (auto simp: go_bind_eq_Inr)
  from Cons.IH [OF rest] obtain bs where
    "heap h' = (heap h @ [b]) @ bs" "\<forall>b \<in> set bs. \<exists>sc. Some sc \<in> set ps \<and> build_entry nc sc = Inr b" by auto
  with b show ?case by (intro exI [of _ "b # bs"]) auto
qed simp

lemma build_entry_wf:
  assumes "store_config sc"
  shows "\<exists>s cfg. build_entry nc sc = Inr (s, cfg) \<and> store_wf s"
proof -
  from assms have "None \<notin> set (s_Families sc)" by (auto simp: store_config_def)
  then obtain fs where fs: "s_Families sc = map Some fs" using not_None_map_Some by blast
  then obtain s cfg where b: "build_entry nc sc = Inr (s, cfg)"
    by (simp add: build_entry_def buildStore_Some)
  from b have "store_wf s"
    unfolding build_entry_def
    by (rule buildStore_wf) (use assms in \<open>auto simp: store_config_def\<close>)
  with b show ?thesis by blast
qed

lemma build_no_panic:
  assumes "\<forall>p \<in> set ps. \<exists>sc. p = Some sc \<and> store_config sc"
  shows "\<exists>h'. build nc u ps h = Inr h'"
  using assms
proof (induction ps arbitrary: h)
  case (Cons p ps)
  then obtain sc where p: "p = Some sc" "store_config sc" by auto
  obtain s cfg where "build_entry nc sc = Inr (s, cfg)" using build_entry_wf [OF p(2)] by blast
  with Cons p(1) show ?case by simp
qed simp

lemma build_nil_panics: "None \<in> set ps \<Longrightarrow> \<exists>e. build nc u ps h = Inl e"
proof (induction ps arbitrary: h)
  case (Cons p ps)
  show ?case
  proof (cases p)
    case None
    then show ?thesis by simp
  next
    case (Some sc)
    with Cons show ?thesis by (cases "build_entry nc sc") auto
  qed
qed simp

section \<open>Properties\<close>

text \<open>Building a configuration appends one store per entry to the stores of the managed
  resource, in the order of the entries, each built from its entry, and touches no store and
  no resource but that one; no address is ever shared by two resources.\<close>

theorem build_effect:
  assumes "build nc u ps h = Inr h'" and "hstate_wf h"
  shows "hstate_wf h'
    \<and> (\<exists>bs. heap h' = heap h @ bs \<and> length bs = length ps
         \<and> (\<forall>i < length ps. \<exists>sc. ps ! i = Some sc \<and> build_entry nc sc = Inr (bs ! i)))
    \<and> stores_at (stores_map h') u
        = stores_at (stores_map h) u @ [length (heap h)..<length (heap h) + length ps]
    \<and> (\<forall>v. v \<noteq> u \<longrightarrow> gm_get (stores_map h') v = gm_get (stores_map h) v)"
  using build_spec [OF assms] by blast

definition sample_entry :: store_type where
  "sample_entry = sample_store\<lparr>s_Group := ''contoso.com'', s_Version := ''v1'', s_Kind := ''Widget'',
     s_ResourceName := ''widgets''\<rparr>"

lemma sample_entry_config: "store_config sample_entry"
  using sample_store_wf by (simp add: sample_entry_def store_wf_def store_config_def)

abbreviation empty_hstate :: hstate where
  "empty_hstate \<equiv> \<lparr>heap = [], stores_map = []\<rparr>"

theorem build_effect_witness:
  "\<exists>h'. build False ''u'' [Some sample_entry, Some sample_entry] empty_hstate = Inr h'
    \<and> stores_at (stores_map h') ''u'' = [0, 1] \<and> length (heap h') = 2"
proof -
  obtain h' where b: "build False ''u'' [Some sample_entry, Some sample_entry] empty_hstate = Inr h'"
    using build_no_panic [of "[Some sample_entry, Some sample_entry]" False "''u''" empty_hstate]
      sample_entry_config by auto
  have "hstate_wf empty_hstate" by (simp add: hstate_wf_def)
  with b have "stores_at (stores_map h') ''u'' = stores_at [] ''u'' @ [0..<0 + 2]"
    and "\<exists>bs. heap h' = [] @ bs \<and> length bs = 2"
    using build_effect [OF b] by auto
  then show ?thesis using b by (auto simp: stores_at_def upt_rec)
qed

text \<open>An empty entry in the list of stores of a configuration is not reported, it panics, after
  the well-formed entries before it have been built.\<close>

theorem build_empty_entry_panics:
  assumes "\<forall>sc \<in> set scs. store_config sc"
  shows "build nc u (map Some scs @ None # ps) h = Inl NilDereference"
  using assms
proof (induction scs arbitrary: h)
  case (Cons sc scs)
  then obtain s cfg where "build_entry nc sc = Inr (s, cfg)" using build_entry_wf by fastforce
  with Cons show ?case by simp
qed simp

theorem build_empty_entry_panics_witness:
  "build True ''u'' (map Some [sample_entry] @ None # []) empty_hstate = Inl NilDereference"
  by (rule build_empty_entry_panics) (simp add: sample_entry_config)

end
