(* ===== verification/Events.thy ===== *)
theory Events
  imports Config
begin

text \<open>
  \<^verbatim>\<open>internal/events.go\<close>: what the handler of a managed resource does. The API server, the
  clock, and whether the first tick of the polling loop comes before its context is done are
  parameters that act on a state of their own, the world; so are the YAML library and the
  text of the build's version. Logging is left out.
\<close>

datatype eventType = addEvent | updateEvent | deleteEvent

fun eventType_String :: "eventType \<Rightarrow> string" where
  "eventType_String addEvent = ''addEvent''"
| "eventType_String updateEvent = ''updateEvent''"
| "eventType_String deleteEvent = ''deleteEvent''"

text \<open>A request to the API server ends with an error or with the object the server answered.\<close>

datatype api_error = NotFound | OtherApiError

type_synonym 'w request = "'w \<Rightarrow> (api_error + resource) \<times> 'w"

record 'w env =
  api_Get :: "string \<Rightarrow> string \<Rightarrow> 'w request"
  api_Update :: "resource \<Rightarrow> 'w request"
  api_UpdateStatus :: "resource \<Rightarrow> 'w request"
  env_Now :: "'w \<Rightarrow> int \<times> 'w"
  env_Tick :: "'w \<Rightarrow> bool \<times> 'w"
  env_yaml :: yaml_engine
  env_Version :: string

section \<open>Conditions on the resource\<close>

definition emitSuccessOnResource ::
    "'w env \<Rightarrow> resource \<Rightarrow> string \<Rightarrow> string \<Rightarrow> 'w \<Rightarrow> ((api_error + resource) \<times> 'w) go" where
  "emitSuccessOnResource E gotResource conditionBool message w =
     (case api_Get E (cr_Namespace gotResource) (cr_Name gotResource) w of
        (Inl err, w) \<Rightarrow> Inr (Inl err, w)
      | (Inr res, w) \<Rightarrow>
          (case env_Now E w of (now, w) \<Rightarrow>
             go_bind (Set now res (cr_Conditions res)
                 \<lparr>cd_Type = ConditionType ! 0, cd_Status = conditionBool, cd_ObservedGeneration = 0,
                  cd_LastTransitionTime = 0, cd_Reason = [], cd_Message = message\<rparr>)
               (\<lambda>conditions. Inr (api_UpdateStatus E (res\<lparr>cr_Conditions := conditions\<rparr>) w))))"

definition emitFailureOnResource :: "'w env \<Rightarrow> resource \<Rightarrow> string \<Rightarrow> 'w \<Rightarrow> 'w go" where
  "emitFailureOnResource E gotResource message w =
     (case api_Get E (cr_Namespace gotResource) (cr_Name gotResource) w of
        (Inl err, w) \<Rightarrow> Inr w
      | (Inr res, w) \<Rightarrow>
          (case env_Now E w of (now, w) \<Rightarrow>
             go_bind (Set now res (cr_Conditions res)
                 \<lparr>cd_Type = ConditionType ! 1, cd_Status = ConditionTrue, cd_ObservedGeneration = 0,
                  cd_LastTransitionTime = 0, cd_Reason = [], cd_Message = message\<rparr>)
               (\<lambda>conditions. Inr (snd (api_UpdateStatus E (res\<lparr>cr_Conditions := conditions\<rparr>) w)))))"

section \<open>Metadata of the resource\<close>

definition ControllerName :: string where
  "ControllerName = ''crdmetrics''"

text \<open>
  The first match of \<^verbatim>\<open>revision:\s*(\S+)\)\<close>, and what its group matches: the longest run of
  non-space bytes after the spaces that a closing parenthesis follows.
\<close>

definition is_space :: "char \<Rightarrow> bool" where
  "is_space c \<longleftrightarrow> c \<in> {CHR '' '', CHR 0x09, CHR 0x0A, CHR 0x0C, CHR 0x0D}"

definition cut_at_paren :: "string \<Rightarrow> string option" where
  "cut_at_paren t =
     (let run = takeWhile (\<lambda>c. \<not> is_space c) t;
          front = rev (tl (dropWhile (\<lambda>c. c \<noteq> CHR '')'') (rev run)))
      in if CHR '')'' \<in> set run \<and> front \<noteq> [] then Some front else None)"

definition revision_here :: "string \<Rightarrow> string option" where
  "revision_here s =
     (if take 9 s = ''revision:'' then cut_at_paren (dropWhile is_space (drop 9 s)) else None)"

fun find_revision :: "string \<Rightarrow> string option" where
  "find_revision [] = None"
| "find_revision (c # cs) =
     (case revision_here (c # cs) of Some r \<Rightarrow> Some r | None \<Rightarrow> find_revision cs)"

definition metadata_labels :: "string \<Rightarrow> (string, string) gomap option \<Rightarrow> (string, string) gomap" where
  "metadata_labels version labels =
     (let m = (case labels of None \<Rightarrow> [] | Some m \<Rightarrow> m);
          controllerNameSanitized = ReplaceAll ControllerName CHR ''_'' CHR ''-'';
          m = gm_set ''app.kubernetes.io/managed-by'' controllerNameSanitized m
      in case find_revision version of
           Some revision \<Rightarrow> gm_set ''app.kubernetes.io/version'' revision m
         | None \<Rightarrow> m)"

text \<open>
  \<^verbatim>\<open>PollUntilContextTimeout\<close> waits for the first tick and then calls the condition, which
  either succeeds or fails: there is no second call. \<open>True\<close> when there was no error.
\<close>

definition updateMetadata :: "'w env \<Rightarrow> resource \<Rightarrow> 'w \<Rightarrow> bool \<times> 'w" where
  "updateMetadata E res w =
     (case env_Tick E w of
        (False, w) \<Rightarrow> (False, w)
      | (True, w) \<Rightarrow>
          (case api_Get E (cr_Namespace res) (cr_Name res) w of
             (Inl err, w) \<Rightarrow> (False, w)
           | (Inr got, w) \<Rightarrow>
               (case api_Update E
                   (got\<lparr>cr_Labels := Some (metadata_labels (env_Version E) (cr_Labels got))\<rparr>) w of
                  (Inl err, w) \<Rightarrow> (False, w)
                | (Inr updated, w) \<Rightarrow> (True, w))))"

section \<open>The handler\<close>

definition received_message :: "string \<Rightarrow> string" where
  "received_message event = ''Event handler received event: '' @ event"

definition processed_message :: "string \<Rightarrow> string" where
  "processed_message event = ''Event handler successfully processed event: '' @ event"

definition dropStores :: "uid \<Rightarrow> hstate \<Rightarrow> hstate" where
  "dropStores resourceUID h =
     (if gm_get (stores_map h) resourceUID \<noteq> None
      then h\<lparr>stores_map := gm_del resourceUID (stores_map h)\<rparr> else h)"

text \<open>What \<open>handleObject\<close> passes on: the managed resource, or an object of another type.\<close>

datatype any_meta = ManagedResource resource | OtherMeta

text \<open>
  The switch on the event, for a resource with a configuration. The state of the stores, the
  world, and whether the handler goes on to its last status update.
\<close>

definition handle_switch ::
    "'w env \<Rightarrow> bool \<Rightarrow> string \<Rightarrow> resource \<Rightarrow> hstate \<Rightarrow> 'w \<Rightarrow> (hstate \<times> 'w \<times> bool) go" where
  "handle_switch E tryNoCache event res h w =
     (if event = eventType_String addEvent \<or> event = eventType_String updateEvent then
        (let h = dropStores (cr_UID res) h in
         case parse (env_yaml E) (cr_Configuration res) of
           Inl err \<Rightarrow>
             go_bind (emitFailureOnResource E res (''Failed to parse configuration YAML: '' @ err) w)
               (\<lambda>w. Inr (h, w, False))
         | Inr stores \<Rightarrow>
             go_bind (build tryNoCache (cr_UID res) stores h) (\<lambda>h. Inr (h, w, True)))
      else if event = eventType_String deleteEvent then Inr (dropStores (cr_UID res) h, w, True)
      else go_bind (emitFailureOnResource E res (''Unknown event type: '' @ event) w)
             (\<lambda>w. Inr (h, w, False)))"

text \<open>The error the handler returns is always \<^verbatim>\<open>nil\<close>; it is left out of the result.\<close>

definition handleEvent ::
    "'w env \<Rightarrow> bool \<Rightarrow> string \<Rightarrow> any_meta \<Rightarrow> hstate \<Rightarrow> 'w \<Rightarrow> (hstate \<times> 'w) go" where
  "handleEvent E tryNoCache event obj h w =
     (case obj of
        OtherMeta \<Rightarrow> Inl NilDereference
      | ManagedResource given \<Rightarrow>
          (case updateMetadata E given w of
             (False, w) \<Rightarrow> Inr (h, w)
           | (True, w) \<Rightarrow>
               go_bind (emitSuccessOnResource E given ConditionFalse
                   (received_message event) w) (\<lambda>(r, w).
                 case r of
                   Inl err \<Rightarrow> Inr (h, w)
                 | Inr res \<Rightarrow>
                     if cr_Configuration res = [] then
                       go_bind (emitFailureOnResource E res ''Configuration YAML is empty'' w)
                         (\<lambda>w. Inr (h, w))
                     else
                       go_bind (handle_switch E tryNoCache event res h w) (\<lambda>(h, w, go_on).
                         if go_on then
                           go_bind (emitSuccessOnResource E res ConditionTrue
                               (processed_message event) w)
                             (\<lambda>(r, w). Inr (h, w))
                         else Inr (h, w)))))"

section \<open>The status writes\<close>

lemma emitSuccess_eq:
  "emitSuccessOnResource E got b message w =
     (case api_Get E (cr_Namespace got) (cr_Name got) w of
        (Inl err, w) \<Rightarrow> Inr (Inl err, w)
      | (Inr res, w) \<Rightarrow> (case env_Now E w of (now, w) \<Rightarrow>
          let c = \<lparr>cd_Type = ''Processed'', cd_Status = b, cd_ObservedGeneration = 0,
                   cd_LastTransitionTime = 0, cd_Reason = [], cd_Message = message\<rparr>
          in Inr (api_UpdateStatus E (res\<lparr>cr_Conditions :=
               put_condition (stamped now res (reason_of c) (message_of c) c) (cr_Conditions res)\<rparr>) w)))"
  by (auto simp: emitSuccessOnResource_def Set_known ConditionType_def Let_def split: prod.split sum.split)

lemma emitSuccess_write:
  assumes "api_Get E (cr_Namespace given) (cr_Name given) w = (Inr got, w1)" and "env_Now E w1 = (now, w2)"
  shows "\<exists>ds. emitSuccessOnResource E given b msg w = Inr (api_UpdateStatus E (got\<lparr>cr_Conditions := ds\<rparr>) w2)
    \<and> condition_of ds ''Failed'' = condition_of (cr_Conditions got) ''Failed''
    \<and> map_option cd_Status (condition_of ds ''Processed'') = Some b"
proof -
  let ?c = "\<lparr>cd_Type = ''Processed'', cd_Status = b, cd_ObservedGeneration = 0,
      cd_LastTransitionTime = 0, cd_Reason = [], cd_Message = msg\<rparr>"
  let ?ds = "put_condition (stamped now got (reason_of ?c) (message_of ?c) ?c) (cr_Conditions got)"
  have "emitSuccessOnResource E given b msg w = Inr (api_UpdateStatus E (got\<lparr>cr_Conditions := ?ds\<rparr>) w2)"
    using assms by (simp add: emitSuccess_eq Let_def)
  then show ?thesis by (intro exI [of _ ?ds]) (simp add: condition_of_put)
qed

lemma emitFailure_eq:
  "emitFailureOnResource E got message w =
     (case api_Get E (cr_Namespace got) (cr_Name got) w of
        (Inl err, w) \<Rightarrow> Inr w
      | (Inr res, w) \<Rightarrow> (case env_Now E w of (now, w) \<Rightarrow>
          let c = \<lparr>cd_Type = ''Failed'', cd_Status = ''True'', cd_ObservedGeneration = 0,
                   cd_LastTransitionTime = 0, cd_Reason = [], cd_Message = message\<rparr>
          in Inr (snd (api_UpdateStatus E (res\<lparr>cr_Conditions :=
               put_condition (stamped now res (reason_of c) (message_of c) c) (cr_Conditions res)\<rparr>) w))))"
  by (auto simp: emitFailureOnResource_def Set_known ConditionType_def ConditionTrue_def Let_def
      split: prod.split sum.split)

lemma emitSuccess_no_panic [simp]: "emitSuccessOnResource E got b message w \<noteq> Inl p"
  by (auto simp: emitSuccess_eq Let_def split: prod.split sum.split)

lemma emitFailure_no_panic [simp]: "emitFailureOnResource E got message w \<noteq> Inl p"
  by (auto simp: emitFailure_eq Let_def split: prod.split sum.split)

section \<open>The stores of a resource\<close>

lemma dropStores_at:
  "stores_at (stores_map (dropStores u h)) v = (if v = u then [] else stores_at (stores_map h) v)"
  by (auto simp: dropStores_def stores_at_def gm_get_del)

lemma dropStores_get:
  "gm_get (stores_map (dropStores u h)) v = (if v = u then None else gm_get (stores_map h) v)"
  by (auto simp: dropStores_def gm_get_del)

lemma dropStores_heap [simp]: "heap (dropStores u h) = heap h"
  by (simp add: dropStores_def)

lemma dropStores_wf: "hstate_wf h \<Longrightarrow> hstate_wf (dropStores u h)"
  by (simp add: dropStores_def hstate_wf_drop)

text \<open>What one event can do to the stores: every case of the handler.\<close>

inductive stores_step :: "bool \<Rightarrow> yaml_engine \<Rightarrow> hstate \<Rightarrow> hstate \<Rightarrow> bool" for nc yaml where
  unchanged: "stores_step nc yaml h h"
| dropped: "stores_step nc yaml h (dropStores u h)"
| rebuilt: "parse yaml raw = Inr ps \<Longrightarrow> build nc u ps (dropStores u h) = Inr h'
    \<Longrightarrow> stores_step nc yaml h h'"

lemma handle_switch_step:
  assumes "handle_switch E nc event res h w = Inr (h', w', go_on)"
  shows "stores_step nc (env_yaml E) h h'"
  using assms
  by (auto simp: handle_switch_def Let_def go_bind_eq_Inr split: if_splits sum.splits
      intro: stores_step.intros)

text \<open>The handler gets as far as the switch, or leaves the stores as they were.\<close>

lemma handleEvent_cases:
  assumes "handleEvent E nc event obj h w = Inr (h', w')"
  obtains (early) "h' = h"
  | (switch) given w1 res w2 w3 go_on where
      "obj = ManagedResource given" "updateMetadata E given w = (True, w1)"
      "emitSuccessOnResource E given ConditionFalse (received_message event) w1
         = Inr (Inr res, w2)"
      "cr_Configuration res \<noteq> []"
      "handle_switch E nc event res h w2 = Inr (h', w3, go_on)"
      "go_on \<Longrightarrow> \<exists>r. emitSuccessOnResource E res ConditionTrue
         (processed_message event) w3 = Inr (r, w')"
      "\<not> go_on \<Longrightarrow> w3 = w'"
proof -
  from assms obtain given where obj: "obj = ManagedResource given"
    by (cases obj) (auto simp: handleEvent_def)
  obtain ok w1 where um: "updateMetadata E given w = (ok, w1)" by fastforce
  show thesis
  proof (cases ok)
    case False
    with assms obj um show ?thesis by (intro early) (simp add: handleEvent_def)
  next
    case True
    obtain r w2 where em: "emitSuccessOnResource E given ConditionFalse
        (received_message event) w1 = Inr (r, w2)"
      by (metis emitSuccess_no_panic old.sum.exhaust surj_pair)
    show ?thesis
    proof (cases r)
      case (Inl err)
      with assms obj um True em show ?thesis
        by (intro early) (simp add: handleEvent_def)
    next
      case (Inr res)
      show ?thesis
      proof (cases "cr_Configuration res = []")
        case empty: True
        with assms obj um True em Inr show ?thesis
          by (intro early) (auto simp: handleEvent_def go_bind_eq_Inr)
      next
        case False
        from assms obj um True em Inr False obtain w3 go_on where
          sw: "handle_switch E nc event res h w2 = Inr (h', w3, go_on)" and
          on: "go_on \<Longrightarrow> \<exists>r. emitSuccessOnResource E res ConditionTrue
            (processed_message event) w3 = Inr (r, w')"
          and off: "\<not> go_on \<Longrightarrow> w3 = w'"
          by (auto simp: handleEvent_def go_bind_eq_Inr split: if_splits)
        have "updateMetadata E given w = (True, w1)" using um True by simp
        moreover have "emitSuccessOnResource E given ConditionFalse (received_message event) w1
            = Inr (Inr res, w2)" using em Inr by simp
        ultimately show ?thesis by (rule switch [OF obj _ _ False sw on off])
      qed
    qed
  qed
qed

lemma handleEvent_step:
  assumes "handleEvent E nc event obj h w = Inr (h', w')"
  shows "stores_step nc (env_yaml E) h h'"
  using assms
proof (cases rule: handleEvent_cases)
  case early
  then show ?thesis by (simp add: stores_step.unchanged)
next
  case switch
  then show ?thesis by (blast intro: handle_switch_step)
qed

lemma stores_step_wf:
  assumes "stores_step nc yaml h h'" and "hstate_wf h"
  shows "hstate_wf h' \<and> (\<exists>bs. heap h' = heap h @ bs)"
  using assms
proof (induction rule: stores_step.induct)
  case (rebuilt raw ps u h h')
  with build_spec [OF rebuilt(2) dropStores_wf] show ?case by auto
qed (simp_all add: dropStores_wf)

section \<open>Properties\<close>

text \<open>A server that holds at most one resource, for the examples.\<close>

definition sample_env :: "resource option env" where
  "sample_env = \<lparr>
     api_Get = (\<lambda>ns n w. (case w of None \<Rightarrow> (Inl NotFound, w)
       | Some r \<Rightarrow> if cr_Namespace r = ns \<and> cr_Name r = n then (Inr r, w) else (Inl NotFound, w))),
     api_Update = (\<lambda>r w. (if w = None then Inl NotFound else Inr r, map_option (\<lambda>_. r) w)),
     api_UpdateStatus = (\<lambda>r w. (if w = None then Inl NotFound else Inr r, map_option (\<lambda>_. r) w)),
     env_Now = (\<lambda>w. (7, w)), env_Tick = (\<lambda>w. (True, w)),
     env_yaml = (\<lambda>raw. if raw = ''bad'' then Inl ''no'' else Inr [Some sample_entry]),
     env_Version = ''crdmetrics, version 1 (branch: b, revision: abc)''\<rparr>"

definition sample_resource :: resource where
  "sample_resource = empty_resource\<lparr>cr_Name := ''r'', cr_UID := ''u'', cr_Configuration := ''good''\<rparr>"

lemma sample_metadata:
  "updateMetadata sample_env r (Some r)
     = (True, Some (r\<lparr>cr_Labels := Some (metadata_labels (env_Version sample_env) (cr_Labels r))\<rparr>))"
  by (simp add: updateMetadata_def sample_env_def)

lemma sample_emit:
  assumes "cr_Name q = cr_Name r" and "cr_Namespace q = cr_Namespace r"
  shows "\<exists>ds. emitSuccessOnResource sample_env r b msg (Some q)
    = Inr (Inr (q\<lparr>cr_Conditions := ds\<rparr>), Some (q\<lparr>cr_Conditions := ds\<rparr>))"
proof -
  have g: "api_Get sample_env (cr_Namespace r) (cr_Name r) (Some q) = (Inr q, Some q)"
    using assms by (simp add: sample_env_def)
  have n: "env_Now sample_env (Some q) = (7, Some q)" by (simp add: sample_env_def)
  from emitSuccess_write [OF g n, of b msg] show ?thesis by (auto simp: sample_env_def)
qed

text \<open>An event that reaches the switch: the metadata was updated, the first status write went
  through and answered with a resource that has a configuration.\<close>

definition reaches_switch ::
    "'w env \<Rightarrow> string \<Rightarrow> resource \<Rightarrow> 'w \<Rightarrow> resource \<Rightarrow> 'w \<Rightarrow> bool" where
  "reaches_switch E event given w res w2 \<longleftrightarrow>
     (case updateMetadata E given w of (ok, w1) \<Rightarrow>
        ok \<and> emitSuccessOnResource E given ConditionFalse (received_message event) w1 = Inr (Inr res, w2))
     \<and> cr_Configuration res \<noteq> []"

lemma handleEvent_switch:
  assumes "reaches_switch E event given w res w2"
  shows "handleEvent E nc event (ManagedResource given) h w =
    go_bind (handle_switch E nc event res h w2) (\<lambda>(h, w, go_on).
      if go_on then go_bind (emitSuccessOnResource E res ConditionTrue (processed_message event) w)
                     (\<lambda>(r, w). Inr (h, w))
      else Inr (h, w))"
  using assms by (auto simp: reaches_switch_def handleEvent_def split: prod.splits)

lemma last_write:
  "\<exists>w'. go_bind (emitSuccessOnResource E res b msg w) (\<lambda>(r, w). Inr (h, w)) = Inr (h, w')"
  by (cases "emitSuccessOnResource E res b msg w") (auto split: prod.split)

lemma sample_reaches:
  "\<exists>ds q. cr_UID q = ''u'' \<and> cr_Configuration q = ''good'' \<and> cr_Name q = ''r'' \<and> cr_Namespace q = []
    \<and> reaches_switch sample_env event sample_resource (Some sample_resource)
        (q\<lparr>cr_Conditions := ds\<rparr>) (Some (q\<lparr>cr_Conditions := ds\<rparr>))"
proof -
  let ?q = "sample_resource\<lparr>cr_Labels := Some (metadata_labels (env_Version sample_env) (cr_Labels sample_resource))\<rparr>"
  obtain ds where "emitSuccessOnResource sample_env sample_resource ConditionFalse (received_message event) (Some ?q)
      = Inr (Inr (?q\<lparr>cr_Conditions := ds\<rparr>), Some (?q\<lparr>cr_Conditions := ds\<rparr>))"
    using sample_emit [of ?q sample_resource] by auto
  then have "reaches_switch sample_env event sample_resource (Some sample_resource)
        (?q\<lparr>cr_Conditions := ds\<rparr>) (Some (?q\<lparr>cr_Conditions := ds\<rparr>))"
    by (simp add: reaches_switch_def sample_metadata sample_resource_def)
  then show ?thesis
    by (intro exI [of _ ds] exI [of _ ?q]) (simp add: sample_resource_def empty_resource_def)
qed

lemma handleEvent_rebuild:
  assumes "reaches_switch E event given w res w2" and "event = ''addEvent'' \<or> event = ''updateEvent''"
    and "env_yaml E (cr_Configuration res) = Inr ps"
    and "\<forall>p \<in> set ps. \<exists>sc. p = Some sc \<and> store_config sc" and "hstate_wf h"
  shows "\<exists>h' w'. handleEvent E nc event (ManagedResource given) h w = Inr (h', w')
    \<and> stores_at (stores_map h') (cr_UID res) = [length (heap h)..<length (heap h) + length ps]
    \<and> (\<forall>v. v \<noteq> cr_UID res \<longrightarrow> gm_get (stores_map h') v = gm_get (stores_map h) v)
    \<and> take (length (heap h)) (heap h') = heap h"
proof -
  let ?d = "dropStores (cr_UID res) h"
  obtain h' where b: "build nc (cr_UID res) ps ?d = Inr h'"
    using build_no_panic [OF assms(4)] by blast
  have "handle_switch E nc event res h w2 = Inr (h', w2, True)"
    using assms(2,3) b by (auto simp: handle_switch_def parse_def)
  then have "\<exists>w'. handleEvent E nc event (ManagedResource given) h w = Inr (h', w')"
    using last_write by (simp add: handleEvent_switch [OF assms(1)])
  moreover have "(\<exists>bs. heap h' = heap h @ bs) \<and> stores_at (stores_map h') (cr_UID res)
        = [length (heap h)..<length (heap h) + length ps]
      \<and> (\<forall>v. v \<noteq> cr_UID res \<longrightarrow> gm_get (stores_map h') v = gm_get (stores_map h) v)"
    using build_spec [OF b dropStores_wf [OF assms(5)]] by (auto simp: dropStores_at dropStores_get)
  ultimately show ?thesis by auto
qed

text \<open>C8: an add or update event that reaches the switch with a well-formed configuration replaces
  the stores of the resource by newly built ones, one per entry, and leaves the stores of
  every other resource; the replaced stores are still in the heap.\<close>

theorem event_rebuilds_stores:
  assumes "reaches_switch E event given w res w2" and "event = ''addEvent'' \<or> event = ''updateEvent''"
    and "env_yaml E (cr_Configuration res) = Inr ps"
    and "\<forall>p \<in> set ps. \<exists>sc. p = Some sc \<and> store_config sc" and "hstate_wf h"
  shows "\<exists>h' w'. handleEvent E nc event (ManagedResource given) h w = Inr (h', w')
    \<and> stores_at (stores_map h') (cr_UID res) = [length (heap h)..<length (heap h) + length ps]
    \<and> (\<forall>v. v \<noteq> cr_UID res \<longrightarrow> gm_get (stores_map h') v = gm_get (stores_map h) v)
    \<and> take (length (heap h)) (heap h') = heap h"
  using assms by (rule handleEvent_rebuild)

theorem event_rebuilds_stores_witness:
  "\<exists>h' w'. handleEvent sample_env False ''updateEvent'' (ManagedResource sample_resource)
      \<lparr>heap = [], stores_map = [(''u'', [])]\<rparr> (Some sample_resource) = Inr (h', w')
    \<and> stores_at (stores_map h') ''u'' = [0]"
proof -
  obtain ds q where q: "cr_UID q = ''u''" "cr_Configuration q = ''good''"
    "reaches_switch sample_env ''updateEvent'' sample_resource (Some sample_resource)
        (q\<lparr>cr_Conditions := ds\<rparr>) (Some (q\<lparr>cr_Conditions := ds\<rparr>))"
    using sample_reaches by blast
  have y: "env_yaml sample_env (cr_Configuration (q\<lparr>cr_Conditions := ds\<rparr>)) = Inr [Some sample_entry]"
    using q(2) by (simp add: sample_env_def)
  have h: "hstate_wf \<lparr>heap = [], stores_map = [(''u'', [])]\<rparr>" by (simp add: hstate_wf_def)
  show ?thesis
    using event_rebuilds_stores [OF q(3) _ y _ h, of False] q(1) sample_entry_config
    by (auto simp: upt_rec)
qed

text \<open>A delete event that reaches the switch takes the resource out of the map and leaves every
  store, and so every reflector, where it was.\<close>

theorem delete_event_drops_stores:
  assumes "reaches_switch E ''deleteEvent'' given w res w2"
  shows "\<exists>h' w'. handleEvent E nc ''deleteEvent'' (ManagedResource given) h w = Inr (h', w')
    \<and> heap h' = heap h
    \<and> (\<forall>v. gm_get (stores_map h') v = (if v = cr_UID res then None else gm_get (stores_map h) v))"
proof -
  have "handle_switch E nc ''deleteEvent'' res h w2 = Inr (dropStores (cr_UID res) h, w2, True)"
    by (simp add: handle_switch_def)
  then have "\<exists>w'. handleEvent E nc ''deleteEvent'' (ManagedResource given) h w
      = Inr (dropStores (cr_UID res) h, w')"
    using last_write by (simp add: handleEvent_switch [OF assms])
  then show ?thesis by (auto simp: dropStores_get)
qed

theorem delete_event_drops_stores_witness:
  "\<exists>h' w'. handleEvent sample_env False ''deleteEvent'' (ManagedResource sample_resource)
      \<lparr>heap = [], stores_map = [(''u'', []), (''v'', [])]\<rparr> (Some sample_resource) = Inr (h', w')
    \<and> gm_get (stores_map h') ''u'' = None \<and> gm_get (stores_map h') ''v'' = Some []"
proof -
  obtain ds q where q: "cr_UID q = ''u''" "cr_Configuration q = ''good''"
    "reaches_switch sample_env ''deleteEvent'' sample_resource (Some sample_resource)
        (q\<lparr>cr_Conditions := ds\<rparr>) (Some (q\<lparr>cr_Conditions := ds\<rparr>))"
    using sample_reaches by blast
  show ?thesis
    using delete_event_drops_stores [OF q(3), of False "\<lparr>heap = [], stores_map = [(''u'', []), (''v'', [])]\<rparr>"] q(1)
    by auto
qed

text \<open>C22: when the configuration does not parse, the stores of the resource are gone all the same,
  and the last thing the handler does is to write the Failed condition, with the parser's
  message, to the resource the server has then; Processed is left as it is there.\<close>

theorem parse_failure:
  assumes "reaches_switch E event given w res w2" and "event = ''addEvent'' \<or> event = ''updateEvent''"
    and "env_yaml E (cr_Configuration res) = Inl err"
    and "api_Get E (cr_Namespace res) (cr_Name res) w2 = (Inr got, w3)" and "env_Now E w3 = (now, w4)"
  shows "\<exists>ds. handleEvent E nc event (ManagedResource given) h w
      = Inr (dropStores (cr_UID res) h, snd (api_UpdateStatus E (got\<lparr>cr_Conditions := ds\<rparr>) w4))
    \<and> condition_of ds ''Failed'' = Some
       \<lparr>cd_Type = ''Failed'', cd_Status = ''True'', cd_ObservedGeneration = cr_Generation got,
        cd_LastTransitionTime = now, cd_Reason = ''EventHandlerFailed'',
        cd_Message = ''Resource failed to process: Failed to parse configuration YAML: error unmarshalling configuration: '' @ err\<rparr>
    \<and> condition_of ds ''Processed'' = condition_of (cr_Conditions got) ''Processed''"
proof -
  let ?msg = "''Failed to parse configuration YAML: '' @ ''error unmarshalling configuration: '' @ err"
  let ?c = "\<lparr>cd_Type = ''Failed'', cd_Status = ''True'', cd_ObservedGeneration = 0,
      cd_LastTransitionTime = 0, cd_Reason = [], cd_Message = ?msg\<rparr>"
  let ?ds = "put_condition (stamped now got (reason_of ?c) (message_of ?c) ?c) (cr_Conditions got)"
  have f: "emitFailureOnResource E res ?msg w2 = Inr (snd (api_UpdateStatus E (got\<lparr>cr_Conditions := ?ds\<rparr>) w4))"
    using assms(4,5) by (simp add: emitFailure_eq Let_def)
  have "handle_switch E nc event res h w2 = go_bind (emitFailureOnResource E res ?msg w2)
      (\<lambda>w. Inr (dropStores (cr_UID res) h, w, False))"
    using assms(2,3) by (auto simp: handle_switch_def parse_def Let_def)
  with f have "handleEvent E nc event (ManagedResource given) h w
      = Inr (dropStores (cr_UID res) h, snd (api_UpdateStatus E (got\<lparr>cr_Conditions := ?ds\<rparr>) w4))"
    by (simp add: handleEvent_switch [OF assms(1)])
  moreover have "condition_of ?ds ''Failed'' = Some (stamped now got (reason_of ?c) (message_of ?c) ?c)"
    and "condition_of ?ds ''Processed'' = condition_of (cr_Conditions got) ''Processed''"
    by (simp_all add: condition_of_put)
  ultimately show ?thesis
    by (intro exI [of _ ?ds]) (simp add: stamped_def reason_of_def message_of_def)
qed

theorem parse_failure_witness:
  "\<exists>w'. handleEvent sample_env False ''updateEvent'' (ManagedResource (sample_resource\<lparr>cr_Configuration := ''bad''\<rparr>))
      \<lparr>heap = [], stores_map = [(''u'', [])]\<rparr> (Some (sample_resource\<lparr>cr_Configuration := ''bad''\<rparr>))
     = Inr (\<lparr>heap = [], stores_map = []\<rparr>, w')"
proof -
  let ?r = "sample_resource\<lparr>cr_Configuration := ''bad''\<rparr>"
  let ?q = "?r\<lparr>cr_Labels := Some (metadata_labels (env_Version sample_env) (cr_Labels ?r))\<rparr>"
  obtain ds where "emitSuccessOnResource sample_env ?r ConditionFalse (received_message ''updateEvent'') (Some ?q)
      = Inr (Inr (?q\<lparr>cr_Conditions := ds\<rparr>), Some (?q\<lparr>cr_Conditions := ds\<rparr>))"
    using sample_emit [of ?q ?r] by auto
  then have s: "reaches_switch sample_env ''updateEvent'' ?r (Some ?r)
        (?q\<lparr>cr_Conditions := ds\<rparr>) (Some (?q\<lparr>cr_Conditions := ds\<rparr>))"
    by (simp add: reaches_switch_def sample_metadata)
  let ?p = "?q\<lparr>cr_Conditions := ds\<rparr>"
  have y: "env_yaml sample_env (cr_Configuration ?p) = Inl ''no''" by (simp add: sample_env_def)
  have g: "api_Get sample_env (cr_Namespace ?p) (cr_Name ?p) (Some ?p) = (Inr ?p, Some ?p)"
    by (simp add: sample_env_def)
  have n: "env_Now sample_env (Some ?p) = (7, Some ?p)" by (simp add: sample_env_def)
  have u: "cr_UID ?p = ''u''" by (simp add: sample_resource_def)
  show ?thesis
    using parse_failure [OF s _ y g n, of False "\<lparr>heap = [], stores_map = [(''u'', [])]\<rparr>"]
    unfolding u by (auto simp: dropStores_def)
qed

text \<open>Writing Processed, with whatever status, never touches a Failed condition: once a
  resource has failed, it keeps saying so after its configuration has been repaired.\<close>

theorem success_keeps_failure:
  assumes "api_Get E (cr_Namespace given) (cr_Name given) w = (Inr got, w1)" and "env_Now E w1 = (now, w2)"
  shows "\<exists>ds. emitSuccessOnResource E given b msg w = Inr (api_UpdateStatus E (got\<lparr>cr_Conditions := ds\<rparr>) w2)
    \<and> condition_of ds ''Failed'' = condition_of (cr_Conditions got) ''Failed''
    \<and> map_option cd_Status (condition_of ds ''Processed'') = Some b"
  using emitSuccess_write [OF assms, of b msg] by auto

theorem success_keeps_failure_witness:
  "\<exists>ds. emitSuccessOnResource sample_env sample_resource ''True'' ''m''
      (Some (sample_resource\<lparr>cr_Conditions := [\<lparr>cd_Type = ''Failed'', cd_Status = ''True'',
         cd_ObservedGeneration = 1, cd_LastTransitionTime = 1, cd_Reason = [], cd_Message = []\<rparr>]\<rparr>))
      = Inr (api_UpdateStatus sample_env (sample_resource\<lparr>cr_Conditions := ds\<rparr>)
          (Some (sample_resource\<lparr>cr_Conditions := [\<lparr>cd_Type = ''Failed'', cd_Status = ''True'',
             cd_ObservedGeneration = 1, cd_LastTransitionTime = 1, cd_Reason = [], cd_Message = []\<rparr>]\<rparr>)))
    \<and> map_option cd_Status (condition_of ds ''Failed'') = Some ''True''"
proof -
  let ?r = "sample_resource\<lparr>cr_Conditions := [\<lparr>cd_Type = ''Failed'', cd_Status = ''True'',
         cd_ObservedGeneration = 1, cd_LastTransitionTime = 1, cd_Reason = [], cd_Message = []\<rparr>]\<rparr>"
  have g: "api_Get sample_env (cr_Namespace sample_resource) (cr_Name sample_resource) (Some ?r) = (Inr ?r, Some ?r)"
    by (simp add: sample_env_def)
  have n: "env_Now sample_env (Some ?r) = (7, Some ?r)" by (simp add: sample_env_def)
  show ?thesis using success_keeps_failure [OF g n, of "''True''" "''m''"] by auto
qed

text \<open>The labels the controller puts on a resource: its own name, and the revision of the build
  when the version text has one; every other label stays as it was.\<close>

theorem metadata_labels_effect:
  "gm_get (metadata_labels version labels) k =
     (if k = ''app.kubernetes.io/version'' \<and> find_revision version \<noteq> None then find_revision version
      else if k = ''app.kubernetes.io/managed-by'' then Some ''crdmetrics''
      else case labels of None \<Rightarrow> None | Some m \<Rightarrow> gm_get m k)"
  by (auto simp: metadata_labels_def Let_def gm_get_set ControllerName_def ReplaceAll_def split: option.split)

end
