(* ===== verification/Workqueue.thy ===== *)
theory Workqueue
  imports Prelude
begin

text \<open>
  The rate limited work queue of client-go the controller hands its items to
  (\<^verbatim>\<open>util/workqueue/queue.go\<close>, \<^verbatim>\<open>rate_limiting_queue.go\<close>, \<^verbatim>\<open>default_rate_limiters.go\<close>, vendored).
  Its mutex makes each operation one step. The sets are lists without duplicates. \<open>Get\<close> is
  \<open>None\<close> while it blocks. What the queue delays after \<open>AddRateLimited\<close> is kept as the list of
  waiting items with their delays; when a delay ends the item is added.
\<close>

record 'a typed_queue =
  wq_queue :: "'a list"
  wq_dirty :: "'a list"
  wq_processing :: "'a list"
  wq_shuttingDown :: bool
  wq_drain :: bool

definition newQueue :: "'a typed_queue" where
  "newQueue = \<lparr>wq_queue = [], wq_dirty = [], wq_processing = [],
     wq_shuttingDown = False, wq_drain = False\<rparr>"

definition wq_Add :: "'a \<Rightarrow> 'a typed_queue \<Rightarrow> 'a typed_queue" where
  "wq_Add item q =
     (if wq_shuttingDown q then q
      else if item \<in> set (wq_dirty q) then q
      else let q = q\<lparr>wq_dirty := List.insert item (wq_dirty q)\<rparr> in
        if item \<in> set (wq_processing q) then q
        else q\<lparr>wq_queue := wq_queue q @ [item]\<rparr>)"

definition wq_Len :: "'a typed_queue \<Rightarrow> nat" where
  "wq_Len q = length (wq_queue q)"

datatype 'a got = Item 'a | Shutdown

definition wq_Get :: "'a typed_queue \<Rightarrow> ('a got \<times> 'a typed_queue) option" where
  "wq_Get q =
     (case wq_queue q of
        [] \<Rightarrow> if wq_shuttingDown q then Some (Shutdown, q) else None
      | item # rest \<Rightarrow>
          Some (Item item,
            q\<lparr>wq_queue := rest,
              wq_processing := List.insert item (wq_processing q),
              wq_dirty := remove1 item (wq_dirty q)\<rparr>))"

definition wq_Done :: "'a \<Rightarrow> 'a typed_queue \<Rightarrow> 'a typed_queue" where
  "wq_Done item q =
     (let q = q\<lparr>wq_processing := remove1 item (wq_processing q)\<rparr> in
      if item \<in> set (wq_dirty q) then q\<lparr>wq_queue := wq_queue q @ [item]\<rparr> else q)"

definition wq_ShutDown :: "'a typed_queue \<Rightarrow> 'a typed_queue" where
  "wq_ShutDown q = q\<lparr>wq_drain := False, wq_shuttingDown := True\<rparr>"

section \<open>Rate limiting\<close>

text \<open>
  The exponential limiter, in nanoseconds. The product with a power of two is exact in
  \<^verbatim>\<open>float64\<close> for a base below \<open>2 ^ 53\<close>, up to the infinity that the comparison with
  \<^verbatim>\<open>math.MaxInt64\<close> (there \<open>2 ^ 63\<close>) catches; it is converted to 64 bits after that.
\<close>

definition exponential_When :: "int \<Rightarrow> int \<Rightarrow> nat \<Rightarrow> int" where
  "exponential_When baseDelay maxDelay exp =
     (let backoff = baseDelay * 2 ^ exp in
      if backoff > 2 ^ 63 then maxDelay
      else let calculated = sint (word_of_int backoff :: 64 word) in
        if calculated > maxDelay then maxDelay else calculated)"

definition MaxOf_When :: "int list \<Rightarrow> int" where
  "MaxOf_When delays = fold (\<lambda>curr ret. if curr > ret then curr else ret) delays 0"

definition baseDelay :: int where
  "baseDelay = 5 * 1000000"

definition maxDelay :: int where
  "maxDelay = 5 * 60 * 1000000000"

record 'a rate_queue =
  rq_typed :: "'a typed_queue"
  rq_failures :: "('a, nat) gomap"
  rq_waiting :: "('a, int) gomap"

definition newRateLimitingQueue :: "'a rate_queue" where
  "newRateLimitingQueue = \<lparr>rq_typed = newQueue, rq_failures = [], rq_waiting = []\<rparr>"

definition failures_of :: "'a rate_queue \<Rightarrow> 'a \<Rightarrow> nat" where
  "failures_of rq item = (case gm_get (rq_failures rq) item of None \<Rightarrow> 0 | Some n \<Rightarrow> n)"

text \<open>One waiting entry per item, with the earliest time it was given.\<close>

definition wait_insert :: "'a \<Rightarrow> int \<Rightarrow> ('a, int) gomap \<Rightarrow> ('a, int) gomap" where
  "wait_insert item readyAt m =
     (case gm_get m item of
        Some existing \<Rightarrow> if readyAt < existing then gm_set item readyAt m else m
      | None \<Rightarrow> gm_set item readyAt m)"

text \<open>
  \<open>bucket\<close> is the delay the token bucket, shared by all items, answers with, and \<open>now\<close> the
  time. A shutting down queue ignores the call; a delay of at most 0 adds the item at once.
\<close>

definition AddRateLimited :: "int \<Rightarrow> int \<Rightarrow> 'a \<Rightarrow> 'a rate_queue \<Rightarrow> 'a rate_queue" where
  "AddRateLimited bucket now item rq =
     (let exp = failures_of rq item;
          rq = rq\<lparr>rq_failures := gm_set item (exp + 1) (rq_failures rq)\<rparr>;
          duration = MaxOf_When [exponential_When baseDelay maxDelay exp, bucket]
      in if wq_shuttingDown (rq_typed rq) then rq
         else if duration \<le> 0 then rq\<lparr>rq_typed := wq_Add item (rq_typed rq)\<rparr>
         else rq\<lparr>rq_waiting := wait_insert item (now + duration) (rq_waiting rq)\<rparr>)"

text \<open>The waiting loop takes out an entry that is ready.\<close>

definition release :: "int \<Rightarrow> 'a \<Rightarrow> 'a rate_queue \<Rightarrow> 'a rate_queue" where
  "release now item rq =
     (case gm_get (rq_waiting rq) item of
        Some readyAt \<Rightarrow>
          if readyAt \<le> now \<and> \<not> wq_shuttingDown (rq_typed rq)
          then rq\<lparr>rq_waiting := gm_del item (rq_waiting rq), rq_typed := wq_Add item (rq_typed rq)\<rparr>
          else rq
      | None \<Rightarrow> rq)"

definition Forget :: "'a \<Rightarrow> 'a rate_queue \<Rightarrow> 'a rate_queue" where
  "Forget item rq = rq\<lparr>rq_failures := gm_del item (rq_failures rq)\<rparr>"

definition NumRequeues :: "'a \<Rightarrow> 'a rate_queue \<Rightarrow> nat" where
  "NumRequeues item rq = fold max [failures_of rq item, 0] 0"

lemma sint_of_int64: "0 \<le> x \<Longrightarrow> x < 2 ^ 63 \<Longrightarrow> sint (word_of_int x :: 64 word) = x"
  by (simp add: signed_of_int signed_take_bit_int_eq_self)

text \<open>With the controller's delays the conversion to 64 bits never wraps around.\<close>

lemma exponential_When_controller:
  "exponential_When baseDelay maxDelay n = min (baseDelay * 2 ^ n) maxDelay"
proof (cases "baseDelay * 2 ^ n > 2 ^ 63")
  case True
  then show ?thesis by (simp add: exponential_When_def baseDelay_def maxDelay_def)
next
  case False
  let ?b = "baseDelay * 2 ^ n"
  have "?b \<noteq> 2 ^ 63"
  proof
    assume "?b = 2 ^ 63"
    then have "(5::int) dvd 2 ^ 63" by (metis baseDelay_def dvd_triv_left mult.assoc)
    then show False by simp
  qed
  with False have "?b < 2 ^ 63" by simp
  moreover have "0 \<le> ?b" by (simp add: baseDelay_def)
  ultimately have "sint (word_of_int ?b :: 64 word) = ?b"
    by (rule sint_of_int64 [rotated])
  with False show ?thesis by (simp add: exponential_When_def Let_def)
qed

section \<open>The invariant of the queue\<close>

text \<open>
  The comment on the fields of the queue, as an invariant: the queue holds, once each, the
  items that need processing and are not being processed.
\<close>

definition wq_inv :: "'a typed_queue \<Rightarrow> bool" where
  "wq_inv q \<longleftrightarrow> distinct (wq_queue q) \<and> distinct (wq_dirty q) \<and> distinct (wq_processing q)
     \<and> set (wq_queue q) = set (wq_dirty q) - set (wq_processing q)"

lemma wq_inv_new [simp]: "wq_inv newQueue"
  by (simp add: wq_inv_def newQueue_def)

lemma wq_inv_Add: "wq_inv q \<Longrightarrow> wq_inv (wq_Add item q)"
  by (cases q) (auto simp: wq_inv_def wq_Add_def Let_def)

lemma wq_Get_Item:
  "wq_Get q = Some (Item x, q') \<longleftrightarrow> (\<exists>rest. wq_queue q = x # rest
     \<and> q' = q\<lparr>wq_queue := rest, wq_processing := List.insert x (wq_processing q),
             wq_dirty := remove1 x (wq_dirty q)\<rparr>)"
  by (cases "wq_queue q") (auto simp: wq_Get_def)

lemma wq_inv_Get:
  assumes "wq_inv q" and "wq_Get q = Some (Item x, q')"
  shows "wq_inv q'"
proof -
  from assms(2) obtain rest where r: "wq_queue q = x # rest"
    "q' = q\<lparr>wq_queue := rest, wq_processing := List.insert x (wq_processing q),
             wq_dirty := remove1 x (wq_dirty q)\<rparr>"
    by (auto simp: wq_Get_Item)
  from assms(1) r(1) have "insert x (set rest) = set (wq_dirty q) - set (wq_processing q)"
    and "x \<notin> set rest" by (simp_all add: wq_inv_def)
  then have "set rest = (set (wq_dirty q) - {x}) - insert x (set (wq_processing q))" by blast
  with assms(1) r show ?thesis by (simp add: wq_inv_def)
qed

lemma wq_inv_Done:
  assumes "wq_inv q" and "item \<in> set (wq_processing q)"
  shows "wq_inv (wq_Done item q)"
proof -
  let ?p = "remove1 item (wq_processing q)"
  from assms have p: "distinct ?p" "set ?p = set (wq_processing q) - {item}"
    by (simp_all add: wq_inv_def)
  have q: "set (wq_queue q) = set (wq_dirty q) - set (wq_processing q)"
    using assms(1) by (simp add: wq_inv_def)
  show ?thesis
  proof (cases "item \<in> set (wq_dirty q)")
    case True
    then have "insert item (set (wq_queue q)) = set (wq_dirty q) - set ?p" using p(2) q by blast
    moreover have "item \<notin> set (wq_queue q)" using q assms(2) by blast
    ultimately show ?thesis using True assms(1) p(1) by (simp add: wq_inv_def wq_Done_def)
  next
    case False
    then have "set (wq_queue q) = set (wq_dirty q) - set ?p" using p(2) q by blast
    with False assms(1) p(1) show ?thesis by (simp add: wq_inv_def wq_Done_def)
  qed
qed

lemma wq_inv_ShutDown: "wq_inv q \<Longrightarrow> wq_inv (wq_ShutDown q)"
  by (simp add: wq_inv_def wq_ShutDown_def)

lemma wq_Get_fresh:
  assumes "wq_inv q" and "wq_Get q = Some (Item x, q')"
  shows "x \<notin> set (wq_processing q) \<and> set (wq_processing q') = insert x (set (wq_processing q))
    \<and> x \<notin> set (wq_dirty q')"
proof -
  from assms(2) obtain rest where r: "wq_queue q = x # rest"
    "q' = q\<lparr>wq_queue := rest, wq_processing := List.insert x (wq_processing q),
             wq_dirty := remove1 x (wq_dirty q)\<rparr>"
    by (auto simp: wq_Get_Item)
  from assms(1) r(1) have "insert x (set rest) = set (wq_dirty q) - set (wq_processing q)"
    by (simp add: wq_inv_def)
  then have "x \<notin> set (wq_processing q)" by blast
  with assms(1) r(2) show ?thesis by (simp add: wq_inv_def)
qed

section \<open>Workers on the queue\<close>

text \<open>
  The calls the rest of the program makes, as a transition system: items are added at any
  time; a worker that gets an item works on it until it is done.
\<close>

inductive wq_step ::
    "'a typed_queue \<times> 'a list \<Rightarrow> 'a typed_queue \<times> 'a list \<Rightarrow> bool" where
  add: "wq_step (q, working) (wq_Add item q, working)"
| get: "wq_Get q = Some (Item item, q') \<Longrightarrow> wq_step (q, working) (q', item # working)"
| finish: "item \<in> set working \<Longrightarrow> wq_step (q, working) (wq_Done item q, remove1 item working)"
| shut: "wq_step (q, working) (wq_ShutDown q, working)"

inductive wq_reach :: "'a typed_queue \<times> 'a list \<Rightarrow> bool" where
  init: "wq_reach (newQueue, [])"
| step: "wq_reach s \<Longrightarrow> wq_step s s' \<Longrightarrow> wq_reach s'"

lemma wq_reach_inv:
  assumes "wq_reach s"
  shows "wq_inv (fst s) \<and> distinct (snd s) \<and> set (snd s) = set (wq_processing (fst s))"
  using assms
proof (induction rule: wq_reach.induct)
  case init
  then show ?case by (simp add: newQueue_def wq_inv_def)
next
  case (step s s')
  obtain q working where s: "s = (q, working)" by fastforce
  with step have inv: "wq_inv q" "distinct working" "set working = set (wq_processing q)" by simp_all
  from step(2) [unfolded s] show ?case
  proof cases
    case (add item)
    moreover have "wq_processing (wq_Add item q) = wq_processing q"
      by (simp add: wq_Add_def Let_def)
    ultimately show ?thesis using inv by (simp add: wq_inv_Add)
  next
    case (get item q')
    with inv wq_Get_fresh [OF inv(1) get(2)] show ?thesis by (auto intro: wq_inv_Get)
  next
    case (finish item)
    with inv have "wq_inv (wq_Done item q)" by (auto intro: wq_inv_Done)
    moreover have "set (wq_processing (wq_Done item q)) = set (wq_processing q) - {item}"
      using inv(1) by (simp add: wq_Done_def Let_def wq_inv_def)
    ultimately show ?thesis using inv finish by simp
  next
    case shut
    moreover have "wq_processing (wq_ShutDown q) = wq_processing q" by (simp add: wq_ShutDown_def)
    ultimately show ?thesis using inv by (simp add: wq_inv_ShutDown)
  qed
qed

section \<open>Properties\<close>

text \<open>C15: in every state that adds, gets, completions and a shutdown can lead to, with any number of
  workers, no item is worked on twice at once, the items in progress are the ones being
  worked on, and the queue holds, once each, exactly the items that need processing and are
  not in progress.\<close>

theorem wq_reach_exclusive:
  assumes "wq_reach (q, working)"
  shows "distinct working \<and> set working = set (wq_processing q) \<and> distinct (wq_queue q)
    \<and> set (wq_queue q) = set (wq_dirty q) - set working"
  using wq_reach_inv [OF assms] by (simp add: wq_inv_def)

theorem wq_reach_exclusive_witness:
  "set (wq_queue (wq_Add (1::nat) newQueue)) = set (wq_dirty (wq_Add 1 newQueue)) - set []"
proof -
  have "wq_reach (wq_Add (1::nat) newQueue, [])"
    by (rule wq_reach.step [OF wq_reach.init wq_step.add])
  from wq_reach_exclusive [OF this] show ?thesis by simp
qed

text \<open>C30: an item added to a queue that is not shutting down is not lost: it is queued at once when
  nobody works on it, and otherwise as soon as the worker is done with it.\<close>

theorem added_item_is_queued:
  assumes "wq_inv q" and "\<not> wq_shuttingDown q"
  shows "item \<in> set (wq_queue (if item \<in> set (wq_processing q) then wq_Done item (wq_Add item q)
                               else wq_Add item q))"
  using assms by (auto simp: wq_inv_def wq_Add_def wq_Done_def Let_def)

theorem added_item_is_queued_witness:
  "(3::nat) \<in> set (wq_queue (wq_Done 3 (wq_Add 3
      \<lparr>wq_queue = [], wq_dirty = [], wq_processing = [3], wq_shuttingDown = False, wq_drain = False\<rparr>)))"
  using added_item_is_queued [of "\<lparr>wq_queue = [], wq_dirty = [], wq_processing = [3::nat],
      wq_shuttingDown = False, wq_drain = False\<rparr>" 3]
  by (simp add: wq_inv_def)

text \<open>C36: the retry delays of an item double from 5 milliseconds and stop at 5 minutes, however often
  it fails: the conversion to 64 bits neither wraps around nor turns negative.\<close>

theorem exponential_backoff:
  "exponential_When baseDelay maxDelay n = min (5000000 * 2 ^ n) 300000000000
     \<and> 0 < exponential_When baseDelay maxDelay n"
  by (simp add: exponential_When_controller) (simp add: baseDelay_def maxDelay_def)

end
