(* ===== verification/Controller.thy ===== *)
theory Controller
  imports Events Workqueue
begin

text \<open>
  \<^verbatim>\<open>internal/controller.go\<close>: the informer's callbacks put a key and an event on the work
  queue; a worker takes an item, looks the key up in the informer's cache and calls the
  handler. The keys are those of \<^verbatim>\<open>client-go/tools/cache\<close>.
\<close>

section \<open>Keys\<close>

record object_name =
  on_Namespace :: string
  on_Name :: string

definition ObjectName_String :: "object_name \<Rightarrow> string" where
  "ObjectName_String objName =
     (if length (on_Namespace objName) > 0 then on_Namespace objName @ ''/'' @ on_Name objName
      else on_Name objName)"

definition MetaObjectToName :: "resource \<Rightarrow> object_name" where
  "MetaObjectToName obj =
     (if length (cr_Namespace obj) > 0
      then \<lparr>on_Namespace = cr_Namespace obj, on_Name = cr_Name obj\<rparr>
      else \<lparr>on_Namespace = [], on_Name = cr_Name obj\<rparr>)"

text \<open>
  What an informer callback receives: the managed resource, the tombstone of a deletion the
  watch missed, or a value of another type. Only the first has object metadata.
\<close>

datatype informer_object =
    InformerResource resource
  | DeletedFinalStateUnknown string resource
  | NoMetadata

definition MetaNamespaceKeyFunc :: "informer_object \<Rightarrow> string option" where
  "MetaNamespaceKeyFunc obj =
     (case obj of
        InformerResource res \<Rightarrow> Some (ObjectName_String (MetaObjectToName res))
      | _ \<Rightarrow> None)"

definition SplitMetaNamespaceKey :: "string \<Rightarrow> (string \<times> string) option" where
  "SplitMetaNamespaceKey key =
     (case Split CHR ''/'' key of
        [name] \<Rightarrow> Some ([], name)
      | [namespace, name] \<Rightarrow> Some (namespace, name)
      | _ \<Rightarrow> None)"

section \<open>Callbacks of the informer\<close>

type_synonym work_item = "string \<times> string"

definition enqueueCRDMetrics ::
    "informer_object \<Rightarrow> eventType \<Rightarrow> work_item rate_queue \<Rightarrow> work_item rate_queue" where
  "enqueueCRDMetrics obj event rq =
     (case MetaNamespaceKeyFunc obj of
        None \<Rightarrow> rq
      | Some key \<Rightarrow> rq\<lparr>rq_typed := wq_Add (key, eventType_String event) (rq_typed rq)\<rparr>)"

definition AddFunc :: "informer_object \<Rightarrow> work_item rate_queue \<Rightarrow> work_item rate_queue" where
  "AddFunc obj rq = enqueueCRDMetrics obj addEvent rq"

definition UpdateFunc ::
    "informer_object \<Rightarrow> informer_object \<Rightarrow> work_item rate_queue \<Rightarrow> work_item rate_queue" where
  "UpdateFunc oldI newI rq =
     (case oldI of
        InformerResource old \<Rightarrow>
          (case newI of
             InformerResource new \<Rightarrow>
               if cr_ResourceVersion old = cr_ResourceVersion new
                  \<or> cr_Configuration old = cr_Configuration new then rq
               else enqueueCRDMetrics newI updateEvent rq
           | _ \<Rightarrow> rq)
      | _ \<Rightarrow> rq)"

definition DeleteFunc :: "informer_object \<Rightarrow> work_item rate_queue \<Rightarrow> work_item rate_queue" where
  "DeleteFunc obj rq = enqueueCRDMetrics obj deleteEvent rq"

section \<open>Processing one item\<close>

text \<open>The lister reads the informer's cache, a map of keys to resources.\<close>

type_synonym indexer = "(string, resource) gomap"

definition lister_Get :: "indexer \<Rightarrow> string \<Rightarrow> string \<Rightarrow> api_error + resource" where
  "lister_Get indexer namespace name =
     (case gm_get indexer (if namespace = [] then name else namespace @ ''/'' @ name) of
        None \<Rightarrow> Inl NotFound
      | Some res \<Rightarrow> Inr res)"

text \<open>What \<open>handleObject\<close> may be given, tombstones with or without an object included.\<close>

datatype any_handled =
    NilObject
  | MetaObject any_meta
  | TombstoneObject "any_meta option"
  | UnknownObject

definition handleObject ::
    "'w env \<Rightarrow> bool \<Rightarrow> any_handled \<Rightarrow> string \<Rightarrow> hstate \<Rightarrow> 'w \<Rightarrow> (hstate \<times> 'w) go" where
  "handleObject E tryNoCache objectI event h w =
     (let recovered =
        (case objectI of
           NilObject \<Rightarrow> None
         | MetaObject obj \<Rightarrow> Some obj
         | TombstoneObject obj \<Rightarrow> obj
         | UnknownObject \<Rightarrow> None)
      in case recovered of
           Some (ManagedResource o') \<Rightarrow> handleEvent E tryNoCache event (ManagedResource o') h w
         | _ \<Rightarrow> Inr (h, w))"

text \<open>The first component of the result: was there an error, so that the item is retried?\<close>

definition syncHandler ::
    "'w env \<Rightarrow> bool \<Rightarrow> (string \<Rightarrow> string \<Rightarrow> api_error + resource) \<Rightarrow> string \<Rightarrow> string \<Rightarrow> hstate \<Rightarrow> 'w
     \<Rightarrow> (bool \<times> hstate \<times> 'w) go" where
  "syncHandler E tryNoCache lister key event h w =
     (case SplitMetaNamespaceKey key of
        None \<Rightarrow> Inr (False, h, w)
      | Some (namespace, name) \<Rightarrow>
          (case lister namespace name of
             Inl OtherApiError \<Rightarrow> Inr (True, h, w)
           | Inl NotFound \<Rightarrow>
               go_bind (handleObject E tryNoCache
                   (MetaObject (ManagedResource (empty_resource\<lparr>cr_Name := name\<rparr>))) event h w)
                 (\<lambda>(h, w). Inr (False, h, w))
           | Inr res \<Rightarrow>
               go_bind (handleObject E tryNoCache (MetaObject (ManagedResource res)) event h w)
                 (\<lambda>(h, w). Inr (False, h, w))))"

record 'w cstate =
  c_queue :: "work_item rate_queue"
  c_indexer :: indexer
  c_stores :: hstate
  c_world :: 'w

text \<open>The body a worker runs on an item; \<open>Done\<close> is deferred to its end.\<close>

definition process_item ::
    "'w env \<Rightarrow> bool \<Rightarrow> int \<Rightarrow> int \<Rightarrow> work_item \<Rightarrow> 'w cstate \<Rightarrow> 'w cstate go" where
  "process_item E tryNoCache bucket now item c =
     go_bind (syncHandler E tryNoCache (lister_Get (c_indexer c)) (fst item) (snd item)
         (c_stores c) (c_world c)) (\<lambda>(failed, h, w).
       let rq = (if failed then AddRateLimited bucket now item (c_queue c) else Forget item (c_queue c))
       in Inr (c\<lparr>c_queue := rq\<lparr>rq_typed := wq_Done item (rq_typed rq)\<rparr>,
                 c_stores := h, c_world := w\<rparr>))"

text \<open>\<open>None\<close> while the worker is blocked on an empty queue.\<close>

definition processNextWorkItem ::
    "'w env \<Rightarrow> bool \<Rightarrow> int \<Rightarrow> int \<Rightarrow> 'w cstate \<Rightarrow> (bool \<times> 'w cstate) go option" where
  "processNextWorkItem E tryNoCache bucket now c =
     (case wq_Get (rq_typed (c_queue c)) of
        None \<Rightarrow> None
      | Some (Shutdown, q) \<Rightarrow> Some (Inr (False, c))
      | Some (Item item, q) \<Rightarrow>
          Some (go_bind (process_item E tryNoCache bucket now item
                   (c\<lparr>c_queue := (c_queue c)\<lparr>rq_typed := q\<rparr>\<rparr>)) (\<lambda>c. Inr (True, c))))"

section \<open>Keys and items\<close>

lemma SplitMetaNamespaceKey_name:
  assumes "CHR ''/'' \<notin> set (cr_Name res)" and "CHR ''/'' \<notin> set (cr_Namespace res)"
  shows "SplitMetaNamespaceKey (ObjectName_String (MetaObjectToName res))
    = Some (cr_Namespace res, cr_Name res)"
proof (cases "cr_Namespace res = []")
  case True
  with assms(1) show ?thesis
    by (simp add: SplitMetaNamespaceKey_def ObjectName_String_def MetaObjectToName_def Split_no_sep)
next
  case False
  have "Split CHR ''/'' (cr_Namespace res @ ''/'' @ cr_Name res) = [cr_Namespace res, cr_Name res]"
    using assms by (simp add: Split_append_sep Split_no_sep)
  with False show ?thesis
    by (simp add: SplitMetaNamespaceKey_def ObjectName_String_def MetaObjectToName_def)
qed

text \<open>The lister never fails but for a missing key, so no item is retried.\<close>

lemma lister_Get_not_other [simp]: "lister_Get indexer ns n \<noteq> Inl OtherApiError"
  by (simp add: lister_Get_def split: option.split)

lemma handleObject_step:
  "handleObject E nc x event h w = Inr (h', w') \<Longrightarrow> stores_step nc (env_yaml E) h h'"
  by (auto simp: handleObject_def Let_def intro: stores_step.unchanged handleEvent_step
      split: any_handled.splits option.splits any_meta.splits)

lemma syncHandler_never_fails:
  assumes "syncHandler E nc (lister_Get indexer) key event h w = Inr (failed, h', w')"
  shows "\<not> failed"
proof -
  have "lister_Get indexer ns n \<noteq> Inl OtherApiError" for ns n by simp
  with assms show ?thesis
    by (auto simp: syncHandler_def go_bind_eq_Inr split: option.splits sum.splits api_error.splits)
qed

lemma syncHandler_step:
  assumes "syncHandler E nc lister key event h w = Inr (failed, h', w')"
  shows "stores_step nc (env_yaml E) h h'"
  using assms
  by (auto simp: syncHandler_def go_bind_eq_Inr intro: stores_step.unchanged dest: handleObject_step
      split: option.splits sum.splits api_error.splits)

lemma process_item_eq:
  assumes "process_item E nc bucket now item c = Inr c'"
  shows "stores_step nc (env_yaml E) (c_stores c) (c_stores c')
    \<and> c_indexer c' = c_indexer c
    \<and> rq_typed (c_queue c') = wq_Done item (rq_typed (c_queue c))
    \<and> rq_failures (c_queue c') = gm_del item (rq_failures (c_queue c))
    \<and> rq_waiting (c_queue c') = rq_waiting (c_queue c)"
proof -
  from assms obtain failed h w where
    s: "syncHandler E nc (lister_Get (c_indexer c)) (fst item) (snd item) (c_stores c) (c_world c)
      = Inr (failed, h, w)"
    and c': "c' = (let rq = (if failed then AddRateLimited bucket now item (c_queue c) else Forget item (c_queue c))
       in c\<lparr>c_queue := rq\<lparr>rq_typed := wq_Done item (rq_typed rq)\<rparr>, c_stores := h, c_world := w\<rparr>)"
    by (auto simp: process_item_def go_bind_eq_Inr Let_def)
  have "\<not> failed" using s by (rule syncHandler_never_fails)
  with c' syncHandler_step [OF s] show ?thesis by (simp add: Forget_def)
qed

section \<open>The running controller\<close>

text \<open>
  The controller with its informer and its workers: the informer changes its cache and calls
  its callbacks at any time, a worker takes an item, and a worker that has one handles it
  and is done with it. A handler that panics ends the process, which is not a step.
\<close>

inductive ctl_step ::
    "'w env \<Rightarrow> bool \<Rightarrow> 'w cstate \<times> work_item list \<Rightarrow> 'w cstate \<times> work_item list \<Rightarrow> bool"
  for E nc where
  informer: "ctl_step E nc (c, ws) (c\<lparr>c_indexer := m\<rparr>, ws)"
| world: "ctl_step E nc (c, ws) (c\<lparr>c_world := w\<rparr>, ws)"
| added: "ctl_step E nc (c, ws) (c\<lparr>c_queue := AddFunc obj (c_queue c)\<rparr>, ws)"
| updated: "ctl_step E nc (c, ws) (c\<lparr>c_queue := UpdateFunc old new (c_queue c)\<rparr>, ws)"
| deleted: "ctl_step E nc (c, ws) (c\<lparr>c_queue := DeleteFunc obj (c_queue c)\<rparr>, ws)"
| take: "wq_Get (rq_typed (c_queue c)) = Some (Item item, q)
    \<Longrightarrow> ctl_step E nc (c, ws) (c\<lparr>c_queue := (c_queue c)\<lparr>rq_typed := q\<rparr>\<rparr>, item # ws)"
| handle: "item \<in> set ws \<Longrightarrow> process_item E nc bucket now item c = Inr c'
    \<Longrightarrow> ctl_step E nc (c, ws) (c', remove1 item ws)"
| shut: "ctl_step E nc (c, ws)
    (c\<lparr>c_queue := (c_queue c)\<lparr>rq_typed := wq_ShutDown (rq_typed (c_queue c))\<rparr>\<rparr>, ws)"

definition initial_cstate :: "'w \<Rightarrow> 'w cstate" where
  "initial_cstate w = \<lparr>c_queue = newRateLimitingQueue, c_indexer = [],
     c_stores = \<lparr>heap = [], stores_map = []\<rparr>, c_world = w\<rparr>"

inductive ctl_reach :: "'w env \<Rightarrow> bool \<Rightarrow> 'w cstate \<times> work_item list \<Rightarrow> bool" for E nc where
  start: "ctl_reach E nc (initial_cstate w, [])"
| step: "ctl_reach E nc s \<Longrightarrow> ctl_step E nc s s' \<Longrightarrow> ctl_reach E nc s'"

text \<open>The queue sees nothing but the steps of its own transition system.\<close>

lemma enqueue_queue:
  "(\<exists>item. rq_typed (enqueueCRDMetrics obj e rq) = wq_Add item (rq_typed rq))
     \<or> enqueueCRDMetrics obj e rq = rq"
  by (auto simp: enqueueCRDMetrics_def split: option.split)

lemma enqueue_retries:
  "rq_failures (enqueueCRDMetrics obj e rq) = rq_failures rq
     \<and> rq_waiting (enqueueCRDMetrics obj e rq) = rq_waiting rq"
  by (simp add: enqueueCRDMetrics_def split: option.split)

lemma UpdateFunc_cases:
  "UpdateFunc old new rq = rq \<or> UpdateFunc old new rq = enqueueCRDMetrics new updateEvent rq"
  by (auto simp: UpdateFunc_def split: informer_object.split)

definition queue_view :: "'w cstate \<times> work_item list \<Rightarrow> work_item typed_queue \<times> work_item list" where
  "queue_view s = (rq_typed (c_queue (fst s)), snd s)"

lemma wq_reach_enqueue:
  "wq_reach (rq_typed rq, ws) \<Longrightarrow> wq_reach (rq_typed (enqueueCRDMetrics obj e rq), ws)"
  using enqueue_queue [of obj e rq] by (metis wq_reach.step wq_step.add)

lemma ctl_step_queue:
  assumes "ctl_step E nc s s'" and "wq_reach (queue_view s)"
  shows "wq_reach (queue_view s')"
  using assms
proof (induction rule: ctl_step.induct)
  case (updated c ws old new)
  with UpdateFunc_cases [of old new "c_queue c"] show ?case
    by (auto simp: queue_view_def wq_reach_enqueue)
next
  case (take c item q ws)
  then show ?case by (auto simp: queue_view_def intro: wq_reach.step wq_step.get)
next
  case (handle item ws bucket now c c')
  with process_item_eq [OF handle(2)] show ?case
    by (auto simp: queue_view_def intro: wq_reach.step wq_step.finish)
next
  case (shut c ws)
  then show ?case by (auto simp: queue_view_def intro: wq_reach.step wq_step.shut)
qed (simp_all add: queue_view_def AddFunc_def DeleteFunc_def wq_reach_enqueue)

lemma ctl_reach_queue: "ctl_reach E nc s \<Longrightarrow> wq_reach (queue_view s)"
proof (induction rule: ctl_reach.induct)
  case (start w)
  then show ?case
    by (simp add: queue_view_def initial_cstate_def newRateLimitingQueue_def wq_reach.init)
qed (rule ctl_step_queue)

lemma ctl_reach_retries:
  "ctl_reach E nc s \<Longrightarrow> rq_failures (c_queue (fst s)) = [] \<and> rq_waiting (c_queue (fst s)) = []"
proof (induction rule: ctl_reach.induct)
  case (start w)
  then show ?case by (simp add: initial_cstate_def newRateLimitingQueue_def)
next
  case (step s s')
  from step(2) step.IH show ?case
  proof (induction rule: ctl_step.induct)
    case (updated c ws old new)
    with UpdateFunc_cases [of old new "c_queue c"] show ?case by (auto simp: enqueue_retries)
  next
    case (handle item ws bucket now c c')
    with process_item_eq [OF handle(2)] show ?case by simp
  qed (simp_all add: AddFunc_def DeleteFunc_def enqueue_retries)
qed

lemma ctl_step_stores:
  assumes "ctl_step E nc s s'"
  shows "stores_step nc (env_yaml E) (c_stores (fst s)) (c_stores (fst s'))"
  using assms
  by (induction rule: ctl_step.induct) (auto intro: stores_step.unchanged dest: process_item_eq)

lemma ctl_reach_stores: "ctl_reach E nc s \<Longrightarrow> hstate_wf (c_stores (fst s))"
proof (induction rule: ctl_reach.induct)
  case (start w)
  then show ?case by (simp add: initial_cstate_def hstate_wf_def)
next
  case (step s s')
  with stores_step_wf [OF ctl_step_stores [OF step(2)]] show ?case by blast
qed

section \<open>Properties\<close>

text \<open>The key of a resource splits back into its namespace and name, so that a worker looks up
  the resource the informer saw; names with a slash are not API names.\<close>

theorem key_roundtrip:
  assumes "CHR ''/'' \<notin> set (cr_Name res)" and "CHR ''/'' \<notin> set (cr_Namespace res)"
    and "MetaNamespaceKeyFunc (InformerResource res) = Some key" and "gm_get indexer key = Some found"
  shows "SplitMetaNamespaceKey key = Some (cr_Namespace res, cr_Name res)
    \<and> lister_Get indexer (cr_Namespace res) (cr_Name res) = Inr found"
proof -
  have key: "key = ObjectName_String (MetaObjectToName res)"
    using assms(3) by (simp add: MetaNamespaceKeyFunc_def)
  have "(if cr_Namespace res = [] then cr_Name res else cr_Namespace res @ ''/'' @ cr_Name res) = key"
    by (simp add: key ObjectName_String_def MetaObjectToName_def)
  then have "lister_Get indexer (cr_Namespace res) (cr_Name res) = Inr found"
    using assms(4) by (simp add: lister_Get_def)
  then show ?thesis using SplitMetaNamespaceKey_name [OF assms(1,2)] key by simp
qed

theorem key_roundtrip_witness:
  "SplitMetaNamespaceKey ''ns/r'' = Some (''ns'', ''r'')
   \<and> lister_Get [(''ns/r'', sample_resource)] ''ns'' ''r'' = Inr sample_resource"
  using key_roundtrip [of "sample_resource\<lparr>cr_Namespace := ''ns''\<rparr>" "''ns/r''" "[(''ns/r'', sample_resource)]"
      sample_resource]
  by (simp add: sample_resource_def MetaNamespaceKeyFunc_def ObjectName_String_def MetaObjectToName_def)

text \<open>C25: the deletion of a managed resource is not acted upon: by the time its item is processed the
  informer's cache and the server no longer have the resource, the handler gives up before it
  looks at the event, and the stores stay in the map; the item is not retried.\<close>

theorem deletion_leaves_stores:
  assumes "SplitMetaNamespaceKey key = Some (namespace, name)" and "lister namespace name = Inl NotFound"
    and "\<And>w. \<exists>err w'. api_Get E [] name w = (Inl err, w')"
  shows "\<exists>w'. syncHandler E nc lister key ''deleteEvent'' h w = Inr (False, h, w')"
proof -
  let ?r = "empty_resource\<lparr>cr_Name := name\<rparr>"
  obtain ok w1 where t: "env_Tick E w = (ok, w1)" by fastforce
  obtain err w2 where g: "api_Get E [] name w1 = (Inl err, w2)" using assms(3) by blast
  have "\<exists>w'. updateMetadata E ?r w = (False, w')"
    using t g by (cases ok) (simp_all add: updateMetadata_def empty_resource_def)
  then obtain w' where "handleEvent E nc ''deleteEvent'' (ManagedResource ?r) h w = Inr (h, w')"
    by (auto simp: handleEvent_def)
  then show ?thesis
    using assms(1,2) by (simp add: syncHandler_def handleObject_def)
qed

theorem deletion_leaves_stores_witness:
  "\<exists>w'. syncHandler (sample_env\<lparr>api_Get := (\<lambda>ns n w. (Inl NotFound, w))\<rparr>) False (lister_Get []) ''r'' ''deleteEvent''
      \<lparr>heap = [], stores_map = [(''u'', [])]\<rparr> None = Inr (False, \<lparr>heap = [], stores_map = [(''u'', [])]\<rparr>, w')"
  by (rule deletion_leaves_stores [where namespace = "[]" and name = "''r''"])
    (simp_all add: SplitMetaNamespaceKey_def lister_Get_def)

text \<open>No item is ever retried: in every reachable state of the controller the rate limiter has
  counted no failure and no item waits for a delay to end, since the handler swallows its
  errors and the informer's cache knows no error but a missing key.\<close>

theorem no_retries:
  assumes "ctl_reach E nc (c, ws)"
  shows "rq_waiting (c_queue c) = [] \<and> NumRequeues item (c_queue c) = 0"
  using ctl_reach_retries [OF assms] by (simp add: NumRequeues_def failures_of_def)

theorem no_retries_witness:
  "rq_waiting (c_queue (initial_cstate (None :: resource option))) = []
    \<and> NumRequeues (''r'', ''addEvent'') (c_queue (initial_cstate (None :: resource option))) = 0"
  by (rule no_retries [of sample_env False _ "[]"]) (rule ctl_reach.start)

text \<open>The event is part of a work item, so that two workers can hold items of one resource: a
  state is reachable in which an add and an update of it are in progress at the same time.\<close>

theorem one_resource_two_workers:
  fixes E :: "'w env"
  shows "\<exists>c. ctl_reach E nc (c, [(''r'', ''updateEvent''), (''r'', ''addEvent'')])"
proof -
  let ?c0 = "initial_cstate (undefined :: 'w)"
  let ?new = "sample_resource\<lparr>cr_ResourceVersion := ''2'', cr_Configuration := ''new''\<rparr>"
  let ?c1 = "?c0\<lparr>c_queue := AddFunc (InformerResource sample_resource) (c_queue ?c0)\<rparr>"
  let ?c2 = "?c1\<lparr>c_queue := UpdateFunc (InformerResource sample_resource) (InformerResource ?new) (c_queue ?c1)\<rparr>"
  let ?a = "(''r'', ''addEvent'')" and ?u = "(''r'', ''updateEvent'')"
  let ?q = "\<lambda>qs ds ps. \<lparr>wq_queue = qs, wq_dirty = ds, wq_processing = ps, wq_shuttingDown = False, wq_drain = False\<rparr>"
  have key: "MetaNamespaceKeyFunc (InformerResource sample_resource) = Some ''r''"
    "MetaNamespaceKeyFunc (InformerResource ?new) = Some ''r''"
    by (simp_all add: MetaNamespaceKeyFunc_def ObjectName_String_def MetaObjectToName_def
        sample_resource_def empty_resource_def)
  have up: "UpdateFunc (InformerResource sample_resource) (InformerResource ?new) rq
      = enqueueCRDMetrics (InformerResource ?new) updateEvent rq" for rq
    by (simp add: UpdateFunc_def sample_resource_def empty_resource_def)
  have "ctl_reach E nc (?c0, [])" by (rule ctl_reach.start)
  then have "ctl_reach E nc (?c1, [])" by (rule ctl_reach.step) (rule ctl_step.added)
  then have r2: "ctl_reach E nc (?c2, [])" by (rule ctl_reach.step) (rule ctl_step.updated)
  have q2: "rq_typed (c_queue ?c2) = ?q [?a, ?u] [?u, ?a] []"
    unfolding up
    by (simp add: AddFunc_def enqueueCRDMetrics_def key wq_Add_def initial_cstate_def
        newRateLimitingQueue_def newQueue_def Let_def)
  have "wq_Get (rq_typed (c_queue ?c2)) = Some (Item ?a, ?q [?u] [?u] [?a])"
    unfolding q2 by (simp add: wq_Get_def)
  with r2 have r3: "ctl_reach E nc (?c2\<lparr>c_queue := (c_queue ?c2)\<lparr>rq_typed := ?q [?u] [?u] [?a]\<rparr>\<rparr>, [?a])"
    by (rule ctl_reach.step [OF _ ctl_step.take])
  let ?c3 = "?c2\<lparr>c_queue := (c_queue ?c2)\<lparr>rq_typed := ?q [?u] [?u] [?a]\<rparr>\<rparr>"
  have "wq_Get (rq_typed (c_queue ?c3)) = Some (Item ?u, ?q [] [] [?u, ?a])"
    by (simp add: wq_Get_def)
  with r3 show ?thesis
    using ctl_reach.step [OF _ ctl_step.take] by blast
qed

text \<open>C32: what that can lead to: when the two handlers both drop the old stores before either builds
  its own, the resource ends with the stores of both configurations, and every metric of both
  is exposed.\<close>

theorem interleaved_rebuilds_duplicate:
  assumes "hstate_wf h" and "\<forall>p \<in> set (ps @ qs). \<exists>sc. p = Some sc \<and> store_config sc"
  shows "\<exists>h1 h2. build nc u ps (dropStores u (dropStores u h)) = Inr h1 \<and> build nc u qs h1 = Inr h2
    \<and> stores_at (stores_map h2) u = [length (heap h)..<length (heap h) + length ps + length qs]"
proof -
  have ps: "\<forall>p \<in> set ps. \<exists>sc. p = Some sc \<and> store_config sc"
    and qs: "\<forall>p \<in> set qs. \<exists>sc. p = Some sc \<and> store_config sc"
    using assms(2) by auto
  let ?d = "dropStores u (dropStores u h)"
  obtain h1 where b1: "build nc u ps ?d = Inr h1" using build_no_panic [OF ps] by blast
  obtain h2 where b2: "build nc u qs h1 = Inr h2" using build_no_panic [OF qs] by blast
  have s1: "hstate_wf h1" "length (heap h1) = length (heap h) + length ps"
    "stores_at (stores_map h1) u = [length (heap h)..<length (heap h) + length ps]"
    using build_spec [OF b1 dropStores_wf [OF dropStores_wf [OF assms(1)]]]
    by (auto simp: dropStores_at)
  have "stores_at (stores_map h2) u
      = stores_at (stores_map h1) u @ [length (heap h1)..<length (heap h1) + length qs]"
    using build_spec [OF b2 s1(1)] by blast
  also have "\<dots> = [length (heap h)..<length (heap h) + length ps + length qs]"
    unfolding s1 by (rule upt_add_eq_append [symmetric]) simp
  finally show ?thesis using b1 b2 by blast
qed

theorem interleaved_rebuilds_duplicate_witness:
  "\<exists>h1 h2. build False ''u'' [Some sample_entry] (dropStores ''u'' (dropStores ''u'' empty_hstate)) = Inr h1
    \<and> build False ''u'' [Some sample_entry] h1 = Inr h2
    \<and> stores_at (stores_map h2) ''u'' = [0, 1]"
  using interleaved_rebuilds_duplicate [of empty_hstate "[Some sample_entry]" "[Some sample_entry]" False "''u''"]
    sample_entry_config
  by (simp add: hstate_wf_def del: build.simps)

end
