(* ===== verification/Reflector.thy ===== *)
theory Reflector
  imports Builder
begin

text \<open>
  The reflector (vendored client-go) as the driver of a store: the list of a session is
  handed to \<open>Replace\<close>, then each watch event whose object is of the expected kind goes to
  \<open>Add\<close>, \<open>Update\<close> or \<open>Delete\<close>; an error event ends the watch. Errors of the store are
  only logged.
\<close>

datatype watch_type = Added | Modified | Deleted | Bookmark | WatchError | UnknownType

record watch_event =
  ev_type :: watch_type
  ev_object :: any_object
  ev_orders :: range_orders

definition of_kind :: "gvk option \<Rightarrow> obj \<Rightarrow> bool" where
  "of_kind expected obj \<longleftrightarrow> (case expected of None \<Rightarrow> True | Some x \<Rightarrow> x = GroupVersionKind obj)"

definition handle_event ::
    "sorter \<Rightarrow> cel_engine \<Rightarrow> gvk option \<Rightarrow> watch_event \<Rightarrow> store_type \<Rightarrow> store_type go" where
  "handle_event srt cel expected event s =
     (case ev_object event of
        NotAnObject \<Rightarrow> Inr s
      | UnstructuredObj obj \<Rightarrow>
          if \<not> of_kind expected obj then Inr s
          else (case ev_type event of
              Added \<Rightarrow> go_bind (Add srt cel (ev_orders event) s (ev_object event)) (\<lambda>(s', err). Inr s')
            | Modified \<Rightarrow> go_bind (Update srt cel (ev_orders event) s (ev_object event)) (\<lambda>(s', err). Inr s')
            | Deleted \<Rightarrow> Inr (fst (Delete s (ev_object event)))
            | _ \<Rightarrow> Inr s))"

fun handle_watch ::
    "sorter \<Rightarrow> cel_engine \<Rightarrow> gvk option \<Rightarrow> watch_event list \<Rightarrow> store_type \<Rightarrow> store_type go" where
  "handle_watch srt cel expected [] s = Inr s"
| "handle_watch srt cel expected (event # evs) s =
     (if ev_type event = WatchError then Inr s
      else go_bind (handle_event srt cel expected event s) (handle_watch srt cel expected evs))"

text \<open>\<open>syncWith\<close> hands the listed items to the store; then come the events of one watch.\<close>

record session =
  listed :: "any_object list"
  resource_version :: string
  events :: "watch_event list"

fun run_sessions ::
    "sorter \<Rightarrow> cel_engine \<Rightarrow> gvk option \<Rightarrow> session list \<Rightarrow> store_type \<Rightarrow> store_type go" where
  "run_sessions srt cel expected [] s = Inr s"
| "run_sessions srt cel expected (x # xs) s =
     go_bind (handle_watch srt cel expected (events x) (fst (Replace s (listed x) (resource_version x))))
       (run_sessions srt cel expected xs)"

section \<open>The changes a reflector makes\<close>

definition event_changes :: "gvk option \<Rightarrow> watch_event \<Rightarrow> (range_orders \<times> obj) change list" where
  "event_changes expected event =
     (case ev_object event of
        NotAnObject \<Rightarrow> []
      | UnstructuredObj obj \<Rightarrow>
          if \<not> of_kind expected obj then []
          else (case ev_type event of
              Added \<Rightarrow> [Put (ev_orders event, obj)]
            | Modified \<Rightarrow> [Put (ev_orders event, obj)]
            | Deleted \<Rightarrow> [Drop (ev_orders event, obj)]
            | _ \<Rightarrow> []))"

fun watch_changes :: "gvk option \<Rightarrow> watch_event list \<Rightarrow> (range_orders \<times> obj) change list" where
  "watch_changes expected [] = []"
| "watch_changes expected (event # evs) =
     (if ev_type event = WatchError then []
      else event_changes expected event @ watch_changes expected evs)"

definition session_changes :: "gvk option \<Rightarrow> session list \<Rightarrow> (range_orders \<times> obj) change list" where
  "session_changes expected xs = concat (map (\<lambda>x. watch_changes expected (events x)) xs)"

lemma replay_append:
  "replay add del (cs @ ds) s = go_bind (replay add del cs s) (replay add del ds)"
proof (induction cs arbitrary: s)
  case (Cons c cs)
  then show ?case by (cases c) (auto simp: go_bind_def split: sum.split)
qed simp

lemma handle_event_replay:
  "handle_event srt cel expected event s
     = replay (add_object srt cel) delete_object (event_changes expected event) s"
  by (auto simp: handle_event_def event_changes_def add_object_def delete_object_def Update_def
      go_bind_def split: any_object.split watch_type.split sum.split)

lemma handle_watch_replay:
  "handle_watch srt cel expected evs s
     = replay (add_object srt cel) delete_object (watch_changes expected evs) s"
proof (induction evs arbitrary: s)
  case (Cons ev evs)
  then have "handle_watch srt cel expected evs
      = replay (add_object srt cel) delete_object (watch_changes expected evs)" by blast
  then show ?case by (simp add: handle_event_replay replay_append)
qed simp

lemma run_sessions_replay:
  "run_sessions srt cel expected xs s
     = replay (add_object srt cel) delete_object (session_changes expected xs) s"
proof (induction xs arbitrary: s)
  case Nil
  then show ?case by (simp add: session_changes_def)
next
  case (Cons x xs)
  then have "run_sessions srt cel expected xs
      = replay (add_object srt cel) delete_object (session_changes expected xs)" by blast
  then show ?case
    by (simp add: handle_watch_replay session_changes_def replay_append Replace_def)
qed

section \<open>Properties\<close>

text \<open>C6: whatever lists and watches a reflector goes through, driving a well-formed store never
  panics, and the store holds exactly the objects of the expected kind that the watch events
  added or modified and did not delete since, besides those it held before: the listed objects
  leave no trace.\<close>

theorem reflector_keys:
  assumes "store_wf s"
  shows "\<exists>s'. run_sessions insertionSort cel expected xs s = Inr s' \<and> store_wf s'
    \<and> dom (gm_get (metrics s')) = live_keys object_key (session_changes expected xs) (dom (gm_get (metrics s)))"
  unfolding run_sessions_replay using assms by (rule st.replay_keys)

definition sample_event :: "watch_type \<Rightarrow> watch_event" where
  "sample_event t = \<lparr>ev_type = t, ev_object = UnstructuredObj sample_object, ev_orders = (\<lambda>_ _ _ m. m)\<rparr>"

theorem reflector_keys_witness:
  "\<exists>s'. run_sessions insertionSort (\<lambda>_ _ _. EnvError) None
      [\<lparr>listed = [], resource_version = [], events = [sample_event Added]\<rparr>] sample_store = Inr s'
    \<and> store_wf s' \<and> dom (gm_get (metrics s')) = {''u1''}"
  using reflector_keys [OF sample_store_wf, of "\<lambda>_ _ _. EnvError" None
      "[\<lparr>listed = [], resource_version = [], events = [sample_event Added]\<rparr>]"]
  by (simp add: session_changes_def event_changes_def sample_event_def of_kind_def object_key_def
      sample_store_def newStore_def GetUID_def getNestedString_at_path sample_object_def)

text \<open>An entry outlives a missed deletion: whatever the following lists return, as long as no
  watch event of the expected kind concerns the object, its texts stay in the store.\<close>

theorem relist_keeps_entries:
  assumes "store_wf s" and "run_sessions insertionSort cel expected xs s = Inr s'"
    and "u \<notin> change_key object_key ` set (session_changes expected xs)"
  shows "gm_get (metrics s') u = gm_get (metrics s) u"
  using assms unfolding run_sessions_replay by (rule st.replay_untouched)

theorem relist_keeps_entries_witness:
  "\<exists>s'. run_sessions insertionSort (\<lambda>_ _ _. EnvError) None
        [\<lparr>listed = [], resource_version = ''7'', events = []\<rparr>]
        (sample_store\<lparr>metrics := [(''u1'', [''t''])]\<rparr>) = Inr s' \<and> gm_get (metrics s') ''u1'' = Some [''t'']"
proof -
  let ?s = "sample_store\<lparr>metrics := [(''u1'', [''t''])]\<rparr>"
  let ?x = "\<lparr>listed = [], resource_version = ''7'', events = []\<rparr> :: session"
  have wf: "store_wf ?s"
    using sample_family_wf
    by (simp add: sample_store_def newStore_def store_wf_def store_shape_def store_config_def)
  have r: "run_sessions insertionSort (\<lambda>_ _ _. EnvError) None [?x] ?s = Inr ?s"
    by (simp add: Replace_def)
  from relist_keeps_entries [OF wf r, of "''u1''"] r show ?thesis
    by (simp add: session_changes_def)
qed

end
