(* ===== verification/Writer.thy ===== *)
theory Writer
  imports Store "HOL-Library.Sublist"
begin

text \<open>
  \<^verbatim>\<open>internal/writer.go\<close>: the exposition of a group of stores. The destination is an \<^verbatim>\<open>io.Writer\<close>:
  a state \<open>'w\<close> and an operation that returns the new state, the number of bytes it took and
  whether it failed. Its documented contract is the locale \<open>io_writer\<close>. The order in which
  the objects of a store are visited, anew for each header, is the argument \<open>ord\<close>.
\<close>

type_synonym 'w write_op = "'w \<Rightarrow> string \<Rightarrow> 'w \<times> nat \<times> bool"

type_synonym object_order = "nat \<Rightarrow> nat \<Rightarrow> (uid \<times> string list) list \<Rightarrow> (uid \<times> string list) list"

datatype write_all_error = HelpError string nat | FamilyError nat

text \<open>The inner loop: the text of family \<open>i\<close> of each object.\<close>

fun write_objects ::
    "'w write_op \<Rightarrow> nat \<Rightarrow> (uid \<times> string list) list \<Rightarrow> 'w \<Rightarrow> ('w \<times> write_all_error option) go" where
  "write_objects put i [] w = Inr (w, None)"
| "write_objects put i ((u, metricFamilies) # es) w =
     go_bind (go_nth metricFamilies i) (\<lambda>text.
       case put w text of (w', n, err) \<Rightarrow>
         if err then Inr (w', Some (FamilyError n)) else write_objects put i es w')"

text \<open>A header gets its line end here, unless it is empty or just a line end.\<close>

definition header_line :: "string \<Rightarrow> string" where
  "header_line header = (if header \<noteq> [] \<and> header \<noteq> [newline] then header @ [newline] else header)"

fun write_headers ::
    "'w write_op \<Rightarrow> (nat \<Rightarrow> (uid \<times> string list) list) \<Rightarrow> nat \<Rightarrow> string list \<Rightarrow> 'w
     \<Rightarrow> ('w \<times> write_all_error option) go" where
  "write_headers put objects i [] w = Inr (w, None)"
| "write_headers put objects i (header # hs) w =
     (case put w (header_line header) of (w', n, err) \<Rightarrow>
        if err then Inr (w', Some (HelpError (header_line header) n))
        else go_bind (write_objects put i (objects i) w') (\<lambda>(w'', e).
          if e \<noteq> None then Inr (w'', e) else write_headers put objects (Suc i) hs w''))"

fun write_stores ::
    "'w write_op \<Rightarrow> object_order \<Rightarrow> nat \<Rightarrow> store_type list \<Rightarrow> 'w \<Rightarrow> ('w \<times> write_all_error option) go" where
  "write_stores put ord j [] w = Inr (w, None)"
| "write_stores put ord j (s # ss) w =
     go_bind (write_headers put (\<lambda>i. ord j i (metrics s)) 0 (headers s) w) (\<lambda>(w', e).
       if e \<noteq> None then Inr (w', e) else write_stores put ord (Suc j) ss w')"

definition writeAllTo ::
    "'w write_op \<Rightarrow> object_order \<Rightarrow> store_type list \<Rightarrow> 'w \<Rightarrow> ('w \<times> write_all_error option) go" where
  "writeAllTo put ord stores w =
     (if length stores = 0 then Inr (w, None) else write_stores put ord 0 stores w)"

section \<open>The text that is written\<close>

definition family_block :: "(uid \<times> string list) list \<Rightarrow> nat \<Rightarrow> string \<Rightarrow> string" where
  "family_block es i header = header_line header @ concat (map (\<lambda>e. snd e ! i) es)"

fun headers_text :: "(nat \<Rightarrow> (uid \<times> string list) list) \<Rightarrow> nat \<Rightarrow> string list \<Rightarrow> string" where
  "headers_text objects i [] = []"
| "headers_text objects i (h # hs) = family_block (objects i) i h @ headers_text objects (Suc i) hs"

fun stores_text :: "object_order \<Rightarrow> nat \<Rightarrow> store_type list \<Rightarrow> string" where
  "stores_text ord j [] = []"
| "stores_text ord j (s # ss) =
     headers_text (\<lambda>i. ord j i (metrics s)) 0 (headers s) @ stores_text ord (Suc j) ss"

section \<open>The contract of a writer\<close>

text \<open>
  A write takes a prefix of the bytes it is given, and fails when it does not take all. It
  may also fail after taking all.
\<close>

locale io_writer =
  fixes put :: "'w write_op" and out :: "'w \<Rightarrow> string"
  assumes write_takes: "put w p = (w', n, err) \<Longrightarrow> out w' = out w @ take n p \<and> n \<le> length p"
    and write_short: "put w p = (w', n, err) \<Longrightarrow> n < length p \<Longrightarrow> err"
begin

lemma write_whole: "put w p = (w', n, False) \<Longrightarrow> out w' = out w @ p"
  using write_takes write_short by (metis leI take_all)

lemma write_prefix: "put w p = (w', n, err) \<Longrightarrow> \<exists>t. out w' = out w @ t \<and> prefix t p"
  using write_takes take_is_prefix by metis

lemma write_objects_out:
  assumes "\<forall>e \<in> set es. i < length (snd e)"
  shows "\<exists>w' e t. write_objects put i es w = Inr (w', e) \<and> out w' = out w @ t
    \<and> prefix t (concat (map (\<lambda>e. snd e ! i) es))
    \<and> (e = None \<longrightarrow> t = concat (map (\<lambda>e. snd e ! i) es))"
  using assms
proof (induction es arbitrary: w)
  case (Cons x es)
  obtain u fams where x: "x = (u, fams)" by fastforce
  obtain w1 n err where wr: "put w (fams ! i) = (w1, n, err)" by (cases "put w (fams ! i)") auto
  have i: "i < length fams" using Cons.prems x by simp
  show ?case
  proof (cases err)
    case True
    obtain t where "out w1 = out w @ t" "prefix t (fams ! i)" using write_prefix [OF wr] by blast
    with True show ?thesis by (auto simp: x i wr intro: prefix_prefix)
  next
    case False
    with wr have "out w1 = out w @ fams ! i" by (intro write_whole) simp
    moreover obtain w' e t where "write_objects put i es w1 = Inr (w', e)" "out w' = out w1 @ t"
      "prefix t (concat (map (\<lambda>e. snd e ! i) es))"
      "e = None \<longrightarrow> t = concat (map (\<lambda>e. snd e ! i) es)"
      using Cons.IH [of w1] Cons.prems by auto
    ultimately show ?thesis
      using False by (intro exI [of _ w'] exI [of _ e] exI [of _ "fams ! i @ t"]) (auto simp: x i wr)
  qed
qed simp

lemma write_headers_out:
  assumes "\<forall>k. \<forall>e \<in> set (objects k). i + length hs \<le> length (snd e)"
  shows "\<exists>w' e t. write_headers put objects i hs w = Inr (w', e) \<and> out w' = out w @ t
    \<and> prefix t (headers_text objects i hs) \<and> (e = None \<longrightarrow> t = headers_text objects i hs)"
  using assms
proof (induction hs arbitrary: i w)
  case (Cons h hs)
  let ?h = "header_line h"
  let ?b = "concat (map (\<lambda>e. snd e ! i) (objects i))"
  obtain w1 n err where wr: "put w ?h = (w1, n, err)" by (cases "put w ?h") auto
  show ?case
  proof (cases err)
    case True
    obtain t where "out w1 = out w @ t" "prefix t ?h" using write_prefix [OF wr] by blast
    with True show ?thesis by (auto simp: wr family_block_def intro: prefix_prefix)
  next
    case False
    with wr have o1: "out w1 = out w @ ?h" by (intro write_whole) simp
    have "\<forall>e \<in> set (objects i). i < length (snd e)" using Cons.prems by fastforce
    then obtain w2 e t where w2: "write_objects put i (objects i) w1 = Inr (w2, e)"
      "out w2 = out w1 @ t" "prefix t ?b" "e = None \<longrightarrow> t = ?b"
      using write_objects_out by blast
    show ?thesis
    proof (cases e)
      case (Some e')
      with False w2 o1 show ?thesis
        by (intro exI [of _ w2] exI [of _ e] exI [of _ "?h @ t"])
          (auto simp: wr family_block_def intro: prefix_prefix)
    next
      case None
      have "\<forall>k. \<forall>e \<in> set (objects k). Suc i + length hs \<le> length (snd e)"
        using Cons.prems by simp
      from Cons.IH [OF this, of w2] obtain w3 e3 t3 where
        "write_headers put objects (Suc i) hs w2 = Inr (w3, e3)" "out w3 = out w2 @ t3"
        "prefix t3 (headers_text objects (Suc i) hs)"
        "e3 = None \<longrightarrow> t3 = headers_text objects (Suc i) hs" by blast
      with False None w2 o1 show ?thesis
        by (intro exI [of _ w3] exI [of _ e3] exI [of _ "?h @ ?b @ t3"])
          (auto simp: wr family_block_def)
    qed
  qed
qed simp

lemma write_stores_out:
  assumes "\<forall>s \<in> set ss. store_shape s" and "\<And>j i. is_order (ord j i)"
  shows "\<exists>w' e t. write_stores put ord j ss w = Inr (w', e) \<and> out w' = out w @ t
    \<and> prefix t (stores_text ord j ss) \<and> (e = None \<longrightarrow> t = stores_text ord j ss)"
  using assms(1)
proof (induction ss arbitrary: j w)
  case (Cons s ss)
  let ?o = "\<lambda>i. ord j i (metrics s)"
  have "\<forall>k. \<forall>e \<in> set (?o k). 0 + length (headers s) \<le> length (snd e)"
    using Cons.prems by (simp add: is_order_set [OF assms(2)] store_shape_def)
  from write_headers_out [OF this, of w] obtain w1 e t where
    w1: "write_headers put ?o 0 (headers s) w = Inr (w1, e)" "out w1 = out w @ t"
    "prefix t (headers_text ?o 0 (headers s))" "e = None \<longrightarrow> t = headers_text ?o 0 (headers s)"
    by blast
  show ?case
  proof (cases e)
    case (Some e')
    with w1 show ?thesis
      by (intro exI [of _ w1] exI [of _ e] exI [of _ t]) (auto intro: prefix_prefix)
  next
    case None
    obtain w2 e2 t2 where
      "write_stores put ord (Suc j) ss w1 = Inr (w2, e2)" "out w2 = out w1 @ t2"
      "prefix t2 (stores_text ord (Suc j) ss)" "e2 = None \<longrightarrow> t2 = stores_text ord (Suc j) ss"
      using Cons.IH [of "Suc j" w1] Cons.prems by auto
    with None w1 show ?thesis
      by (intro exI [of _ w2] exI [of _ e2] exI [of _ "headers_text ?o 0 (headers s) @ t2"]) auto
  qed
qed simp

lemma writeAllTo_out:
  assumes "\<forall>s \<in> set ss. store_shape s" and "\<And>j i. is_order (ord j i)"
  shows "\<exists>w' e t. writeAllTo put ord ss w = Inr (w', e) \<and> out w' = out w @ t
    \<and> prefix t (stores_text ord 0 ss) \<and> (e = None \<longrightarrow> t = stores_text ord 0 ss)"
  using write_stores_out [OF assms] by (auto simp: writeAllTo_def)

end

text \<open>The writer that takes everything: \<^verbatim>\<open>strings.Builder\<close>.\<close>

definition builder_write :: "string write_op" where
  "builder_write w p = (w @ p, length p, False)"

interpretation sb: io_writer builder_write "\<lambda>w. w"
  by unfold_locales (auto simp: builder_write_def)

text \<open>A connection that takes a number of bytes and then fails; the state is what it still takes.\<close>

definition bounded_write :: "(string \<times> nat) write_op" where
  "bounded_write w p =
     ((fst w @ take (snd w) p, snd w - length p), min (snd w) (length p), snd w < length p)"

interpretation bw: io_writer bounded_write fst
  by unfold_locales (auto simp: bounded_write_def min_def split: if_splits)

lemma builder_writeAllTo:
  assumes "\<forall>s \<in> set ss. store_shape s" and "\<And>j i. is_order (ord j i)"
  shows "writeAllTo builder_write ord ss w = Inr (w @ stores_text ord 0 ss, None)"
proof -
  have o: "write_objects builder_write i es v \<noteq> Inr (v', Some e)" for i es v v' e
    by (induction es arbitrary: v) (auto simp: builder_write_def go_bind_eq_Inr)
  have h: "write_headers builder_write objects i hs v \<noteq> Inr (v', Some e)" for objects i hs v v' e
    by (induction hs arbitrary: i v)
      (auto simp: builder_write_def go_bind_eq_Inr o split: if_splits)
  have s: "write_stores builder_write ord j ss v \<noteq> Inr (v', Some e)" for j ss v v' e
    by (induction ss arbitrary: j v) (auto simp: go_bind_eq_Inr h split: if_splits)
  have "\<exists>w' e t. writeAllTo builder_write ord ss w = Inr (w', e) \<and> w' = w @ t
      \<and> prefix t (stores_text ord 0 ss) \<and> (e = None \<longrightarrow> t = stores_text ord 0 ss)"
    using assms by (rule sb.writeAllTo_out)
  then obtain w' e t where
    w: "writeAllTo builder_write ord ss w = Inr (w', e)" "w' = w @ t"
    "e = None \<longrightarrow> t = stores_text ord 0 ss" by blast
  then have "e = None"
    using s by (cases e) (auto simp: writeAllTo_def split: if_splits)
  with w show ?thesis by simp
qed

section \<open>Properties\<close>

text \<open>C17: with any writer, one that fails included, the exposition does not panic, what reaches the
  writer is a prefix of the whole exposition, and when no error is reported it is all of it.\<close>

theorem writeAllTo_prefix:
  assumes "io_writer put out" and "\<forall>s \<in> set ss. store_shape s" and "\<And>j i. is_order (ord j i)"
  shows "\<exists>w' e t. writeAllTo put ord ss w = Inr (w', e) \<and> out w' = out w @ t
    \<and> prefix t (stores_text ord 0 ss) \<and> (e = None \<longrightarrow> t = stores_text ord 0 ss)"
  using assms by (rule io_writer.writeAllTo_out)

theorem writeAllTo_prefix_witness:
  "\<exists>w' e t. writeAllTo bounded_write (\<lambda>_ _ m. m) [sample_store] ([], 1) = Inr (w', e) \<and> fst w' = [] @ t
    \<and> prefix t (stores_text (\<lambda>_ _ m. m) 0 [sample_store])
    \<and> (e = None \<longrightarrow> t = stores_text (\<lambda>_ _ m. m) 0 [sample_store])"
  using writeAllTo_prefix [OF bw.io_writer_axioms, of "[sample_store]" "\<lambda>_ _ m. m" "([], 1)"] sample_store_wf
  by (simp add: store_wf_def)

end
