(* ===== verification/Server.thy ===== *)
theory Server
  imports Config Writer
begin

text \<open>
  \<^verbatim>\<open>internal/server.go\<close> and \<^verbatim>\<open>internal/probe.go\<close>: the two HTTP servers as their routing
  tables, the handler that writes out every store of the controller's map, and the probes,
  which hand the verdict of the API server on. Listening, timeouts, the duration histogram,
  profiling and the telemetry registry belong to libraries.
\<close>

section \<open>Probes\<close>

datatype probe = healthz string | livez string | readyz string

fun getSource :: "probe \<Rightarrow> string" where
  "getSource (healthz source) = source"
| "getSource (livez source) = source"
| "getSource (readyz source) = source"

fun getAsString :: "probe \<Rightarrow> string" where
  "getAsString (healthz source) = ''/healthz''"
| "getAsString (livez source) = ''/livez''"
| "getAsString (readyz source) = ''/readyz''"

record response =
  rs_StatusCode :: nat
  rs_ContentType :: "string option"
  rs_Body :: string

definition StatusText :: "nat \<Rightarrow> string" where
  "StatusText code = (if code = 200 then ''OK'' else if code = 503 then ''Service Unavailable'' else [])"

text \<open>\<open>apiserver\<close> says whether a GET of a path failed.\<close>

definition genericProbe :: "(string \<Rightarrow> bool) \<Rightarrow> probe \<Rightarrow> response" where
  "genericProbe apiserver_fails p =
     (if apiserver_fails (getAsString p)
      then \<lparr>rs_StatusCode = 503, rs_ContentType = None, rs_Body = StatusText 503\<rparr>
      else \<lparr>rs_StatusCode = 200, rs_ContentType = None, rs_Body = StatusText 200\<rparr>)"

section \<open>The metrics of the managed resources\<close>

definition load :: "(store_type \<times> reflector_cfg) list \<Rightarrow> addr list \<Rightarrow> store_type list" where
  "load hp as = map (\<lambda>a. fst (hp ! a)) as"

text \<open>An error while writing the stores of one resource is logged, and the next are written.\<close>

fun write_resources ::
    "'w write_op \<Rightarrow> (uid \<Rightarrow> object_order) \<Rightarrow> (store_type \<times> reflector_cfg) list \<Rightarrow> (uid \<times> addr list) list
     \<Rightarrow> 'w \<Rightarrow> ('w \<times> write_all_error list) go" where
  "write_resources put ord hp [] w = Inr (w, [])"
| "write_resources put ord hp ((u, as) # es) w =
     go_bind (writeAllTo put (ord u) (load hp as) w) (\<lambda>(w', e).
     go_bind (write_resources put ord hp es w') (\<lambda>(w'', errs).
       Inr (w'', (case e of None \<Rightarrow> errs | Some err \<Rightarrow> err # errs))))"

type_synonym resource_order = "(uid \<times> addr list) list \<Rightarrow> (uid \<times> addr list) list"

definition metricsHandler ::
    "'w write_op \<Rightarrow> resource_order \<Rightarrow> (uid \<Rightarrow> object_order) \<Rightarrow> hstate \<Rightarrow> 'w
     \<Rightarrow> ('w \<times> write_all_error list) go" where
  "metricsHandler put uord ord h w = write_resources put ord (heap h) (uord (stores_map h)) w"

text \<open>The header is only set when the client prefers something other than the text format.\<close>

definition metrics_content_type :: "bool \<Rightarrow> string option" where
  "metrics_content_type negotiated_text =
     (if negotiated_text then None else Some ''text/plain; version=0.0.4; charset=utf-8'')"

section \<open>Routes\<close>

datatype route = Metrics | Telemetry | Pprof string | Probe probe | NotFoundPage

definition main_routes :: "string \<Rightarrow> (string \<times> route) list" where
  "main_routes source =
     [(''/metrics'', Metrics),
      (getAsString (healthz source), Probe (healthz source)),
      (getAsString (livez source), Probe (livez source))]"

definition self_routes :: "string \<Rightarrow> (string \<times> route) list" where
  "self_routes source =
     [(''/debug/pprof/'', Pprof ''index''),
      (''/debug/pprof/cmdline'', Pprof ''cmdline''),
      (''/debug/pprof/profile'', Pprof ''profile''),
      (''/debug/pprof/symbol'', Pprof ''symbol''),
      (''/debug/pprof/trace'', Pprof ''trace''),
      (''/metrics'', Telemetry),
      (getAsString (readyz source), Probe (readyz source))]"

text \<open>
  \<^verbatim>\<open>http.ServeMux\<close> on a clean path: a pattern matches itself, one that ends with a slash also
  every path below it, and the longest match wins.
\<close>

definition pattern_matches :: "string \<Rightarrow> string \<Rightarrow> bool" where
  "pattern_matches pat path \<longleftrightarrow>
     pat = path \<or> (pat \<noteq> [] \<and> last pat = CHR ''/'' \<and> take (length pat) path = pat)"

fun best_route :: "(string \<times> route) list \<Rightarrow> string \<Rightarrow> (string \<times> route) option" where
  "best_route [] path = None"
| "best_route ((pat, r) # rs) path =
     (case best_route rs path of
        None \<Rightarrow> if pattern_matches pat path then Some (pat, r) else None
      | Some (pat', r') \<Rightarrow>
          if pattern_matches pat path \<and> length pat > length pat' then Some (pat, r) else Some (pat', r'))"

definition serve_mux :: "(string \<times> route) list \<Rightarrow> string \<Rightarrow> route" where
  "serve_mux routes path = (case best_route routes path of None \<Rightarrow> NotFoundPage | Some (p, r) \<Rightarrow> r)"

section \<open>What a scrape returns\<close>

definition active_stores :: "hstate \<Rightarrow> store_type list" where
  "active_stores h = concat (map (\<lambda>e. load (heap h) (snd e)) (stores_map h))"

fun resources_text ::
    "(uid \<Rightarrow> object_order) \<Rightarrow> (store_type \<times> reflector_cfg) list \<Rightarrow> (uid \<times> addr list) list \<Rightarrow> string" where
  "resources_text ord hp [] = []"
| "resources_text ord hp ((u, as) # es) = stores_text (ord u) 0 (load hp as) @ resources_text ord hp es"

lemma write_resources_builder:
  assumes "\<forall>e \<in> set es. \<forall>s \<in> set (load hp (snd e)). store_shape s" and "\<And>u j i. is_order (ord u j i)"
  shows "write_resources builder_write ord hp es w = Inr (w @ resources_text ord hp es, [])"
  using assms(1)
proof (induction es arbitrary: w)
  case (Cons e es)
  obtain u as where e: "e = (u, as)" by fastforce
  from Cons.prems e have "\<forall>s \<in> set (load hp as). store_shape s" by simp
  then have "writeAllTo builder_write (ord u) (load hp as) w = Inr (w @ stores_text (ord u) 0 (load hp as), None)"
    using assms(2) by (rule builder_writeAllTo)
  with Cons e show ?case by simp
qed simp

lemma write_resources_no_panic:
  assumes "io_writer put out"
    and "\<forall>e \<in> set es. \<forall>s \<in> set (load hp (snd e)). store_shape s" and "\<And>u j i. is_order (ord u j i)"
  shows "\<exists>w' errs. write_resources put ord hp es w = Inr (w', errs) \<and> length errs \<le> length es"
  using assms(2)
proof (induction es arbitrary: w)
  case (Cons e es)
  obtain u as where e: "e = (u, as)" by fastforce
  from Cons.prems e have "\<forall>s \<in> set (load hp as). store_shape s" by simp
  with assms(3) obtain w1 e1 where w1: "writeAllTo put (ord u) (load hp as) w = Inr (w1, e1)"
    using io_writer.writeAllTo_out [OF assms(1), where ord = "ord u" and ss = "load hp as" and w = w]
    by blast
  from Cons obtain w2 errs where
    "write_resources put ord hp es w1 = Inr (w2, errs)" "length errs \<le> length es"
    by (metis list.set_intros(2))
  with w1 e show ?case by (auto split: option.split)
qed simp

lemma set_active_stores:
  "set (active_stores h) = (\<Union>e \<in> set (stores_map h). set (load (heap h) (snd e)))"
  by (auto simp: active_stores_def)

lemma metricsHandler_builder:
  assumes "\<forall>s \<in> set (active_stores h). store_shape s" and "is_order uord"
    and "\<And>u j i. is_order (ord u j i)"
  shows "metricsHandler builder_write uord ord h [] = Inr (resources_text ord (heap h) (uord (stores_map h)), [])"
proof -
  have "\<forall>e \<in> set (uord (stores_map h)). \<forall>s \<in> set (load (heap h) (snd e)). store_shape s"
    using assms(1) by (auto simp: set_active_stores is_order_set [OF assms(2)])
  from write_resources_builder [OF this assms(3)] show ?thesis by (simp add: metricsHandler_def)
qed

end
