(* ===== verification/System.thy ===== *)
theory System
  imports Controller Reflector Server
begin

text \<open>
  The whole process: the controller's steps, and the reflectors, which the handler starts and
  nothing stops. Each reflector applies the events of its watches to the store it was started
  with, whether or not the controller's map still holds the store. A step is one handled work
  item or one handled watch event; a panic ends the process and is not a step.
\<close>

type_synonym 'w sstate = "'w cstate \<times> work_item list"

definition reflector_event ::
    "sorter \<Rightarrow> cel_engine \<Rightarrow> addr \<Rightarrow> watch_event \<Rightarrow> hstate \<Rightarrow> hstate go" where
  "reflector_event srt cel a event h =
     go_bind (go_nth (heap h) a) (\<lambda>(s, cfg).
     go_bind (handle_event srt cel (rc_expectedGVK cfg) event s) (\<lambda>s'.
       Inr (h\<lparr>heap := (heap h)[a := (s', cfg)]\<rparr>)))"

inductive sys_step ::
    "'w env \<Rightarrow> bool \<Rightarrow> sorter \<Rightarrow> cel_engine \<Rightarrow> 'w sstate \<Rightarrow> 'w sstate \<Rightarrow> bool"
  for E nc srt cel where
  controller: "ctl_step E nc s s' \<Longrightarrow> sys_step E nc srt cel s s'"
| reflector: "reflector_event srt cel a event (c_stores c) = Inr h
    \<Longrightarrow> sys_step E nc srt cel (c, ws) (c\<lparr>c_stores := h\<rparr>, ws)"

inductive sys_reach ::
    "'w env \<Rightarrow> bool \<Rightarrow> sorter \<Rightarrow> cel_engine \<Rightarrow> 'w sstate \<Rightarrow> bool"
  for E nc srt cel where
  start: "sys_reach E nc srt cel (initial_cstate w, [])"
| step: "sys_reach E nc srt cel s \<Longrightarrow> sys_step E nc srt cel s s' \<Longrightarrow> sys_reach E nc srt cel s'"

section \<open>The stores keep their shape\<close>

definition heap_shape :: "hstate \<Rightarrow> bool" where
  "heap_shape h \<longleftrightarrow> (\<forall>x \<in> set (heap h). store_shape (fst x))"

lemma handle_event_shape:
  assumes "handle_event srt cel x event s = Inr s'" and "store_shape s"
  shows "store_shape s'"
proof -
  have add: "store_shape s'" if "Add srt cel ord s obj = Inr (s', err)" for ord obj err
    using that assms(2) by (rule Add_shape)
  have del: "store_shape (fst (Delete s obj))" for obj
    using assms(2) by (rule Delete_shape)
  show ?thesis
    using assms add del
    by (auto simp: handle_event_def Update_def go_bind_eq_Inr
        split: any_object.splits watch_type.splits if_splits)
qed

lemma buildStore_shape:
  assumes "buildStore x ps nc ls fl rsv ks vs = Inr (s, cfg)"
  shows "store_shape s"
proof -
  have "None \<notin> set ps"
    using assms build_all_headers_panic by (auto simp: buildStore_def Let_def)
  then obtain fs where ps: "ps = map Some fs" using not_None_map_Some by blast
  with assms show ?thesis by (auto simp: buildStore_Some newStore_def store_shape_def)
qed

lemma stores_step_heap_shape:
  assumes "stores_step nc yaml h h'" and "heap_shape h"
  shows "heap_shape h'"
  using assms
proof (induction rule: stores_step.induct)
  case (rebuilt raw ps u h h')
  from build_heap [OF rebuilt(2)] obtain bs where bs: "heap h' = heap h @ bs" "\<forall>b \<in> set bs. \<exists>sc. build_entry nc sc = Inr b"
    by (simp, blast)
  have "store_shape (fst b)" if "b \<in> set bs" for b
    using bs(2) that by (cases b) (auto simp: build_entry_def intro: buildStore_shape)
  with bs(1) rebuilt(3) show ?case by (auto simp: heap_shape_def)
qed (simp_all add: heap_shape_def)

lemma reflector_event_eq:
  assumes "reflector_event srt cel a event h = Inr h'"
  shows "\<exists>s cfg s'. a < length (heap h) \<and> heap h ! a = (s, cfg)
    \<and> handle_event srt cel (rc_expectedGVK cfg) event s = Inr s'
    \<and> h' = h\<lparr>heap := (heap h)[a := (s', cfg)]\<rparr>"
  using assms by (cases "heap h ! a") (auto simp: reflector_event_def go_bind_eq_Inr go_nth_eq_Inr)

lemma reflector_event_inv:
  assumes "reflector_event srt cel a event h = Inr h'"
  shows "hstate_wf h \<Longrightarrow> hstate_wf h'" and "heap_shape h \<Longrightarrow> heap_shape h'"
    and "stores_map h' = stores_map h" and "map snd (heap h') = map snd (heap h)"
proof -
  obtain s cfg s' where a: "a < length (heap h)" "heap h ! a = (s, cfg)"
    "handle_event srt cel (rc_expectedGVK cfg) event s = Inr s'"
    "h' = h\<lparr>heap := (heap h)[a := (s', cfg)]\<rparr>"
    using reflector_event_eq [OF assms] by blast
  show "hstate_wf h \<Longrightarrow> hstate_wf h'" by (simp add: a(4) hstate_wf_def)
  show "stores_map h' = stores_map h" by (simp add: a(4))
  show "map snd (heap h') = map snd (heap h)" using a by (simp add: map_update list_update_same_conv)
  assume sh: "heap_shape h"
  with a(1,2) have "store_shape s" by (metis fst_conv heap_shape_def nth_mem)
  with a(3) have "store_shape s'" by (rule handle_event_shape)
  with sh show "heap_shape h'" by (auto simp: a(4) heap_shape_def dest!: set_update_subset_insert [THEN subsetD])
qed

theorem sys_reach_inv:
  assumes "sys_reach E nc srt cel s"
  shows "hstate_wf (c_stores (fst s)) \<and> heap_shape (c_stores (fst s))
    \<and> wq_reach (queue_view s)"
  using assms
proof (induction rule: sys_reach.induct)
  case (start w)
  then show ?case
    by (simp add: initial_cstate_def hstate_wf_def heap_shape_def queue_view_def
        newRateLimitingQueue_def wq_reach.init)
next
  case (step s s')
  from step(2) step.IH show ?case
  proof (induction rule: sys_step.induct)
    case (controller s s')
    then show ?case
      using ctl_step_stores [OF controller(1)] ctl_step_queue [OF controller(1)]
      by (blast intro: stores_step_heap_shape dest: stores_step_wf)
  next
    case (reflector a event c h ws)
    then show ?case using reflector_event_inv [OF reflector(1)] by (simp add: queue_view_def)
  qed
qed

lemma active_stores_shape:
  assumes "hstate_wf h" and "heap_shape h"
  shows "\<forall>s \<in> set (active_stores h). store_shape s"
  using assms by (fastforce simp: set_active_stores load_def hstate_wf_def heap_shape_def)

end
