(* ===== verification/Options.thy ===== *)
theory Options
  imports Go_Float
begin

text \<open>
  \<^verbatim>\<open>internal/options.go\<close> and the part of \<^verbatim>\<open>main.go\<close> that decides whether the program starts:
  the flags, the command line as Go's \<^verbatim>\<open>flag\<close> package reads it, and the environment variables
  that override a flag that still has its default. A flag's value is kept as a value, not as
  the text \<^verbatim>\<open>Value.String()\<close> shows; that rendering is injective, so the comparison with the
  default is the same.
\<close>

section \<open>Values of flags\<close>

datatype flag_value = BoolFlag bool | IntFlag int | UintFlag nat | FloatFlag float64 | StringFlag string

definition ParseBool :: "string \<Rightarrow> bool option" where
  "ParseBool str =
     (if str \<in> set [''1'', ''t'', ''T'', ''true'', ''TRUE'', ''True''] then Some True
      else if str \<in> set [''0'', ''f'', ''F'', ''false'', ''FALSE'', ''False''] then Some False
      else None)"

definition digit_in :: "nat \<Rightarrow> char \<Rightarrow> nat option" where
  "digit_in base c =
     (let d = (if is_digit c then Some (byte c - 48)
               else if is_lower (lower_char c) then Some (byte (lower_char c) - 97 + 10)
               else None)
      in case d of None \<Rightarrow> None | Some d \<Rightarrow> if d < base then Some d else None)"

text \<open>The digits of \<^verbatim>\<open>ParseUint\<close> in base 0: separators are skipped here and judged after.\<close>

fun uint_loop :: "nat \<Rightarrow> nat \<Rightarrow> string \<Rightarrow> nat option" where
  "uint_loop base n [] = Some n"
| "uint_loop base n (c # cs) =
     (if c = CHR ''_'' then uint_loop base n cs
      else case digit_in base c of
             None \<Rightarrow> None
           | Some d \<Rightarrow> let n' = n * base + d in if n' < 2 ^ 64 then uint_loop base n' cs else None)"

definition base_prefix :: "string \<Rightarrow> nat \<times> string" where
  "base_prefix s =
     (if take 1 s \<noteq> ''0'' then (10, s)
      else if 3 \<le> length s \<and> lower_char (s ! 1) = CHR ''b'' then (2, drop 2 s)
      else if 3 \<le> length s \<and> lower_char (s ! 1) = CHR ''o'' then (8, drop 2 s)
      else if 3 \<le> length s \<and> lower_char (s ! 1) = CHR ''x'' then (16, drop 2 s)
      else (8, drop 1 s))"

definition ParseUint0 :: "string \<Rightarrow> nat option" where
  "ParseUint0 s =
     (if s = [] then None
      else case base_prefix s of (base, t) \<Rightarrow>
        if CHR ''_'' \<in> set s \<and> \<not> under_ok s then None else uint_loop base 0 t)"

text \<open>\<^verbatim>\<open>strconv.ParseInt(s, 0, 64)\<close>, \<open>None\<close> for a syntax or a range error.\<close>

definition ParseInt0 :: "string \<Rightarrow> int option" where
  "ParseInt0 s =
     (let neg = (take 1 s = ''-'');
          t = (if take 1 s = ''-'' \<or> take 1 s = ''+'' then drop 1 s else s)
      in case ParseUint0 t of
           None \<Rightarrow> None
         | Some un \<Rightarrow>
             if \<not> neg \<and> un \<ge> 2 ^ 63 then None
             else if neg \<and> un > 2 ^ 63 then None
             else Some (if neg then - int un else int un))"

text \<open>\<^verbatim>\<open>Value.Set\<close>, by the type of the flag.\<close>

fun Value_Set :: "flag_value \<Rightarrow> string \<Rightarrow> flag_value option" where
  "Value_Set (BoolFlag b) s = map_option BoolFlag (ParseBool s)"
| "Value_Set (IntFlag i) s = map_option IntFlag (ParseInt0 s)"
| "Value_Set (UintFlag n) s = map_option UintFlag (ParseUint0 s)"
| "Value_Set (FloatFlag f) s = map_option FloatFlag (ParseFloat s)"
| "Value_Set (StringFlag t) s = Some (StringFlag s)"

section \<open>The command line\<close>

record flag =
  fl_Name :: string
  fl_DefValue :: flag_value
  fl_Value :: flag_value
  fl_actual :: bool

definition new_flag :: "string \<Rightarrow> flag_value \<Rightarrow> flag" where
  "new_flag name v = \<lparr>fl_Name = name, fl_DefValue = v, fl_Value = v, fl_actual = False\<rparr>"

definition lookup_flag :: "string \<Rightarrow> flag list \<Rightarrow> flag option" where
  "lookup_flag name fls = List.find (\<lambda>f. fl_Name f = name) fls"

definition assign :: "string \<Rightarrow> flag_value \<Rightarrow> flag list \<Rightarrow> flag list" where
  "assign name v fls =
     map (\<lambda>f. if fl_Name f = name then f\<lparr>fl_Value := v, fl_actual := True\<rparr> else f) fls"

datatype exit_code = UsageExit | HelpExit | VersionExit

text \<open>\<^verbatim>\<open>name=value\<close>, where the equals sign is not the first byte.\<close>

definition split_value :: "string \<Rightarrow> string \<times> string option" where
  "split_value s =
     (let n = takeWhile (\<lambda>c. c \<noteq> CHR ''='') s; rest = dropWhile (\<lambda>c. c \<noteq> CHR ''='') s
      in (n, if rest = [] then None else Some (tl rest)))"

text \<open>
  \<^verbatim>\<open>parseOne\<close> until it stops: at the first argument that is not a flag, or after \<^verbatim>\<open>--\<close>.
\<close>

definition bad_name :: "string \<Rightarrow> bool" where
  "bad_name name \<longleftrightarrow> name = [] \<or> hd name = CHR ''-'' \<or> hd name = CHR ''=''"

function Parse :: "string list \<Rightarrow> flag list \<Rightarrow> exit_code + flag list" where
  "Parse [] fls = Inr fls"
| "Parse (s # as) fls =
     (if length s < 2 \<or> hd s \<noteq> CHR ''-'' then Inr fls
      else if s = ''--'' then Inr fls
      else let name = (if s ! 1 = CHR ''-'' then drop 2 s else drop 1 s) in
        if bad_name name then Inl UsageExit
        else case split_value name of (name, value) \<Rightarrow>
          (case lookup_flag name fls of
             None \<Rightarrow> Inl (if name = ''help'' \<or> name = ''h'' then HelpExit else UsageExit)
           | Some f \<Rightarrow>
               (case fl_Value f of
                  BoolFlag b \<Rightarrow>
                    (case Value_Set (fl_Value f) (case value of None \<Rightarrow> ''true'' | Some v \<Rightarrow> v) of
                       None \<Rightarrow> Inl UsageExit
                     | Some x \<Rightarrow> Parse as (assign name x fls))
                | _ \<Rightarrow>
                    (case value of
                       Some v \<Rightarrow>
                         (case Value_Set (fl_Value f) v of
                            None \<Rightarrow> Inl UsageExit
                          | Some x \<Rightarrow> Parse as (assign name x fls))
                     | None \<Rightarrow>
                         (case as of
                            [] \<Rightarrow> Inl UsageExit
                          | v # as' \<Rightarrow>
                              (case Value_Set (fl_Value f) v of
                                 None \<Rightarrow> Inl UsageExit
                               | Some x \<Rightarrow> Parse as' (assign name x fls)))))))"
  by pat_completeness auto

termination
  by (relation "measure (\<lambda>(as, fls). length as)") auto

section \<open>Reading the options\<close>

type_synonym environment = "string \<Rightarrow> string option"

definition Getenv :: "environment \<Rightarrow> string \<Rightarrow> string" where
  "Getenv env name = (case env name of None \<Rightarrow> [] | Some v \<Rightarrow> v)"

definition own_flags :: "environment \<Rightarrow> flag list" where
  "own_flags env =
     [new_flag ''auto-gomaxprocs'' (BoolFlag True),
      new_flag ''ratio-gomemlimit'' (FloatFlag (Fin False 8106479329266893 (- 53))),
      new_flag ''kubeconfig'' (StringFlag (Getenv env ''KUBECONFIG'')),
      new_flag ''master'' (StringFlag (Getenv env ''KUBERNETES_MASTER'')),
      new_flag ''self-host'' (StringFlag ''::''),
      new_flag ''self-port'' (IntFlag 9998),
      new_flag ''main-host'' (StringFlag ''::''),
      new_flag ''main-port'' (IntFlag 9999),
      new_flag ''try-no-cache'' (BoolFlag False),
      new_flag ''workers'' (IntFlag 2),
      new_flag ''version'' (BoolFlag False)]"

definition overriderForOptionName :: "string \<Rightarrow> string" where
  "overriderForOptionName name = ''CRDMETRICS_'' @ ReplaceAll (ToUpper name) CHR ''-'' CHR ''_''"

text \<open>The body of \<^verbatim>\<open>VisitAll\<close>.\<close>

definition override_flag :: "environment \<Rightarrow> flag \<Rightarrow> flag go" where
  "override_flag env f =
     (if fl_Value f \<noteq> fl_DefValue f then Inr f
      else case env (overriderForOptionName (fl_Name f)) of
             None \<Rightarrow> Inr f
           | Some v \<Rightarrow>
               (case Value_Set (fl_DefValue f) v of
                  None \<Rightarrow> Inl FlagSetFailed
                | Some x \<Rightarrow> Inr (f\<lparr>fl_Value := x, fl_actual := True\<rparr>)))"

fun VisitAll :: "environment \<Rightarrow> flag list \<Rightarrow> flag list go" where
  "VisitAll env [] = Inr []"
| "VisitAll env (f # fls) =
     go_bind (override_flag env f) (\<lambda>f'. go_bind (VisitAll env fls) (\<lambda>fls'. Inr (f' # fls')))"

text \<open>\<open>others\<close> are the flags of the logging library, which are registered before: those with values of
  Go's own types, 64-bit unsigned integers among them. Its four flags with values of its own types
  (\<^verbatim>\<open>v\<close>, \<^verbatim>\<open>vmodule\<close>, \<^verbatim>\<open>stderrthreshold\<close>, \<^verbatim>\<open>log_backtrace_at\<close>) have no counterpart here, so a command line
  or an environment that sets one of them is not covered.\<close>

definition Read :: "environment \<Rightarrow> flag list \<Rightarrow> string list \<Rightarrow> (exit_code + flag list) go" where
  "Read env others args =
     (case Parse args (others @ own_flags env) of
        Inl code \<Rightarrow> Inr (Inl code)
      | Inr fls \<Rightarrow> go_bind (VisitAll env (sort_key fl_Name fls)) (\<lambda>fls'. Inr (Inr fls')))"

definition NFlag :: "flag list \<Rightarrow> nat" where
  "NFlag fls = length (filter fl_actual fls)"

definition flag_is :: "string \<Rightarrow> flag_value \<Rightarrow> flag list \<Rightarrow> bool" where
  "flag_is name v fls \<longleftrightarrow> (case lookup_flag name fls of None \<Rightarrow> False | Some f \<Rightarrow> fl_Value f = v)"

text \<open>\<^verbatim>\<open>main\<close> up to the point where it builds its clients: it exits or goes on with its flags.\<close>

definition start_up :: "environment \<Rightarrow> flag list \<Rightarrow> string list \<Rightarrow> (exit_code + flag list) go" where
  "start_up env others args =
     go_bind (Read env others args) (\<lambda>r.
       case r of
         Inl code \<Rightarrow> Inr (Inl code)
       | Inr fls \<Rightarrow>
           if flag_is ''version'' (BoolFlag True) fls \<and> NFlag fls = 1 then Inr (Inl VersionExit)
           else Inr (Inr fls))"

section \<open>Precedence\<close>

text \<open>The value a flag ends with, given its value after the command line.\<close>

definition final_value :: "environment \<Rightarrow> flag \<Rightarrow> flag_value option" where
  "final_value env f =
     (if fl_Value f \<noteq> fl_DefValue f then Some (fl_Value f)
      else case env (overriderForOptionName (fl_Name f)) of
             None \<Rightarrow> Some (fl_Value f)
           | Some v \<Rightarrow> Value_Set (fl_DefValue f) v)"

lemma override_flag_eq:
  "override_flag env f =
     (case final_value env f of
        None \<Rightarrow> Inl FlagSetFailed
      | Some x \<Rightarrow> Inr (f\<lparr>fl_Value := x,
          fl_actual := fl_actual f
            \<or> (fl_Value f = fl_DefValue f \<and> env (overriderForOptionName (fl_Name f)) \<noteq> None)\<rparr>))"
  by (auto simp: override_flag_def final_value_def split: option.split)

lemma VisitAll_Inl:
  "VisitAll env fls = Inl p \<longleftrightarrow> p = FlagSetFailed \<and> (\<exists>f \<in> set fls. final_value env f = None)"
  by (induction fls) (auto simp: go_bind_eq_Inl override_flag_eq split: option.splits)

text \<open>The flag as it ends, when its variable parses.\<close>

definition overridden :: "environment \<Rightarrow> flag \<Rightarrow> flag" where
  "overridden env f = f\<lparr>fl_Value := the (final_value env f),
      fl_actual := fl_actual f
        \<or> (fl_Value f = fl_DefValue f \<and> env (overriderForOptionName (fl_Name f)) \<noteq> None)\<rparr>"

lemma overridden_map:
  assumes "VisitAll env fls = Inr fls'"
  shows "fls' = map (overridden env) fls \<and> (\<forall>f \<in> set fls. final_value env f = Some (fl_Value (overridden env f)))"
  using assms
proof (induction fls arbitrary: fls')
  case (Cons f fls)
  then show ?case
    by (auto simp: go_bind_eq_Inr override_flag_eq overridden_def split: option.splits)
qed simp

section \<open>Properties\<close>

text \<open>C34: the value of every option is the one of the command line when that differs from the
  default, else the one of its environment variable, else the default: a flag that is given
  its default value explicitly is overridden all the same. Reading panics exactly when an
  environment variable that is consulted does not parse.\<close>

theorem option_precedence:
  assumes "Parse args (others @ own_flags env) = Inr fls" and "f \<in> set fls"
  shows "case Read env others args of
      Inr (Inr fls') \<Rightarrow> \<exists>f' \<in> set fls'. fl_Name f' = fl_Name f
        \<and> Some (fl_Value f') =
            (if fl_Value f \<noteq> fl_DefValue f then Some (fl_Value f)
             else case env (overriderForOptionName (fl_Name f)) of
                    None \<Rightarrow> Some (fl_DefValue f)
                  | Some v \<Rightarrow> Value_Set (fl_DefValue f) v)
    | Inr (Inl code) \<Rightarrow> False
    | Inl p \<Rightarrow> \<exists>g \<in> set fls. fl_Value g = fl_DefValue g
        \<and> (\<exists>v. env (overriderForOptionName (fl_Name g)) = Some v \<and> Value_Set (fl_DefValue g) v = None)"
proof (cases "VisitAll env (sort_key fl_Name fls)")
  case (Inl p)
  then obtain g where "g \<in> set fls" "final_value env g = None" by (auto simp: VisitAll_Inl)
  with Inl assms(1) show ?thesis
    by (auto simp: Read_def final_value_def split: if_splits option.splits)
next
  case (Inr fls')
  from overridden_map [OF Inr] assms(2) have f: "overridden env f \<in> set fls'"
    "final_value env f = Some (fl_Value (overridden env f))" by auto
  have "fl_Name (overridden env f) = fl_Name f" by (simp add: overridden_def)
  moreover from f(2) have "Some (fl_Value (overridden env f)) =
            (if fl_Value f \<noteq> fl_DefValue f then Some (fl_Value f)
             else case env (overriderForOptionName (fl_Name f)) of
                    None \<Rightarrow> Some (fl_DefValue f)
                  | Some v \<Rightarrow> Value_Set (fl_DefValue f) v)"
    by (simp only: f(2) [symmetric] final_value_def) (simp split: option.split)
  moreover have "Read env others args = Inr (Inr fls')" using assms(1) Inr by (simp add: Read_def)
  ultimately show ?thesis using f(1) by auto
qed

theorem option_precedence_witness:
  "case Read (\<lambda>n. if n = ''CRDMETRICS_WORKERS'' then Some ''4'' else None) [] [''--workers=2''] of
      Inr (Inr fls') \<Rightarrow> \<exists>f' \<in> set fls'. fl_Name f' = ''workers'' \<and> fl_Value f' = IntFlag 4
    | _ \<Rightarrow> False"
proof -
  let ?env = "\<lambda>n. if n = ''CRDMETRICS_WORKERS'' then Some ''4'' else None"
  have n: "overriderForOptionName ''workers'' = ''CRDMETRICS_WORKERS''" by code_simp
  have four: "ParseInt0 ''4'' = Some 4" and two: "ParseInt0 ''2'' = Some 2"
    by (simp_all add: ParseInt0_def ParseUint0_def base_prefix_def digit_in_def is_digit_def)
  let ?fls = "assign ''workers'' (IntFlag 2) (own_flags ?env)"
  have p: "Parse [''--workers=2''] ([] @ own_flags ?env) = Inr ?fls"
  proof -
    have "lookup_flag ''workers'' (own_flags ?env) = Some (new_flag ''workers'' (IntFlag 2))"
      by (simp add: lookup_flag_def own_flags_def new_flag_def)
    moreover have "split_value ''workers=2'' = (''workers'', Some ''2'')" by code_simp
    moreover have "\<not> bad_name ''workers=2''" by code_simp
    ultimately show ?thesis by (simp add: new_flag_def two Let_def)
  qed
  have m: "(new_flag ''workers'' (IntFlag 2))\<lparr>fl_actual := True\<rparr> \<in> set ?fls"
    by (simp add: own_flags_def assign_def new_flag_def)
  have "list_all (\<lambda>n. overriderForOptionName n \<noteq> ''CRDMETRICS_WORKERS'')
      [''auto-gomaxprocs'', ''ratio-gomemlimit'', ''kubeconfig'', ''master'', ''self-host'', ''self-port'',
       ''main-host'', ''main-port'', ''try-no-cache'', ''version'']"
    by code_simp
  then have g: "\<forall>g \<in> set ?fls. fl_DefValue g = IntFlag 2
      \<or> overriderForOptionName (fl_Name g) \<noteq> ''CRDMETRICS_WORKERS''"
    by (simp add: own_flags_def assign_def new_flag_def)
  show ?thesis
  proof (cases "Read ?env [] [''--workers=2'']")
    case (Inl e)
    with option_precedence [OF p m] g show ?thesis by (auto simp: four split: if_splits)
  next
    case (Inr r)
    with option_precedence [OF p m] show ?thesis by (cases r) (simp_all add: new_flag_def n four)
  qed
qed

lemma lookup_flag_Some: "lookup_flag name fls = Some f \<Longrightarrow> f \<in> set fls \<and> fl_Name f = name"
  by (induction fls) (auto simp: lookup_flag_def split: if_splits)

lemma lookup_flag_mem: "f \<in> set fls \<Longrightarrow> fl_Name f = name \<Longrightarrow> lookup_flag name fls \<noteq> None"
  by (induction fls) (auto simp: lookup_flag_def)

lemma length_filter_sort: "length (filter P (sort_key k xs)) = length (filter P xs)"
  by (metis mset_filter mset_sort size_mset)

lemma length_filter_last:
  "P y \<Longrightarrow> length (filter P (xs @ [y])) = 1 \<longleftrightarrow> (\<forall>x \<in> set xs. \<not> P x)"
  by (simp add: filter_empty_conv)

text \<open>The version flag on its own ends the program; but an environment variable that sets any
  option counts as a flag that was set, and then the program starts although only the version
  was asked for.\<close>

theorem version_alone:
  assumes "\<forall>f \<in> set (own_flags env). final_value env f \<noteq> None"
  shows "(start_up env [] [''-version''] = Inr (Inl VersionExit)) =
    (\<forall>f \<in> set (own_flags env). fl_Name f = ''version'' \<or> env (overriderForOptionName (fl_Name f)) = None)"
proof -
  let ?front = "butlast (own_flags env)"
  let ?v = "\<lparr>fl_Name = ''version'', fl_DefValue = BoolFlag False, fl_Value = BoolFlag True, fl_actual = True\<rparr>"
  let ?set = "\<lambda>f. env (overriderForOptionName (fl_Name f)) \<noteq> None"
  have own: "own_flags env = ?front @ [new_flag ''version'' (BoolFlag False)]"
    by (simp add: own_flags_def)
  have names: "\<forall>f \<in> set ?front. fl_Name f \<noteq> ''version'' \<and> fl_Value f = fl_DefValue f \<and> \<not> fl_actual f"
    by (simp add: own_flags_def new_flag_def)
  have "assign ''version'' (BoolFlag True) ?front = ?front"
    using names by (simp add: assign_def map_idI)
  then have "assign ''version'' (BoolFlag True) (own_flags env) = ?front @ [?v]"
    using arg_cong [OF own, of "assign ''version'' (BoolFlag True)"] by (simp add: assign_def new_flag_def)
  moreover have "Parse [''-version''] (own_flags env) = Inr (assign ''version'' (BoolFlag True) (own_flags env))"
  proof -
    have "lookup_flag ''version'' (own_flags env) = Some (new_flag ''version'' (BoolFlag False))"
      by (simp add: lookup_flag_def own_flags_def new_flag_def)
    moreover have "split_value ''version'' = (''version'', None)" by code_simp
    moreover have "\<not> bad_name ''version''" by code_simp
    ultimately show ?thesis by (simp add: new_flag_def ParseBool_def Let_def)
  qed
  ultimately have p: "Parse [''-version''] (own_flags env) = Inr (?front @ [?v])" by simp
  have own_set: "set (own_flags env) = insert (new_flag ''version'' (BoolFlag False)) (set ?front)"
    using arg_cong [OF own, of set] by simp
  have "final_value env ?v \<noteq> None" by (simp add: final_value_def)
  then have "\<forall>f \<in> set (?front @ [?v]). final_value env f \<noteq> None"
    using assms own_set by simp
  then obtain fls where fls: "VisitAll env (sort_key fl_Name (?front @ [?v])) = Inr fls"
    using VisitAll_Inl [of env "sort_key fl_Name (?front @ [?v])"]
    by (cases "VisitAll env (sort_key fl_Name (?front @ [?v]))") fastforce+
  let ?ov = "overridden env"
  have m: "fls = map ?ov (sort_key fl_Name (?front @ [?v]))" using overridden_map [OF fls] by simp
  have "NFlag fls = length (filter (\<lambda>f. fl_actual (?ov f)) (sort_key fl_Name (?front @ [?v])))"
    by (simp add: NFlag_def m filter_map comp_def del: sort_key_simps)
  also have "\<dots> = length (filter (\<lambda>f. fl_actual (?ov f)) (?front @ [?v]))"
    by (rule length_filter_sort)
  finally have "NFlag fls = 1 \<longleftrightarrow> (\<forall>f \<in> set ?front. \<not> fl_actual (?ov f))"
    using length_filter_last [of "\<lambda>f. fl_actual (?ov f)" ?v ?front] by (simp add: overridden_def)
  then have n: "NFlag fls = 1 \<longleftrightarrow> (\<forall>f \<in> set ?front. \<not> ?set f)"
    using names by (auto simp: overridden_def)
  have mem: "f = ?ov ?v \<or> fl_Name f \<noteq> ''version''" if "f \<in> set fls" for f
  proof -
    from that obtain g where "f = ?ov g" "g \<in> set ?front \<or> g = ?v" by (auto simp: m)
    then show ?thesis using names by (auto simp: overridden_def)
  qed
  have "?ov ?v \<in> set fls" by (simp add: m)
  then have "lookup_flag ''version'' fls \<noteq> None"
    by (rule lookup_flag_mem) (simp add: overridden_def)
  then obtain f where f: "lookup_flag ''version'' fls = Some f" by blast
  from lookup_flag_Some [OF f] mem have "f = ?ov ?v" by blast
  with f have "flag_is ''version'' (BoolFlag True) fls"
    by (simp add: flag_is_def overridden_def final_value_def)
  then have "(start_up env [] [''-version''] = Inr (Inl VersionExit)) = (NFlag fls = 1)"
    by (simp add: start_up_def Read_def p fls del: Parse.simps)
  also have "\<dots> = (\<forall>f \<in> set (own_flags env). fl_Name f = ''version'' \<or> \<not> ?set f)"
    unfolding n own_set using names by (auto simp: new_flag_def)
  finally show ?thesis by simp
qed

theorem version_alone_witness:
  "start_up (\<lambda>_. None) [] [''-version''] = Inr (Inl VersionExit)"
  using version_alone [of "\<lambda>_. None"] by (simp add: final_value_def)

section \<open>The options as the program reads them\<close>

text \<open>The fields are pointers, which are \<^verbatim>\<open>nil\<close> until the flags are registered.\<close>

record options =
  o_AutoGOMAXPROCS :: "bool option"
  o_RatioGOMEMLIMIT :: "float64 option"
  o_Kubeconfig :: "string option"
  o_MasterURL :: "string option"
  o_SelfHost :: "string option"
  o_SelfPort :: "int option"
  o_MainHost :: "string option"
  o_MainPort :: "int option"
  o_TryNoCache :: "bool option"
  o_Workers :: "int option"
  o_Version :: "bool option"

definition NewOptions :: options where
  "NewOptions = \<lparr>o_AutoGOMAXPROCS = None, o_RatioGOMEMLIMIT = None, o_Kubeconfig = None, o_MasterURL = None,
     o_SelfHost = None, o_SelfPort = None, o_MainHost = None, o_MainPort = None, o_TryNoCache = None,
     o_Workers = None, o_Version = None\<rparr>"

definition bool_of :: "flag list \<Rightarrow> string \<Rightarrow> bool option" where
  "bool_of fls name = (case map_option fl_Value (lookup_flag name fls) of Some (BoolFlag b) \<Rightarrow> Some b | _ \<Rightarrow> None)"

definition int_of :: "flag list \<Rightarrow> string \<Rightarrow> int option" where
  "int_of fls name = (case map_option fl_Value (lookup_flag name fls) of Some (IntFlag i) \<Rightarrow> Some i | _ \<Rightarrow> None)"

definition float_of :: "flag list \<Rightarrow> string \<Rightarrow> float64 option" where
  "float_of fls name = (case map_option fl_Value (lookup_flag name fls) of Some (FloatFlag x) \<Rightarrow> Some x | _ \<Rightarrow> None)"

definition string_of :: "flag list \<Rightarrow> string \<Rightarrow> string option" where
  "string_of fls name = (case map_option fl_Value (lookup_flag name fls) of Some (StringFlag t) \<Rightarrow> Some t | _ \<Rightarrow> None)"

text \<open>What the pointers read, each typed as the flag it was returned for.\<close>

definition set_options :: "flag list \<Rightarrow> options \<Rightarrow> options" where
  "set_options fls opts =
     opts\<lparr>o_AutoGOMAXPROCS := bool_of fls ''auto-gomaxprocs'',
          o_RatioGOMEMLIMIT := float_of fls ''ratio-gomemlimit'',
          o_Kubeconfig := string_of fls ''kubeconfig'',
          o_MasterURL := string_of fls ''master'',
          o_SelfHost := string_of fls ''self-host'',
          o_SelfPort := int_of fls ''self-port'',
          o_MainHost := string_of fls ''main-host'',
          o_MainPort := int_of fls ''main-port'',
          o_TryNoCache := bool_of fls ''try-no-cache'',
          o_Workers := int_of fls ''workers'',
          o_Version := bool_of fls ''version''\<rparr>"

lemma set_options_fields:
  "o_AutoGOMAXPROCS (set_options fls opts) = bool_of fls ''auto-gomaxprocs''"
  "o_RatioGOMEMLIMIT (set_options fls opts) = float_of fls ''ratio-gomemlimit''"
  "o_Kubeconfig (set_options fls opts) = string_of fls ''kubeconfig''"
  "o_MasterURL (set_options fls opts) = string_of fls ''master''"
  "o_SelfHost (set_options fls opts) = string_of fls ''self-host''"
  "o_SelfPort (set_options fls opts) = int_of fls ''self-port''"
  "o_MainHost (set_options fls opts) = string_of fls ''main-host''"
  "o_MainPort (set_options fls opts) = int_of fls ''main-port''"
  "o_TryNoCache (set_options fls opts) = bool_of fls ''try-no-cache''"
  "o_Workers (set_options fls opts) = int_of fls ''workers''"
  "o_Version (set_options fls opts) = bool_of fls ''version''"
  by (simp_all add: set_options_def)

fun same_type :: "flag_value \<Rightarrow> flag_value \<Rightarrow> bool" where
  "same_type (BoolFlag _) (BoolFlag _) = True"
| "same_type (IntFlag _) (IntFlag _) = True"
| "same_type (UintFlag _) (UintFlag _) = True"
| "same_type (FloatFlag _) (FloatFlag _) = True"
| "same_type (StringFlag _) (StringFlag _) = True"
| "same_type _ _ = False"

lemma same_type_refl [simp]: "same_type v v"
  by (cases v) simp_all

lemma same_type_trans: "same_type u v \<Longrightarrow> same_type v w \<Longrightarrow> same_type u w"
  by (cases u; cases v; cases w) simp_all

lemma Value_Set_type: "Value_Set v s = Some w \<Longrightarrow> same_type v w"
  by (cases v) auto

text \<open>Flags keep their names and defaults, and the type of their value is that of the default.\<close>

definition flag_types :: "flag list \<Rightarrow> bool" where
  "flag_types fls \<longleftrightarrow> distinct (map fl_Name fls) \<and> (\<forall>f \<in> set fls. same_type (fl_DefValue f) (fl_Value f))"

abbreviation signature :: "flag list \<Rightarrow> (string \<times> flag_value) list" where
  "signature fls \<equiv> map (\<lambda>f. (fl_Name f, fl_DefValue f)) fls"

lemma assign_types:
  assumes "flag_types fls" and "lookup_flag name fls = Some f" and "Value_Set (fl_Value f) s = Some x"
  shows "flag_types (assign name x fls) \<and> signature (assign name x fls) = signature fls"
proof -
  have names: "map fl_Name (assign name x fls) = map fl_Name fls" by (induction fls) (simp_all add: assign_def)
  have "same_type (fl_DefValue g) x" if g: "g \<in> set fls" "fl_Name g = name" for g
  proof -
    have "f \<in> set fls" "fl_Name f = name" using lookup_flag_Some [OF assms(2)] by simp_all
    then have "g = f" using assms(1) g by (auto simp: flag_types_def distinct_map dest: inj_onD)
    moreover have "same_type (fl_DefValue f) (fl_Value f)" using assms(1) \<open>f \<in> set fls\<close> by (simp add: flag_types_def)
    ultimately show ?thesis using same_type_trans Value_Set_type [OF assms(3)] by blast
  qed
  with assms(1) have "flag_types (assign name x fls)"
    unfolding flag_types_def names by (auto simp: assign_def)
  moreover have "signature (assign name x fls) = signature fls" by (induction fls) (simp_all add: assign_def)
  ultimately show ?thesis by blast
qed

lemma Parse_step:
  assumes "Parse (s # as) fls = Inr fls'"
  shows "fls' = fls \<or> (\<exists>name f t x bs. lookup_flag name fls = Some f \<and> Value_Set (fl_Value f) t = Some x
    \<and> length bs \<le> length as \<and> Parse bs (assign name x fls) = Inr fls')"
proof -
  define u where "u = (if s ! 1 = CHR ''-'' then drop 2 s else drop 1 s)"
  obtain name val where n: "split_value u = (name, val)" by fastforce
  note p = assms [unfolded Parse.simps(2) Let_def, folded u_def, unfolded n prod.case]
  show ?thesis
  proof (cases "lookup_flag name fls")
    case None
    with p show ?thesis by (simp split: if_splits)
  next
    case (Some f)
    have "fls' = fls \<or> (\<exists>t x bs. Value_Set (fl_Value f) t = Some x \<and> length bs \<le> length as \<and> Parse bs (assign name x fls) = Inr fls')"
      using p Some by (cases "fl_Value f"; cases val; cases as)
        (auto simp del: Parse.simps Value_Set.simps split: if_splits option.splits)
    with Some show ?thesis by blast
  qed
qed

lemma Parse_types:
  "Parse args fls = Inr fls' \<Longrightarrow> flag_types fls \<Longrightarrow> flag_types fls' \<and> signature fls' = signature fls"
proof (induction args arbitrary: fls rule: length_induct)
  case (1 args)
  show ?case
  proof (cases args)
    case Nil
    with 1(2,3) show ?thesis by simp
  next
    case (Cons s as)
    from Parse_step [OF 1(2) [unfolded Cons]] show ?thesis
    proof (elim disjE exE conjE)
      fix name f t x bs
      assume l: "lookup_flag name fls = Some f" "Value_Set (fl_Value f) t = Some x" "length bs \<le> length as"
        and p: "Parse bs (assign name x fls) = Inr fls'"
      note a = assign_types [OF 1(3) l(1,2)]
      have "length bs < length args" using l(3) by (simp add: Cons)
      with 1(1) p a show ?thesis by metis
    qed (use 1(3) in simp)
  qed
qed

lemma VisitAll_types:
  assumes "VisitAll env fls = Inr fls'" and "flag_types fls"
  shows "flag_types fls' \<and> signature fls' = signature fls"
proof -
  have m: "fls' = map (overridden env) fls"
    and v: "\<forall>f \<in> set fls. final_value env f = Some (fl_Value (overridden env f))"
    using overridden_map [OF assms(1)] by simp_all
  have "same_type (fl_DefValue f) (fl_Value (overridden env f))" if f: "f \<in> set fls" for f
  proof -
    have "final_value env f = Some (fl_Value (overridden env f))" using v f by blast
    then show ?thesis
      using assms(2) f by (auto simp: final_value_def flag_types_def dest: Value_Set_type split: if_splits option.splits)
  qed
  moreover have n: "map fl_Name fls' = map fl_Name fls" "signature fls' = signature fls"
    by (simp_all add: m overridden_def)
  ultimately have "flag_types fls'"
    using assms(2) by (auto simp: flag_types_def n(1)) (auto simp: m overridden_def)
  with n(2) show ?thesis by blast
qed

text \<open>What is read ends with the flags that were registered, each of its type.\<close>

lemma Read_types:
  assumes r: "Read env others args = Inr (Inr fls)" and t: "flag_types (others @ own_flags env)"
    and own: "f \<in> set (own_flags env)"
  shows "\<exists>v. map_option fl_Value (lookup_flag (fl_Name f) fls) = Some v \<and> same_type (fl_DefValue f) v"
proof -
  obtain ps where p: "Parse args (others @ own_flags env) = Inr ps" and v: "VisitAll env (sort_key fl_Name ps) = Inr fls"
    using r by (auto simp: Read_def go_bind_eq_Inr split: sum.splits)
  have ps: "flag_types ps" "signature ps = signature (others @ own_flags env)" using Parse_types [OF p t] by blast+
  have "mset (map fl_Name (sort_key fl_Name ps)) = mset (map fl_Name ps)" by (simp only: mset_map mset_sort)
  from mset_eq_imp_distinct_iff [OF this] have "flag_types (sort_key fl_Name ps)"
    using ps(1) unfolding flag_types_def by simp
  then have fls: "flag_types fls" "signature fls = signature (sort_key fl_Name ps)" using VisitAll_types [OF v] by blast+
  have "(fl_Name f, fl_DefValue f) \<in> set (signature (others @ own_flags env))" using own by auto
  also have "set (signature (others @ own_flags env)) = set (signature ps)" by (simp only: ps(2))
  also have "\<dots> = set (signature fls)" unfolding fls(2) by simp
  finally obtain g where g: "g \<in> set fls" "fl_Name g = fl_Name f" "fl_DefValue g = fl_DefValue f" by auto
  obtain h where h: "lookup_flag (fl_Name f) fls = Some h" using lookup_flag_mem [OF g(1,2)] by blast
  have "inj_on fl_Name (set fls)" using fls(1) by (simp add: flag_types_def distinct_map)
  then have "h = g" using lookup_flag_Some [OF h] g(1,2) by (intro inj_onD [of fl_Name "set fls"]) simp_all
  moreover have "same_type (fl_DefValue g) (fl_Value g)" using fls(1) g(1) by (simp add: flag_types_def)
  ultimately show ?thesis using h g(3) by simp
qed

definition all_set :: "options \<Rightarrow> bool" where
  "all_set opts \<longleftrightarrow> o_AutoGOMAXPROCS opts \<noteq> None \<and> o_RatioGOMEMLIMIT opts \<noteq> None \<and> o_Kubeconfig opts \<noteq> None
     \<and> o_MasterURL opts \<noteq> None \<and> o_SelfHost opts \<noteq> None \<and> o_SelfPort opts \<noteq> None \<and> o_MainHost opts \<noteq> None
     \<and> o_MainPort opts \<noteq> None \<and> o_TryNoCache opts \<noteq> None \<and> o_Workers opts \<noteq> None \<and> o_Version opts \<noteq> None"

text \<open>C33: whenever reading the options returns, every option can be read at its type: no pointer
  that the program dereferences is nil, whatever the command line and the environment are, as
  long as the flags registered before have other names.\<close>

theorem options_are_set:
  assumes "Read env others args = Inr (Inr fls)" and "flag_types (others @ own_flags env)"
  shows "all_set (set_options fls NewOptions)"
proof -
  note t = Read_types [OF assms]
  have own: "new_flag ''auto-gomaxprocs'' (BoolFlag True) \<in> set (own_flags env)"
    "new_flag ''ratio-gomemlimit'' (FloatFlag (Fin False 8106479329266893 (- 53))) \<in> set (own_flags env)"
    "new_flag ''kubeconfig'' (StringFlag (Getenv env ''KUBECONFIG'')) \<in> set (own_flags env)"
    "new_flag ''master'' (StringFlag (Getenv env ''KUBERNETES_MASTER'')) \<in> set (own_flags env)"
    "new_flag ''self-host'' (StringFlag ''::'') \<in> set (own_flags env)"
    "new_flag ''self-port'' (IntFlag 9998) \<in> set (own_flags env)"
    "new_flag ''main-host'' (StringFlag ''::'') \<in> set (own_flags env)"
    "new_flag ''main-port'' (IntFlag 9999) \<in> set (own_flags env)"
    "new_flag ''try-no-cache'' (BoolFlag False) \<in> set (own_flags env)"
    "new_flag ''workers'' (IntFlag 2) \<in> set (own_flags env)"
    "new_flag ''version'' (BoolFlag False) \<in> set (own_flags env)"
    by (simp_all add: own_flags_def)
  have b: "bool_of fls name \<noteq> None" if "new_flag name (BoolFlag d) \<in> set (own_flags env)" for name d
    using t [OF that] by (auto simp: bool_of_def new_flag_def split: flag_value.split)
  have i: "int_of fls name \<noteq> None" if "new_flag name (IntFlag d) \<in> set (own_flags env)" for name d
    using t [OF that] by (auto simp: int_of_def new_flag_def split: flag_value.split)
  have x: "float_of fls name \<noteq> None" if "new_flag name (FloatFlag d) \<in> set (own_flags env)" for name d
    using t [OF that] by (auto simp: float_of_def new_flag_def split: flag_value.split)
  have s: "string_of fls name \<noteq> None" if "new_flag name (StringFlag d) \<in> set (own_flags env)" for name d
    using t [OF that] by (auto simp: string_of_def new_flag_def split: flag_value.split)
  show ?thesis
    unfolding all_set_def set_options_fields
    by (intro conjI b [OF own(1)] x [OF own(2)] s [OF own(3)] s [OF own(4)] s [OF own(5)] i [OF own(6)]
      s [OF own(7)] i [OF own(8)] b [OF own(9)] i [OF own(10)] b [OF own(11)])
qed

theorem options_are_set_witness:
  "\<exists>fls. Read (\<lambda>_. None) [] [] = Inr (Inr fls) \<and> all_set (set_options fls NewOptions)"
proof -
  have t: "flag_types ([] @ own_flags (\<lambda>_. None))" by (simp add: flag_types_def own_flags_def new_flag_def)
  have "final_value (\<lambda>_. None) f \<noteq> None" for f by (simp add: final_value_def)
  then have "\<exists>fls. VisitAll (\<lambda>_. None) (sort_key fl_Name ([] @ own_flags (\<lambda>_. None))) = Inr fls"
    using VisitAll_Inl [of "\<lambda>_. None" "sort_key fl_Name ([] @ own_flags (\<lambda>_. None))"]
    by (cases "VisitAll (\<lambda>_. None) (sort_key fl_Name ([] @ own_flags (\<lambda>_. None)))") blast+
  then obtain fls where r: "Read (\<lambda>_. None) [] [] = Inr (Inr fls)" by (auto simp: Read_def)
  from options_are_set [OF r t] r show ?thesis by blast
qed

end
