(* ===== verification/Lifecycle.thy ===== *)
theory Lifecycle
  imports Server
begin

text \<open>
  The life of the process: \<^verbatim>\<open>pkg/signals/signal.go\<close>, \<^verbatim>\<open>Controller.Run\<close> of
  \<^verbatim>\<open>internal/controller.go\<close>, the constructors of \<^verbatim>\<open>internal/server.go\<close> and the end of
  \<^verbatim>\<open>main.go\<close>, as a transition system of the main goroutine, the goroutine that waits for
  signals and the two that serve. Of \<^verbatim>\<open>net/http\<close> the state of a server and its busy
  connections are kept.
\<close>

section \<open>Signals\<close>

datatype os_signal = Interrupt | SIGTERM

text \<open>Where the goroutine of \<open>SetupSignalHandler\<close> stands.\<close>

datatype waiter = AwaitFirst | Cancelling | AwaitSecond | Exiting

record signal_state =
  sg_chan :: "os_signal list"
  sg_waiter :: waiter
  sg_done :: bool

text \<open>
  Whether a handler is installed is whether the channel \<^verbatim>\<open>onlyOneSignalHandler\<close> is closed;
  closing it a second time panics.
\<close>

definition SetupSignalHandler :: "bool \<Rightarrow> (bool \<times> signal_state) go" where
  "SetupSignalHandler installed =
     (if installed then Inl CloseOfClosedChannel
      else Inr (True, \<lparr>sg_chan = [], sg_waiter = AwaitFirst, sg_done = False\<rparr>))"

text \<open>\<^verbatim>\<open>signal.Notify\<close> does not wait: a signal that finds the channel's two places taken is lost.\<close>

definition Notify :: "os_signal \<Rightarrow> signal_state \<Rightarrow> signal_state" where
  "Notify sig g = (if length (sg_chan g) < 2 then g\<lparr>sg_chan := sg_chan g @ [sig]\<rparr> else g)"

text \<open>One step of the goroutine, if it is not blocked; \<open>True\<close> when it exits the process.\<close>

fun signal_goroutine :: "signal_state \<Rightarrow> (bool \<times> signal_state) option" where
  "signal_goroutine g =
     (case sg_waiter g of
        AwaitFirst \<Rightarrow> (case sg_chan g of
            [] \<Rightarrow> None
          | s # c \<Rightarrow> Some (False, g\<lparr>sg_chan := c, sg_waiter := Cancelling\<rparr>))
      | Cancelling \<Rightarrow> Some (False, g\<lparr>sg_done := True, sg_waiter := AwaitSecond\<rparr>)
      | AwaitSecond \<Rightarrow> (case sg_chan g of
            [] \<Rightarrow> None
          | s # c \<Rightarrow> Some (False, g\<lparr>sg_chan := c, sg_waiter := Exiting\<rparr>))
      | Exiting \<Rightarrow> Some (True, g))"

section \<open>Servers\<close>

datatype server_state = NotStarted | Listening | Failed | Closed

record http_server =
  sv_source :: string
  sv_Addr :: string
  sv_state :: server_state
  sv_busy :: nat

definition JoinHostPort :: "string \<Rightarrow> string \<Rightarrow> string" where
  "JoinHostPort host port =
     (if CHR '':'' \<in> set host then ''['' @ host @ '']:'' @ port else host @ '':'' @ port)"

definition newSelfServer :: "string \<Rightarrow> http_server" where
  "newSelfServer addr = \<lparr>sv_source = ''self'', sv_Addr = addr, sv_state = NotStarted, sv_busy = 0\<rparr>"

definition newMainServer :: "string \<Rightarrow> http_server" where
  "newMainServer addr = \<lparr>sv_source = ''main'', sv_Addr = addr, sv_state = NotStarted, sv_busy = 0\<rparr>"

text \<open>\<open>bound\<close>: the address could be bound. A server that was shut down does not start.\<close>

definition ListenAndServe :: "bool \<Rightarrow> http_server \<Rightarrow> http_server" where
  "ListenAndServe bound s =
     (if sv_state s = NotStarted then s\<lparr>sv_state := (if bound then Listening else Failed)\<rparr> else s)"

text \<open>
  \<^verbatim>\<open>Shutdown\<close> closes the listeners, then waits until no connection is busy or its context is
  done. \<open>None\<close> while it waits, otherwise whether it returned the context's error.
\<close>

definition Shutdown :: "bool \<Rightarrow> http_server \<Rightarrow> http_server \<times> bool option" where
  "Shutdown ctx_done s =
     (s\<lparr>sv_state := Closed\<rparr>,
      if sv_busy s = 0 then Some False else if ctx_done then Some True else None)"

section \<open>The process\<close>

text \<open>Where the main goroutine stands, in \<open>Run\<close> and after it.\<close>

datatype main_pc =
    SyncCheck
  | SyncPoll
  | Launch
  | WaitDone
  | ShutSelf
  | ShutMain
  | RunReturned "string option"
  | Exited nat

record process =
  p_pc :: main_pc
  p_sig :: signal_state
  p_synced :: bool
  p_self :: http_server
  p_main :: http_server
  p_workers :: nat
  p_queue_down :: bool

record run_options =
  o_SelfHost :: string
  o_SelfPort :: int
  o_MainHost :: string
  o_MainPort :: int
  o_Workers :: int

definition sync_error :: string where
  "sync_error = ''failed to wait for caches to sync''"

text \<open>\<open>Run\<close> returns: its deferred \<^verbatim>\<open>ShutDown\<close> of the work queue runs.\<close>

definition run_return :: "string option \<Rightarrow> process \<Rightarrow> process" where
  "run_return err p = p\<lparr>p_pc := RunReturned err, p_queue_down := True\<rparr>"

text \<open>
  \<^verbatim>\<open>WaitForCacheSync\<close> looks once at the cache whatever the context is, then at every tick; of
  a tick and a done context either may be seen first.
\<close>

definition sync_check :: "process \<Rightarrow> process" where
  "sync_check p =
     (if p_synced p then p\<lparr>p_pc := Launch\<rparr>
      else if sg_done (p_sig p) then run_return (Some sync_error) p
      else p\<lparr>p_pc := SyncPoll\<rparr>)"

text \<open>Servers are built, workers and servers are launched; a loop over a number below 1 does nothing.\<close>

definition launch :: "run_options \<Rightarrow> process \<Rightarrow> process" where
  "launch opts p =
     p\<lparr>p_self := newSelfServer (JoinHostPort (o_SelfHost opts) (show_int (o_SelfPort opts))),
       p_main := newMainServer (JoinHostPort (o_MainHost opts) (show_int (o_MainPort opts))),
       p_workers := nat (o_Workers opts),
       p_pc := WaitDone\<rparr>"

definition main_exit :: "string option \<Rightarrow> nat" where
  "main_exit err = (case err of None \<Rightarrow> 0 | Some e \<Rightarrow> 1)"

definition launched :: "process \<Rightarrow> bool" where
  "launched p \<longleftrightarrow> p_pc p \<in> {WaitDone, ShutSelf, ShutMain} \<or> p_pc p = RunReturned None"

definition running :: "process \<Rightarrow> bool" where
  "running p \<longleftrightarrow> (\<forall>n. p_pc p \<noteq> Exited n)"

text \<open>The steps of the program's own goroutines.\<close>

inductive own_step :: "run_options \<Rightarrow> process \<Rightarrow> process \<Rightarrow> bool" for opts where
  check: "p_pc p = SyncCheck \<Longrightarrow> own_step opts p (sync_check p)"
| polled: "p_pc p = SyncPoll \<Longrightarrow> p_synced p \<Longrightarrow> own_step opts p (p\<lparr>p_pc := Launch\<rparr>)"
| timed_out: "p_pc p = SyncPoll \<Longrightarrow> sg_done (p_sig p)
    \<Longrightarrow> own_step opts p (run_return (Some sync_error) p)"
| launch: "p_pc p = Launch \<Longrightarrow> own_step opts p (launch opts p)"
| ctx_done: "p_pc p = WaitDone \<Longrightarrow> sg_done (p_sig p) \<Longrightarrow> own_step opts p (p\<lparr>p_pc := ShutSelf\<rparr>)"
| shut_self: "p_pc p = ShutSelf \<Longrightarrow> Shutdown (sg_done (p_sig p)) (p_self p) = (s, Some e)
    \<Longrightarrow> own_step opts p (p\<lparr>p_self := s, p_pc := ShutMain\<rparr>)"
| shut_main: "p_pc p = ShutMain \<Longrightarrow> Shutdown (sg_done (p_sig p)) (p_main p) = (s, Some e)
    \<Longrightarrow> own_step opts p (run_return None (p\<lparr>p_main := s\<rparr>))"
| main_end: "p_pc p = RunReturned err \<Longrightarrow> own_step opts p (p\<lparr>p_pc := Exited (main_exit err)\<rparr>)"
| waiter: "running p \<Longrightarrow> signal_goroutine (p_sig p) = Some (False, g) \<Longrightarrow> own_step opts p (p\<lparr>p_sig := g\<rparr>)"
| waiter_exit: "running p \<Longrightarrow> signal_goroutine (p_sig p) = Some (True, g)
    \<Longrightarrow> own_step opts p (p\<lparr>p_pc := Exited 1\<rparr>)"

text \<open>
  What else happens while the process runs: signals, the cache being filled, servers that
  begin to serve or cannot, requests, and a panic in any goroutine.
\<close>

inductive env_step :: "process \<Rightarrow> process \<Rightarrow> bool" where
  signalled: "running p \<Longrightarrow> env_step p (p\<lparr>p_sig := Notify sig (p_sig p)\<rparr>)"
| synced: "running p \<Longrightarrow> env_step p (p\<lparr>p_synced := True\<rparr>)"
| serve_self: "launched p \<Longrightarrow> env_step p (p\<lparr>p_self := ListenAndServe b (p_self p)\<rparr>)"
| serve_main: "launched p \<Longrightarrow> env_step p (p\<lparr>p_main := ListenAndServe b (p_main p)\<rparr>)"
| request: "launched p \<Longrightarrow> sv_state (p_main p) = Listening
    \<Longrightarrow> env_step p (p\<lparr>p_main := (p_main p)\<lparr>sv_busy := Suc (sv_busy (p_main p))\<rparr>\<rparr>)"
| answered: "launched p \<Longrightarrow> sv_busy (p_main p) = Suc n
    \<Longrightarrow> env_step p (p\<lparr>p_main := (p_main p)\<lparr>sv_busy := n\<rparr>\<rparr>)"
| crash: "running p \<Longrightarrow> env_step p (p\<lparr>p_pc := Exited 2\<rparr>)"

definition idle_server :: http_server where
  "idle_server = \<lparr>sv_source = [], sv_Addr = [], sv_state = NotStarted, sv_busy = 0\<rparr>"

definition initial_process :: "signal_state \<Rightarrow> process" where
  "initial_process g = \<lparr>p_pc = SyncCheck, p_sig = g, p_synced = False, p_self = idle_server,
     p_main = idle_server, p_workers = 0, p_queue_down = False\<rparr>"

inductive process_reach :: "run_options \<Rightarrow> process \<Rightarrow> bool" for opts where
  start: "SetupSignalHandler False = Inr (c, g) \<Longrightarrow> process_reach opts (initial_process g)"
| own: "process_reach opts p \<Longrightarrow> own_step opts p p' \<Longrightarrow> process_reach opts p'"
| env: "process_reach opts p \<Longrightarrow> env_step p p' \<Longrightarrow> process_reach opts p'"

inductive_cases own_stepE: "own_step opts p p'"
inductive_cases env_stepE: "env_step p p'"

section \<open>Invariant\<close>

text \<open>How many signals the goroutine has taken from the channel.\<close>

fun signals_taken :: "waiter \<Rightarrow> nat" where
  "signals_taken AwaitFirst = 0"
| "signals_taken Cancelling = 1"
| "signals_taken AwaitSecond = 1"
| "signals_taken Exiting = 2"

definition stopped :: "http_server \<Rightarrow> bool" where
  "stopped s \<longleftrightarrow> sv_state s = Closed"

definition unlaunched :: "process \<Rightarrow> bool" where
  "unlaunched p \<longleftrightarrow> p_workers p = 0 \<and> p_self p = idle_server \<and> p_main p = idle_server"

fun pc_inv :: "main_pc \<Rightarrow> process \<Rightarrow> bool" where
  "pc_inv SyncCheck p \<longleftrightarrow> unlaunched p"
| "pc_inv SyncPoll p \<longleftrightarrow> unlaunched p"
| "pc_inv Launch p \<longleftrightarrow> unlaunched p"
| "pc_inv WaitDone p \<longleftrightarrow> True"
| "pc_inv ShutSelf p \<longleftrightarrow> sg_done (p_sig p)"
| "pc_inv ShutMain p \<longleftrightarrow> sg_done (p_sig p) \<and> stopped (p_self p)"
| "pc_inv (RunReturned err) p \<longleftrightarrow> sg_done (p_sig p) \<and> p_queue_down p
     \<and> (err = None \<and> stopped (p_self p) \<and> stopped (p_main p) \<or> err = Some sync_error \<and> unlaunched p)"
| "pc_inv (Exited n) p \<longleftrightarrow>
     n = 0 \<and> sg_done (p_sig p) \<and> p_queue_down p \<and> stopped (p_self p) \<and> stopped (p_main p)
     \<or> n = 1 \<and> sg_done (p_sig p) \<and> (sg_waiter (p_sig p) = Exiting \<or> unlaunched p \<and> p_queue_down p)
     \<or> n = 2"

definition sig_inv :: "signal_state \<Rightarrow> bool" where
  "sig_inv g \<longleftrightarrow> (sg_done g \<longleftrightarrow> sg_waiter g \<in> {AwaitSecond, Exiting}) \<and> length (sg_chan g) \<le> 2"

definition process_inv :: "process \<Rightarrow> bool" where
  "process_inv p \<longleftrightarrow> sig_inv (p_sig p) \<and> pc_inv (p_pc p) p"

lemmas process_simps = process_inv_def unlaunched_def sig_inv_def stopped_def run_return_def sync_check_def
  launch_def main_exit_def Shutdown_def Notify_def ListenAndServe_def running_def launched_def

lemma goroutine_keeps:
  assumes "signal_goroutine g = Some (x, g')" and "sig_inv g"
  shows "sig_inv g'" and "sg_done g \<Longrightarrow> sg_done g'" and "x \<Longrightarrow> sg_waiter g = Exiting \<and> sg_done g"
  using assms by (auto simp: sig_inv_def split: waiter.splits list.splits)

lemma pc_inv_sig:
  "pc_inv pc p \<Longrightarrow> (sg_done (p_sig p) \<Longrightarrow> sg_done g) \<Longrightarrow> \<forall>n. pc \<noteq> Exited n \<Longrightarrow> pc_inv pc (p\<lparr>p_sig := g\<rparr>)"
  by (cases pc) (auto simp: unlaunched_def)

lemma own_step_inv:
  assumes "own_step opts p p'" and "process_inv p"
  shows "process_inv p'"
  using assms
proof (induction rule: own_step.induct)
  case (waiter p g)
  then have "sig_inv g" "sg_done (p_sig p) \<Longrightarrow> sg_done g"
    using goroutine_keeps [of "p_sig p" False g] by (auto simp: process_inv_def)
  with waiter pc_inv_sig [of "p_pc p" p g] show ?case by (simp add: process_inv_def running_def)
next
  case (waiter_exit p g)
  then show ?case using goroutine_keeps(3) [of "p_sig p" True g] by (simp add: process_inv_def)
qed (auto simp: process_simps split: if_splits option.splits)

lemma env_step_inv:
  assumes "env_step p p'" and "process_inv p"
  shows "process_inv p'"
  using assms
proof (induction rule: env_step.induct)
  case (signalled p sig)
  then have "sig_inv (Notify sig (p_sig p))" "sg_done (Notify sig (p_sig p)) = sg_done (p_sig p)"
    by (auto simp: process_inv_def sig_inv_def Notify_def)
  with signalled pc_inv_sig [of "p_pc p" p "Notify sig (p_sig p)"] show ?case
    by (simp add: process_inv_def running_def)
next
  case (synced p)
  then show ?case by (cases "p_pc p") (auto simp: process_simps)
qed (auto simp: process_simps split: if_splits)

lemma process_reach_inv: "process_reach opts p \<Longrightarrow> process_inv p"
proof (induction rule: process_reach.induct)
  case (start c g)
  then show ?case by (auto simp: SetupSignalHandler_def initial_process_def process_simps)
qed (auto dest: own_step_inv env_step_inv)

section \<open>A signal ends the process\<close>

definition signal_seen :: "process \<Rightarrow> bool" where
  "signal_seen p \<longleftrightarrow> sg_chan (p_sig p) \<noteq> [] \<or> sg_waiter (p_sig p) \<noteq> AwaitFirst"

fun waiter_rank :: "waiter \<Rightarrow> nat" where
  "waiter_rank AwaitFirst = 3"
| "waiter_rank Cancelling = 2"
| "waiter_rank AwaitSecond = 1"
| "waiter_rank Exiting = 0"

fun pc_rank :: "main_pc \<Rightarrow> nat" where
  "pc_rank SyncCheck = 7"
| "pc_rank SyncPoll = 6"
| "pc_rank Launch = 5"
| "pc_rank WaitDone = 4"
| "pc_rank ShutSelf = 3"
| "pc_rank ShutMain = 2"
| "pc_rank (RunReturned err) = 1"
| "pc_rank (Exited n) = 0"

definition steps_left :: "process \<Rightarrow> nat" where
  "steps_left p = waiter_rank (sg_waiter (p_sig p)) + pc_rank (p_pc p)"

lemma steps_left_bound: "steps_left p \<le> 10"
proof -
  have "waiter_rank (sg_waiter (p_sig p)) \<le> 3" by (cases "sg_waiter (p_sig p)") simp_all
  moreover have "pc_rank (p_pc p) \<le> 7" by (cases "p_pc p") simp_all
  ultimately show ?thesis by (simp add: steps_left_def)
qed

lemma pc_rank_running: "running p \<longleftrightarrow> 0 < pc_rank (p_pc p)"
  by (cases "p_pc p") (simp_all add: running_def)

lemma own_step_left: "own_step opts p p' \<Longrightarrow> steps_left p' < steps_left p"
proof (induction rule: own_step.induct)
  case (waiter p g)
  then show ?case by (auto simp: steps_left_def split: waiter.splits list.splits)
next
  case (waiter_exit p g)
  then show ?case by (simp add: steps_left_def pc_rank_running)
qed (auto simp: steps_left_def process_simps)

lemma env_step_left: "env_step p p' \<Longrightarrow> steps_left p' \<le> steps_left p"
  by (induction rule: env_step.induct) (auto simp: steps_left_def Notify_def)

lemma own_step_running: "own_step opts p p' \<Longrightarrow> running p"
  by (induction rule: own_step.induct) (simp_all add: running_def)

lemma own_step_signal_seen: "own_step opts p p' \<Longrightarrow> signal_seen p \<Longrightarrow> signal_seen p'"
  by (induction rule: own_step.induct)
    (auto simp: signal_seen_def process_simps split: waiter.splits list.splits)

lemma done_progress:
  assumes "sg_done (p_sig p)" and "running p"
  shows "\<exists>p'. own_step opts p p'"
proof (cases "p_pc p")
  case ShutSelf
  have "\<exists>s e. Shutdown (sg_done (p_sig p)) (p_self p) = (s, Some e)"
    using assms(1) by (auto simp: Shutdown_def)
  with ShutSelf show ?thesis by (blast intro: own_step.shut_self)
next
  case ShutMain
  have "\<exists>s e. Shutdown (sg_done (p_sig p)) (p_main p) = (s, Some e)"
    using assms(1) by (auto simp: Shutdown_def)
  with ShutMain show ?thesis by (blast intro: own_step.shut_main)
next
  case (Exited n)
  with assms(2) show ?thesis by (simp add: running_def)
qed (use assms(1) in \<open>blast intro: own_step.intros\<close>)+

lemma signal_progress:
  assumes "process_inv p" and "signal_seen p" and "running p"
  shows "\<exists>p'. own_step opts p p'"
proof (cases "sg_done (p_sig p)")
  case True
  then show ?thesis using assms(3) by (rule done_progress)
next
  case False
  with assms(1) have "sg_waiter (p_sig p) = AwaitFirst \<or> sg_waiter (p_sig p) = Cancelling"
    by (cases "sg_waiter (p_sig p)") (simp_all add: process_inv_def sig_inv_def)
  with assms(2) have "\<exists>g. signal_goroutine (p_sig p) = Some (False, g)"
    by (auto simp: signal_seen_def neq_Nil_conv)
  with assms(3) show ?thesis by (blast intro: own_step.waiter)
qed

lemma own_steps_left: "(own_step opts ^^ n) p p' \<Longrightarrow> steps_left p' + n \<le> steps_left p"
proof (induction n arbitrary: p')
  case (Suc n)
  then obtain q where "(own_step opts ^^ n) p q" "own_step opts q p'" by auto
  with Suc.IH [of q] own_step_left [of opts q p'] show ?case by simp
qed simp

lemma own_steps_keep:
  "(own_step opts ^^ n) p p' \<Longrightarrow> process_inv p \<Longrightarrow> signal_seen p \<Longrightarrow> process_inv p' \<and> signal_seen p'"
proof (induction n arbitrary: p')
  case (Suc n)
  then obtain q where "(own_step opts ^^ n) p q" "own_step opts q p'" by auto
  with Suc show ?case using own_step_inv own_step_signal_seen by blast
qed simp

lemma own_steps_end:
  assumes "process_inv p" and "signal_seen p"
  shows "\<exists>n p'. (own_step opts ^^ n) p p' \<and> \<not> running p'"
  using assms
proof (induction "steps_left p" arbitrary: p rule: less_induct)
  case less
  show ?case
  proof (cases "running p")
    case True
    then obtain q where q: "own_step opts p q" using signal_progress less.prems by blast
    with less.hyps [OF own_step_left [OF q]] less.prems own_step_inv own_step_signal_seen
    obtain n p' where "(own_step opts ^^ n) q p'" "\<not> running p'" by blast
    with q show ?thesis by (meson relpowp_Suc_I2)
  next
    case False
    then show ?thesis by (metis relpowp_0_I)
  qed
qed

section \<open>Servers that failed\<close>

lemma failed_step:
  assumes "own_step opts p p' \<or> env_step p p'" and "process_inv p"
    and "sv_state (p_main p) \<in> {Failed, Closed}"
  shows "sv_state (p_main p') \<in> {Failed, Closed}"
  using assms
  by (elim disjE own_stepE env_stepE) (auto simp: process_simps idle_server_def)

lemma failed_steps:
  assumes "(\<lambda>x y. own_step opts x y \<or> env_step x y)\<^sup>*\<^sup>* p p'" and "process_inv p"
    and "sv_state (p_main p) \<in> {Failed, Closed}"
  shows "process_inv p' \<and> sv_state (p_main p') \<in> {Failed, Closed}"
  using assms(1)
proof (induction rule: rtranclp_induct)
  case (step q r)
  then show ?case using failed_step [of opts q r] own_step_inv env_step_inv by blast
qed (use assms in simp)

lemma no_workers:
  assumes "process_reach opts p" and "o_Workers opts \<le> 0"
  shows "p_workers p = 0"
  using assms(1)
proof (induction rule: process_reach.induct)
  case (own p p')
  then show ?case using assms(2) by (elim own_stepE) (auto simp: process_simps)
next
  case (env p p')
  then show ?case by (elim env_stepE) auto
qed (simp add: initial_process_def)

section \<open>Properties\<close>

text \<open>C37: a signal ends the process: from any reachable state in which one has been delivered, the
  program's goroutines reach the exit by their own steps, in whatever order they run, they
  are never stuck before, and they take no more than ten steps.\<close>

theorem signal_ends_process:
  assumes "process_reach opts p" and "signal_seen p"
  shows "(\<exists>n p'. (own_step opts ^^ n) p p' \<and> \<not> running p')
    \<and> (\<forall>n p'. (own_step opts ^^ n) p p' \<longrightarrow> n \<le> 10 \<and> (running p' \<longrightarrow> (\<exists>q. own_step opts p' q)))"
proof (intro conjI allI impI)
  have inv: "process_inv p" using assms(1) by (rule process_reach_inv)
  then show "\<exists>n p'. (own_step opts ^^ n) p p' \<and> \<not> running p'" using assms(2) by (rule own_steps_end)
  fix n p'
  assume n: "(own_step opts ^^ n) p p'"
  show "n \<le> 10" using own_steps_left [OF n] steps_left_bound [of p] by simp
  assume "running p'"
  with own_steps_keep [OF n inv assms(2)] show "\<exists>q. own_step opts p' q" using signal_progress by blast
qed

text \<open>The first state, and the state after one signal, for the examples.\<close>

definition first_process :: process where
  "first_process = initial_process \<lparr>sg_chan = [], sg_waiter = AwaitFirst, sg_done = False\<rparr>"

lemma reach_first: "process_reach opts first_process"
  unfolding first_process_def by (rule process_reach.start) (simp add: SetupSignalHandler_def)

lemma reach_env: "process_reach opts p \<Longrightarrow> env_step p p' \<Longrightarrow> p' = q \<Longrightarrow> process_reach opts q"
  by (blast intro: process_reach.env)

lemma reach_own: "process_reach opts p \<Longrightarrow> own_step opts p p' \<Longrightarrow> p' = q \<Longrightarrow> process_reach opts q"
  by (blast intro: process_reach.own)

definition default_options :: run_options where
  "default_options = \<lparr>o_SelfHost = ''::'', o_SelfPort = 9998, o_MainHost = ''::'', o_MainPort = 9999,
     o_Workers = 2\<rparr>"

definition signalled_process :: process where
  "signalled_process = first_process\<lparr>p_sig := Notify SIGTERM (p_sig first_process)\<rparr>"

lemma running_first: "running first_process"
  by (simp add: running_def first_process_def initial_process_def)

lemma reach_signalled: "process_reach opts signalled_process"
  by (rule reach_env [OF reach_first env_step.signalled [where sig = SIGTERM]])
    (simp_all add: running_first signalled_process_def)

theorem signal_ends_process_witness:
  "\<exists>n p'. (own_step default_options ^^ n) signalled_process p' \<and> \<not> running p'"
  using signal_ends_process [OF reach_signalled [of default_options]]
  by (simp add: signalled_process_def signal_seen_def Notify_def first_process_def initial_process_def)

text \<open>The caches are synced, the workers run, and the servers are about to serve.\<close>

definition serving_process :: process where
  "serving_process = first_process\<lparr>p_synced := True, p_pc := WaitDone,
     p_self := newSelfServer ''[::]:9998'', p_main := (newMainServer ''[::]:9999''), p_workers := 2\<rparr>"

lemma default_addresses:
  "JoinHostPort ''::'' (show_int 9998) = ''[::]:9998''" "JoinHostPort ''::'' (show_int 9999) = ''[::]:9999''"
  by (simp_all add: JoinHostPort_def show_int_def show_nat.simps digit_char_def char_of_def bit_0)

lemma reach_serving: "process_reach default_options serving_process"
proof -
  let ?R = "process_reach default_options"
  let ?p1 = "first_process\<lparr>p_synced := True\<rparr>"
  have "?R ?p1"
    by (rule reach_env [OF reach_first env_step.synced]) (simp_all add: running_first)
  then have "?R (?p1\<lparr>p_pc := Launch\<rparr>)"
    by (rule reach_own [OF _ own_step.check])
      (simp_all add: first_process_def initial_process_def sync_check_def)
  then show ?thesis
    by (rule reach_own [OF _ own_step.launch])
      (simp_all add: launch_def serving_process_def default_options_def default_addresses
        first_process_def initial_process_def)
qed

lemma reach_cut:
  "\<exists>p. process_reach default_options p \<and> p_pc p = Exited 0 \<and> sv_busy (p_main p) = 1
    \<and> signals_taken (sg_waiter (p_sig p)) = 1"
proof -
  let ?R = "process_reach default_options"
  let ?p1 = "serving_process\<lparr>p_main := (p_main serving_process)\<lparr>sv_state := Listening\<rparr>\<rparr>"
  let ?p2 = "?p1\<lparr>p_main := (p_main ?p1)\<lparr>sv_busy := 1\<rparr>\<rparr>"
  let ?sig = "\<lambda>c w d. \<lparr>sg_chan = c, sg_waiter = w, sg_done = d\<rparr>"
  let ?p3 = "?p2\<lparr>p_sig := ?sig [SIGTERM] AwaitFirst False\<rparr>"
  let ?p4 = "?p3\<lparr>p_sig := ?sig [] Cancelling False\<rparr>"
  let ?p5 = "?p4\<lparr>p_sig := ?sig [] AwaitSecond True\<rparr>"
  let ?p6 = "?p5\<lparr>p_pc := ShutSelf\<rparr>"
  let ?p7 = "?p6\<lparr>p_self := (p_self ?p6)\<lparr>sv_state := Closed\<rparr>, p_pc := ShutMain\<rparr>"
  let ?p8 = "run_return None (?p7\<lparr>p_main := (p_main ?p7)\<lparr>sv_state := Closed\<rparr>\<rparr>)"
  note st = serving_process_def first_process_def initial_process_def newMainServer_def newSelfServer_def
  have "?R ?p1"
    by (rule reach_env [OF reach_serving env_step.serve_main [where b = True]])
      (simp_all add: st launched_def ListenAndServe_def)
  then have "?R ?p2"
    by (rule reach_env [OF _ env_step.request]) (simp_all add: st launched_def)
  then have "?R ?p3"
    by (rule reach_env [OF _ env_step.signalled [where sig = SIGTERM]]) (simp_all add: st running_def Notify_def)
  then have "?R ?p4"
    by (rule reach_own [OF _ own_step.waiter]) (simp_all add: st running_def)
  then have "?R ?p5"
    by (rule reach_own [OF _ own_step.waiter]) (simp_all add: st running_def)
  then have "?R ?p6"
    by (rule reach_own [OF _ own_step.ctx_done]) (simp_all add: st)
  then have "?R ?p7"
    by (rule reach_own [OF _ own_step.shut_self [where e = False]]) (simp_all add: st Shutdown_def)
  then have "?R ?p8"
    by (rule reach_own [OF _ own_step.shut_main [where e = True]]) (simp_all add: st Shutdown_def)
  then have "?R (?p8\<lparr>p_pc := Exited 0\<rparr>)"
    by (rule reach_own [OF _ own_step.main_end [where err = None]]) (simp_all add: run_return_def main_exit_def)
  then show ?thesis by (intro exI [where x = "?p8\<lparr>p_pc := Exited 0\<rparr>"]) (simp add: st run_return_def)
qed

text \<open>What an exit code says: 0 means a signal cancelled the context, both servers are closed and
  the work queue is shut down; 1 that a second signal arrived, or that the first one came
  before the caches were synced, so that nothing was started; anything else is a panic.\<close>

theorem exit_codes:
  assumes "process_reach opts p" and "p_pc p = Exited n"
  shows "(n = 0 \<longrightarrow> 1 \<le> signals_taken (sg_waiter (p_sig p)) \<and> sv_state (p_self p) = Closed
            \<and> sv_state (p_main p) = Closed \<and> p_queue_down p)
    \<and> (n = 1 \<longrightarrow> signals_taken (sg_waiter (p_sig p)) = 2
            \<or> 1 \<le> signals_taken (sg_waiter (p_sig p)) \<and> p_workers p = 0 \<and> sv_state (p_main p) = NotStarted)
    \<and> n \<le> 2"
proof -
  have inv: "sig_inv (p_sig p)" "pc_inv (Exited n) p"
    using process_reach_inv [OF assms(1)] assms(2) by (simp_all add: process_inv_def)
  from inv(1) have "sg_done (p_sig p) \<Longrightarrow> 1 \<le> signals_taken (sg_waiter (p_sig p))"
    by (auto simp: sig_inv_def)
  with inv(2) show ?thesis by (auto simp: process_simps idle_server_def)
qed

theorem exit_codes_witness:
  "\<exists>p :: process. p_pc p = Exited 0 \<and> sv_busy (p_main p) = 1 \<and> sv_state (p_main p) = Closed \<and> p_queue_down p"
proof -
  obtain p where p: "process_reach default_options p" "p_pc p = Exited 0" "sv_busy (p_main p) = 1"
    using reach_cut by blast
  from exit_codes [OF p(1,2)] have "sv_state (p_main p) = Closed \<and> p_queue_down p" by simp
  with p(2,3) show ?thesis by blast
qed

text \<open>The shutdown is not graceful: the context given to \<^verbatim>\<open>Shutdown\<close> is the one whose end made it
  run, so that it never waits, and the process can exit with code 0 while scrapes are still
  being written.\<close>

theorem shutdown_cuts_requests:
  "\<exists>p. process_reach default_options p \<and> p_pc p = Exited 0 \<and> sv_busy (p_main p) = 1
    \<and> signals_taken (sg_waiter (p_sig p)) = 1"
  by (rule reach_cut)

text \<open>A main server that could not bind its address is never tried again, and its failure does not
  end the process: from then on it never listens.\<close>

theorem failed_server_is_final:
  assumes "process_reach opts p" and "sv_state (p_main p) = Failed"
    and "(\<lambda>x y. own_step opts x y \<or> env_step x y)\<^sup>*\<^sup>* p p'"
  shows "sv_state (p_main p') \<noteq> Listening \<and> sv_state (p_main p') \<noteq> NotStarted"
  using failed_steps [OF assms(3) process_reach_inv [OF assms(1)]] assms(2) by auto

definition unbound_process :: process where
  "unbound_process = serving_process\<lparr>p_main := (p_main serving_process)\<lparr>sv_state := Failed\<rparr>\<rparr>"

lemma reach_unbound: "process_reach default_options unbound_process"
  by (rule reach_env [OF reach_serving env_step.serve_main [where b = False]])
    (simp_all add: unbound_process_def serving_process_def launched_def ListenAndServe_def newMainServer_def)

theorem failed_server_is_final_witness:
  "p_pc unbound_process = WaitDone \<and> sv_state (p_main unbound_process) \<noteq> Listening"
  using failed_server_is_final [OF reach_unbound _ rtranclp.rtrancl_refl]
  by (simp add: unbound_process_def serving_process_def)

end
