(* ===== verification/Deep_Copy.thy ===== *)
theory Deep_Copy
  imports Events "HOL-Library.Sublist"
begin

text \<open>
  \<^verbatim>\<open>v1alpha1/zz_generated.deepcopy.go\<close>, and the methods of \<^verbatim>\<open>meta/v1/zz_generated.deepcopy.go\<close> it
  calls, over an explicit memory. A structure as it lies in memory holds its pointers, maps and
  slices as addresses; all fields of the structures are kept, so a resource refers to nine cells
  or arrays, some of whose elements refer to further ones. The interface \<open>deep_copier\<close> says
  what a deep copy promises; pointers and slices to what can be copied can be copied.
\<close>

section \<open>Memory\<close>

record slice =
  sl_array :: nat
  sl_offset :: nat
  sl_len :: nat

record owner_rep =
  or_APIVersion :: string
  or_Kind :: string
  or_Name :: string
  or_UID :: string
  or_Controller :: "nat option"
  or_BlockOwnerDeletion :: "nat option"

record managed_rep =
  mf_Manager :: string
  mf_Operation :: string
  mf_APIVersion :: string
  mf_Time :: "nat option"
  mf_FieldsType :: string
  mf_FieldsV1 :: "nat option"
  mf_Subresource :: string

record resource_rep =
  rr_Kind :: string
  rr_APIVersion :: string
  rr_Name :: string
  rr_GenerateName :: string
  rr_Namespace :: string
  rr_SelfLink :: string
  rr_UID :: string
  rr_ResourceVersion :: string
  rr_Generation :: int
  rr_CreationTimestamp :: int
  rr_DeletionTimestamp :: "nat option"
  rr_DeletionGracePeriodSeconds :: "nat option"
  rr_Labels :: "nat option"
  rr_Annotations :: "nat option"
  rr_OwnerReferences :: "slice option"
  rr_Finalizers :: "slice option"
  rr_ManagedFields :: "slice option"
  rr_Configuration :: string
  rr_Conditions :: "slice option"

record list_rep =
  lr_Kind :: string
  lr_APIVersion :: string
  lr_SelfLink :: string
  lr_ResourceVersion :: string
  lr_Continue :: string
  lr_RemainingItemCount :: "nat option"
  lr_Items :: "slice option"

text \<open>A cell holds a value that is pointed to, a map, or the array under a slice. Allocation
  appends, so that the addresses of a memory are the indices of its list.\<close>

datatype cell =
    TimeCell (the_time: int)
  | Int64Cell (the_int64: int)
  | BoolCell (the_bool: bool)
  | MapCell (the_map: "(string, string) gomap")
  | StringsCell (the_strings: "string list")
  | BytesCell (the_bytes: "8 word list")
  | FieldsCell (the_fields: "slice option")
  | OwnersCell (the_owners: "owner_rep list")
  | ManagedCell (the_managed: "managed_rep list")
  | ConditionsCell (the_conditions: "condition list")
  | ResourceCell (the_resource: resource_rep)
  | ItemsCell (the_items: "resource_rep list")
  | ListCell (the_list: list_rep)

type_synonym memory = "cell list"

type_synonym map_order = "(string \<times> string) list \<Rightarrow> (string \<times> string) list"

section \<open>Copying\<close>

text \<open>What a slice shows of its array, and the two shapes of the generated code: a pointer (or a
  map) that is not nil gets a new cell, a slice that is not nil gets a new array whose elements are
  copied one by one.\<close>

definition slice_read :: "'a list \<Rightarrow> slice \<Rightarrow> 'a list" where
  "slice_read arr s = take (sl_len s) (drop (sl_offset s) arr)"

definition copy_pointer ::
    "('a \<Rightarrow> cell) \<Rightarrow> (cell \<Rightarrow> 'a) \<Rightarrow> (memory \<Rightarrow> 'a \<Rightarrow> memory \<times> 'a) \<Rightarrow> memory \<Rightarrow> nat option
     \<Rightarrow> memory \<times> nat option" where
  "copy_pointer con sel copy m p =
     (case p of
        None \<Rightarrow> (m, None)
      | Some a \<Rightarrow> (case copy m (sel (m ! a)) of (m, x) \<Rightarrow> (m @ [con x], Some (length m))))"

fun copy_elements ::
    "(memory \<Rightarrow> 'a \<Rightarrow> memory \<times> 'a) \<Rightarrow> memory \<Rightarrow> 'a list \<Rightarrow> memory \<times> 'a list" where
  "copy_elements copy m [] = (m, [])"
| "copy_elements copy m (x # xs) =
     (case copy m x of (m, y) \<Rightarrow> (case copy_elements copy m xs of (m, ys) \<Rightarrow> (m, y # ys)))"

definition copy_slice ::
    "('a list \<Rightarrow> cell) \<Rightarrow> (cell \<Rightarrow> 'a list) \<Rightarrow> (memory \<Rightarrow> 'a \<Rightarrow> memory \<times> 'a) \<Rightarrow> memory \<Rightarrow> slice option
     \<Rightarrow> memory \<times> slice option" where
  "copy_slice con sel copy m s =
     (case s of
        None \<Rightarrow> (m, None)
      | Some s \<Rightarrow>
          (case copy_elements copy m (slice_read (sel (m ! sl_array s)) s) of (m, ys) \<Rightarrow>
             (m @ [con ys], Some \<lparr>sl_array = length m, sl_offset = 0, sl_len = length ys\<rparr>)))"

text \<open>Values without references, copied by assignment, and a map, copied in a loop in any order.\<close>

definition assign :: "memory \<Rightarrow> 'a \<Rightarrow> memory \<times> 'a" where
  "assign m x = (m, x)"

definition copy_map :: "map_order \<Rightarrow> memory \<Rightarrow> (string, string) gomap \<Rightarrow> memory \<times> (string, string) gomap" where
  "copy_map ord m g = (m, fold (\<lambda>(key, val). gm_set key val) (ord g) [])"

definition Condition_DeepCopyInto :: "memory \<Rightarrow> condition \<Rightarrow> memory \<times> condition" where
  "Condition_DeepCopyInto m c =
     (case assign m (cd_LastTransitionTime c) of (m, t) \<Rightarrow> (m, c\<lparr>cd_LastTransitionTime := t\<rparr>))"

definition Time_DeepCopy :: "memory \<Rightarrow> nat option \<Rightarrow> memory \<times> nat option" where
  "Time_DeepCopy = copy_pointer TimeCell the_time assign"

text \<open>The fields of a structure are copied one after the other; \<^verbatim>\<open>*out = *in\<close> has copied the rest.\<close>

definition OwnerReference_DeepCopyInto :: "memory \<Rightarrow> owner_rep \<Rightarrow> memory \<times> owner_rep" where
  "OwnerReference_DeepCopyInto m r =
     (case copy_pointer BoolCell the_bool assign m (or_Controller r) of (m, controller) \<Rightarrow>
      case copy_pointer BoolCell the_bool assign m (or_BlockOwnerDeletion r) of (m, block) \<Rightarrow>
        (m, r\<lparr>or_Controller := controller, or_BlockOwnerDeletion := block\<rparr>))"

definition FieldsV1_DeepCopyInto :: "memory \<Rightarrow> slice option \<Rightarrow> memory \<times> slice option" where
  "FieldsV1_DeepCopyInto = copy_slice BytesCell the_bytes assign"

definition ManagedFieldsEntry_DeepCopyInto :: "memory \<Rightarrow> managed_rep \<Rightarrow> memory \<times> managed_rep" where
  "ManagedFieldsEntry_DeepCopyInto m r =
     (case Time_DeepCopy m (mf_Time r) of (m, time) \<Rightarrow>
      case copy_pointer FieldsCell the_fields FieldsV1_DeepCopyInto m (mf_FieldsV1 r) of (m, v1) \<Rightarrow>
        (m, r\<lparr>mf_Time := time, mf_FieldsV1 := v1\<rparr>))"

definition ObjectMeta_DeepCopyInto :: "map_order \<Rightarrow> memory \<Rightarrow> resource_rep \<Rightarrow> memory \<times> resource_rep" where
  "ObjectMeta_DeepCopyInto ord m r =
     (case assign m (rr_CreationTimestamp r) of (m, created) \<Rightarrow>
      case Time_DeepCopy m (rr_DeletionTimestamp r) of (m, deleted) \<Rightarrow>
      case copy_pointer Int64Cell the_int64 assign m (rr_DeletionGracePeriodSeconds r) of (m, grace) \<Rightarrow>
      case copy_pointer MapCell the_map (copy_map ord) m (rr_Labels r) of (m, labels) \<Rightarrow>
      case copy_pointer MapCell the_map (copy_map ord) m (rr_Annotations r) of (m, annotations) \<Rightarrow>
      case copy_slice OwnersCell the_owners OwnerReference_DeepCopyInto m (rr_OwnerReferences r) of (m, owners) \<Rightarrow>
      case copy_slice StringsCell the_strings assign m (rr_Finalizers r) of (m, finalizers) \<Rightarrow>
      case copy_slice ManagedCell the_managed ManagedFieldsEntry_DeepCopyInto m (rr_ManagedFields r) of (m, managed) \<Rightarrow>
        (m, r\<lparr>rr_CreationTimestamp := created, rr_DeletionTimestamp := deleted,
               rr_DeletionGracePeriodSeconds := grace, rr_Labels := labels, rr_Annotations := annotations,
               rr_OwnerReferences := owners, rr_Finalizers := finalizers, rr_ManagedFields := managed\<rparr>))"

definition Status_DeepCopyInto :: "memory \<Rightarrow> resource_rep \<Rightarrow> memory \<times> resource_rep" where
  "Status_DeepCopyInto m r =
     (case copy_slice ConditionsCell the_conditions Condition_DeepCopyInto m (rr_Conditions r) of (m, conditions) \<Rightarrow>
        (m, r\<lparr>rr_Conditions := conditions\<rparr>))"

text \<open>The second component is what \<^verbatim>\<open>*out\<close> holds afterwards; type and specification are plain data.\<close>

definition Resource_DeepCopyInto :: "map_order \<Rightarrow> memory \<Rightarrow> resource_rep \<Rightarrow> memory \<times> resource_rep" where
  "Resource_DeepCopyInto ord m r =
     (case ObjectMeta_DeepCopyInto ord m r of (m, out) \<Rightarrow> Status_DeepCopyInto m out)"

definition Resource_DeepCopy :: "map_order \<Rightarrow> memory \<Rightarrow> nat option \<Rightarrow> memory \<times> nat option" where
  "Resource_DeepCopy ord = copy_pointer ResourceCell the_resource (Resource_DeepCopyInto ord)"

definition ListMeta_DeepCopyInto :: "memory \<Rightarrow> list_rep \<Rightarrow> memory \<times> list_rep" where
  "ListMeta_DeepCopyInto m l =
     (case copy_pointer Int64Cell the_int64 assign m (lr_RemainingItemCount l) of (m, remaining) \<Rightarrow>
        (m, l\<lparr>lr_RemainingItemCount := remaining\<rparr>))"

definition List_DeepCopyInto :: "map_order \<Rightarrow> memory \<Rightarrow> list_rep \<Rightarrow> memory \<times> list_rep" where
  "List_DeepCopyInto ord m l =
     (case ListMeta_DeepCopyInto m l of (m, out) \<Rightarrow>
      case copy_slice ItemsCell the_items (Resource_DeepCopyInto ord) m (lr_Items l) of (m, items) \<Rightarrow>
        (m, out\<lparr>lr_Items := items\<rparr>))"

definition List_DeepCopy :: "map_order \<Rightarrow> memory \<Rightarrow> nat option \<Rightarrow> memory \<times> nat option" where
  "List_DeepCopy ord = copy_pointer ListCell the_list (List_DeepCopyInto ord)"

text \<open>As a \<^verbatim>\<open>runtime.Object\<close>: the interface is \<^verbatim>\<open>nil\<close>, not a \<^verbatim>\<open>nil\<close> pointer in an interface.\<close>

datatype runtime_object = ResourceObject nat | ListObject nat

definition Resource_DeepCopyObject :: "map_order \<Rightarrow> memory \<Rightarrow> nat option \<Rightarrow> memory \<times> runtime_object option" where
  "Resource_DeepCopyObject ord m p =
     (case Resource_DeepCopy ord m p of
        (m, Some c) \<Rightarrow> (m, Some (ResourceObject c))
      | (m, None) \<Rightarrow> (m, None))"

definition List_DeepCopyObject :: "map_order \<Rightarrow> memory \<Rightarrow> nat option \<Rightarrow> memory \<times> runtime_object option" where
  "List_DeepCopyObject ord m p =
     (case List_DeepCopy ord m p of
        (m, Some c) \<Rightarrow> (m, Some (ListObject c))
      | (m, None) \<Rightarrow> (m, None))"

text \<open>A specification has one field, a string; the specifications that are pointed to are a list.\<close>

definition Spec_DeepCopyInto :: "string \<Rightarrow> string" where
  "Spec_DeepCopyInto spec = spec"

definition Spec_DeepCopy :: "string list \<Rightarrow> nat option \<Rightarrow> string list \<times> nat option" where
  "Spec_DeepCopy specs p =
     (case p of
        None \<Rightarrow> (specs, None)
      | Some a \<Rightarrow> (specs @ [Spec_DeepCopyInto (specs ! a)], Some (length specs)))"

lemma DeepCopyObject_eq:
  "Resource_DeepCopyObject ord m (Some a) = (let (m', c) = Resource_DeepCopy ord m (Some a) in (m', map_option ResourceObject c))"
  "List_DeepCopyObject ord m (Some a) = (let (m', c) = List_DeepCopy ord m (Some a) in (m', map_option ListObject c))"
  "Resource_DeepCopyObject ord m None = (m, None)" "List_DeepCopyObject ord m None = (m, None)"
  by (simp_all add: Resource_DeepCopyObject_def List_DeepCopyObject_def Resource_DeepCopy_def List_DeepCopy_def
      copy_pointer_def split: prod.split)

lemma Spec_DeepCopy_separates:
  assumes "a < length specs" and "Spec_DeepCopy specs (Some a) = (specs', Some b)"
  shows "b \<noteq> a" and "specs' ! b = specs ! a" and "specs'[b := t] ! a = specs ! a"
  using assms by (auto simp: Spec_DeepCopy_def Spec_DeepCopyInto_def nth_append nth_list_update)

section \<open>What a reader sees\<close>

text \<open>Of a value in memory: what a reader who follows all references sees of it, the addresses
  that are followed, and whether they are allocated and hold cells of their types.\<close>

record ('a, 'v) shape =
  see :: "memory \<Rightarrow> 'a \<Rightarrow> 'v"
  reach :: "memory \<Rightarrow> 'a \<Rightarrow> nat set"
  fits :: "memory \<Rightarrow> 'a \<Rightarrow> bool"

definition leaf_shape :: "('a \<Rightarrow> 'v) \<Rightarrow> ('a \<Rightarrow> bool) \<Rightarrow> ('a, 'v) shape" where
  "leaf_shape v w = \<lparr>see = \<lambda>m. v, reach = \<lambda>m x. {}, fits = \<lambda>m. w\<rparr>"

definition pointer_shape :: "('a \<Rightarrow> cell) \<Rightarrow> (cell \<Rightarrow> 'a) \<Rightarrow> ('a, 'v) shape \<Rightarrow> (nat option, 'v option) shape" where
  "pointer_shape con sel sh =
     \<lparr>see = \<lambda>m. map_option (\<lambda>a. see sh m (sel (m ! a))),
      reach = \<lambda>m p. (case p of None \<Rightarrow> {} | Some a \<Rightarrow> insert a (reach sh m (sel (m ! a)))),
      fits = \<lambda>m p. (case p of None \<Rightarrow> True
               | Some a \<Rightarrow> a < length m \<and> con (sel (m ! a)) = m ! a \<and> fits sh m (sel (m ! a)))\<rparr>"

definition slice_shape ::
    "('a list \<Rightarrow> cell) \<Rightarrow> (cell \<Rightarrow> 'a list) \<Rightarrow> ('a, 'v) shape \<Rightarrow> (slice option, 'v list option) shape" where
  "slice_shape con sel sh =
     \<lparr>see = \<lambda>m. map_option (\<lambda>s. map (see sh m) (slice_read (sel (m ! sl_array s)) s)),
      reach = \<lambda>m s. (case s of None \<Rightarrow> {}
                | Some s \<Rightarrow> insert (sl_array s) (\<Union>(reach sh m ` set (slice_read (sel (m ! sl_array s)) s)))),
      fits = \<lambda>m s. (case s of None \<Rightarrow> True
               | Some s \<Rightarrow> sl_array s < length m \<and> con (sel (m ! sl_array s)) = m ! sl_array s
                   \<and> list_all (fits sh m) (slice_read (sel (m ! sl_array s)) s))\<rparr>"

abbreviation value_shape :: "('a, 'a) shape" where
  "value_shape \<equiv> leaf_shape (\<lambda>x. x) (\<lambda>x. True)"

abbreviation time_shape :: "(nat option, int option) shape" where
  "time_shape \<equiv> pointer_shape TimeCell the_time value_shape"

abbreviation int64_shape :: "(nat option, int option) shape" where
  "int64_shape \<equiv> pointer_shape Int64Cell the_int64 value_shape"

abbreviation bool_shape :: "(nat option, bool option) shape" where
  "bool_shape \<equiv> pointer_shape BoolCell the_bool value_shape"

abbreviation map_shape :: "(nat option, (string \<Rightarrow> string option) option) shape" where
  "map_shape \<equiv> pointer_shape MapCell the_map (leaf_shape gm_get gm_wf)"

abbreviation strings_shape :: "(slice option, string list option) shape" where
  "strings_shape \<equiv> slice_shape StringsCell the_strings value_shape"

abbreviation conditions_shape :: "(slice option, condition list option) shape" where
  "conditions_shape \<equiv> slice_shape ConditionsCell the_conditions value_shape"

abbreviation bytes_shape :: "(slice option, 8 word list option) shape" where
  "bytes_shape \<equiv> slice_shape BytesCell the_bytes value_shape"

abbreviation fields_shape :: "(nat option, 8 word list option option) shape" where
  "fields_shape \<equiv> pointer_shape FieldsCell the_fields bytes_shape"

text \<open>Structures: the fields without references as they are, the others as their shapes say.\<close>

definition owner_shape :: "(owner_rep, owner_rep \<times> bool option \<times> bool option) shape" where
  "owner_shape =
     \<lparr>see = \<lambda>m r. (r\<lparr>or_Controller := None, or_BlockOwnerDeletion := None\<rparr>,
        see bool_shape m (or_Controller r), see bool_shape m (or_BlockOwnerDeletion r)),
      reach = \<lambda>m r. reach bool_shape m (or_Controller r) \<union> reach bool_shape m (or_BlockOwnerDeletion r),
      fits = \<lambda>m r. fits bool_shape m (or_Controller r) \<and> fits bool_shape m (or_BlockOwnerDeletion r)\<rparr>"

definition managed_shape :: "(managed_rep, managed_rep \<times> int option \<times> 8 word list option option) shape" where
  "managed_shape =
     \<lparr>see = \<lambda>m r. (r\<lparr>mf_Time := None, mf_FieldsV1 := None\<rparr>,
        see time_shape m (mf_Time r), see fields_shape m (mf_FieldsV1 r)),
      reach = \<lambda>m r. reach time_shape m (mf_Time r) \<union> reach fields_shape m (mf_FieldsV1 r),
      fits = \<lambda>m r. fits time_shape m (mf_Time r) \<and> fits fields_shape m (mf_FieldsV1 r)\<rparr>"

abbreviation owners_shape :: "(slice option, (owner_rep \<times> bool option \<times> bool option) list option) shape" where
  "owners_shape \<equiv> slice_shape OwnersCell the_owners owner_shape"

abbreviation manageds_shape ::
    "(slice option, (managed_rep \<times> int option \<times> 8 word list option option) list option) shape" where
  "manageds_shape \<equiv> slice_shape ManagedCell the_managed managed_shape"

definition plain :: "resource_rep \<Rightarrow> resource_rep" where
  "plain r = r\<lparr>rr_DeletionTimestamp := None, rr_DeletionGracePeriodSeconds := None, rr_Labels := None,
     rr_Annotations := None, rr_OwnerReferences := None, rr_Finalizers := None, rr_ManagedFields := None,
     rr_Conditions := None\<rparr>"

record resource_view =
  v_plain :: resource_rep
  v_DeletionTimestamp :: "int option"
  v_DeletionGracePeriodSeconds :: "int option"
  v_Labels :: "(string \<Rightarrow> string option) option"
  v_Annotations :: "(string \<Rightarrow> string option) option"
  v_OwnerReferences :: "(owner_rep \<times> bool option \<times> bool option) list option"
  v_Finalizers :: "string list option"
  v_ManagedFields :: "(managed_rep \<times> int option \<times> 8 word list option option) list option"
  v_Conditions :: "condition list option"

definition labels_of :: "memory \<Rightarrow> resource_rep \<Rightarrow> (string \<Rightarrow> string option) option" where
  "labels_of m r = see map_shape m (rr_Labels r)"

definition conditions_of :: "memory \<Rightarrow> resource_rep \<Rightarrow> condition list option" where
  "conditions_of m r = see conditions_shape m (rr_Conditions r)"

definition view :: "memory \<Rightarrow> resource_rep \<Rightarrow> resource_view" where
  "view m r =
     \<lparr>v_plain = plain r,
      v_DeletionTimestamp = see time_shape m (rr_DeletionTimestamp r),
      v_DeletionGracePeriodSeconds = see int64_shape m (rr_DeletionGracePeriodSeconds r),
      v_Labels = labels_of m r,
      v_Annotations = see map_shape m (rr_Annotations r),
      v_OwnerReferences = see owners_shape m (rr_OwnerReferences r),
      v_Finalizers = see strings_shape m (rr_Finalizers r),
      v_ManagedFields = see manageds_shape m (rr_ManagedFields r),
      v_Conditions = conditions_of m r\<rparr>"

text \<open>The addresses a resource reaches, those of its labels apart.\<close>

definition other_reach :: "memory \<Rightarrow> resource_rep \<Rightarrow> nat set" where
  "other_reach m r =
     reach time_shape m (rr_DeletionTimestamp r) \<union> reach int64_shape m (rr_DeletionGracePeriodSeconds r)
     \<union> reach map_shape m (rr_Annotations r) \<union> reach owners_shape m (rr_OwnerReferences r)
     \<union> reach strings_shape m (rr_Finalizers r) \<union> reach manageds_shape m (rr_ManagedFields r)
     \<union> reach conditions_shape m (rr_Conditions r)"

definition resource_ok :: "memory \<Rightarrow> resource_rep \<Rightarrow> bool" where
  "resource_ok m r \<longleftrightarrow>
     fits time_shape m (rr_DeletionTimestamp r) \<and> fits int64_shape m (rr_DeletionGracePeriodSeconds r)
     \<and> fits map_shape m (rr_Labels r) \<and> fits map_shape m (rr_Annotations r)
     \<and> fits owners_shape m (rr_OwnerReferences r) \<and> fits strings_shape m (rr_Finalizers r)
     \<and> fits manageds_shape m (rr_ManagedFields r) \<and> fits conditions_shape m (rr_Conditions r)"

definition resource_shape :: "(resource_rep, resource_view) shape" where
  "resource_shape =
     \<lparr>see = view, reach = \<lambda>m r. reach map_shape m (rr_Labels r) \<union> other_reach m r, fits = resource_ok\<rparr>"

definition list_shape :: "(list_rep, list_rep \<times> int option \<times> resource_view list option) shape" where
  "list_shape =
     \<lparr>see = \<lambda>m l. (l\<lparr>lr_RemainingItemCount := None, lr_Items := None\<rparr>,
        see int64_shape m (lr_RemainingItemCount l),
        see (slice_shape ItemsCell the_items resource_shape) m (lr_Items l)),
      reach = \<lambda>m l. reach int64_shape m (lr_RemainingItemCount l)
        \<union> reach (slice_shape ItemsCell the_items resource_shape) m (lr_Items l),
      fits = \<lambda>m l. fits int64_shape m (lr_RemainingItemCount l)
        \<and> fits (slice_shape ItemsCell the_items resource_shape) m (lr_Items l)\<rparr>"

text \<open>A pointer to a resource or a list, followed.\<close>

abbreviation resource_pointer :: "(nat option, resource_view option) shape" where
  "resource_pointer \<equiv> pointer_shape ResourceCell the_resource resource_shape"

abbreviation list_pointer :: "(nat option, (list_rep \<times> int option \<times> resource_view list option) option) shape" where
  "list_pointer \<equiv> pointer_shape ListCell the_list list_shape"

section \<open>The promise of a deep copy\<close>

text \<open>Two memories that hold the same from \<open>low\<close> up to \<open>high\<close>.\<close>

definition same_cells :: "nat \<Rightarrow> nat \<Rightarrow> memory \<Rightarrow> memory \<Rightarrow> bool" where
  "same_cells low high m m' \<longleftrightarrow> high \<le> length m' \<and> (\<forall>a. low \<le> a \<and> a < high \<longrightarrow> m' ! a = m ! a)"

locale deep_copier =
  fixes copy :: "memory \<Rightarrow> 'a \<Rightarrow> memory \<times> 'a" and sh :: "('a, 'v) shape"
  assumes inside: "fits sh m x \<Longrightarrow> a \<in> reach sh m x \<Longrightarrow> a < length m"
    and stable: "fits sh m x \<Longrightarrow> \<forall>a \<in> reach sh m x. a < length m' \<and> m' ! a = m ! a
      \<Longrightarrow> fits sh m' x \<and> see sh m' x = see sh m x \<and> reach sh m' x = reach sh m x"
    and copies: "fits sh m x \<Longrightarrow> copy m x = (m', x')
      \<Longrightarrow> prefix m m' \<and> fits sh m' x' \<and> see sh m' x' = see sh m x \<and> reach sh m' x' \<subseteq> {length m..<length m'}"
begin

lemma grown:
  assumes "fits sh m x" and "prefix m m'"
  shows "fits sh m' x \<and> see sh m' x = see sh m x \<and> reach sh m' x = reach sh m x"
  using assms by (intro stable) (auto simp: prefix_def nth_append dest: inside)

text \<open>A field of a structure: what has been copied before it does not matter, and what is copied
  after it leaves the copy alone.\<close>

lemma field:
  assumes "fits sh m0 x" and "prefix m0 m" and "copy m x = (m1, x1)"
  shows "prefix m0 m1" and "prefix m m1"
    and "prefix m1 m' \<Longrightarrow> fits sh m' x1 \<and> see sh m' x1 = see sh m0 x \<and> reach sh m' x1 \<subseteq> {length m..<length m1}"
proof -
  note g = grown [OF assms(1,2)]
  note c = copies [OF conjunct1 [OF g] assms(3)]
  from c show "prefix m m1" by simp
  with assms(2) show "prefix m0 m1" by (rule prefix_order.trans)
  show "prefix m1 m' \<Longrightarrow> fits sh m' x1 \<and> see sh m' x1 = see sh m0 x \<and> reach sh m' x1 \<subseteq> {length m..<length m1}"
    using grown [of m1 x1 m'] c g by simp
qed

lemma elements:
  assumes "list_all (fits sh m) xs" and "copy_elements copy m xs = (m', ys)"
  shows "prefix m m' \<and> length ys = length xs \<and> list_all (fits sh m') ys
    \<and> map (see sh m') ys = map (see sh m) xs \<and> \<Union>(reach sh m' ` set ys) \<subseteq> {length m..<length m'}"
  using assms
proof (induction xs arbitrary: m ys)
  case (Cons x xs)
  obtain m1 y ys1 where st: "copy m x = (m1, y)" "copy_elements copy m1 xs = (m', ys1)" "ys = y # ys1"
    using Cons.prems(2) by (auto split: prod.splits)
  note c = copies [OF _ st(1)]
  have x: "fits sh m x" and xs: "list_all (fits sh m) xs" using Cons.prems(1) by simp_all
  have p: "prefix m m1" using c x by simp
  have xs1: "list_all (fits sh m1) xs" "map (see sh m1) xs = map (see sh m) xs"
    using xs grown [OF _ p] by (auto simp: list_all_iff)
  note ih = Cons.IH [OF xs1(1) st(2)]
  have q: "prefix m1 m'" using ih by simp
  have y: "fits sh m' y \<and> see sh m' y = see sh m x \<and> reach sh m' y \<subseteq> {length m..<length m1}"
    using grown [of m1 y m'] c x q by simp
  have "length m \<le> length m1" "length m1 \<le> length m'" using p q by (simp_all add: prefix_length_le)
  with y ih show ?case using prefix_order.trans [OF p q] xs1(2) by (auto simp: st(3))
qed simp

text \<open>Whatever is written to the memory of the one, the other reads as before.\<close>

lemma separates:
  assumes "fits sh m x" and "copy m x = (m', x')"
  shows "see sh m' x' = see sh m x"
    and "same_cells 0 (length m) m m'' \<Longrightarrow> see sh m'' x = see sh m x"
    and "same_cells (length m) (length m') m' m'' \<Longrightarrow> see sh m'' x' = see sh m x"
proof -
  note c = copies [OF assms]
  show "see sh m' x' = see sh m x" using c by simp
  show "same_cells 0 (length m) m m'' \<Longrightarrow> see sh m'' x = see sh m x"
    using stable [OF assms(1), of m''] inside [OF assms(1)] by (force simp: same_cells_def)
  assume s: "same_cells (length m) (length m') m' m''"
  have "\<forall>a \<in> reach sh m' x'. a < length m'' \<and> m'' ! a = m' ! a"
  proof
    fix a assume "a \<in> reach sh m' x'"
    with c have "length m \<le> a" "a < length m'" by auto
    with s show "a < length m'' \<and> m'' ! a = m' ! a" by (simp add: same_cells_def)
  qed
  then show "see sh m'' x' = see sh m x" using stable [of m' x' m''] c by simp
qed

end

section \<open>What can be copied\<close>

lemmas copier_laws = deep_copier.inside deep_copier.stable deep_copier.copies deep_copier.grown

lemma leaf_copier:
  assumes "\<And>m x. w x \<Longrightarrow> \<exists>y. copy m x = (m, y) \<and> w y \<and> v y = v x"
  shows "deep_copier copy (leaf_shape v w)"
proof (unfold_locales, goal_cases)
  case (3 m x m' x')
  then show ?case using assms [of x m] by (auto simp: leaf_shape_def)
qed (auto simp: leaf_shape_def)

lemma copy_pointer_Some:
  obtains m' b where "copy_pointer con sel copy m (Some a) = (m', Some b)"
  by (cases "copy m (sel (m ! a))") (simp add: copy_pointer_def)

lemma pointer_copier:
  assumes "deep_copier copy sh" and sel: "\<And>x. sel (con x) = x"
  shows "deep_copier (copy_pointer con sel copy) (pointer_shape con sel sh)"
proof (unfold_locales, goal_cases)
  case (1 m p a)
  then show ?case
    using deep_copier.inside [OF assms(1)] by (auto simp: pointer_shape_def split: option.splits)
next
  case (2 m p m')
  show ?case
  proof (cases p)
    case (Some a)
    with 2 have a: "fits sh m (sel (m ! a))" "a < length m'" "m' ! a = m ! a" "con (sel (m ! a)) = m ! a"
      "\<forall>b \<in> reach sh m (sel (m ! a)). b < length m' \<and> m' ! b = m ! b"
      by (auto simp: pointer_shape_def)
    show ?thesis
      using deep_copier.stable [OF assms(1) a(1,5)] a by (simp add: pointer_shape_def Some)
  qed (simp add: pointer_shape_def)
next
  case (3 m p m' p')
  show ?case
  proof (cases p)
    case (Some a)
    obtain m1 y where c: "copy m (sel (m ! a)) = (m1, y)" by fastforce
    have fit: "fits sh m (sel (m ! a))" using 3(1) by (simp add: pointer_shape_def Some)
    note d = deep_copier.copies [OF assms(1) fit c]
    note g = deep_copier.grown [OF assms(1), of m1 y "m1 @ [con y]"]
    from 3(2) c have m': "m' = m1 @ [con y]" "p' = Some (length m1)"
      by (simp_all add: copy_pointer_def Some)
    have "length m \<le> length m1" using d by (simp add: prefix_length_le)
    then show ?thesis using d g by (auto simp: m' pointer_shape_def Some sel)
  qed (use 3 in \<open>simp add: pointer_shape_def copy_pointer_def\<close>)
qed

lemma slice_copier:
  assumes "deep_copier copy sh" and sel: "\<And>x. sel (con x) = x"
  shows "deep_copier (copy_slice con sel copy) (slice_shape con sel sh)"
proof (unfold_locales, goal_cases)
  case (1 m s a)
  then show ?case
    using deep_copier.inside [OF assms(1)] by (fastforce simp: slice_shape_def list_all_iff split: option.splits)
next
  case (2 m s m')
  show ?case
  proof (cases s)
    case (Some s)
    let ?xs = "slice_read (sel (m ! sl_array s)) s"
    from 2 have a: "list_all (fits sh m) ?xs" "sl_array s < length m'" "m' ! sl_array s = m ! sl_array s"
      "con (sel (m ! sl_array s)) = m ! sl_array s"
      by (auto simp: slice_shape_def Some)
    have "\<forall>x \<in> set ?xs. fits sh m' x \<and> see sh m' x = see sh m x \<and> reach sh m' x = reach sh m x"
    proof
      fix x assume x: "x \<in> set ?xs"
      with 2(2) have "\<forall>b \<in> reach sh m x. b < length m' \<and> m' ! b = m ! b"
        by (auto simp: slice_shape_def Some)
      with x a(1) show "fits sh m' x \<and> see sh m' x = see sh m x \<and> reach sh m' x = reach sh m x"
        by (intro deep_copier.stable [OF assms(1)]) (auto simp: list_all_iff)
    qed
    then show ?thesis using a by (simp add: slice_shape_def Some list_all_iff)
  qed (simp add: slice_shape_def)
next
  case (3 m s m' s')
  show ?case
  proof (cases s)
    case (Some s)
    let ?xs = "slice_read (sel (m ! sl_array s)) s"
    obtain m1 ys where c: "copy_elements copy m ?xs = (m1, ys)" by fastforce
    have "list_all (fits sh m) ?xs" using 3(1) by (simp add: slice_shape_def Some)
    note d = deep_copier.elements [OF assms(1) this c]
    have g: "\<forall>y \<in> set ys. fits sh (m1 @ [con ys]) y \<and> see sh (m1 @ [con ys]) y = see sh m1 y
        \<and> reach sh (m1 @ [con ys]) y = reach sh m1 y"
      using d by (auto intro!: deep_copier.grown [OF assms(1)] simp: list_all_iff)
    from 3(2) c have m': "m' = m1 @ [con ys]" "s' = Some \<lparr>sl_array = length m1, sl_offset = 0, sl_len = length ys\<rparr>"
      by (simp_all add: copy_slice_def Some)
    have len: "length m \<le> length m1" using d by (simp add: prefix_length_le)
    have seen: "map (see sh (m1 @ [con ys])) ys = map (see sh m) ?xs" using d g by (auto cong: map_cong)
    have reached: "\<Union>(reach sh (m1 @ [con ys]) ` set ys) \<subseteq> {length m..<length m1}" using d g by auto
    have "prefix m (m1 @ [con ys])" using d by simp
    then show ?thesis using seen reached g len
      by (auto simp: m' slice_shape_def Some sel slice_read_def list_all_iff)
  qed (use 3 in \<open>simp add: slice_shape_def copy_slice_def\<close>)
qed

text \<open>Plain values, times, maps and conditions.\<close>

lemma fold_gm_set:
  "gm_wf (xs :: ('k \<times> 'v) list) \<Longrightarrow> gm_get (fold (\<lambda>(k, v). gm_set k v) xs m) j
     = (case gm_get xs j of None \<Rightarrow> gm_get m j | Some v \<Rightarrow> Some v)"
proof (induction xs arbitrary: m)
  case (Cons x xs)
  obtain k v where x: "x = (k, v)" by fastforce
  have "gm_get xs k = None" using Cons.prems by (simp add: x map_of_eq_None_iff)
  with Cons.IH [of "gm_set k v m"] Cons.prems show ?case by (auto simp: x gm_get_set split: option.splits)
qed simp

lemma fold_gm_set_wf: "gm_wf m \<Longrightarrow> gm_wf (fold (\<lambda>(k, v). gm_set k v) xs m)"
  by (induction xs arbitrary: m) (auto simp: gm_wf_set)

lemma order_get:
  assumes "is_order ord" and "gm_wf m"
  shows "gm_wf (ord m)" and "gm_get (ord m) = gm_get m"
proof -
  have "mset (map fst (ord m)) = mset (map fst m)"
    using is_order_mset [OF assms(1)] by (metis mset_map)
  then show w: "gm_wf (ord m)" using assms(2) by (metis distinct_count_atmost_1 mset_eq_setD)
  show "gm_get (ord m) = gm_get m"
    by (rule ext, rule map_of_eqI [THEN fun_cong]) 
      (use w assms is_order_set [OF assms(1)] in \<open>auto simp: map_of_eq_Some_iff\<close>)
qed

lemma copy_map_get:
  assumes "is_order ord" and "gm_wf g"
  shows "\<exists>g'. copy_map ord m g = (m, g') \<and> gm_wf g' \<and> gm_get g' = gm_get g"
  using order_get [OF assms] fold_gm_set [of "ord g" "[]"] fold_gm_set_wf [of "[]" "ord g"]
  by (auto simp: copy_map_def fun_eq_iff split: option.splits)

lemma Condition_copy [simp]: "Condition_DeepCopyInto m c = (m, c)"
  by (simp add: Condition_DeepCopyInto_def assign_def)

interpretation assigned: deep_copier assign "leaf_shape (\<lambda>x. x) (\<lambda>x. True)"
  by (rule leaf_copier) (simp add: assign_def)

interpretation times: deep_copier Time_DeepCopy time_shape
  unfolding Time_DeepCopy_def by (rule pointer_copier [OF assigned.deep_copier_axioms]) simp

interpretation int64s: deep_copier "copy_pointer Int64Cell the_int64 assign" int64_shape
  by (rule pointer_copier [OF assigned.deep_copier_axioms]) simp

interpretation bools: deep_copier "copy_pointer BoolCell the_bool assign" bool_shape
  by (rule pointer_copier [OF assigned.deep_copier_axioms]) simp

interpretation strings: deep_copier "copy_slice StringsCell the_strings assign" strings_shape
  by (rule slice_copier [OF assigned.deep_copier_axioms]) simp

interpretation bytes: deep_copier FieldsV1_DeepCopyInto bytes_shape
  unfolding FieldsV1_DeepCopyInto_def by (rule slice_copier [OF assigned.deep_copier_axioms]) simp

interpretation fields: deep_copier "copy_pointer FieldsCell the_fields FieldsV1_DeepCopyInto" fields_shape
  by (rule pointer_copier [OF bytes.deep_copier_axioms]) simp

interpretation conditions: deep_copier "copy_slice ConditionsCell the_conditions Condition_DeepCopyInto" conditions_shape
  by (rule slice_copier [OF leaf_copier]) simp_all

lemma map_copier:
  "is_order ord \<Longrightarrow> deep_copier (copy_pointer MapCell the_map (copy_map ord)) map_shape"
  by (rule pointer_copier [OF leaf_copier [OF copy_map_get]]) simp_all

text \<open>Structures with references.\<close>

interpretation owner: deep_copier OwnerReference_DeepCopyInto owner_shape
proof (unfold_locales, goal_cases)
  case (1 m r a)
  then show ?case by (auto simp: owner_shape_def dest: bools.inside)
next
  case (2 m r m')
  then show ?case
    using bools.stable [of m "or_Controller r" m'] bools.stable [of m "or_BlockOwnerDeletion r" m']
    by (simp add: owner_shape_def)
next
  case (3 m r m' r')
  then have fit: "fits bool_shape m (or_Controller r)" "fits bool_shape m (or_BlockOwnerDeletion r)"
    by (simp_all add: owner_shape_def)
  obtain m1 x1 where c1: "copy_pointer BoolCell the_bool assign m (or_Controller r) = (m1, x1)" by fastforce
  obtain m2 x2 where c2: "copy_pointer BoolCell the_bool assign m1 (or_BlockOwnerDeletion r) = (m2, x2)" by fastforce
  note f1 = bools.field [OF fit(1) prefix_order.refl c1]
  note f2 = bools.field [OF fit(2) f1(1) c2]
  from 3(2) c1 c2 have m': "m' = m2" "r' = r\<lparr>or_Controller := x1, or_BlockOwnerDeletion := x2\<rparr>"
    by (simp_all add: OwnerReference_DeepCopyInto_def)
  have "length m \<le> length m1" "length m1 \<le> length m2"
    using f1(2) f2(2) by (simp_all add: prefix_length_le)
  then show ?case using f1(3) [OF f2(2)] f2(1) f2(3) [OF prefix_order.refl]
    by (auto simp: m' owner_shape_def)
qed

interpretation managed: deep_copier ManagedFieldsEntry_DeepCopyInto managed_shape
proof (unfold_locales, goal_cases)
  case (1 m r a)
  then show ?case by (auto simp: managed_shape_def dest: times.inside fields.inside)
next
  case (2 m r m')
  then show ?case
    using times.stable [of m "mf_Time r" m'] fields.stable [of m "mf_FieldsV1 r" m']
    by (simp add: managed_shape_def)
next
  case (3 m r m' r')
  then have fit: "fits time_shape m (mf_Time r)" "fits fields_shape m (mf_FieldsV1 r)"
    by (simp_all add: managed_shape_def)
  obtain m1 x1 where c1: "Time_DeepCopy m (mf_Time r) = (m1, x1)" by fastforce
  obtain m2 x2 where c2: "copy_pointer FieldsCell the_fields FieldsV1_DeepCopyInto m1 (mf_FieldsV1 r) = (m2, x2)"
    by fastforce
  note f1 = times.field [OF fit(1) prefix_order.refl c1]
  note f2 = fields.field [OF fit(2) f1(1) c2]
  from 3(2) c1 c2 have m': "m' = m2" "r' = r\<lparr>mf_Time := x1, mf_FieldsV1 := x2\<rparr>"
    by (simp_all add: ManagedFieldsEntry_DeepCopyInto_def)
  have "length m \<le> length m1" "length m1 \<le> length m2"
    using f1(2) f2(2) by (simp_all add: prefix_length_le)
  then show ?case using f1(3) [OF f2(2)] f2(1) f2(3) [OF prefix_order.refl]
    by (auto simp: m' managed_shape_def)
qed

interpretation owners: deep_copier "copy_slice OwnersCell the_owners OwnerReference_DeepCopyInto" owners_shape
  by (rule slice_copier [OF owner.deep_copier_axioms]) simp

interpretation manageds: deep_copier "copy_slice ManagedCell the_managed ManagedFieldsEntry_DeepCopyInto" manageds_shape
  by (rule slice_copier [OF managed.deep_copier_axioms]) simp

text \<open>A resource: the fields are copied in turn, each into memory of its own.\<close>

lemma resource_inside: "resource_ok m r \<Longrightarrow> a \<in> reach resource_shape m r \<Longrightarrow> a < length m"
  using deep_copier.inside [OF map_copier [OF is_order_id]]
  by (auto simp: resource_shape_def resource_ok_def other_reach_def dest: times.inside int64s.inside
      owners.inside strings.inside manageds.inside conditions.inside)

lemma resource_stable:
  assumes "resource_ok m r" and "\<forall>a \<in> reach resource_shape m r. a < length m' \<and> m' ! a = m ! a"
  shows "resource_ok m' r \<and> view m' r = view m r \<and> reach resource_shape m' r = reach resource_shape m r"
proof -
  note l = deep_copier.stable [OF map_copier [OF is_order_id], of m _ m']
  note fields_stable = times.stable [of m "rr_DeletionTimestamp r" m'] int64s.stable [of m "rr_DeletionGracePeriodSeconds r" m']
    l [of "rr_Labels r"] l [of "rr_Annotations r"] owners.stable [of m "rr_OwnerReferences r" m']
    strings.stable [of m "rr_Finalizers r" m'] manageds.stable [of m "rr_ManagedFields r" m']
    conditions.stable [of m "rr_Conditions r" m']
  from assms fields_stable show ?thesis
    unfolding resource_shape_def resource_ok_def other_reach_def view_def labels_of_def conditions_of_def
    by simp
qed

lemma DeepCopyInto_fields:
  assumes "is_order ord" and "resource_ok m r" and "Resource_DeepCopyInto ord m r = (m', r')"
  shows "prefix m m' \<and> resource_ok m' r' \<and> view m' r' = view m r
    \<and> reach resource_shape m' r' \<subseteq> {length m..<length m'}
    \<and> (\<forall>a \<in> set_option (rr_Labels r'). a \<notin> other_reach m' r')"
proof -
  obtain m1 x1 where c1: "Time_DeepCopy m (rr_DeletionTimestamp r) = (m1, x1)" by fastforce
  obtain m2 x2 where c2: "copy_pointer Int64Cell the_int64 assign m1 (rr_DeletionGracePeriodSeconds r) = (m2, x2)" by fastforce
  obtain m3 x3 where c3: "copy_pointer MapCell the_map (copy_map ord) m2 (rr_Labels r) = (m3, x3)" by fastforce
  obtain m4 x4 where c4: "copy_pointer MapCell the_map (copy_map ord) m3 (rr_Annotations r) = (m4, x4)" by fastforce
  obtain m5 x5 where c5: "copy_slice OwnersCell the_owners OwnerReference_DeepCopyInto m4 (rr_OwnerReferences r) = (m5, x5)" by fastforce
  obtain m6 x6 where c6: "copy_slice StringsCell the_strings assign m5 (rr_Finalizers r) = (m6, x6)" by fastforce
  obtain m7 x7 where c7: "copy_slice ManagedCell the_managed ManagedFieldsEntry_DeepCopyInto m6 (rr_ManagedFields r) = (m7, x7)" by fastforce
  obtain m8 x8 where c8: "copy_slice ConditionsCell the_conditions Condition_DeepCopyInto m7 (rr_Conditions r) = (m8, x8)" by fastforce
  have fit: "fits time_shape m (rr_DeletionTimestamp r)" "fits int64_shape m (rr_DeletionGracePeriodSeconds r)"
    "fits map_shape m (rr_Labels r)" "fits map_shape m (rr_Annotations r)"
    "fits owners_shape m (rr_OwnerReferences r)" "fits strings_shape m (rr_Finalizers r)"
    "fits manageds_shape m (rr_ManagedFields r)" "fits conditions_shape m (rr_Conditions r)"
    using assms(2) by (simp_all add: resource_ok_def)
  note f1 = times.field [OF fit(1) prefix_order.refl c1]
  note f2 = int64s.field [OF fit(2) f1(1) c2]
  note f3 = deep_copier.field [OF map_copier [OF assms(1)] fit(3) f2(1) c3]
  note f4 = deep_copier.field [OF map_copier [OF assms(1)] fit(4) f3(1) c4]
  note f5 = owners.field [OF fit(5) f4(1) c5]
  note f6 = strings.field [OF fit(6) f5(1) c6]
  note f7 = manageds.field [OF fit(7) f6(1) c7]
  note f8 = conditions.field [OF fit(8) f7(1) c8]
  have p7: "prefix m7 m8" by (rule f8(2))
  have p6: "prefix m6 m8" by (rule prefix_order.trans [OF f7(2) p7])
  have p5: "prefix m5 m8" by (rule prefix_order.trans [OF f6(2) p6])
  have p4: "prefix m4 m8" by (rule prefix_order.trans [OF f5(2) p5])
  have p3: "prefix m3 m8" by (rule prefix_order.trans [OF f4(2) p4])
  have p2: "prefix m2 m8" by (rule prefix_order.trans [OF f3(2) p3])
  have p1: "prefix m1 m8" by (rule prefix_order.trans [OF f2(2) p2])
  note s = f1(3) [OF p1] f2(3) [OF p2] f3(3) [OF p3] f4(3) [OF p4] f5(3) [OF p5] f6(3) [OF p6] f7(3) [OF p7]
    f8(3) [OF prefix_order.refl]
  have len: "length m \<le> length m1" "length m1 \<le> length m2" "length m2 \<le> length m3" "length m3 \<le> length m4"
    "length m4 \<le> length m5" "length m5 \<le> length m6" "length m6 \<le> length m7" "length m7 \<le> length m8"
    using f1(2) f2(2) f3(2) f4(2) f5(2) f6(2) f7(2) f8(2) by (simp_all add: prefix_length_le)
  from assms(3) c1 c2 c3 c4 c5 c6 c7 c8 have m': "m' = m8"
    "r' = r\<lparr>rr_DeletionTimestamp := x1, rr_DeletionGracePeriodSeconds := x2, rr_Labels := x3, rr_Annotations := x4,
       rr_OwnerReferences := x5, rr_Finalizers := x6, rr_ManagedFields := x7, rr_Conditions := x8\<rparr>"
    by (simp_all add: Resource_DeepCopyInto_def ObjectMeta_DeepCopyInto_def Status_DeepCopyInto_def assign_def)
  have ok: "resource_ok m' r'" using s by (simp add: resource_ok_def m')
  have seen: "view m' r' = view m r"
    using s by (simp add: view_def labels_of_def conditions_of_def plain_def m')
  have others: "other_reach m' r' \<subseteq> {length m..<length m2} \<union> {length m3..<length m8}"
    using s len unfolding other_reach_def m' by (simp add: subset_iff) (meson le_trans less_le_trans)
  have labels: "reach map_shape m' x3 \<subseteq> {length m2..<length m3}" using s by (simp add: m')
  have "prefix m m'" using f8(1) by (simp add: m')
  moreover have "\<forall>a \<in> set_option (rr_Labels r'). a \<notin> other_reach m' r'"
  proof
    fix a assume "a \<in> set_option (rr_Labels r')"
    then have "a \<in> reach map_shape m' x3" by (simp add: m' pointer_shape_def)
    with labels have "length m2 \<le> a" "a < length m3" by auto
    with others show "a \<notin> other_reach m' r'" by (auto simp: subset_iff)
  qed
  moreover have "reach resource_shape m' r' \<subseteq> {length m..<length m'}"
    using labels others len by (auto simp: resource_shape_def m' subset_iff)
  ultimately show ?thesis using ok seen by blast
qed

lemma resource_copier: "is_order ord \<Longrightarrow> deep_copier (Resource_DeepCopyInto ord) resource_shape"
proof (unfold_locales, goal_cases)
  case (1 m r a)
  then show ?case using resource_inside by (simp add: resource_shape_def)
next
  case (2 m r m')
  then show ?case using resource_stable [of m r m'] by (simp add: resource_shape_def)
next
  case (3 m r m' r')
  then show ?case using DeepCopyInto_fields [of ord m r m' r'] by (simp add: resource_shape_def)
qed

lemma resource_pointer_copier: "is_order ord \<Longrightarrow> deep_copier (Resource_DeepCopy ord) resource_pointer"
  unfolding Resource_DeepCopy_def by (rule pointer_copier [OF resource_copier]) simp_all

lemma items_copier:
  "is_order ord \<Longrightarrow> deep_copier (copy_slice ItemsCell the_items (Resource_DeepCopyInto ord))
     (slice_shape ItemsCell the_items resource_shape)"
  by (rule slice_copier [OF resource_copier]) simp_all

lemma list_copier: "is_order ord \<Longrightarrow> deep_copier (List_DeepCopyInto ord) list_shape"
proof (unfold_locales, goal_cases)
  case (1 m l a)
  then show ?case
    using deep_copier.inside [OF items_copier] by (auto simp: list_shape_def dest: int64s.inside)
next
  case (2 m l m')
  then show ?case
    using int64s.stable [of m "lr_RemainingItemCount l" m'] deep_copier.stable [OF items_copier, of ord m "lr_Items l" m']
    by (simp add: list_shape_def)
next
  case (3 m l m' l')
  let ?items = "copy_slice ItemsCell the_items (Resource_DeepCopyInto ord)"
  from 3 have fit: "fits int64_shape m (lr_RemainingItemCount l)"
    "fits (slice_shape ItemsCell the_items resource_shape) m (lr_Items l)"
    by (simp_all add: list_shape_def)
  obtain m1 x1 where c1: "copy_pointer Int64Cell the_int64 assign m (lr_RemainingItemCount l) = (m1, x1)" by fastforce
  obtain m2 x2 where c2: "?items m1 (lr_Items l) = (m2, x2)" by fastforce
  note f1 = int64s.field [OF fit(1) prefix_order.refl c1]
  note f2 = deep_copier.field [OF items_copier [OF 3(1)] fit(2) f1(1) c2]
  from 3(3) c1 c2 have m': "m' = m2" "l' = l\<lparr>lr_RemainingItemCount := x1, lr_Items := x2\<rparr>"
    by (simp_all add: List_DeepCopyInto_def ListMeta_DeepCopyInto_def)
  have "length m \<le> length m1" "length m1 \<le> length m2"
    using f1(2) f2(2) by (simp_all add: prefix_length_le)
  then show ?case using f1(3) [OF f2(2)] f2(1) f2(3) [OF prefix_order.refl]
    by (auto simp: m' list_shape_def)
qed

lemma list_pointer_copier: "is_order ord \<Longrightarrow> deep_copier (List_DeepCopy ord) list_pointer"
  unfolding List_DeepCopy_def by (rule pointer_copier [OF list_copier]) simp_all

section \<open>Labels written on a copy\<close>

text \<open>What \<^verbatim>\<open>updateMetadata\<close> does to its copy: an assignment to a nil map would panic.\<close>

definition put_label :: "string \<Rightarrow> string \<Rightarrow> memory \<Rightarrow> resource_rep \<Rightarrow> memory go" where
  "put_label key val m r =
     (case rr_Labels r of
        None \<Rightarrow> Inl NilMapWrite
      | Some a \<Rightarrow> Inr (m[a := MapCell (gm_set key val (the_map (m ! a)))]))"

definition make_labels :: "memory \<Rightarrow> resource_rep \<Rightarrow> memory \<times> resource_rep" where
  "make_labels m r =
     (case rr_Labels r of
        None \<Rightarrow> (m @ [MapCell []], r\<lparr>rr_Labels := Some (length m)\<rparr>)
      | Some a \<Rightarrow> (m, r))"

definition write_metadata_labels :: "string \<Rightarrow> memory \<Rightarrow> resource_rep \<Rightarrow> (memory \<times> resource_rep) go" where
  "write_metadata_labels version m r =
     (case make_labels m r of (m, r) \<Rightarrow>
        go_bind (put_label ''app.kubernetes.io/managed-by'' (ReplaceAll ControllerName CHR ''_'' CHR ''-'') m r) (\<lambda>m.
          case find_revision version of
            Some revision \<Rightarrow>
              go_bind (put_label ''app.kubernetes.io/version'' revision m r) (\<lambda>m. Inr (m, r))
          | None \<Rightarrow> Inr (m, r)))"

definition labels_list :: "memory \<Rightarrow> resource_rep \<Rightarrow> (string, string) gomap option" where
  "labels_list m r = map_option (\<lambda>a. the_map (m ! a)) (rr_Labels r)"

lemma labels_of_list: "labels_of m r = map_option gm_get (labels_list m r)"
  by (simp add: labels_of_def labels_list_def pointer_shape_def leaf_shape_def option.map_comp comp_def)

text \<open>The labels function of \<open>Events\<close> does not look at the order of the labels.\<close>

lemma metadata_labels_get:
  "gm_get (metadata_labels version labels) k =
     (if k = ''app.kubernetes.io/version'' \<and> find_revision version \<noteq> None then find_revision version
      else if k = ''app.kubernetes.io/managed-by'' then Some ''crdmetrics''
      else case labels of None \<Rightarrow> None | Some m \<Rightarrow> gm_get m k)"
  by (auto simp: metadata_labels_def Let_def gm_get_set ControllerName_def ReplaceAll_def split: option.split)

lemma write_metadata_labels_eq:
  assumes "fits map_shape m (rr_Labels r)"
  shows "\<exists>m' r'. write_metadata_labels version m r = Inr (m', r')
    \<and> labels_list m' r' = Some (metadata_labels version (labels_list m r))
    \<and> r'\<lparr>rr_Labels := None\<rparr> = r\<lparr>rr_Labels := None\<rparr> \<and> length m \<le> length m'
    \<and> (\<forall>a < length m. a \<notin> set_option (rr_Labels r) \<longrightarrow> m' ! a = m ! a)"
proof (cases "rr_Labels r")
  case None
  then show ?thesis
    by (cases "find_revision version")
      (auto simp: write_metadata_labels_def make_labels_def put_label_def labels_list_def
        metadata_labels_def Let_def nth_append nth_list_update)
next
  case (Some a)
  with assms have "a < length m" by (simp add: pointer_shape_def)
  with Some show ?thesis
    by (cases "find_revision version")
      (auto simp: write_metadata_labels_def make_labels_def put_label_def labels_list_def
        metadata_labels_def Let_def nth_list_update)
qed

text \<open>All but the labels is read at the other addresses.\<close>

lemma view_but_labels:
  assumes "resource_ok m r" and "\<forall>a \<in> other_reach m r. a < length m' \<and> m' ! a = m ! a"
    and "r'\<lparr>rr_Labels := None\<rparr> = r\<lparr>rr_Labels := None\<rparr>"
  shows "view m' r' = (view m r)\<lparr>v_Labels := labels_of m' r'\<rparr>"
proof -
  note l = deep_copier.stable [OF map_copier [OF is_order_id], of m _ m']
  note fields_stable = times.stable [of m "rr_DeletionTimestamp r" m'] int64s.stable [of m "rr_DeletionGracePeriodSeconds r" m']
    l [of "rr_Annotations r"] owners.stable [of m "rr_OwnerReferences r" m']
    strings.stable [of m "rr_Finalizers r" m'] manageds.stable [of m "rr_ManagedFields r" m']
    conditions.stable [of m "rr_Conditions r" m']
  obtain x where r': "r' = r\<lparr>rr_Labels := x\<rparr>" using assms(3) by (cases r, cases r') auto
  from assms(1,2) fields_stable show ?thesis
    unfolding resource_ok_def other_reach_def view_def conditions_of_def plain_def r' by simp
qed

section \<open>Properties\<close>

text \<open>C40: a deep copy of a resource is a new resource in new memory: nothing that was there is
  written, no cell of the original is reached from it, and following its references (deletion time
  and grace period, labels, annotations, owners, finalizers, managed fields, conditions) shows what the
  original shows, nil pointers, maps and slices included. So whatever is later written to the
  memory of the one, the other still reads the same.\<close>

theorem DeepCopy_separates:
  assumes "is_order ord" and "fits resource_pointer m (Some a)"
  shows "\<exists>m' b. Resource_DeepCopy ord m (Some a) = (m', Some b) \<and> prefix m m'
    \<and> reach resource_pointer m' (Some b) \<subseteq> {length m..<length m'}
    \<and> see resource_pointer m' (Some b) = see resource_pointer m (Some a)
    \<and> (\<forall>m''. same_cells 0 (length m) m m'' \<longrightarrow>
          see resource_pointer m'' (Some a) = see resource_pointer m (Some a))
    \<and> (\<forall>m''. same_cells (length m) (length m') m' m'' \<longrightarrow>
          see resource_pointer m'' (Some b) = see resource_pointer m (Some a))"
proof -
  obtain m' b where c: "Resource_DeepCopy ord m (Some a) = (m', Some b)"
    unfolding Resource_DeepCopy_def by (rule copy_pointer_Some)
  note copier = resource_pointer_copier [OF assms(1)]
  note deep_copier.separates [OF copier assms(2) c] deep_copier.copies [OF copier assms(2) c]
  with c show ?thesis by blast
qed

text \<open>A memory with a resource that uses every reference, two of them the same cell, and an array
  that is longer than its slice; a list of that resource.\<close>

definition sample_condition :: condition where
  "sample_condition = \<lparr>cd_Type = ''Processed'', cd_Status = ''True'', cd_ObservedGeneration = 1,
     cd_LastTransitionTime = 0, cd_Reason = [], cd_Message = []\<rparr>"

definition slice_of :: "nat \<Rightarrow> nat \<Rightarrow> slice option" where
  "slice_of a n = Some \<lparr>sl_array = a, sl_offset = 0, sl_len = n\<rparr>"

definition sample_rep :: resource_rep where
  "sample_rep = \<lparr>rr_Kind = ''CRDMetricsResource'', rr_APIVersion = [], rr_Name = ''r'', rr_GenerateName = [],
     rr_Namespace = [], rr_SelfLink = [], rr_UID = ''u'', rr_ResourceVersion = ''1'', rr_Generation = 1,
     rr_CreationTimestamp = 3, rr_DeletionTimestamp = Some 0, rr_DeletionGracePeriodSeconds = Some 1,
     rr_Labels = Some 2, rr_Annotations = Some 3, rr_OwnerReferences = slice_of 5 1,
     rr_Finalizers = slice_of 6 1, rr_ManagedFields = slice_of 9 1, rr_Configuration = ''good'',
     rr_Conditions = slice_of 10 1\<rparr>"

definition sample_memory :: memory where
  "sample_memory =
     [TimeCell 5, Int64Cell 30, MapCell [(''a'', ''b'')], MapCell [(''c'', ''d''), (''e'', ''f'')], BoolCell True,
      OwnersCell [\<lparr>or_APIVersion = ''v1'', or_Kind = ''Pod'', or_Name = ''p'', or_UID = ''w'',
                   or_Controller = Some 4, or_BlockOwnerDeletion = Some 4\<rparr>],
      StringsCell [''keep'', ''spare''], BytesCell [1, 2], FieldsCell (slice_of 7 2),
      ManagedCell [\<lparr>mf_Manager = ''kubectl'', mf_Operation = ''Apply'', mf_APIVersion = ''v1'', mf_Time = Some 0,
                    mf_FieldsType = ''FieldsV1'', mf_FieldsV1 = Some 8, mf_Subresource = []\<rparr>],
      ConditionsCell [sample_condition, sample_condition], ResourceCell sample_rep, ItemsCell [sample_rep],
      ListCell \<lparr>lr_Kind = [], lr_APIVersion = [], lr_SelfLink = [], lr_ResourceVersion = ''1'', lr_Continue = [],
                lr_RemainingItemCount = Some 1, lr_Items = slice_of 12 1\<rparr>]"

lemmas sample_shapes = sample_memory_def sample_rep_def slice_of_def resource_ok_def owner_shape_def
  managed_shape_def leaf_shape_def pointer_shape_def slice_shape_def slice_read_def

lemma sample_rep_ok: "resource_ok sample_memory sample_rep"
  by (simp add: sample_shapes)

theorem DeepCopy_separates_witness:
  "\<exists>m' b. Resource_DeepCopy rev sample_memory (Some 11) = (m', Some b)
    \<and> see resource_pointer (m'[6 := StringsCell [], 4 := BoolCell False]) (Some b)
        = see resource_pointer sample_memory (Some 11)"
proof -
  have "fits resource_pointer sample_memory (Some 11)"
    using sample_rep_ok by (simp add: pointer_shape_def resource_shape_def sample_memory_def)
  from DeepCopy_separates [OF is_order_rev this] obtain m' b
    where c: "Resource_DeepCopy rev sample_memory (Some 11) = (m', Some b)"
      and s: "\<forall>m''. same_cells (length sample_memory) (length m') m' m'' \<longrightarrow>
          see resource_pointer m'' (Some b) = see resource_pointer sample_memory (Some 11)"
    by (elim exE conjE) blast
  have "same_cells (length sample_memory) (length m') m' (m'[6 := StringsCell [], 4 := BoolCell False])"
    by (simp add: same_cells_def sample_memory_def)
  with s c show ?thesis by blast
qed

text \<open>The same for a list of resources: the copy has its own items, each of which is a deep copy.\<close>

theorem List_DeepCopy_separates:
  assumes "is_order ord" and "fits list_pointer m (Some a)"
  shows "\<exists>m' b. List_DeepCopy ord m (Some a) = (m', Some b) \<and> prefix m m'
    \<and> see list_pointer m' (Some b) = see list_pointer m (Some a)
    \<and> (\<forall>m''. same_cells 0 (length m) m m'' \<longrightarrow> see list_pointer m'' (Some a) = see list_pointer m (Some a))
    \<and> (\<forall>m''. same_cells (length m) (length m') m' m'' \<longrightarrow>
          see list_pointer m'' (Some b) = see list_pointer m (Some a))"
proof -
  obtain m' b where c: "List_DeepCopy ord m (Some a) = (m', Some b)"
    unfolding List_DeepCopy_def by (rule copy_pointer_Some)
  note copier = list_pointer_copier [OF assms(1)]
  note deep_copier.separates [OF copier assms(2) c] deep_copier.copies [OF copier assms(2) c]
  with c show ?thesis by blast
qed

theorem List_DeepCopy_separates_witness:
  "\<exists>m' b. List_DeepCopy rev sample_memory (Some 13) = (m', Some b)
    \<and> see list_pointer m' (Some b) = see list_pointer sample_memory (Some 13)"
proof -
  have "fits list_pointer sample_memory (Some 13)"
    using sample_rep_ok
    by (simp add: pointer_shape_def slice_shape_def leaf_shape_def list_shape_def resource_shape_def slice_of_def
        slice_read_def sample_memory_def)
  from List_DeepCopy_separates [OF is_order_rev this] show ?thesis by (elim exE conjE) blast
qed

text \<open>C38: what \<^verbatim>\<open>updateMetadata\<close> does in memory is what the handler's model says: the copy it sends
  has the labels of the resource it fetched with the controller's own set, everything else as
  fetched, no write to a nil map happens, and the fetched resource itself reads as before.\<close>

theorem metadata_write_refines:
  assumes "is_order ord" and "resource_ok m r" and "Resource_DeepCopyInto ord m r = (m1, r1)"
  shows "\<exists>m2 r2. write_metadata_labels version m1 r1 = Inr (m2, r2)
    \<and> view m2 r2 = (view m r)\<lparr>v_Labels := Some (gm_get (metadata_labels version (labels_list m r)))\<rparr>
    \<and> view m2 r = view m r"
proof -
  note d = DeepCopyInto_fields [OF assms]
  from d have ok: "resource_ok m1 r1" and seen: "view m1 r1 = view m r" and p: "prefix m m1"
    and apart: "\<forall>a \<in> set_option (rr_Labels r1). a \<notin> other_reach m1 r1"
    and new: "reach resource_shape m1 r1 \<subseteq> {length m..<length m1}"
    by blast+
  from ok have "fits map_shape m1 (rr_Labels r1)" by (simp add: resource_ok_def)
  from write_metadata_labels_eq [OF this, of version] obtain m2 r2 where
    w: "write_metadata_labels version m1 r1 = Inr (m2, r2)"
      "labels_list m2 r2 = Some (metadata_labels version (labels_list m1 r1))"
      "r2\<lparr>rr_Labels := None\<rparr> = r1\<lparr>rr_Labels := None\<rparr>" "length m1 \<le> length m2"
      "\<forall>a < length m1. a \<notin> set_option (rr_Labels r1) \<longrightarrow> m2 ! a = m1 ! a"
    by blast
  have "map_option gm_get (labels_list m1 r1) = map_option gm_get (labels_list m r)"
    using arg_cong [OF seen, of v_Labels] by (simp add: view_def labels_of_list)
  then have l: "gm_get (metadata_labels version (labels_list m1 r1)) = gm_get (metadata_labels version (labels_list m r))"
    by (cases "labels_list m1 r1"; cases "labels_list m r") (auto simp: fun_eq_iff metadata_labels_get)
  have "\<forall>a \<in> other_reach m1 r1. a < length m2 \<and> m2 ! a = m1 ! a"
  proof
    fix a assume a: "a \<in> other_reach m1 r1"
    with new have "a < length m1" by (auto simp: resource_shape_def)
    with a apart w(4,5) show "a < length m2 \<and> m2 ! a = m1 ! a" by auto
  qed
  from view_but_labels [OF ok this w(3)]
  have copy: "view m2 r2 = (view m r)\<lparr>v_Labels := Some (gm_get (metadata_labels version (labels_list m r)))\<rparr>"
    using w(2) l by (simp add: labels_of_list seen)
  have len: "length m \<le> length m1" using p by (rule prefix_length_le)
  have "\<forall>a \<in> reach resource_shape m r. a < length m2 \<and> m2 ! a = m ! a"
  proof
    fix a assume "a \<in> reach resource_shape m r"
    then have a: "a < length m" by (rule resource_inside [OF assms(2)])
    have "a \<notin> set_option (rr_Labels r1)"
      using new a by (auto simp: resource_shape_def pointer_shape_def)
    with a len w(4,5) have "m2 ! a = m1 ! a" by simp
    with a p len w(4) show "a < length m2 \<and> m2 ! a = m ! a" by (auto simp: prefix_def nth_append)
  qed
  from resource_stable [OF assms(2) this] w(1) copy show ?thesis by blast
qed

theorem metadata_write_refines_witness:
  "\<exists>m1 r1 m2 r2. Resource_DeepCopyInto rev sample_memory sample_rep = (m1, r1)
    \<and> write_metadata_labels ''(revision: abc)'' m1 r1 = Inr (m2, r2)
    \<and> labels_of m2 r2 = Some (gm_get (metadata_labels ''(revision: abc)'' (Some [(''a'', ''b'')])))
    \<and> view m2 sample_rep = view sample_memory sample_rep"
proof -
  obtain m1 r1 where c: "Resource_DeepCopyInto rev sample_memory sample_rep = (m1, r1)" by fastforce
  from metadata_write_refines [OF is_order_rev sample_rep_ok c, of "''(revision: abc)''"] obtain m2 r2
    where w: "write_metadata_labels ''(revision: abc)'' m1 r1 = Inr (m2, r2)"
      and v: "view m2 r2 = (view sample_memory sample_rep)
        \<lparr>v_Labels := Some (gm_get (metadata_labels ''(revision: abc)'' (labels_list sample_memory sample_rep)))\<rparr>"
      and f: "view m2 sample_rep = view sample_memory sample_rep"
    by blast
  have "labels_list sample_memory sample_rep = Some [(''a'', ''b'')]"
    by (simp add: labels_list_def sample_memory_def sample_rep_def)
  with arg_cong [OF v, of v_Labels]
  have "labels_of m2 r2 = Some (gm_get (metadata_labels ''(revision: abc)'' (Some [(''a'', ''b'')])))"
    by (simp add: view_def)
  with c w f show ?thesis by blast
qed

end
