(* ===== verification/Scheme.thy ===== *)
theory Scheme
  imports Unstructured
begin

text \<open>
  \<^verbatim>\<open>pkg/apis/crdmetrics/register.go\<close>, \<^verbatim>\<open>v1alpha1/register.go\<close> and the generated
  \<^verbatim>\<open>clientset/versioned/scheme/register.go\<close>: the registration of the program's types, with the
  part of the vendored \<^verbatim>\<open>runtime.Scheme\<close> it goes through. The converter a scheme also holds is
  left out. Every registered object is a pointer to a struct, given by its package and name.
\<close>

section \<open>Schemes\<close>

record go_type =
  ty_PkgPath :: string
  ty_Name :: string

record go_scheme =
  sc_gvkToType :: "(gvk, go_type) gomap"
  sc_typeToGVK :: "(go_type, gvk list) gomap"
  sc_unversionedTypes :: "(go_type, gvk) gomap"
  sc_unversionedKinds :: "(string, go_type) gomap"
  sc_observedVersions :: "(string \<times> string) list"

definition NewScheme :: go_scheme where
  "NewScheme = \<lparr>sc_gvkToType = [], sc_typeToGVK = [], sc_unversionedTypes = [],
     sc_unversionedKinds = [], sc_observedVersions = []\<rparr>"

definition APIVersionInternal :: string where
  "APIVersionInternal = ''__internal''"

definition WithKind :: "string \<times> string \<Rightarrow> string \<Rightarrow> gvk" where
  "WithKind gv kind = \<lparr>gvk_Group = fst gv, gvk_Version = snd gv, gvk_Kind = kind\<rparr>"

definition gvk_GroupVersion :: "gvk \<Rightarrow> string \<times> string" where
  "gvk_GroupVersion k = (gvk_Group k, gvk_Version k)"

definition addObservedVersion :: "string \<times> string \<Rightarrow> go_scheme \<Rightarrow> go_scheme" where
  "addObservedVersion version s =
     (if snd version = [] \<or> snd version = APIVersionInternal then s
      else if version \<in> set (sc_observedVersions s) then s
      else s\<lparr>sc_observedVersions := sc_observedVersions s @ [version]\<rparr>)"

definition kinds_of :: "go_scheme \<Rightarrow> go_type \<Rightarrow> gvk list" where
  "kinds_of s t = (case gm_get (sc_typeToGVK s) t of None \<Rightarrow> [] | Some ks \<Rightarrow> ks)"

definition AddKnownTypeWithName :: "gvk \<Rightarrow> go_type \<Rightarrow> go_scheme \<Rightarrow> go_scheme go" where
  "AddKnownTypeWithName k t s =
     (let s = addObservedVersion (gvk_GroupVersion k) s in
      if gvk_Version k = [] then Inl VersionRequired
      else if \<exists>old \<in> set_option (gm_get (sc_gvkToType s) k). old \<noteq> t then Inl DoubleRegistration
      else Inr (s\<lparr>sc_gvkToType := gm_set k t (sc_gvkToType s),
                  sc_typeToGVK := (if k \<in> set (kinds_of s t) then sc_typeToGVK s
                                   else gm_set t (kinds_of s t @ [k]) (sc_typeToGVK s))\<rparr>))"

text \<open>The loop over the registered types, each under its own name.\<close>

fun register_all :: "(gvk \<times> go_type) list \<Rightarrow> go_scheme \<Rightarrow> go_scheme go" where
  "register_all [] s = Inr s"
| "register_all ((k, t) # rs) s = go_bind (AddKnownTypeWithName k t s) (register_all rs)"

definition named_in :: "string \<times> string \<Rightarrow> go_type list \<Rightarrow> (gvk \<times> go_type) list" where
  "named_in gv ts = map (\<lambda>t. (WithKind gv (ty_Name t), t)) ts"

definition AddKnownTypes :: "string \<times> string \<Rightarrow> go_type list \<Rightarrow> go_scheme \<Rightarrow> go_scheme go" where
  "AddKnownTypes gv ts s = register_all (named_in gv ts) (addObservedVersion gv s)"

fun mark_unversioned :: "string \<times> string \<Rightarrow> go_type list \<Rightarrow> go_scheme \<Rightarrow> go_scheme go" where
  "mark_unversioned version [] s = Inr s"
| "mark_unversioned version (t # ts) s =
     (if \<exists>old \<in> set_option (gm_get (sc_unversionedKinds s) (ty_Name t)). t \<noteq> old
      then Inl DoubleRegistration
      else mark_unversioned version ts
        (s\<lparr>sc_unversionedTypes := gm_set t (WithKind version (ty_Name t)) (sc_unversionedTypes s),
           sc_unversionedKinds := gm_set (ty_Name t) t (sc_unversionedKinds s)\<rparr>))"

definition AddUnversionedTypes :: "string \<times> string \<Rightarrow> go_type list \<Rightarrow> go_scheme \<Rightarrow> go_scheme go" where
  "AddUnversionedTypes version ts s =
     go_bind (AddKnownTypes version ts (addObservedVersion version s)) (mark_unversioned version ts)"

definition Recognizes :: "go_scheme \<Rightarrow> gvk \<Rightarrow> bool" where
  "Recognizes s k \<longleftrightarrow> gm_get (sc_gvkToType s) k \<noteq> None"

text \<open>The type of the new object, \<open>None\<close> for a kind that is not registered.\<close>

definition scheme_New :: "go_scheme \<Rightarrow> gvk \<Rightarrow> go_type option" where
  "scheme_New s k =
     (case gm_get (sc_gvkToType s) k of
        Some t \<Rightarrow> Some t
      | None \<Rightarrow> gm_get (sc_unversionedKinds s) (gvk_Kind k))"

text \<open>The kinds of a typed object and whether it is unversioned, \<open>None\<close> if not registered.\<close>

definition ObjectKinds :: "go_scheme \<Rightarrow> go_type \<Rightarrow> (gvk list \<times> bool) option" where
  "ObjectKinds s t =
     (case gm_get (sc_typeToGVK s) t of
        None \<Rightarrow> None
      | Some ks \<Rightarrow> Some (ks, gm_get (sc_unversionedTypes s) t \<noteq> None))"

section \<open>Types of the meta group\<close>

definition meta_type :: "string \<Rightarrow> go_type" where
  "meta_type name = \<lparr>ty_PkgPath = ''k8s.io/apimachinery/pkg/apis/meta/v1'', ty_Name = name\<rparr>"

definition optionsTypes :: "go_type list" where
  "optionsTypes = map meta_type [''ListOptions'', ''GetOptions'', ''DeleteOptions'',
     ''CreateOptions'', ''UpdateOptions'', ''PatchOptions'']"

definition unversioned_meta_types :: "go_type list" where
  "unversioned_meta_types = map meta_type [''Status'', ''APIVersions'', ''APIGroupList'',
     ''APIGroup'', ''APIResourceList'']"

definition Unversioned :: "string \<times> string" where
  "Unversioned = ([], ''v1'')"

definition AddToGroupVersion :: "go_scheme \<Rightarrow> string \<times> string \<Rightarrow> go_scheme go" where
  "AddToGroupVersion s gv =
     go_bind (AddKnownTypeWithName (WithKind gv ''WatchEvent'') (meta_type ''WatchEvent'') s) (\<lambda>s.
     go_bind (AddKnownTypeWithName (WithKind (fst gv, APIVersionInternal) ''WatchEvent'')
         (meta_type ''InternalEvent'') s) (\<lambda>s.
     go_bind (AddKnownTypes gv optionsTypes s)
       (AddUnversionedTypes Unversioned unversioned_meta_types)))"

section \<open>The program's group\<close>

definition GroupName :: string where
  "GroupName = ''crdmetrics.instrumentation.k8s-sigs.io''"

definition SchemeGroupVersion :: "string \<times> string" where
  "SchemeGroupVersion = (GroupName, ''v1alpha1'')"

text \<open>A kind or a resource qualified by its group.\<close>

definition Kind :: "string \<Rightarrow> string \<times> string" where
  "Kind kind = (gvk_Group (WithKind SchemeGroupVersion kind), gvk_Kind (WithKind SchemeGroupVersion kind))"

definition Resource :: "string \<Rightarrow> string \<times> string" where
  "Resource resource = (fst SchemeGroupVersion, resource)"

definition crd_type :: "string \<Rightarrow> go_type" where
  "crd_type name = \<lparr>ty_PkgPath = ''github.com/rexagod/crdmetrics/pkg/apis/crdmetrics/v1alpha1'', ty_Name = name\<rparr>"

definition addKnownTypes :: "go_scheme \<Rightarrow> go_scheme go" where
  "addKnownTypes s =
     go_bind (AddKnownTypes SchemeGroupVersion
         [crd_type ''CRDMetricsResource'', crd_type ''CRDMetricsResourceList''] s)
       (\<lambda>s. AddToGroupVersion s SchemeGroupVersion)"

text \<open>The builders hold this one function, which returns no error.\<close>

fun AddToScheme :: "(go_scheme \<Rightarrow> go_scheme go) list \<Rightarrow> go_scheme \<Rightarrow> go_scheme go" where
  "AddToScheme [] s = Inr s"
| "AddToScheme (f # fs) s = go_bind (f s) (AddToScheme fs)"

definition localSchemeBuilder :: "(go_scheme \<Rightarrow> go_scheme go) list" where
  "localSchemeBuilder = [AddToScheme [addKnownTypes]]"

definition scheme_init :: "go_scheme go" where
  "scheme_init = go_bind (AddToGroupVersion NewScheme ([], ''v1'')) (AddToScheme localSchemeBuilder)"

section \<open>The two maps of a scheme are inverse to each other\<close>

abbreviation type_at :: "go_scheme \<Rightarrow> gvk \<Rightarrow> go_type option" where
  "type_at s k \<equiv> gm_get (sc_gvkToType s) k"

definition scheme_wf :: "go_scheme \<Rightarrow> bool" where
  "scheme_wf s \<longleftrightarrow> gm_wf (sc_gvkToType s) \<and> gm_wf (sc_typeToGVK s)
     \<and> (\<forall>t. distinct (kinds_of s t)) \<and> (\<forall>k t. type_at s k = Some t \<longleftrightarrow> k \<in> set (kinds_of s t))"

text \<open>\<open>s'\<close> is \<open>s\<close> with the registrations \<open>rs\<close>, whose versions it has observed.\<close>

definition observed :: "string \<times> string \<Rightarrow> go_scheme \<Rightarrow> bool" where
  "observed v s \<longleftrightarrow> snd v = [] \<or> snd v = APIVersionInternal \<or> v \<in> set (sc_observedVersions s)"

definition extends :: "(gvk \<times> go_type) list \<Rightarrow> go_scheme \<Rightarrow> go_scheme \<Rightarrow> bool" where
  "extends rs s s' \<longleftrightarrow> scheme_wf s'
     \<and> (\<forall>k t. type_at s' k = Some t \<longleftrightarrow> type_at s k = Some t \<or> (k, t) \<in> set rs)
     \<and> (\<forall>v. observed v s \<or> v \<in> gvk_GroupVersion ` fst ` set rs \<longrightarrow> observed v s')"

lemma kinds_of_cong [simp]:
  "kinds_of (s\<lparr>sc_observedVersions := vs\<rparr>) t = kinds_of s t"
  "kinds_of (s\<lparr>sc_gvkToType := m\<rparr>) t = kinds_of s t"
  "kinds_of (s\<lparr>sc_unversionedTypes := u, sc_unversionedKinds := w\<rparr>) t = kinds_of s t"
  by (simp_all add: kinds_of_def)

lemma addObservedVersion_parts [simp]:
  "sc_gvkToType (addObservedVersion v s) = sc_gvkToType s"
  "sc_typeToGVK (addObservedVersion v s) = sc_typeToGVK s"
  "sc_unversionedTypes (addObservedVersion v s) = sc_unversionedTypes s"
  "sc_unversionedKinds (addObservedVersion v s) = sc_unversionedKinds s"
  "kinds_of (addObservedVersion v s) t = kinds_of s t"
  by (simp_all add: addObservedVersion_def)

lemma addObservedVersion_wf [simp]: "scheme_wf (addObservedVersion v s) = scheme_wf s"
  by (simp add: scheme_wf_def)

lemma observed_add: "observed w (addObservedVersion v s) \<longleftrightarrow> observed w s \<or> w = v"
  by (auto simp: observed_def addObservedVersion_def)

lemma addObservedVersion_same: "observed v s \<Longrightarrow> addObservedVersion v s = s"
  by (auto simp: observed_def addObservedVersion_def)

lemma extends_trans: "extends rs s s1 \<Longrightarrow> extends rs' s1 s2 \<Longrightarrow> extends (rs @ rs') s s2"
  by (auto simp: extends_def image_Un)

lemma extends_refl: "scheme_wf s \<Longrightarrow> extends [] s s"
  by (simp add: extends_def)

lemma extends_observe: "extends rs (addObservedVersion v s) s' \<Longrightarrow> extends rs s s'"
  by (simp add: extends_def observed_add)

lemma extends_wf: "extends rs s s' \<Longrightarrow> scheme_wf s'"
  by (simp add: extends_def)

lemma AddKnownTypeWithName_eq:
  assumes "AddKnownTypeWithName k t s = Inr s'"
  shows "gvk_Version k \<noteq> []" and "type_at s k = None \<or> type_at s k = Some t"
    and "s' = (addObservedVersion (gvk_GroupVersion k) s)
       \<lparr>sc_gvkToType := gm_set k t (sc_gvkToType s),
        sc_typeToGVK := (if k \<in> set (kinds_of s t) then sc_typeToGVK s
           else gm_set t (kinds_of s t @ [k]) (sc_typeToGVK s))\<rparr>"
  using assms by (cases "type_at s k", auto simp: AddKnownTypeWithName_def Let_def split: if_splits)+

lemma AddKnownTypeWithName_extends:
  assumes "AddKnownTypeWithName k t s = Inr s'" and "scheme_wf s"
  shows "extends [(k, t)] s s'"
proof -
  note eq = AddKnownTypeWithName_eq [OF assms(1)]
  have at: "type_at s' j = (if j = k then Some t else type_at s j)" for j
    by (simp add: eq(3) go_map)
  have kinds: "kinds_of s' u = (if u = t \<and> k \<notin> set (kinds_of s t) then kinds_of s t @ [k] else kinds_of s u)" for u
    by (simp add: eq(3) kinds_of_def go_map)
  have only: "u = t" if "k \<in> set (kinds_of s u)" for u
  proof -
    from that assms(2) have "type_at s k = Some u" unfolding scheme_wf_def by blast
    with eq(2) show ?thesis by simp
  qed
  have "type_at s' j = Some u \<longleftrightarrow> j \<in> set (kinds_of s' u)" for j u
  proof -
    have "type_at s j = Some u \<longleftrightarrow> j \<in> set (kinds_of s u)"
      using assms(2) unfolding scheme_wf_def by blast
    then show ?thesis using only by (cases "j = k") (auto simp: at kinds)
  qed
  moreover have "gm_wf (sc_gvkToType s')" "gm_wf (sc_typeToGVK s')"
    using assms(2) by (auto simp: scheme_wf_def eq(3) gm_wf_set)
  moreover have "distinct (kinds_of s' u)" for u
    using assms(2) by (auto simp: scheme_wf_def kinds)
  ultimately have "scheme_wf s'" unfolding scheme_wf_def by blast
  moreover have "observed v s' \<longleftrightarrow> observed v s \<or> v = gvk_GroupVersion k" for v
    using observed_add [of v "gvk_GroupVersion k" s] by (simp add: eq(3) observed_def)
  ultimately show ?thesis using eq(2) by (auto simp: extends_def at)
qed

lemma register_all_extends:
  "register_all rs s = Inr s' \<Longrightarrow> scheme_wf s \<Longrightarrow> extends rs s s'"
proof (induction rs s arbitrary: s' rule: register_all.induct)
  case (2 k t rs s)
  then obtain s1 where s1: "AddKnownTypeWithName k t s = Inr s1" "register_all rs s1 = Inr s'"
    by (auto simp: go_ret)
  then have e: "extends [(k, t)] s s1" using 2 by (simp add: AddKnownTypeWithName_extends)
  with 2 s1 have "extends rs s1 s'" using extends_wf by blast
  with e show ?case using extends_trans by force
qed (simp add: extends_refl)

lemma AddKnownTypes_extends:
  "AddKnownTypes gv ts s = Inr s' \<Longrightarrow> scheme_wf s \<Longrightarrow> extends (named_in gv ts) s s'"
  unfolding AddKnownTypes_def by (rule extends_observe, rule register_all_extends) simp_all

lemma mark_unversioned_keeps:
  "mark_unversioned v ts s = Inr s' \<Longrightarrow>
   sc_gvkToType s' = sc_gvkToType s \<and> sc_typeToGVK s' = sc_typeToGVK s
   \<and> sc_observedVersions s' = sc_observedVersions s"
  by (induction v ts s rule: mark_unversioned.induct) (auto split: if_splits)

lemma AddUnversionedTypes_extends:
  assumes "AddUnversionedTypes v ts s = Inr s'" and "scheme_wf s"
  shows "extends (named_in v ts) s s'"
proof -
  obtain s1 where s1: "AddKnownTypes v ts (addObservedVersion v s) = Inr s1" "mark_unversioned v ts s1 = Inr s'"
    using assms(1) by (auto simp: AddUnversionedTypes_def go_ret)
  have "extends (named_in v ts) s s1"
    using AddKnownTypes_extends [OF s1(1)] assms(2) by (auto intro: extends_observe)
  moreover have "kinds_of s' = kinds_of s1" and "scheme_wf s' = scheme_wf s1"
    using mark_unversioned_keeps [OF s1(2)] by (auto simp: kinds_of_def scheme_wf_def)
  ultimately show ?thesis
    using mark_unversioned_keeps [OF s1(2)] by (simp add: extends_def observed_def)
qed

definition meta_registrations :: "string \<times> string \<Rightarrow> (gvk \<times> go_type) list" where
  "meta_registrations gv =
     [(WithKind gv ''WatchEvent'', meta_type ''WatchEvent''),
      (WithKind (fst gv, APIVersionInternal) ''WatchEvent'', meta_type ''InternalEvent'')]
     @ named_in gv optionsTypes @ named_in Unversioned unversioned_meta_types"

definition crd_registrations :: "(gvk \<times> go_type) list" where
  "crd_registrations =
     named_in SchemeGroupVersion [crd_type ''CRDMetricsResource'', crd_type ''CRDMetricsResourceList'']
     @ meta_registrations SchemeGroupVersion"

lemma AddToGroupVersion_extends:
  assumes "AddToGroupVersion s gv = Inr s'" and "scheme_wf s"
  shows "extends (meta_registrations gv) s s'"
proof -
  obtain s1 s2 s3 where st:
    "AddKnownTypeWithName (WithKind gv ''WatchEvent'') (meta_type ''WatchEvent'') s = Inr s1"
    "AddKnownTypeWithName (WithKind (fst gv, APIVersionInternal) ''WatchEvent'') (meta_type ''InternalEvent'') s1 = Inr s2"
    "AddKnownTypes gv optionsTypes s2 = Inr s3"
    "AddUnversionedTypes Unversioned unversioned_meta_types s3 = Inr s'"
    using assms(1) by (auto simp: AddToGroupVersion_def go_ret)
  note e1 = AddKnownTypeWithName_extends [OF st(1) assms(2)]
  note e2 = AddKnownTypeWithName_extends [OF st(2) extends_wf [OF e1]]
  note e3 = AddKnownTypes_extends [OF st(3) extends_wf [OF e2]]
  note e4 = AddUnversionedTypes_extends [OF st(4) extends_wf [OF e3]]
  from extends_trans [OF e1 extends_trans [OF e2 extends_trans [OF e3 e4]]]
  show ?thesis by (simp add: meta_registrations_def)
qed

lemma addKnownTypes_extends:
  assumes "addKnownTypes s = Inr s'" and "scheme_wf s"
  shows "extends crd_registrations s s'"
proof -
  obtain s1 where s1: "AddKnownTypes SchemeGroupVersion
      [crd_type ''CRDMetricsResource'', crd_type ''CRDMetricsResourceList''] s = Inr s1"
    "AddToGroupVersion s1 SchemeGroupVersion = Inr s'"
    using assms(1) by (auto simp: addKnownTypes_def go_ret)
  note e1 = AddKnownTypes_extends [OF s1(1) assms(2)]
  note e2 = AddToGroupVersion_extends [OF s1(2) extends_wf [OF e1]]
  from extends_trans [OF e1 e2] show ?thesis unfolding crd_registrations_def .
qed

section \<open>When a registration panics\<close>

definition no_conflict :: "(gvk \<times> go_type) list \<Rightarrow> go_scheme \<Rightarrow> bool" where
  "no_conflict rs s \<longleftrightarrow> (\<forall>(k, t) \<in> set rs. gvk_Version k \<noteq> []
     \<and> (\<forall>u. type_at s k = Some u \<or> (k, u) \<in> set rs \<longrightarrow> u = t))"

definition unversioned_free :: "go_type list \<Rightarrow> go_scheme \<Rightarrow> bool" where
  "unversioned_free ts s \<longleftrightarrow> (\<forall>t \<in> set ts. gm_get (sc_unversionedKinds s) (ty_Name t) \<in> {None, Some t})"

lemma no_conflict_step:
  assumes "no_conflict ((k, t) # rs) s" and "scheme_wf s"
  obtains s' where "AddKnownTypeWithName k t s = Inr s'" and "extends [(k, t)] s s'" and "no_conflict rs s'"
    and "sc_unversionedKinds s' = sc_unversionedKinds s"
proof -
  have "\<exists>s'. AddKnownTypeWithName k t s = Inr s'"
    using assms(1) by (auto simp: no_conflict_def AddKnownTypeWithName_def Let_def)
  then obtain s' where s': "AddKnownTypeWithName k t s = Inr s'" by blast
  note e = AddKnownTypeWithName_extends [OF s' assms(2)]
  have "no_conflict rs s'" using assms(1) e by (fastforce simp: no_conflict_def extends_def)
  moreover have "sc_unversionedKinds s' = sc_unversionedKinds s"
    using AddKnownTypeWithName_eq(3) [OF s'] by simp
  ultimately show thesis using that s' e by blast
qed

lemma register_all_ok:
  "no_conflict rs s \<Longrightarrow> scheme_wf s \<Longrightarrow>
   \<exists>s'. register_all rs s = Inr s' \<and> sc_unversionedKinds s' = sc_unversionedKinds s"
proof (induction rs arbitrary: s)
  case (Cons r rs)
  obtain k t where r: "r = (k, t)" by fastforce
  from Cons.prems obtain s1 where "AddKnownTypeWithName k t s = Inr s1" "extends [(k, t)] s s1"
    "no_conflict rs s1" "sc_unversionedKinds s1 = sc_unversionedKinds s"
    unfolding r using no_conflict_step by blast
  then show ?case using Cons.IH [of s1] extends_wf by (simp add: r)
qed simp

lemma no_conflict_append:
  assumes "no_conflict (rs @ rs') s" and "extends rs s s'"
  shows "no_conflict rs' s'"
  using assms by (fastforce simp: no_conflict_def extends_def)

lemma no_conflict_prefix: "no_conflict (rs @ rs') s \<Longrightarrow> no_conflict rs s"
  by (fastforce simp: no_conflict_def)

lemma no_conflict_observe [simp]: "no_conflict rs (addObservedVersion v s) = no_conflict rs s"
  by (simp add: no_conflict_def)

lemma AddKnownTypes_ok:
  "no_conflict (named_in gv ts) s \<Longrightarrow> scheme_wf s \<Longrightarrow>
   \<exists>s'. AddKnownTypes gv ts s = Inr s' \<and> sc_unversionedKinds s' = sc_unversionedKinds s"
  unfolding AddKnownTypes_def using register_all_ok [of _ "addObservedVersion gv s"] by simp

text \<open>The loop leaves every type marked with its kind, and other marks alone.\<close>

definition marked :: "string \<times> string \<Rightarrow> go_type list \<Rightarrow> go_scheme \<Rightarrow> bool" where
  "marked v ts s \<longleftrightarrow> (\<forall>t \<in> set ts. gm_get (sc_unversionedKinds s) (ty_Name t) = Some t
     \<and> gm_get (sc_unversionedTypes s) t = Some (WithKind v (ty_Name t)))"

lemma mark_unversioned_ok:
  assumes "distinct (map ty_Name ts)" and "unversioned_free ts s" and "marked v us s"
    and "ty_Name ` set us \<inter> ty_Name ` set ts = {}"
  shows "\<exists>s'. mark_unversioned v ts s = Inr s' \<and> marked v (us @ ts) s'"
  using assms
proof (induction ts arbitrary: s us)
  case (Cons t ts)
  let ?s = "s\<lparr>sc_unversionedTypes := gm_set t (WithKind v (ty_Name t)) (sc_unversionedTypes s),
      sc_unversionedKinds := gm_set (ty_Name t) t (sc_unversionedKinds s)\<rparr>"
  have "unversioned_free ts ?s"
  proof -
    have "ty_Name u \<noteq> ty_Name t" if "u \<in> set ts" for u
      using that Cons.prems(1) by (force simp: image_iff)
    with Cons.prems(2) show ?thesis by (simp add: unversioned_free_def gm_get_set)
  qed
  moreover have "marked v (us @ [t]) ?s"
  proof -
    have "ty_Name u \<noteq> ty_Name t \<and> u \<noteq> t" if "u \<in> set us" for u
      using that Cons.prems(4) by (force simp: image_iff)
    with Cons.prems(3) show ?thesis by (simp add: marked_def gm_get_set)
  qed
  moreover have "ty_Name ` set (us @ [t]) \<inter> ty_Name ` set ts = {}"
    using Cons.prems(1,4) by auto
  ultimately obtain s' where "mark_unversioned v ts ?s = Inr s'" "marked v ((us @ [t]) @ ts) s'"
    using Cons.IH [of ?s "us @ [t]"] Cons.prems(1) by auto
  moreover have "mark_unversioned v (t # ts) s = mark_unversioned v ts ?s"
    using Cons.prems(2) by (auto simp: unversioned_free_def)
  ultimately show ?case by simp
qed simp

lemma AddUnversionedTypes_ok:
  assumes "no_conflict (named_in v ts) s" and "scheme_wf s" and "distinct (map ty_Name ts)"
    and "unversioned_free ts s"
  shows "\<exists>s'. AddUnversionedTypes v ts s = Inr s' \<and> marked v ts s'"
proof -
  obtain s1 where s1: "AddKnownTypes v ts (addObservedVersion v s) = Inr s1"
    "sc_unversionedKinds s1 = sc_unversionedKinds s"
    using AddKnownTypes_ok [of v ts "addObservedVersion v s"] assms(1,2) by auto
  then have "unversioned_free ts s1" using assms(4) by (simp add: unversioned_free_def)
  then obtain s' where "mark_unversioned v ts s1 = Inr s'" "marked v ([] @ ts) s'"
    using mark_unversioned_ok [of ts s1 v "[]"] assms(3) by (auto simp: marked_def)
  with s1 show ?thesis by (simp add: AddUnversionedTypes_def)
qed

lemma meta_names_distinct: "distinct (map ty_Name unversioned_meta_types)"
  by (simp add: unversioned_meta_types_def meta_type_def)

lemma AddToGroupVersion_ok:
  assumes "no_conflict (meta_registrations gv) s" and "scheme_wf s"
    and "unversioned_free unversioned_meta_types s"
  shows "\<exists>s'. AddToGroupVersion s gv = Inr s' \<and> marked Unversioned unversioned_meta_types s'"
proof -
  let ?w = "WithKind gv ''WatchEvent''" and ?i = "WithKind (fst gv, APIVersionInternal) ''WatchEvent''"
  obtain s1 where s1: "AddKnownTypeWithName ?w (meta_type ''WatchEvent'') s = Inr s1"
    "extends [(?w, meta_type ''WatchEvent'')] s s1"
    "no_conflict ((?i, meta_type ''InternalEvent'')
       # named_in gv optionsTypes @ named_in Unversioned unversioned_meta_types) s1"
    "sc_unversionedKinds s1 = sc_unversionedKinds s"
    using assms(1,2) unfolding meta_registrations_def
    by (simp only: append_Cons append_Nil) (rule no_conflict_step)
  obtain s2 where s2: "AddKnownTypeWithName ?i (meta_type ''InternalEvent'') s1 = Inr s2"
    "extends [(?i, meta_type ''InternalEvent'')] s1 s2"
    "no_conflict (named_in gv optionsTypes @ named_in Unversioned unversioned_meta_types) s2"
    "sc_unversionedKinds s2 = sc_unversionedKinds s1"
    using s1(3) extends_wf [OF s1(2)] by (rule no_conflict_step)
  obtain s3 where s3: "AddKnownTypes gv optionsTypes s2 = Inr s3"
    "sc_unversionedKinds s3 = sc_unversionedKinds s2"
    using AddKnownTypes_ok [OF no_conflict_prefix [OF s2(3)] extends_wf [OF s2(2)]] by blast
  note e3 = AddKnownTypes_extends [OF s3(1) extends_wf [OF s2(2)]]
  have "unversioned_free unversioned_meta_types s3"
    using assms(3) s1(4) s2(4) s3(2) by (simp add: unversioned_free_def)
  with AddUnversionedTypes_ok [OF no_conflict_append [OF s2(3) e3] extends_wf [OF e3] meta_names_distinct]
  obtain s4 where "AddUnversionedTypes Unversioned unversioned_meta_types s3 = Inr s4"
    "marked Unversioned unversioned_meta_types s4" by blast
  with s1(1) s2(1) s3(1) show ?thesis by (simp add: AddToGroupVersion_def)
qed

lemma addKnownTypes_ok:
  assumes "no_conflict crd_registrations s" and "scheme_wf s"
    and "unversioned_free unversioned_meta_types s"
  shows "\<exists>s'. addKnownTypes s = Inr s' \<and> marked Unversioned unversioned_meta_types s'"
proof -
  let ?ts = "[crd_type ''CRDMetricsResource'', crd_type ''CRDMetricsResourceList'']"
  note nc = assms(1) [unfolded crd_registrations_def]
  obtain s1 where s1: "AddKnownTypes SchemeGroupVersion ?ts s = Inr s1"
    "sc_unversionedKinds s1 = sc_unversionedKinds s"
    using AddKnownTypes_ok [OF no_conflict_prefix [OF nc] assms(2)] by blast
  note e1 = AddKnownTypes_extends [OF s1(1) assms(2)]
  have "unversioned_free unversioned_meta_types s1"
    using assms(3) s1(2) by (simp add: unversioned_free_def)
  with AddToGroupVersion_ok [OF no_conflict_append [OF nc e1] extends_wf [OF e1]] s1(1)
  show ?thesis by (auto simp: addKnownTypes_def)
qed

section \<open>Registering again\<close>

definition settled :: "(gvk \<times> go_type) list \<Rightarrow> go_scheme \<Rightarrow> bool" where
  "settled rs s \<longleftrightarrow> scheme_wf s \<and> (\<forall>(k, t) \<in> set rs. type_at s k = Some t \<and> gvk_Version k \<noteq> []
     \<and> observed (gvk_GroupVersion k) s)"

lemma extends_settled:
  assumes "extends rs s s'" and "no_conflict rs s"
  shows "settled rs s'"
proof -
  have "type_at s' k = Some t \<and> gvk_Version k \<noteq> [] \<and> observed (gvk_GroupVersion k) s'"
    if kt: "(k, t) \<in> set rs" for k t
  proof -
    have "gvk_GroupVersion k \<in> gvk_GroupVersion ` fst ` set rs" using kt by force
    with assms(1) kt have "type_at s' k = Some t" "observed (gvk_GroupVersion k) s'"
      unfolding extends_def by blast+
    moreover have "gvk_Version k \<noteq> []" using assms(2) kt unfolding no_conflict_def by blast
    ultimately show ?thesis by blast
  qed
  with extends_wf [OF assms(1)] show ?thesis unfolding settled_def by blast
qed

lemma settled_append [simp]: "settled (rs @ rs') s \<longleftrightarrow> settled rs s \<and> settled rs' s"
  by (auto simp: settled_def)

lemma AddKnownTypeWithName_same:
  assumes "settled [(k, t)] s"
  shows "AddKnownTypeWithName k t s = Inr s"
proof -
  from assms have k: "type_at s k = Some t" "gvk_Version k \<noteq> []" "observed (gvk_GroupVersion k) s"
    by (simp_all add: settled_def)
  then have "k \<in> set (kinds_of s t)" using assms unfolding settled_def scheme_wf_def by blast
  have "gm_set k t (sc_gvkToType s) = sc_gvkToType s" using k(1) by (rule update_triv)
  with k \<open>k \<in> set (kinds_of s t)\<close> show ?thesis
    by (simp add: AddKnownTypeWithName_def addObservedVersion_same)
qed

lemma register_all_same: "settled rs s \<Longrightarrow> register_all rs s = Inr s"
  by (induction rs s rule: register_all.induct)
    (simp_all add: AddKnownTypeWithName_same settled_def)

lemma AddKnownTypes_same:
  assumes "settled (named_in gv ts) s" and "ts \<noteq> []"
  shows "AddKnownTypes gv ts s = Inr s"
proof -
  have "observed gv s"
    using assms by (cases ts) (simp_all add: settled_def named_in_def gvk_GroupVersion_def WithKind_def)
  then show ?thesis by (simp add: AddKnownTypes_def addObservedVersion_same register_all_same assms(1))
qed

lemma mark_unversioned_same: "marked v ts s \<Longrightarrow> mark_unversioned v ts s = Inr s"
proof (induction v ts s rule: mark_unversioned.induct)
  case (2 v t ts s)
  then have t: "gm_set t (WithKind v (ty_Name t)) (sc_unversionedTypes s) = sc_unversionedTypes s"
      "gm_set (ty_Name t) t (sc_unversionedKinds s) = sc_unversionedKinds s"
      "gm_get (sc_unversionedKinds s) (ty_Name t) = Some t" "marked v ts s"
    by (auto simp: marked_def update_triv)
  have "mark_unversioned v ts s = Inr s" using 2(1) t by simp
  with t show ?case by simp
qed simp

lemma AddToGroupVersion_same:
  assumes "settled (meta_registrations gv) s" and "marked Unversioned unversioned_meta_types s"
  shows "AddToGroupVersion s gv = Inr s"
proof -
  have "settled [(WithKind gv ''WatchEvent'', meta_type ''WatchEvent'')] s"
    and "settled [(WithKind (fst gv, APIVersionInternal) ''WatchEvent'', meta_type ''InternalEvent'')] s"
    and o: "settled (named_in gv optionsTypes) s"
    and u: "settled (named_in Unversioned unversioned_meta_types) s"
    using assms(1) by (auto simp: meta_registrations_def settled_def)
  moreover have "optionsTypes \<noteq> []" "unversioned_meta_types \<noteq> []"
    by (simp_all add: optionsTypes_def unversioned_meta_types_def)
  moreover have "observed Unversioned s"
    using u by (simp add: settled_def named_in_def unversioned_meta_types_def gvk_GroupVersion_def WithKind_def)
  ultimately show ?thesis
    using assms(2)
    by (simp add: AddToGroupVersion_def AddUnversionedTypes_def AddKnownTypeWithName_same
        AddKnownTypes_same mark_unversioned_same addObservedVersion_same)
qed

lemma addKnownTypes_same:
  assumes "settled crd_registrations s" and "marked Unversioned unversioned_meta_types s"
  shows "addKnownTypes s = Inr s"
  using assms
  by (simp add: addKnownTypes_def crd_registrations_def AddKnownTypes_same AddToGroupVersion_same)

section \<open>Properties\<close>

text \<open>C39: registering the program's types keeps a scheme consistent: the two maps stay inverse to each
  other, the kinds of the new types lead to these types, and nothing that was registered
  changes.\<close>

theorem registered_types:
  assumes "scheme_wf s" and "addKnownTypes s = Inr s'"
  shows "scheme_wf s'
    \<and> (\<forall>k t. type_at s' k = Some t \<longleftrightarrow> type_at s k = Some t \<or> (k, t) \<in> set crd_registrations)
    \<and> scheme_New s' (WithKind SchemeGroupVersion ''CRDMetricsResource'') = Some (crd_type ''CRDMetricsResource'')
    \<and> WithKind SchemeGroupVersion ''CRDMetricsResource'' \<in> set (kinds_of s' (crd_type ''CRDMetricsResource''))"
proof -
  let ?k = "WithKind SchemeGroupVersion ''CRDMetricsResource''" and ?t = "crd_type ''CRDMetricsResource''"
  have e: "extends crd_registrations s s'" using assms(2,1) by (rule addKnownTypes_extends)
  have "(?k, ?t) \<in> set crd_registrations" by (simp add: crd_registrations_def named_in_def crd_type_def)
  with e have k: "type_at s' ?k = Some ?t" unfolding extends_def by blast
  with e have "?k \<in> set (kinds_of s' ?t)" unfolding extends_def scheme_wf_def by blast
  moreover from k have "scheme_New s' ?k = Some ?t" by (simp add: scheme_New_def)
  ultimately show ?thesis using e unfolding extends_def by blast
qed

text \<open>The registration never panics on a scheme in which none of its kinds stands for another
  type, and doing it a second time changes nothing.\<close>

theorem registration_idempotent:
  assumes "scheme_wf s" and "no_conflict crd_registrations s"
    and "unversioned_free unversioned_meta_types s"
  shows "\<exists>s'. addKnownTypes s = Inr s' \<and> addKnownTypes s' = Inr s'"
proof -
  obtain s' where s': "addKnownTypes s = Inr s'" "marked Unversioned unversioned_meta_types s'"
    using addKnownTypes_ok [OF assms(2,1,3)] by blast
  have "settled crd_registrations s'"
    using addKnownTypes_extends [OF s'(1) assms(1)] assms(2) by (rule extends_settled)
  then show ?thesis using s' addKnownTypes_same by blast
qed

lemma NewScheme_wf: "scheme_wf NewScheme"
  by (simp add: scheme_wf_def NewScheme_def kinds_of_def)

text \<open>Each of the kinds stands for one type, which its name and version determine.\<close>

definition type_of_kind :: "gvk \<Rightarrow> go_type" where
  "type_of_kind k =
     (if gvk_Version k = APIVersionInternal then meta_type ''InternalEvent''
      else if gvk_Kind k = ''CRDMetricsResource'' \<or> gvk_Kind k = ''CRDMetricsResourceList''
      then crd_type (gvk_Kind k) else meta_type (gvk_Kind k))"

lemma no_conflict_new:
  assumes "\<forall>(k, t) \<in> set rs. gvk_Version k \<noteq> [] \<and> t = type_of_kind k"
  shows "no_conflict rs NewScheme"
proof -
  have new: "type_at NewScheme k = None" for k by (simp add: NewScheme_def)
  have rs: "gvk_Version k \<noteq> [] \<and> t = type_of_kind k" if "(k, t) \<in> set rs" for k t
    using assms that by blast
  then show ?thesis unfolding no_conflict_def new by blast
qed

lemmas registration_defs = crd_registrations_def meta_registrations_def named_in_def optionsTypes_def
  unversioned_meta_types_def meta_type_def crd_type_def WithKind_def SchemeGroupVersion_def
  Unversioned_def APIVersionInternal_def type_of_kind_def

lemma all_no_conflict: "no_conflict (meta_registrations ([], ''v1'') @ crd_registrations) NewScheme"
  by (rule no_conflict_new) (simp add: registration_defs)

lemma crd_no_conflict: "no_conflict crd_registrations NewScheme"
  by (rule no_conflict_new) (simp add: registration_defs)

lemma new_unversioned_free: "unversioned_free ts NewScheme"
  by (simp add: unversioned_free_def NewScheme_def)

theorem registered_types_witness:
  "\<exists>s'. addKnownTypes NewScheme = Inr s'
    \<and> scheme_New s' (WithKind SchemeGroupVersion ''CRDMetricsResource'') = Some (crd_type ''CRDMetricsResource'')"
proof -
  obtain s' where "addKnownTypes NewScheme = Inr s'"
    using addKnownTypes_ok [OF crd_no_conflict NewScheme_wf new_unversioned_free] by blast
  then show ?thesis using registered_types [OF NewScheme_wf] by blast
qed

theorem registration_idempotent_witness:
  "\<exists>s s'. AddToGroupVersion NewScheme ([], ''v1'') = Inr s \<and> addKnownTypes s = Inr s' \<and> addKnownTypes s' = Inr s'"
proof -
  obtain s where s: "AddToGroupVersion NewScheme ([], ''v1'') = Inr s"
    "marked Unversioned unversioned_meta_types s"
    using AddToGroupVersion_ok [OF no_conflict_prefix [OF all_no_conflict] NewScheme_wf new_unversioned_free]
    by blast
  note e = AddToGroupVersion_extends [OF s(1) NewScheme_wf]
  have "no_conflict crd_registrations s" using all_no_conflict e by (rule no_conflict_append)
  moreover have "unversioned_free unversioned_meta_types s"
    using s(2) by (simp add: marked_def unversioned_free_def)
  ultimately show ?thesis using s(1) registration_idempotent [OF extends_wf [OF e]] by blast
qed

end
