(* ===== verification/Informers.thy ===== *)
theory Informers
  imports Scheme
begin

text \<open>
  The generated \<^verbatim>\<open>pkg/generated/informers/externalversions\<close>: the factory that makes one shared
  informer for a type, starts each at most once and waits for them, and the accessors through
  which the controller reaches its informer. An informer is a pointer; a heap holds what it
  points to: what it lists and watches, and how often it was told to run. Its cache and its
  goroutine are client-go's.
\<close>

declare map_of_eq_Some_iff [simp del]

section \<open>Informers\<close>

record ('c, 'o, 't) informer =
  if_client :: 'c
  if_namespace :: string
  if_tweak :: "('o \<Rightarrow> 'o) option"
  if_resync :: int
  if_transform :: "'t option"
  if_handlers :: nat
  if_runs :: nat

text \<open>What its reflector asks the API for: the given options, after the tweak if there is one.\<close>

definition tweaked :: "('o \<Rightarrow> 'o) option \<Rightarrow> 'o \<Rightarrow> 'o" where
  "tweaked tweakListOptions options = (case tweakListOptions of None \<Rightarrow> options | Some t \<Rightarrow> t options)"

definition informer_ListFunc :: "('c \<Rightarrow> string \<Rightarrow> 'o \<Rightarrow> 'r) \<Rightarrow> ('c, 'o, 't) informer \<Rightarrow> 'o \<Rightarrow> 'r" where
  "informer_ListFunc list i options = list (if_client i) (if_namespace i) (tweaked (if_tweak i) options)"

definition informer_WatchFunc :: "('c \<Rightarrow> string \<Rightarrow> 'o \<Rightarrow> 'r) \<Rightarrow> ('c, 'o, 't) informer \<Rightarrow> 'o \<Rightarrow> 'r" where
  "informer_WatchFunc watch i options = watch (if_client i) (if_namespace i) (tweaked (if_tweak i) options)"

definition NewFilteredCRDMetricsResourceInformer ::
    "'c \<Rightarrow> string \<Rightarrow> int \<Rightarrow> ('o \<Rightarrow> 'o) option \<Rightarrow> ('c, 'o, 't) informer" where
  "NewFilteredCRDMetricsResourceInformer client namespace resyncPeriod tweakListOptions =
     \<lparr>if_client = client, if_namespace = namespace, if_tweak = tweakListOptions,
      if_resync = resyncPeriod, if_transform = None, if_handlers = 0, if_runs = 0\<rparr>"

definition NewCRDMetricsResourceInformer :: "'c \<Rightarrow> string \<Rightarrow> int \<Rightarrow> ('c, 'o, 't) informer" where
  "NewCRDMetricsResourceInformer client namespace resyncPeriod =
     NewFilteredCRDMetricsResourceInformer client namespace resyncPeriod None"

section \<open>The factory\<close>

record ('c, 'o, 't) sharedInformerFactory =
  sf_client :: 'c
  sf_namespace :: string
  sf_tweak :: "('o \<Rightarrow> 'o) option"
  sf_defaultResync :: int
  sf_customResync :: "(go_type, int) gomap"
  sf_transform :: "'t option"
  sf_informers :: "(go_type, nat) gomap"
  sf_startedInformers :: "(go_type, bool) gomap"
  sf_wg :: nat
  sf_shuttingDown :: bool

type_synonym ('c, 'o, 't) fstate = "('c, 'o, 't) sharedInformerFactory \<times> ('c, 'o, 't) informer list"

definition NamespaceAll :: string where
  "NamespaceAll = []"

definition WithCustomResyncConfig ::
    "(go_type \<times> int) list \<Rightarrow> ('c, 'o, 't) sharedInformerFactory \<Rightarrow> ('c, 'o, 't) sharedInformerFactory" where
  "WithCustomResyncConfig resyncConfig f =
     f\<lparr>sf_customResync := fold (\<lambda>(k, v). gm_set k v) resyncConfig (sf_customResync f)\<rparr>"

definition WithTweakListOptions ::
    "('o \<Rightarrow> 'o) option \<Rightarrow> ('c, 'o, 't) sharedInformerFactory \<Rightarrow> ('c, 'o, 't) sharedInformerFactory" where
  "WithTweakListOptions tweak f = f\<lparr>sf_tweak := tweak\<rparr>"

definition WithNamespace ::
    "string \<Rightarrow> ('c, 'o, 't) sharedInformerFactory \<Rightarrow> ('c, 'o, 't) sharedInformerFactory" where
  "WithNamespace namespace f = f\<lparr>sf_namespace := namespace\<rparr>"

definition WithTransform ::
    "'t \<Rightarrow> ('c, 'o, 't) sharedInformerFactory \<Rightarrow> ('c, 'o, 't) sharedInformerFactory" where
  "WithTransform transform f = f\<lparr>sf_transform := Some transform\<rparr>"

definition NewSharedInformerFactoryWithOptions ::
    "'c \<Rightarrow> int \<Rightarrow> (('c, 'o, 't) sharedInformerFactory \<Rightarrow> ('c, 'o, 't) sharedInformerFactory) list
     \<Rightarrow> ('c, 'o, 't) sharedInformerFactory" where
  "NewSharedInformerFactoryWithOptions client defaultResync options =
     fold (\<lambda>opt f. opt f) options
       \<lparr>sf_client = client, sf_namespace = NamespaceAll, sf_tweak = None,
        sf_defaultResync = defaultResync, sf_customResync = [], sf_transform = None,
        sf_informers = [], sf_startedInformers = [], sf_wg = 0, sf_shuttingDown = False\<rparr>"

definition NewSharedInformerFactory :: "'c \<Rightarrow> int \<Rightarrow> ('c, 'o, 't) sharedInformerFactory" where
  "NewSharedInformerFactory client defaultResync =
     NewSharedInformerFactoryWithOptions client defaultResync []"

definition NewFilteredSharedInformerFactory ::
    "'c \<Rightarrow> int \<Rightarrow> string \<Rightarrow> ('o \<Rightarrow> 'o) option \<Rightarrow> ('c, 'o, 't) sharedInformerFactory" where
  "NewFilteredSharedInformerFactory client defaultResync namespace tweak =
     NewSharedInformerFactoryWithOptions client defaultResync
       [WithNamespace namespace, WithTweakListOptions tweak]"

text \<open>\<open>newFunc\<close> makes the informer; the address of the shared one is returned.\<close>

definition InformerFor ::
    "go_type \<Rightarrow> ('c \<Rightarrow> int \<Rightarrow> ('c, 'o, 't) informer) \<Rightarrow> ('c, 'o, 't) fstate \<Rightarrow> nat \<times> ('c, 'o, 't) fstate" where
  "InformerFor informerType newFunc = (\<lambda>(f, hp).
     (case gm_get (sf_informers f) informerType of
        Some informer \<Rightarrow> (informer, f, hp)
      | None \<Rightarrow>
          (let resyncPeriod = (case gm_get (sf_customResync f) informerType of
                 None \<Rightarrow> sf_defaultResync f | Some r \<Rightarrow> r);
               informer = (newFunc (sf_client f) resyncPeriod)\<lparr>if_transform := sf_transform f\<rparr>
           in (length hp, f\<lparr>sf_informers := gm_set informerType (length hp) (sf_informers f)\<rparr>,
               hp @ [informer]))))"

definition start_one :: "go_type \<times> nat \<Rightarrow> ('c, 'o, 't) fstate \<Rightarrow> ('c, 'o, 't) fstate" where
  "start_one = (\<lambda>(informerType, informer) (f, hp).
     if gm_get (sf_startedInformers f) informerType = Some True then (f, hp)
     else (f\<lparr>sf_wg := Suc (sf_wg f),
             sf_startedInformers := gm_set informerType True (sf_startedInformers f)\<rparr>,
           hp[informer := (hp ! informer)\<lparr>if_runs := Suc (if_runs (hp ! informer))\<rparr>]))"

type_synonym informer_order = "(go_type \<times> nat) list \<Rightarrow> (go_type \<times> nat) list"

definition Start :: "informer_order \<Rightarrow> ('c, 'o, 't) fstate \<Rightarrow> ('c, 'o, 't) fstate" where
  "Start ord = (\<lambda>(f, hp). if sf_shuttingDown f then (f, hp) else fold start_one (ord (sf_informers f)) (f, hp))"

text \<open>\<open>Shutdown\<close> marks the factory, then waits until no goroutine runs: \<open>True\<close> when it returns.\<close>

definition factory_Shutdown :: "('c, 'o, 't) fstate \<Rightarrow> bool \<times> ('c, 'o, 't) fstate" where
  "factory_Shutdown = (\<lambda>(f, hp). (sf_wg f = 0, f\<lparr>sf_shuttingDown := True\<rparr>, hp))"

text \<open>\<open>sync\<close> is what \<^verbatim>\<open>cache.WaitForCacheSync\<close> answers for an informer.\<close>

definition started_informers :: "('c, 'o, 't) sharedInformerFactory \<Rightarrow> (go_type, nat) gomap" where
  "started_informers f =
     filter (\<lambda>(typ, a). gm_get (sf_startedInformers f) typ = Some True) (sf_informers f)"

definition factory_WaitForCacheSync ::
    "(nat \<Rightarrow> bool) \<Rightarrow> informer_order \<Rightarrow> ('c, 'o, 't) sharedInformerFactory \<Rightarrow> (go_type, bool) gomap" where
  "factory_WaitForCacheSync sync ord f =
     fold (\<lambda>(typ, a). gm_set typ (sync a)) (ord (started_informers f)) []"

section \<open>Access to the informer of the managed resources\<close>

record 'o resource_access =
  ra_namespace :: string
  ra_tweak :: "('o \<Rightarrow> 'o) option"

text \<open>The interfaces of group and version pass on what they are given.\<close>

definition Crdmetrics :: "('c, 'o, 't) sharedInformerFactory \<Rightarrow> 'o resource_access" where
  "Crdmetrics f = \<lparr>ra_namespace = sf_namespace f, ra_tweak = sf_tweak f\<rparr>"

definition V1alpha1 :: "'o resource_access \<Rightarrow> 'o resource_access" where
  "V1alpha1 g = \<lparr>ra_namespace = ra_namespace g, ra_tweak = ra_tweak g\<rparr>"

definition CRDMetricsResources :: "'o resource_access \<Rightarrow> 'o resource_access" where
  "CRDMetricsResources v = \<lparr>ra_namespace = ra_namespace v, ra_tweak = ra_tweak v\<rparr>"

definition defaultInformer :: "'o resource_access \<Rightarrow> 'c \<Rightarrow> int \<Rightarrow> ('c, 'o, 't) informer" where
  "defaultInformer ra client resyncPeriod =
     NewFilteredCRDMetricsResourceInformer client (ra_namespace ra) resyncPeriod (ra_tweak ra)"

definition Informer :: "'o resource_access \<Rightarrow> ('c, 'o, 't) fstate \<Rightarrow> nat \<times> ('c, 'o, 't) fstate" where
  "Informer ra = InformerFor (crd_type ''CRDMetricsResource'') (defaultInformer ra)"

text \<open>A lister is the informer whose indexer it reads.\<close>

definition Lister :: "'o resource_access \<Rightarrow> ('c, 'o, 't) fstate \<Rightarrow> nat \<times> ('c, 'o, 't) fstate" where
  "Lister ra s = Informer ra s"

definition managed_resources :: "('c, 'o, 't) fstate \<Rightarrow> nat \<times> ('c, 'o, 't) fstate" where
  "managed_resources s = Informer (CRDMetricsResources (V1alpha1 (Crdmetrics (fst s)))) s"

text \<open>\<open>None\<close> is the error that no informer was found.\<close>

definition ForResource ::
    "string \<times> string \<times> string \<Rightarrow> ('c, 'o, 't) fstate \<Rightarrow> ((string \<times> string) \<times> nat) option \<times> ('c, 'o, 't) fstate" where
  "ForResource resource s =
     (case resource of (grp, version, name) \<Rightarrow>
        if (grp, version) = SchemeGroupVersion \<and> name = ''crdmetricsresources''
        then (case managed_resources s of (a, s) \<Rightarrow> (Some ((grp, name), a), s))
        else (None, s))"

definition AddEventHandler :: "nat \<Rightarrow> ('c, 'o, 't) fstate \<Rightarrow> ('c, 'o, 't) fstate" where
  "AddEventHandler a = (\<lambda>(f, hp). (f, hp[a := (hp ! a)\<lparr>if_handlers := Suc (if_handlers (hp ! a))\<rparr>]))"

text \<open>What \<^verbatim>\<open>NewController\<close> does with the factory, and then \<^verbatim>\<open>Run\<close>.\<close>

definition controller_informers :: "'c \<Rightarrow> ('c, 'o, 't) fstate" where
  "controller_informers client =
     (case managed_resources (NewSharedInformerFactory client 0, []) of (a, s) \<Rightarrow> AddEventHandler a s)"

definition run_informers :: "informer_order \<Rightarrow> 'c \<Rightarrow> ('c, 'o, 't) fstate" where
  "run_informers ord client = Start ord (controller_informers client)"

section \<open>Steps and invariant\<close>

text \<open>Calls of the factory, in any order, and goroutines that end.\<close>

inductive factory_step :: "('c, 'o, 't) fstate \<Rightarrow> ('c, 'o, 't) fstate \<Rightarrow> bool" where
  informer_for: "(\<And>c q. if_runs (newFunc c q) = 0)
    \<Longrightarrow> InformerFor typ newFunc s = (a, s') \<Longrightarrow> factory_step s s'"
| handler: "factory_step s (AddEventHandler a s)"
| start: "is_order ord \<Longrightarrow> factory_step s (Start ord s)"
| ended: "sf_wg f = Suc n \<Longrightarrow> factory_step (f, hp) (f\<lparr>sf_wg := n\<rparr>, hp)"
| shutdown: "factory_Shutdown s = (returned, s') \<Longrightarrow> factory_step s s'"

definition started :: "('c, 'o, 't) sharedInformerFactory \<Rightarrow> go_type \<Rightarrow> bool" where
  "started f typ \<longleftrightarrow> gm_get (sf_startedInformers f) typ = Some True"

definition factory_inv :: "('c, 'o, 't) fstate \<Rightarrow> bool" where
  "factory_inv = (\<lambda>(f, hp). gm_wf (sf_informers f)
     \<and> (\<forall>typ. started f typ \<longrightarrow> gm_get (sf_informers f) typ \<noteq> None)
     \<and> (\<forall>typ a. gm_get (sf_informers f) typ = Some a \<longrightarrow>
          a < length hp \<and> if_runs (hp ! a) = (if started f typ then 1 else 0))
     \<and> (\<forall>typ typ' a. gm_get (sf_informers f) typ = Some a \<and> gm_get (sf_informers f) typ' = Some a \<longrightarrow> typ = typ'))"

definition same_informers :: "('c, 'o, 't) fstate \<Rightarrow> ('c, 'o, 't) fstate \<Rightarrow> bool" where
  "same_informers s s' \<longleftrightarrow>
     (\<forall>typ a. gm_get (sf_informers (fst s)) typ = Some a \<longrightarrow> gm_get (sf_informers (fst s')) typ = Some a)
     \<and> (\<forall>typ. started (fst s) typ \<longrightarrow> started (fst s') typ)
     \<and> (sf_shuttingDown (fst s) \<longrightarrow> sf_shuttingDown (fst s'))"

lemma same_informers_refl [simp]: "same_informers s s"
  by (simp add: same_informers_def)

lemma same_informers_trans: "same_informers s s1 \<Longrightarrow> same_informers s1 s2 \<Longrightarrow> same_informers s s2"
  by (simp add: same_informers_def)

lemma InformerFor_inv:
  assumes "InformerFor typ newFunc s = (a, s')" and "\<And>c q. if_runs (newFunc c q) = 0" and "factory_inv s"
  shows "factory_inv s' \<and> same_informers s s' \<and> gm_get (sf_informers (fst s')) typ = Some a"
proof -
  obtain f hp where s: "s = (f, hp)" by fastforce
  show ?thesis
  proof (cases "gm_get (sf_informers f) typ")
    case (Some b)
    with assms show ?thesis by (auto simp: InformerFor_def s)
  next
    case None
    then have ns: "\<not> started f typ" using assms(3) by (auto simp: factory_inv_def s)
    let ?r = "case gm_get (sf_customResync f) typ of None \<Rightarrow> sf_defaultResync f | Some r \<Rightarrow> r"
    let ?i = "(newFunc (sf_client f) ?r)\<lparr>if_transform := sf_transform f\<rparr>"
    let ?f = "f\<lparr>sf_informers := gm_set typ (length hp) (sf_informers f)\<rparr>"
    from assms(1) None have s': "s' = (?f, hp @ [?i])" and a: "a = length hp"
      by (auto simp: InformerFor_def s Let_def)
    have st: "started ?f = started f" by (simp add: started_def fun_eq_iff)
    have inv: "gm_wf (sf_informers f)"
      "\<And>t. started f t \<Longrightarrow> gm_get (sf_informers f) t \<noteq> None"
      "\<And>t b. gm_get (sf_informers f) t = Some b \<Longrightarrow> b < length hp \<and> if_runs (hp ! b) = (if started f t then 1 else 0)"
      "\<And>t t' b. gm_get (sf_informers f) t = Some b \<Longrightarrow> gm_get (sf_informers f) t' = Some b \<Longrightarrow> t = t'"
      using assms(3) by (auto simp: factory_inv_def s)
    have "gm_wf (sf_informers ?f)" by (simp add: inv(1) gm_wf_set)
    moreover have "gm_get (sf_informers ?f) t \<noteq> None" if "started ?f t" for t
      using that inv(2) by (simp add: st gm_get_set)
    moreover have "b < length (hp @ [?i]) \<and> if_runs ((hp @ [?i]) ! b) = (if started f t then 1 else 0)"
      if "gm_get (sf_informers ?f) t = Some b" for t b
    proof (cases "t = typ")
      case True
      with that have "b = length hp" by (simp add: gm_get_set)
      then show ?thesis using True ns assms(2) by simp
    next
      case False
      with that have "gm_get (sf_informers f) t = Some b" by (simp add: gm_get_set)
      from inv(3) [OF this] show ?thesis by (simp add: nth_append)
    qed
    moreover have "t = t'"
      if t: "gm_get (sf_informers ?f) t = Some b" "gm_get (sf_informers ?f) t' = Some b" for t t' b
    proof -
      have old: "gm_get (sf_informers f) u = Some b" if "gm_get (sf_informers ?f) u = Some b" "u \<noteq> typ" for u
        using that by (simp add: gm_get_set)
      have new: "b = length hp" if "gm_get (sf_informers ?f) typ = Some b" using that by (simp add: gm_get_set)
      show ?thesis
        using t old new inv(3,4) by (metis less_irrefl)
    qed
    ultimately have "factory_inv s'"
      unfolding factory_inv_def s' prod.case st by blast
    then show ?thesis
      using None by (auto simp: s s' a same_informers_def started_def gm_get_set)
  qed
qed

text \<open>What the loop of \<open>Start\<close> does, whatever the order: the informers of the entries that were
  not started are run once more.\<close>

definition run_once_more :: "('c, 'o, 't) informer \<Rightarrow> ('c, 'o, 't) informer" where
  "run_once_more i = i\<lparr>if_runs := Suc (if_runs i)\<rparr>"

lemma start_one_eq:
  "start_one (typ, a) (f, hp) =
     (if started f typ then (f, hp)
      else (f\<lparr>sf_wg := Suc (sf_wg f), sf_startedInformers := gm_set typ True (sf_startedInformers f)\<rparr>,
            hp[a := run_once_more (hp ! a)]))"
  by (simp add: start_one_def started_def run_once_more_def)

lemma started_set [simp]:
  "started (f\<lparr>sf_wg := n, sf_startedInformers := gm_set typ True (sf_startedInformers f)\<rparr>) t
     \<longleftrightarrow> started f t \<or> t = typ"
  by (auto simp: started_def gm_get_set)

lemma fold_start:
  assumes "fold start_one xs (f, hp) = (f', hp')" and "distinct (map fst xs)" and "distinct (map snd xs)"
    and "\<forall>x \<in> set xs. snd x < length hp"
  shows "sf_informers f' = sf_informers f \<and> sf_shuttingDown f' = sf_shuttingDown f
    \<and> (\<forall>t. started f' t \<longleftrightarrow> started f t \<or> t \<in> fst ` set xs)
    \<and> sf_wg f' = sf_wg f + length (filter (\<lambda>x. \<not> started f (fst x)) xs)
    \<and> length hp' = length hp
    \<and> (\<forall>a < length hp. hp' ! a = (if \<exists>t. (t, a) \<in> set xs \<and> \<not> started f t then run_once_more (hp ! a) else hp ! a))"
  using assms
proof (induction xs arbitrary: f hp)
  case (Cons x xs)
  obtain ty a where x: "x = (ty, a)" by fastforce
  have other: "t \<noteq> ty \<and> b \<noteq> a" if "(t, b) \<in> set xs" for t b
    using that Cons.prems(2,3) by (force simp: x image_iff)
  show ?case
  proof (cases "started f ty")
    case True
    with Cons.prems(1) have "fold start_one xs (f, hp) = (f', hp')" by (simp add: x start_one_eq)
    from Cons.IH [OF this] Cons.prems(2-4) True show ?thesis by (auto simp: x)
  next
    case False
    let ?f = "f\<lparr>sf_wg := Suc (sf_wg f), sf_startedInformers := gm_set ty True (sf_startedInformers f)\<rparr>"
    let ?hp = "hp[a := run_once_more (hp ! a)]"
    from Cons.prems(1) False have "fold start_one xs (?f, ?hp) = (f', hp')" by (simp add: x start_one_eq)
    from Cons.IH [OF this] Cons.prems(2-4)
    have ih: "sf_informers f' = sf_informers f" "sf_shuttingDown f' = sf_shuttingDown f"
      "\<forall>t. started f' t \<longleftrightarrow> started ?f t \<or> t \<in> fst ` set xs"
      "sf_wg f' = sf_wg ?f + length (filter (\<lambda>x. \<not> started ?f (fst x)) xs)" "length hp' = length hp"
      "\<forall>b < length hp. hp' ! b = (if \<exists>t. (t, b) \<in> set xs \<and> \<not> started ?f t then run_once_more (?hp ! b) else ?hp ! b)"
      by simp_all
    have "filter (\<lambda>x. \<not> started ?f (fst x)) xs = filter (\<lambda>x. \<not> started f (fst x)) xs"
    proof (rule filter_cong)
      fix y
      assume "y \<in> set xs"
      then have "fst y \<noteq> ty" using other [of "fst y" "snd y"] by simp
      then show "(\<not> started ?f (fst y)) = (\<not> started f (fst y))" by simp
    qed simp
    moreover have "hp' ! b = (if \<exists>t. (t, b) \<in> set (x # xs) \<and> \<not> started f t then run_once_more (hp ! b) else hp ! b)"
      if "b < length hp" for b
    proof (cases "b = a")
      case True
      then have "\<nexists>t. (t, b) \<in> set xs" using other by blast
      with ih(6) that True False show ?thesis by (auto simp: x)
    next
      case neq: False
      then have e: "(\<exists>t. (t, b) \<in> set xs \<and> \<not> started ?f t) \<longleftrightarrow> (\<exists>t. (t, b) \<in> set (x # xs) \<and> \<not> started f t)"
        using other [of ty] unfolding x started_set by (metis list.set_intros(2) prod.inject set_ConsD)
      from ih(6) that have "hp' ! b = (if \<exists>t. (t, b) \<in> set xs \<and> \<not> started ?f t
          then run_once_more (?hp ! b) else ?hp ! b)" by blast
      then show ?thesis unfolding e using neq by (metis nth_list_update_neq)
    qed
    ultimately show ?thesis using ih False by (auto simp: x)
  qed
qed simp

lemma Start_eq:
  assumes "is_order ord" and "factory_inv (f, hp)" and "Start ord (f, hp) = (f', hp')"
  shows "sf_informers f' = sf_informers f \<and> sf_shuttingDown f' = sf_shuttingDown f \<and> length hp' = length hp
    \<and> (\<forall>t. started f' t \<longleftrightarrow> started f t \<or> \<not> sf_shuttingDown f \<and> gm_get (sf_informers f) t \<noteq> None)
    \<and> (\<forall>t a. gm_get (sf_informers f) t = Some a \<longrightarrow>
         hp' ! a = (if started f t \<or> sf_shuttingDown f then hp ! a else run_once_more (hp ! a)))"
proof (cases "sf_shuttingDown f")
  case True
  with assms(3) show ?thesis by (auto simp: Start_def)
next
  case False
  let ?xs = "ord (sf_informers f)"
  have inv: "gm_wf (sf_informers f)"
      "\<And>t b. gm_get (sf_informers f) t = Some b \<Longrightarrow> b < length hp"
      "\<And>t t' b. gm_get (sf_informers f) t = Some b \<Longrightarrow> gm_get (sf_informers f) t' = Some b \<Longrightarrow> t = t'"
    using assms(2) by (auto simp: factory_inv_def)
  have mem: "(t, b) \<in> set ?xs \<longleftrightarrow> gm_get (sf_informers f) t = Some b" for t b
    by (simp add: is_order_set [OF assms(1)] gm_get_mem [OF inv(1)])
  have "mset (map fst ?xs) = mset (map fst (sf_informers f))"
    using is_order_mset [OF assms(1)] by (metis mset_map)
  then have d1: "distinct (map fst ?xs)" using inv(1) by (metis distinct_count_atmost_1 mset_eq_setD)
  have "inj_on snd (set ?xs)" using inv(3) by (auto simp: inj_on_def mem)
  then have d2: "distinct (map snd ?xs)" using d1 by (simp add: distinct_map)
  have "\<forall>x \<in> set ?xs. snd x < length hp" using inv(2) mem by auto
  moreover have "fold start_one ?xs (f, hp) = (f', hp')" using assms(3) False by (simp add: Start_def)
  ultimately have fs: "sf_informers f' = sf_informers f" "sf_shuttingDown f' = sf_shuttingDown f"
    "\<forall>t. started f' t \<longleftrightarrow> started f t \<or> t \<in> fst ` set ?xs" "length hp' = length hp"
    "\<forall>a < length hp. hp' ! a = (if \<exists>t. (t, a) \<in> set ?xs \<and> \<not> started f t then run_once_more (hp ! a) else hp ! a)"
    using fold_start [OF _ d1 d2] by blast+
  have keys: "t \<in> fst ` set ?xs \<longleftrightarrow> gm_get (sf_informers f) t \<noteq> None" for t
    using mem [of t] by (force simp: image_iff)
  have "hp' ! a = (if started f t then hp ! a else run_once_more (hp ! a))"
    if t: "gm_get (sf_informers f) t = Some a" for t a
  proof -
    have "(\<exists>u. (u, a) \<in> set ?xs \<and> \<not> started f u) \<longleftrightarrow> \<not> started f t" using t inv(3) mem by blast
    with fs(5) inv(2) [OF t] show ?thesis by simp
  qed
  with fs keys False show ?thesis by simp
qed

lemma Start_inv:
  assumes "is_order ord" and "factory_inv s"
  shows "factory_inv (Start ord s) \<and> same_informers s (Start ord s)"
proof -
  obtain f hp where s: "s = (f, hp)" by fastforce
  obtain f' hp' where s': "Start ord (f, hp) = (f', hp')" by fastforce
  note eq = Start_eq [OF assms(1) assms(2) [unfolded s] s']
  have inv: "gm_wf (sf_informers f)" "\<And>t. started f t \<Longrightarrow> gm_get (sf_informers f) t \<noteq> None"
      "\<And>t b. gm_get (sf_informers f) t = Some b \<Longrightarrow> b < length hp \<and> if_runs (hp ! b) = (if started f t then 1 else 0)"
      "\<And>t t' b. gm_get (sf_informers f) t = Some b \<Longrightarrow> gm_get (sf_informers f) t' = Some b \<Longrightarrow> t = t'"
    using assms(2) by (auto simp: factory_inv_def s)
  have "b < length hp' \<and> if_runs (hp' ! b) = (if started f' t then 1 else 0)"
    if "gm_get (sf_informers f) t = Some b" for t b
    using inv(3) [OF that] eq that by (simp add: run_once_more_def)
  with inv eq have "factory_inv (f', hp')" unfolding factory_inv_def prod.case by metis
  moreover have "same_informers (f, hp) (f', hp')" using eq by (simp add: same_informers_def)
  ultimately show ?thesis by (simp add: s s')
qed

lemma runs_handler [simp]:
  "if_runs (hp[a := (hp ! a)\<lparr>if_handlers := n\<rparr>] ! b) = if_runs (hp ! b)"
  by (cases "a = b"; cases "a < length hp") (simp_all add: list_update_beyond)

lemma AddEventHandler_inv:
  "factory_inv s \<Longrightarrow> factory_inv (AddEventHandler a s) \<and> same_informers s (AddEventHandler a s)"
  by (cases s) (simp add: AddEventHandler_def factory_inv_def same_informers_def nth_list_update)

lemma factory_step_inv:
  assumes "factory_step s s'" and "factory_inv s"
  shows "factory_inv s' \<and> same_informers s s'"
  using assms
proof (induction rule: factory_step.induct)
  case (informer_for newFunc ty s a s')
  then show ?case using InformerFor_inv by blast
next
  case (handler s a)
  then show ?case by (rule AddEventHandler_inv)
next
  case (start ord s)
  then show ?case by (rule Start_inv)
next
  case (ended f n hp)
  then show ?case by (simp add: factory_inv_def same_informers_def started_def)
next
  case (shutdown s returned s')
  then show ?case by (cases s) (auto simp: factory_Shutdown_def factory_inv_def same_informers_def started_def)
qed

lemma new_factory_inv: "factory_inv (NewSharedInformerFactory client resync, [])"
  by (simp add: NewSharedInformerFactory_def NewSharedInformerFactoryWithOptions_def factory_inv_def started_def)

lemma factory_steps_inv:
  "factory_step\<^sup>*\<^sup>* s s' \<Longrightarrow> factory_inv s \<Longrightarrow> factory_inv s' \<and> same_informers s s'"
proof (induction rule: rtranclp_induct)
  case (step q r)
  with factory_step_inv [OF step(2)] same_informers_trans show ?case by blast
qed simp

section \<open>The informer of the controller\<close>

definition new_informer :: "'c \<Rightarrow> ('c, 'o, 't) informer" where
  "new_informer client = \<lparr>if_client = client, if_namespace = NamespaceAll, if_tweak = None,
     if_resync = 0, if_transform = None, if_handlers = 0, if_runs = 0\<rparr>"

lemma controller_informers_eq:
  "controller_informers client =
     ((NewSharedInformerFactory client 0)\<lparr>sf_informers := [(crd_type ''CRDMetricsResource'', 0)]\<rparr>,
      [(new_informer client)\<lparr>if_handlers := 1\<rparr>])"
  by (simp add: controller_informers_def managed_resources_def Informer_def InformerFor_def
      NewSharedInformerFactory_def NewSharedInformerFactoryWithOptions_def defaultInformer_def
      NewFilteredCRDMetricsResourceInformer_def CRDMetricsResources_def V1alpha1_def Crdmetrics_def
      AddEventHandler_def new_informer_def Let_def)

lemma run_informers_eq:
  assumes "is_order ord"
  shows "run_informers ord client =
     ((NewSharedInformerFactory client 0)\<lparr>sf_informers := [(crd_type ''CRDMetricsResource'', 0)],
        sf_startedInformers := [(crd_type ''CRDMetricsResource'', True)], sf_wg := 1\<rparr>,
      [(new_informer client)\<lparr>if_handlers := 1, if_runs := 1\<rparr>])"
  using assms
  by (simp add: run_informers_def controller_informers_eq Start_def start_one_def
      NewSharedInformerFactory_def NewSharedInformerFactoryWithOptions_def new_informer_def)

lemma defaultInformer_runs [simp]: "if_runs (defaultInformer ra c q) = 0"
  by (simp add: defaultInformer_def NewFilteredCRDMetricsResourceInformer_def)

lemma controller_informers_steps:
  "factory_step\<^sup>*\<^sup>* (NewSharedInformerFactory client 0, []) (controller_informers client :: ('c, 'o, 't) fstate)"
proof -
  let ?s = "(NewSharedInformerFactory client 0, []) :: ('c, 'o, 't) fstate"
  obtain a s where m: "managed_resources ?s = (a, s)" by (cases "managed_resources ?s")
  then have "factory_step ?s s"
    unfolding managed_resources_def Informer_def
    by (rule factory_step.informer_for [rotated]) simp
  moreover have "factory_step s (controller_informers client)"
    by (simp add: controller_informers_def m factory_step.handler)
  ultimately show ?thesis by (meson rtranclp.rtrancl_into_rtrancl rtranclp.rtrancl_refl)
qed

lemma run_informers_steps:
  assumes "is_order ord"
  shows "factory_step\<^sup>*\<^sup>* (NewSharedInformerFactory client 0, []) (run_informers ord client)"
  unfolding run_informers_def
  using controller_informers_steps factory_step.start [OF assms] by (rule rtranclp.rtrancl_into_rtrancl)

section \<open>Properties\<close>

text \<open>Whatever calls the factory gets, and in whatever order it visits its informers, each type has
  one informer of its own, which is told to run once if it was started and never otherwise.\<close>

theorem informers_run_once:
  assumes "factory_step\<^sup>*\<^sup>* (NewSharedInformerFactory client resync, []) (f, hp)"
    and "gm_get (sf_informers f) ty = Some a"
  shows "a < length hp \<and> if_runs (hp ! a) = (if started f ty then 1 else 0)
    \<and> (\<forall>ty'. gm_get (sf_informers f) ty' = Some a \<longrightarrow> ty' = ty)"
proof -
  have "factory_inv (f, hp)" using factory_steps_inv [OF assms(1) new_factory_inv] by blast
  with assms(2) show ?thesis unfolding factory_inv_def prod.case by blast
qed

theorem informers_run_once_witness:
  "if_runs ((snd (run_informers rev ()) :: (unit, unit, unit) informer list) ! 0) = 1"
proof -
  obtain f hp where r: "(run_informers rev () :: (unit, unit, unit) fstate) = (f, hp)" by fastforce
  then have "gm_get (sf_informers f) (crd_type ''CRDMetricsResource'') = Some 0"
    and "started f (crd_type ''CRDMetricsResource'')"
    by (auto simp: run_informers_eq started_def)
  moreover have "factory_step\<^sup>*\<^sup>* (NewSharedInformerFactory () 0, []) (f, hp)"
    using run_informers_steps [OF is_order_rev, of "()"] r by metis
  ultimately show ?thesis using informers_run_once [of "()" 0 f hp] by (simp add: r)
qed

text \<open>The informer of a type is shared: once a caller got it, every later call for the type gets the
  same one and changes nothing, whatever function it brings to make one.\<close>

theorem informer_shared:
  assumes "factory_inv s" and "\<And>c q. if_runs (newFunc c q) = 0" and "InformerFor ty newFunc s = (a, s1)"
    and "factory_step\<^sup>*\<^sup>* s1 s2"
  shows "InformerFor ty newFunc' s2 = (a, s2)"
proof -
  have "factory_inv s1" "gm_get (sf_informers (fst s1)) ty = Some a"
    using InformerFor_inv [OF assms(3,2,1)] by simp_all
  with factory_steps_inv [OF assms(4)] have "gm_get (sf_informers (fst s2)) ty = Some a"
    by (simp add: same_informers_def)
  then show ?thesis by (cases s2) (simp add: InformerFor_def)
qed

theorem informer_shared_witness:
  "\<exists>a s1 :: (unit, unit, unit) fstate. managed_resources (NewSharedInformerFactory () 0, []) = (a, s1)
    \<and> InformerFor (crd_type ''CRDMetricsResource'') (\<lambda>c q. new_informer c) s1 = (a, s1)"
proof -
  let ?s = "(NewSharedInformerFactory () 0, []) :: (unit, unit, unit) fstate"
  obtain a s1 where m: "managed_resources ?s = (a, s1)" by (cases "managed_resources ?s")
  have "InformerFor (crd_type ''CRDMetricsResource'') (\<lambda>c q. new_informer c) s1 = (a, s1)"
    using new_factory_inv defaultInformer_runs m [unfolded managed_resources_def Informer_def] rtranclp.rtrancl_refl
    by (rule informer_shared)
  with m show ?thesis by blast
qed

text \<open>After a shutdown nothing is started any more, and before it a start leaves no informer that
  was made behind.\<close>

theorem start_and_shutdown:
  assumes "factory_step\<^sup>*\<^sup>* (NewSharedInformerFactory client resync, []) (f, hp)" and "is_order ord"
    and "Start ord (f, hp) = (f', hp')"
  shows "(sf_shuttingDown f \<longrightarrow> (f', hp') = (f, hp))
    \<and> (\<not> sf_shuttingDown f \<longrightarrow> (\<forall>ty a. gm_get (sf_informers f) ty = Some a \<longrightarrow>
         started f' ty \<and> if_runs (hp' ! a) = 1))"
proof -
  have inv: "factory_inv (f, hp)" using factory_steps_inv [OF assms(1) new_factory_inv] by blast
  note eq = Start_eq [OF assms(2) inv assms(3)]
  have "started f' ty \<and> if_runs (hp' ! a) = 1"
    if "\<not> sf_shuttingDown f" "gm_get (sf_informers f) ty = Some a" for ty a
    using eq that inv by (auto simp: factory_inv_def run_once_more_def)
  moreover have "sf_shuttingDown f \<Longrightarrow> (f', hp') = (f, hp)" using assms(3) by (simp add: Start_def)
  ultimately show ?thesis by blast
qed

theorem start_and_shutdown_witness:
  "if_runs ((snd (Start rev (controller_informers ())) :: (unit, unit, unit) informer list) ! 0) = 1"
proof -
  obtain f hp where c: "(controller_informers () :: (unit, unit, unit) fstate) = (f, hp)" by fastforce
  obtain f' hp' where st: "Start rev (f, hp) = (f', hp')" by fastforce
  have "\<not> sf_shuttingDown f" "gm_get (sf_informers f) (crd_type ''CRDMetricsResource'') = Some 0"
    using c by (auto simp: controller_informers_eq NewSharedInformerFactory_def
        NewSharedInformerFactoryWithOptions_def)
  moreover have "factory_step\<^sup>*\<^sup>* (NewSharedInformerFactory () 0, []) (f, hp)"
    using controller_informers_steps [of "()"] c by metis
  ultimately show ?thesis using start_and_shutdown [OF _ is_order_rev st, of "()" 0] by (simp add: c st)
qed

text \<open>The controller's use of the factory: its handler is on the one informer there is, which covers
  all namespaces and never resyncs, \<^verbatim>\<open>Run\<close> starts it once, and the informer it waits for and
  the lister that looks resources up are this informer.\<close>

theorem controller_informer:
  fixes client :: 'c and s :: "('c, 'o, 't) fstate"
  assumes "is_order ord" and "s = run_informers ord client"
  shows "managed_resources s = (0, s) \<and> Lister (CRDMetricsResources (V1alpha1 (Crdmetrics (fst s)))) s = (0, s)
    \<and> if_namespace (snd s ! 0) = NamespaceAll \<and> if_resync (snd s ! 0) = 0
    \<and> if_handlers (snd s ! 0) = 1 \<and> if_runs (snd s ! 0) = 1 \<and> length (snd s) = 1
    \<and> factory_WaitForCacheSync sync ord (fst s) = [(crd_type ''CRDMetricsResource'', sync 0)]"
proof -
  let ?f = "(NewSharedInformerFactory client 0)\<lparr>sf_informers := [(crd_type ''CRDMetricsResource'', 0)],
        sf_startedInformers := [(crd_type ''CRDMetricsResource'', True)], sf_wg := 1\<rparr>"
  let ?i = "(new_informer client)\<lparr>if_handlers := 1, if_runs := 1\<rparr>"
  have s: "s = (?f, [?i])" using assms by (simp add: run_informers_eq)
  have "Informer ra s = (0, s)" for ra by (simp add: s Informer_def InformerFor_def)
  moreover have "factory_WaitForCacheSync sync ord ?f = [(crd_type ''CRDMetricsResource'', sync 0)]"
    using assms(1) by (simp add: factory_WaitForCacheSync_def started_informers_def)
  ultimately show ?thesis by (simp add: managed_resources_def Lister_def) (simp add: s new_informer_def)
qed

theorem controller_informer_witness:
  "if_handlers ((snd (run_informers rev ()) :: (unit, unit, unit) informer list) ! 0) = 1
    \<and> factory_WaitForCacheSync (\<lambda>a. True) rev (fst (run_informers rev () :: (unit, unit, unit) fstate))
      = [(crd_type ''CRDMetricsResource'', True)]"
  using controller_informer [OF is_order_rev refl, of "()" "\<lambda>a. True"] by blast

end
