(* ===== verification/Clients.thy ===== *)
theory Clients
  imports Scheme Complex_Main
begin

text \<open>
  The generated clientset: \<^verbatim>\<open>pkg/generated/clientset/versioned/clientset.go\<close> and the typed client
  under it, on the parts of the vendored \<^verbatim>\<open>client-go/rest\<close> and \<^verbatim>\<open>discovery\<close> that turn a
  configuration into clients and a call into a request path, and the part of \<^verbatim>\<open>main.go\<close> that
  builds the clients. Transports and URL parsing are parameters. A \<^verbatim>\<open>float32\<close> rate is only
  compared with zero and handed on; its value is a rational number.
\<close>

section \<open>Configurations and clients\<close>

text \<open>A rate limiter is a pointer: two clients that hold the same number share it.\<close>

record limiter =
  li_id :: nat
  li_QPS :: rat
  li_Burst :: int

datatype serializer = CrdCodecs | NoopEncoder

record rest_config =
  rc_Host :: string
  rc_APIPath :: string
  rc_GroupVersion :: "(string \<times> string) option"
  rc_NegotiatedSerializer :: "serializer option"
  rc_UserAgent :: string
  rc_QPS :: rat
  rc_Burst :: int
  rc_RateLimiter :: "limiter option"
  rc_Timeout :: int

record url =
  u_Host :: string
  u_Path :: string

record 'h rest_client =
  cl_base :: url
  cl_versionedAPIPath :: string
  cl_GroupVersion :: "string \<times> string"
  cl_serializer :: serializer
  cl_rateLimiter :: "limiter option"
  cl_Client :: 'h

datatype client_error = TransportError string | ServerURLError string | BurstRequired
  | GroupVersionRequired | SerializerRequired

text \<open>The libraries: the HTTP client for a configuration, and the URL a host parses to.\<close>

record 'h transports =
  HTTPClientFor :: "rest_config \<Rightarrow> client_error + 'h"
  ServerURL :: "string \<Rightarrow> client_error + url"
  DefaultKubernetesUserAgent :: string

section \<open>Paths\<close>

text \<open>\<^verbatim>\<open>path.Join\<close> when the first element begins with a slash.\<close>

fun clean_segs :: "string list \<Rightarrow> string list \<Rightarrow> string list" where
  "clean_segs acc [] = rev acc"
| "clean_segs acc (s # ss) =
     (if s = [] \<or> s = ''.'' then clean_segs acc ss
      else if s = ''..'' then clean_segs (tl acc) ss
      else clean_segs (s # acc) ss)"

definition path_Join :: "string list \<Rightarrow> string" where
  "path_Join elems = CHR ''/'' # Join CHR ''/'' (clean_segs [] (concat (map (Split CHR ''/'') elems)))"

definition DefaultVersionedAPIPath :: "string \<Rightarrow> string \<times> string \<Rightarrow> string" where
  "DefaultVersionedAPIPath apiPath gv =
     (let versionedAPIPath = path_Join [''/'', apiPath]
      in if length (fst gv) > 0 then path_Join [versionedAPIPath, fst gv, snd gv]
         else path_Join [versionedAPIPath, snd gv])"

definition DefaultServerUrlFor :: "'h transports \<Rightarrow> rest_config \<Rightarrow> client_error + url \<times> string" where
  "DefaultServerUrlFor T config =
     (case ServerURL T (if rc_Host config = [] then ''localhost'' else rc_Host config) of
        Inl e \<Rightarrow> Inl e
      | Inr u \<Rightarrow> Inr (u, DefaultVersionedAPIPath (rc_APIPath config)
          (case rc_GroupVersion config of None \<Rightarrow> ([], []) | Some gv \<Rightarrow> gv)))"

section \<open>REST clients\<close>

text \<open>The limiter of a client, and the next free number.\<close>

definition client_limiter :: "rest_config \<Rightarrow> nat \<Rightarrow> limiter option \<times> nat" where
  "client_limiter config next =
     (case rc_RateLimiter config of
        Some l \<Rightarrow> (Some l, next)
      | None \<Rightarrow>
          (let qps = (if rc_QPS config = 0 then 5 else rc_QPS config);
               burst = (if rc_Burst config = 0 then 10 else rc_Burst config)
           in if qps > 0 then (Some \<lparr>li_id = next, li_QPS = qps, li_Burst = burst\<rparr>, Suc next)
              else (None, next)))"

definition NewRESTClient ::
    "url \<Rightarrow> string \<Rightarrow> string \<times> string \<Rightarrow> serializer \<Rightarrow> limiter option \<Rightarrow> 'h \<Rightarrow> 'h rest_client" where
  "NewRESTClient baseURL versionedAPIPath gv ser rateLimiter client =
     \<lparr>cl_base = (if u_Path baseURL \<noteq> [] \<and> last (u_Path baseURL) = CHR ''/'' then baseURL
                 else baseURL\<lparr>u_Path := u_Path baseURL @ ''/''\<rparr>),
      cl_versionedAPIPath = versionedAPIPath, cl_GroupVersion = gv, cl_serializer = ser,
      cl_rateLimiter = rateLimiter, cl_Client = client\<rparr>"

definition RESTClientForConfigAndClient ::
    "'h transports \<Rightarrow> rest_config \<Rightarrow> 'h \<Rightarrow> nat \<Rightarrow> client_error + 'h rest_client \<times> nat" where
  "RESTClientForConfigAndClient T config h next =
     (case rc_GroupVersion config of
        None \<Rightarrow> Inl GroupVersionRequired
      | Some gv \<Rightarrow>
          (case rc_NegotiatedSerializer config of
             None \<Rightarrow> Inl SerializerRequired
           | Some ser \<Rightarrow>
               (case DefaultServerUrlFor T config of
                  Inl e \<Rightarrow> Inl e
                | Inr (base, p) \<Rightarrow>
                    (case client_limiter config next of (l, next) \<Rightarrow>
                       Inr (NewRESTClient base p gv ser l h, next)))))"

definition UnversionedRESTClientForConfigAndClient ::
    "'h transports \<Rightarrow> rest_config \<Rightarrow> 'h \<Rightarrow> nat \<Rightarrow> client_error + 'h rest_client \<times> nat" where
  "UnversionedRESTClientForConfigAndClient T config h next =
     (case rc_NegotiatedSerializer config of
        None \<Rightarrow> Inl SerializerRequired
      | Some ser \<Rightarrow>
          (case DefaultServerUrlFor T config of
             Inl e \<Rightarrow> Inl e
           | Inr (base, p) \<Rightarrow>
               (case client_limiter config next of (l, next) \<Rightarrow>
                  Inr (NewRESTClient base p (case rc_GroupVersion config of None \<Rightarrow> ([], ''v1'') | Some gv \<Rightarrow> gv)
                         ser l h, next))))"

section \<open>The typed client\<close>

definition setConfigDefaults :: "'h transports \<Rightarrow> rest_config \<Rightarrow> rest_config" where
  "setConfigDefaults T config =
     (let config = config\<lparr>rc_GroupVersion := Some SchemeGroupVersion, rc_APIPath := ''/apis'',
            rc_NegotiatedSerializer := Some CrdCodecs\<rparr>
      in if rc_UserAgent config = [] then config\<lparr>rc_UserAgent := DefaultKubernetesUserAgent T\<rparr> else config)"

definition typed_NewForConfigAndClient ::
    "'h transports \<Rightarrow> rest_config \<Rightarrow> 'h \<Rightarrow> nat \<Rightarrow> client_error + 'h rest_client \<times> nat" where
  "typed_NewForConfigAndClient T c h next = RESTClientForConfigAndClient T (setConfigDefaults T c) h next"

definition typed_NewForConfig ::
    "'h transports \<Rightarrow> rest_config \<Rightarrow> nat \<Rightarrow> client_error + 'h rest_client \<times> nat" where
  "typed_NewForConfig T c next =
     (let config = setConfigDefaults T c
      in case HTTPClientFor T config of
           Inl e \<Rightarrow> Inl e
         | Inr h \<Rightarrow> typed_NewForConfigAndClient T config h next)"

section \<open>The clientset\<close>

definition setDiscoveryDefaults :: "'h transports \<Rightarrow> rest_config \<Rightarrow> rest_config" where
  "setDiscoveryDefaults T config =
     config\<lparr>rc_APIPath := [], rc_GroupVersion := None,
       rc_Timeout := (if rc_Timeout config = 0 then 32000000000 else rc_Timeout config),
       rc_Burst := (if rc_Burst config = 0 then 300 else rc_Burst config),
       rc_NegotiatedSerializer := Some NoopEncoder,
       rc_UserAgent := (if rc_UserAgent config = [] then DefaultKubernetesUserAgent T else rc_UserAgent config)\<rparr>"

definition NewDiscoveryClientForConfigAndClient ::
    "'h transports \<Rightarrow> rest_config \<Rightarrow> 'h \<Rightarrow> nat \<Rightarrow> client_error + 'h rest_client \<times> nat" where
  "NewDiscoveryClientForConfigAndClient T c h next =
     UnversionedRESTClientForConfigAndClient T (setDiscoveryDefaults T c) h next"

record 'h clientset =
  cs_DiscoveryClient :: "'h rest_client"
  cs_crdmetricsV1alpha1 :: "'h rest_client"

definition NewForConfigAndClient ::
    "'h transports \<Rightarrow> rest_config \<Rightarrow> 'h \<Rightarrow> nat \<Rightarrow> client_error + 'h clientset \<times> nat" where
  "NewForConfigAndClient T c h next =
     (let limited = rc_RateLimiter c = None \<and> rc_QPS c > 0
      in if limited \<and> rc_Burst c \<le> 0 then Inl BurstRequired
         else let (c, next) = (if limited
                then (c\<lparr>rc_RateLimiter := Some \<lparr>li_id = next, li_QPS = rc_QPS c, li_Burst = rc_Burst c\<rparr>\<rparr>, Suc next)
                else (c, next))
           in case typed_NewForConfigAndClient T c h next of
                Inl e \<Rightarrow> Inl e
              | Inr (crd, next) \<Rightarrow>
                  (case NewDiscoveryClientForConfigAndClient T c h next of
                     Inl e \<Rightarrow> Inl e
                   | Inr (disc, next) \<Rightarrow>
                       Inr (\<lparr>cs_DiscoveryClient = disc, cs_crdmetricsV1alpha1 = crd\<rparr>, next)))"

definition NewForConfig :: "'h transports \<Rightarrow> rest_config \<Rightarrow> nat \<Rightarrow> client_error + 'h clientset \<times> nat" where
  "NewForConfig T c next =
     (let c = (if rc_UserAgent c = [] then c\<lparr>rc_UserAgent := DefaultKubernetesUserAgent T\<rparr> else c)
      in case HTTPClientFor T c of
           Inl e \<Rightarrow> Inl e
         | Inr h \<Rightarrow> NewForConfigAndClient T c h next)"

text \<open>\<open>Inl\<close> is the panic.\<close>

definition NewForConfigOrDie :: "'h transports \<Rightarrow> rest_config \<Rightarrow> nat \<Rightarrow> ('h clientset \<times> nat) go" where
  "NewForConfigOrDie T c next =
     (case NewForConfig T c next of Inl e \<Rightarrow> Inl ExplicitPanic | Inr cs \<Rightarrow> Inr cs)"

definition typed_NewForConfigOrDie :: "'h transports \<Rightarrow> rest_config \<Rightarrow> nat \<Rightarrow> ('h rest_client \<times> nat) go" where
  "typed_NewForConfigOrDie T c next =
     (case typed_NewForConfig T c next of Inl e \<Rightarrow> Inl ExplicitPanic | Inr client \<Rightarrow> Inr client)"

text \<open>Both clients on one REST client that is there already.\<close>

definition typed_New :: "'h rest_client \<Rightarrow> 'h rest_client" where
  "typed_New c = c"

definition New :: "'h rest_client \<Rightarrow> 'h clientset" where
  "New c = \<lparr>cs_DiscoveryClient = c, cs_crdmetricsV1alpha1 = typed_New c\<rparr>"

text \<open>The accessors answer \<^verbatim>\<open>nil\<close> for a receiver that is \<^verbatim>\<open>nil\<close>, except for the one that has to look into it.\<close>

definition RESTClient :: "'h rest_client option \<Rightarrow> 'h rest_client option" where
  "RESTClient c = (case c of None \<Rightarrow> None | Some client \<Rightarrow> Some client)"

definition Discovery :: "'h clientset option \<Rightarrow> 'h rest_client option" where
  "Discovery c = (case c of None \<Rightarrow> None | Some cs \<Rightarrow> Some (cs_DiscoveryClient cs))"

definition CrdmetricsV1alpha1 :: "'h clientset option \<Rightarrow> 'h rest_client go" where
  "CrdmetricsV1alpha1 c = (case c of None \<Rightarrow> Inl NilDereference | Some cs \<Rightarrow> Inr (cs_crdmetricsV1alpha1 cs))"

section \<open>Starting up\<close>

text \<open>
  \<^verbatim>\<open>main\<close> builds its clients in turn and exits at the first that fails. The configuration
  from the flags, the native and the dynamic client are parameters.
\<close>

definition build_clients ::
    "'h transports \<Rightarrow> (rest_config \<Rightarrow> client_error + 'k) \<Rightarrow> (rest_config \<Rightarrow> client_error + 'd)
     \<Rightarrow> client_error + rest_config \<Rightarrow> nat \<Rightarrow> nat + 'k \<times> 'h clientset \<times> 'd" where
  "build_clients T kubernetes dynamic cfg next =
     (case cfg of
        Inl e \<Rightarrow> Inl 1
      | Inr cfg \<Rightarrow>
          (case kubernetes cfg of
             Inl e \<Rightarrow> Inl 1
           | Inr k \<Rightarrow>
               (case NewForConfig T cfg next of
                  Inl e \<Rightarrow> Inl 1
                | Inr (cs, next) \<Rightarrow>
                    (case dynamic cfg of
                       Inl e \<Rightarrow> Inl 1
                     | Inr d \<Rightarrow> Inr (k, cs, d)))))"

section \<open>Requests\<close>

text \<open>\<open>Inl\<close> is the error a request carries from the first wrong call on.\<close>

record request =
  re_pathPrefix :: string
  re_namespace :: "string option"
  re_resource :: string
  re_resourceName :: string
  re_subresource :: string

datatype request_error = EmptyName | InvalidSegment string | AlreadySet string

definition IsValidPathSegmentName :: "string \<Rightarrow> bool" where
  "IsValidPathSegmentName name \<longleftrightarrow>
     name \<noteq> ''.'' \<and> name \<noteq> ''..'' \<and> CHR ''/'' \<notin> set name \<and> CHR ''%'' \<notin> set name"

definition NewRequest :: "'h rest_client \<Rightarrow> request_error + request" where
  "NewRequest c = Inr \<lparr>re_pathPrefix = path_Join [''/'', u_Path (cl_base c), cl_versionedAPIPath c],
     re_namespace = None, re_resource = [], re_resourceName = [], re_subresource = []\<rparr>"

definition NamespaceIfScoped :: "string \<Rightarrow> bool \<Rightarrow> request_error + request \<Rightarrow> request_error + request" where
  "NamespaceIfScoped namespace scoped r =
     (if \<not> scoped then r
      else case r of
        Inl e \<Rightarrow> Inl e
      | Inr r \<Rightarrow>
          if re_namespace r \<noteq> None then Inl (AlreadySet namespace)
          else if \<not> IsValidPathSegmentName namespace then Inl (InvalidSegment namespace)
          else Inr (r\<lparr>re_namespace := Some namespace\<rparr>))"

definition set_Resource :: "string \<Rightarrow> request_error + request \<Rightarrow> request_error + request" where
  "set_Resource resource r =
     (case r of
        Inl e \<Rightarrow> Inl e
      | Inr r \<Rightarrow>
          if re_resource r \<noteq> [] then Inl (AlreadySet resource)
          else if \<not> IsValidPathSegmentName resource then Inl (InvalidSegment resource)
          else Inr (r\<lparr>re_resource := resource\<rparr>))"

definition set_Name :: "string \<Rightarrow> request_error + request \<Rightarrow> request_error + request" where
  "set_Name resourceName r =
     (case r of
        Inl e \<Rightarrow> Inl e
      | Inr r \<Rightarrow>
          if resourceName = [] then Inl EmptyName
          else if re_resourceName r \<noteq> [] then Inl (AlreadySet resourceName)
          else if \<not> IsValidPathSegmentName resourceName then Inl (InvalidSegment resourceName)
          else Inr (r\<lparr>re_resourceName := resourceName\<rparr>))"

definition set_SubResource :: "string \<Rightarrow> request_error + request \<Rightarrow> request_error + request" where
  "set_SubResource s r =
     (case r of
        Inl e \<Rightarrow> Inl e
      | Inr r \<Rightarrow>
          if re_subresource r \<noteq> [] then Inl (AlreadySet s)
          else if \<not> IsValidPathSegmentName s then Inl (InvalidSegment s)
          else Inr (r\<lparr>re_subresource := s\<rparr>))"

text \<open>The path of the URL; empty elements are left out of a join.\<close>

definition URL_Path :: "request \<Rightarrow> string" where
  "URL_Path r =
     (let p = re_pathPrefix r;
          p = (case re_namespace r of
                 Some ns \<Rightarrow> if length ns > 0 then path_Join [p, ''namespaces'', ns] else p
               | None \<Rightarrow> p);
          p = (if length (re_resource r) \<noteq> 0 then path_Join [p, ToLower (re_resource r)] else p)
      in if length (re_resourceName r) \<noteq> 0 \<or> length (re_subresource r) \<noteq> 0
         then path_Join [p, re_resourceName r, re_subresource r] else p)"

text \<open>\<^verbatim>\<open>CRDMetricsResources(namespace)\<close> and the calls the program makes on it.\<close>

record 'h resources_client =
  rs_client :: "'h rest_client"
  rs_resource :: string
  rs_namespace :: string

definition newCRDMetricsResources :: "'h rest_client \<Rightarrow> string \<Rightarrow> 'h resources_client" where
  "newCRDMetricsResources c namespace =
     \<lparr>rs_client = c, rs_resource = ''crdmetricsresources'', rs_namespace = namespace\<rparr>"

definition scoped_request :: "'h resources_client \<Rightarrow> request_error + request" where
  "scoped_request c =
     set_Resource (rs_resource c) (NamespaceIfScoped (rs_namespace c) (rs_namespace c \<noteq> []) (NewRequest (rs_client c)))"

definition Get_path :: "'h resources_client \<Rightarrow> string \<Rightarrow> request_error + string" where
  "Get_path c name = map_sum id URL_Path (set_Name name (scoped_request c))"

definition Update_path :: "'h resources_client \<Rightarrow> string \<Rightarrow> request_error + string" where
  "Update_path c name = map_sum id URL_Path (set_Name name (scoped_request c))"

definition UpdateStatus_path :: "'h resources_client \<Rightarrow> string \<Rightarrow> request_error + string" where
  "UpdateStatus_path c name =
     map_sum id URL_Path (set_SubResource ''status'' (set_Name name (scoped_request c)))"

text \<open>\<open>List\<close> and \<open>Watch\<close> name no resource.\<close>

definition List_path :: "'h resources_client \<Rightarrow> request_error + string" where
  "List_path c = map_sum id URL_Path (scoped_request c)"

section \<open>Joined paths\<close>

text \<open>A segment that a join neither drops nor follows.\<close>

definition plain_segment :: "string \<Rightarrow> bool" where
  "plain_segment s \<longleftrightarrow> s \<noteq> [] \<and> s \<noteq> ''.'' \<and> s \<noteq> ''..'' \<and> CHR ''/'' \<notin> set s"

definition rooted :: "string list \<Rightarrow> string" where
  "rooted segs = CHR ''/'' # Join CHR ''/'' segs"

lemma clean_plain:
  "\<forall>s \<in> set segs. plain_segment s \<Longrightarrow> clean_segs acc (segs @ rest) = clean_segs (rev segs @ acc) rest"
  by (induction segs arbitrary: acc) (auto simp: plain_segment_def)

lemma clean_segs_plain:
  "\<forall>s \<in> set acc. plain_segment s \<Longrightarrow> \<forall>s \<in> set ss. CHR ''/'' \<notin> set s \<Longrightarrow>
   \<forall>s \<in> set (clean_segs acc ss). plain_segment s"
proof (induction acc ss rule: clean_segs.induct)
  case (2 acc s ss)
  have ss: "\<forall>x \<in> set ss. CHR ''/'' \<notin> set x" and s: "CHR ''/'' \<notin> set s" using 2(5) by simp_all
  consider (skip) "s = [] \<or> s = ''.''" | (up) "\<not> (s = [] \<or> s = ''.'')" "s = ''..''"
    | (push) "\<not> (s = [] \<or> s = ''.'')" "s \<noteq> ''..''" by blast
  then show ?case
  proof cases
    case skip
    with 2(1) [OF _ 2(4) ss] show ?thesis by simp
  next
    case up
    have "\<forall>x \<in> set (tl acc). plain_segment x" using 2(4) by (blast dest: set_tlD)
    from 2(2) [OF up this ss] up show ?thesis by simp
  next
    case push
    with s have "plain_segment s" by (simp add: plain_segment_def)
    with 2(4) have "\<forall>x \<in> set (s # acc). plain_segment x" by simp
    from 2(3) [OF push this ss] push show ?thesis by simp
  qed
qed simp

lemma Split_no_slash: "\<forall>x \<in> set (Split sep s). sep \<notin> set x"
  by (induction sep s rule: Split.induct) (auto dest: set_tlD)

lemma Split_rooted:
  assumes "\<forall>s \<in> set segs. plain_segment s"
  shows "clean_segs acc (Split CHR ''/'' (rooted segs) @ rest) = clean_segs (rev segs @ acc) rest"
proof -
  have split: "Split CHR ''/'' (CHR ''/'' # s) = [] # Split CHR ''/'' s" for s by simp
  show ?thesis
  proof (cases "segs = []")
    case True
    then show ?thesis by (simp add: rooted_def)
  next
    case False
    have "Split CHR ''/'' (Join CHR ''/'' segs) = segs"
      using False assms by (intro Split_Join) (auto simp: plain_segment_def)
    then have "Split CHR ''/'' (rooted segs) = [] # segs" by (simp add: rooted_def)
    then show ?thesis using clean_plain [OF assms] by simp
  qed
qed

lemma path_Join_rooted:
  assumes "\<forall>s \<in> set segs. plain_segment s" and "\<forall>s \<in> set xs. s = [] \<or> plain_segment s"
  shows "path_Join (rooted segs # xs) = rooted (segs @ filter (\<lambda>s. s \<noteq> []) xs)"
proof -
  have "clean_segs acc (concat (map (Split CHR ''/'') xs)) = rev acc @ filter (\<lambda>s. s \<noteq> []) xs" for acc
    using assms(2)
  proof (induction xs arbitrary: acc)
    case (Cons x xs)
    then have x: "x = [] \<or> plain_segment x" and xs: "\<forall>s \<in> set xs. s = [] \<or> plain_segment s" by simp_all
    have "Split CHR ''/'' x = [x]" using x by (intro Split_no_sep) (auto simp: plain_segment_def)
    moreover have "clean_segs acc (x # rest) = clean_segs (if x = [] then acc else x # acc) rest" for rest
      using x unfolding plain_segment_def by (cases "x = []") simp_all
    ultimately show ?case using Cons.IH [OF xs] by simp
  qed simp
  with Split_rooted [OF assms(1)] show ?thesis by (simp add: path_Join_def rooted_def)
qed

lemma rooted_inject:
  assumes "\<forall>s \<in> set xs. plain_segment s" and "\<forall>s \<in> set ys. plain_segment s"
  shows "rooted xs = rooted ys \<longleftrightarrow> xs = ys"
proof -
  have "clean_segs [] (Split CHR ''/'' (rooted zs)) = zs" if "\<forall>s \<in> set zs. plain_segment s" for zs
    using Split_rooted [OF that, of "[]" "[]"] by simp
  with assms show ?thesis by metis
qed

lemma clean_segs_append: "clean_segs acc (xs @ ys) = clean_segs (rev (clean_segs acc xs)) ys"
  by (induction acc xs rule: clean_segs.induct) simp_all

definition base_segs :: "'h rest_client \<Rightarrow> string list" where
  "base_segs c = clean_segs [] (Split CHR ''/'' (u_Path (cl_base c)))"

definition crd_segs :: "string list" where
  "crd_segs = [''apis'', GroupName, ''v1alpha1'']"

lemma base_segs_plain: "\<forall>s \<in> set (base_segs c). plain_segment s"
  unfolding base_segs_def by (rule clean_segs_plain) (simp_all add: Split_no_slash)

lemma crd_segs_plain: "\<forall>s \<in> set crd_segs. plain_segment s"
  by (simp add: crd_segs_def plain_segment_def GroupName_def)

lemma crd_path: "DefaultVersionedAPIPath ''/apis'' SchemeGroupVersion = rooted crd_segs"
proof -
  have "path_Join [''/'', ''/apis''] = rooted [''apis'']" by (simp add: path_Join_def rooted_def)
  moreover have "path_Join (rooted [''apis''] # [GroupName, ''v1alpha1'']) = rooted ([''apis''] @ [GroupName, ''v1alpha1''])"
    by (subst path_Join_rooted) (simp_all add: plain_segment_def GroupName_def)
  ultimately show ?thesis
    by (simp add: DefaultVersionedAPIPath_def Let_def SchemeGroupVersion_def GroupName_def crd_segs_def)
qed

lemma discovery_path: "DefaultVersionedAPIPath [] ([], []) = ''/''"
  by (simp add: DefaultVersionedAPIPath_def path_Join_def Let_def)

lemma path_prefix:
  assumes "cl_versionedAPIPath c = rooted crd_segs"
  shows "path_Join [''/'', u_Path (cl_base c), cl_versionedAPIPath c] = rooted (base_segs c @ crd_segs)"
proof -
  have "clean_segs (rev (base_segs c)) (Split CHR ''/'' (rooted crd_segs)) = base_segs c @ crd_segs"
    using Split_rooted [OF crd_segs_plain, of "rev (base_segs c)" "[]"] by simp
  then have "clean_segs [] (Split CHR ''/'' (u_Path (cl_base c)) @ Split CHR ''/'' (rooted crd_segs))
      = base_segs c @ crd_segs"
    by (simp add: clean_segs_append base_segs_def)
  then show ?thesis by (simp add: path_Join_def assms rooted_def)
qed

lemma valid_plain: "IsValidPathSegmentName s \<Longrightarrow> s \<noteq> [] \<Longrightarrow> plain_segment s"
  by (simp add: IsValidPathSegmentName_def plain_segment_def)

text \<open>The segments of a request for a resource, for all of them, and for a status.\<close>

definition request_segs :: "'h rest_client \<Rightarrow> string \<Rightarrow> string list" where
  "request_segs c ns = base_segs c @ crd_segs @ (if ns = [] then [] else [''namespaces'', ns])
     @ [''crdmetricsresources'']"

lemma request_segs_plain:
  "ns = [] \<or> IsValidPathSegmentName ns \<Longrightarrow> \<forall>s \<in> set (request_segs c ns). plain_segment s"
proof -
  assume ns: "ns = [] \<or> IsValidPathSegmentName ns"
  have "plain_segment ''namespaces''" "plain_segment ''crdmetricsresources''" by (simp_all add: plain_segment_def)
  with ns base_segs_plain crd_segs_plain valid_plain show ?thesis by (auto simp: request_segs_def)
qed

lemma scoped_request_eq:
  assumes "cl_versionedAPIPath c = rooted crd_segs" and "ns = [] \<or> IsValidPathSegmentName ns"
  shows "scoped_request (newCRDMetricsResources c ns) = Inr \<lparr>re_pathPrefix = rooted (base_segs c @ crd_segs),
     re_namespace = (if ns = [] then None else Some ns), re_resource = ''crdmetricsresources'',
     re_resourceName = [], re_subresource = []\<rparr>"
proof -
  have "IsValidPathSegmentName ''crdmetricsresources''" by (simp add: IsValidPathSegmentName_def)
  moreover have "path_Join [''/'', u_Path (cl_base c), rooted crd_segs] = rooted (base_segs c @ crd_segs)"
    using path_prefix [OF assms(1)] by (simp add: assms(1))
  ultimately show ?thesis
    using assms by (auto simp: scoped_request_def newCRDMetricsResources_def NewRequest_def
        NamespaceIfScoped_def set_Resource_def)
qed

lemma URL_Path_eq:
  assumes "ns = [] \<or> IsValidPathSegmentName ns" and "n = [] \<or> plain_segment n" and "s = [] \<or> plain_segment s"
  shows "URL_Path \<lparr>re_pathPrefix = rooted (base_segs c @ crd_segs),
     re_namespace = (if ns = [] then None else Some ns), re_resource = ''crdmetricsresources'',
     re_resourceName = n, re_subresource = s\<rparr> = rooted (request_segs c ns @ filter (\<lambda>x. x \<noteq> []) [n, s])"
proof -
  have bc: "\<forall>x \<in> set (base_segs c @ crd_segs). plain_segment x" using base_segs_plain crd_segs_plain by auto
  have names: "plain_segment ''namespaces''" "plain_segment ''crdmetricsresources''" by (simp_all add: plain_segment_def)
  have low: "ToLower ''crdmetricsresources'' = ''crdmetricsresources''" by code_simp
  let ?nsp = "if ns = [] then [] else [''namespaces'', ns]"
  have p1: "(case (if ns = [] then None else Some ns) of
        Some ns \<Rightarrow> if length ns > 0 then path_Join [rooted (base_segs c @ crd_segs), ''namespaces'', ns]
          else rooted (base_segs c @ crd_segs)
      | None \<Rightarrow> rooted (base_segs c @ crd_segs)) = rooted (base_segs c @ crd_segs @ ?nsp)"
    using assms(1) names(1) by (cases "ns = []") (simp_all add: path_Join_rooted [OF bc] valid_plain)
  have pl: "\<forall>x \<in> set (base_segs c @ crd_segs @ ?nsp). plain_segment x"
    using bc assms(1) names(1) valid_plain by auto
  have p2: "path_Join [rooted (base_segs c @ crd_segs @ ?nsp), ''crdmetricsresources''] = rooted (request_segs c ns)"
    using names(2) by (subst path_Join_rooted [OF pl]) (simp_all add: request_segs_def)
  have p3: "path_Join [rooted (request_segs c ns), n, s] = rooted (request_segs c ns @ filter (\<lambda>x. x \<noteq> []) [n, s])"
    using assms(2,3) by (subst path_Join_rooted [OF request_segs_plain [OF assms(1)]]) simp_all
  show ?thesis unfolding URL_Path_def Let_def request.simps p1 low
    by (cases "n = [] \<and> s = []") (use p2 p3 in auto)
qed

lemma Get_path_eq:
  assumes "cl_versionedAPIPath c = rooted crd_segs" and "ns = [] \<or> IsValidPathSegmentName ns"
  shows "Get_path (newCRDMetricsResources c ns) name =
     (if name = [] then Inl EmptyName
      else if IsValidPathSegmentName name then Inr (rooted (request_segs c ns @ [name]))
      else Inl (InvalidSegment name))"
  using URL_Path_eq [OF assms(2), of name "[]" c] valid_plain [of name]
  by (auto simp: Get_path_def scoped_request_eq [OF assms] set_Name_def)

lemma UpdateStatus_path_eq:
  assumes "cl_versionedAPIPath c = rooted crd_segs" and "ns = [] \<or> IsValidPathSegmentName ns"
  shows "UpdateStatus_path (newCRDMetricsResources c ns) name =
     (if name = [] then Inl EmptyName
      else if IsValidPathSegmentName name then Inr (rooted (request_segs c ns @ [name, ''status'']))
      else Inl (InvalidSegment name))"
proof -
  have "IsValidPathSegmentName ''status''" by (simp add: IsValidPathSegmentName_def)
  then show ?thesis
    using URL_Path_eq [OF assms(2), of name "''status''" c] valid_plain [of name] valid_plain [of "''status''"]
    by (auto simp: UpdateStatus_path_def scoped_request_eq [OF assms] set_Name_def set_SubResource_def)
qed

section \<open>What the clients are\<close>

definition limiter_for :: "rest_config \<Rightarrow> nat \<Rightarrow> int \<Rightarrow> limiter option" where
  "limiter_for c k burst =
     (if rc_QPS c < 0 then None
      else Some \<lparr>li_id = k, li_QPS = 5, li_Burst = (if rc_Burst c = 0 then burst else rc_Burst c)\<rparr>)"

lemma DefaultServerUrlFor_eq:
  "DefaultServerUrlFor T c = map_sum id (\<lambda>u. (u, DefaultVersionedAPIPath (rc_APIPath c)
      (case rc_GroupVersion c of None \<Rightarrow> ([], []) | Some gv \<Rightarrow> gv)))
     (ServerURL T (if rc_Host c = [] then ''localhost'' else rc_Host c))"
  by (simp add: DefaultServerUrlFor_def split: sum.split)

lemma setConfigDefaults_parts [simp]:
  "rc_Host (setConfigDefaults T c) = rc_Host c" "rc_APIPath (setConfigDefaults T c) = ''/apis''"
  "rc_GroupVersion (setConfigDefaults T c) = Some SchemeGroupVersion"
  "rc_NegotiatedSerializer (setConfigDefaults T c) = Some CrdCodecs"
  "rc_RateLimiter (setConfigDefaults T c) = rc_RateLimiter c"
  "rc_QPS (setConfigDefaults T c) = rc_QPS c" "rc_Burst (setConfigDefaults T c) = rc_Burst c"
  by (simp_all add: setConfigDefaults_def Let_def)

lemma setDiscoveryDefaults_parts [simp]:
  "rc_Host (setDiscoveryDefaults T c) = rc_Host c" "rc_APIPath (setDiscoveryDefaults T c) = []"
  "rc_GroupVersion (setDiscoveryDefaults T c) = None"
  "rc_NegotiatedSerializer (setDiscoveryDefaults T c) = Some NoopEncoder"
  "rc_RateLimiter (setDiscoveryDefaults T c) = rc_RateLimiter c"
  "rc_QPS (setDiscoveryDefaults T c) = rc_QPS c"
  "rc_Burst (setDiscoveryDefaults T c) = (if rc_Burst c = 0 then 300 else rc_Burst c)"
  by (simp_all add: setDiscoveryDefaults_def)

text \<open>The host's URL, which both clients use; the limiters the two get from one configuration.\<close>

abbreviation host_url :: "'h transports \<Rightarrow> rest_config \<Rightarrow> client_error + url" where
  "host_url T c \<equiv> ServerURL T (if rc_Host c = [] then ''localhost'' else rc_Host c)"

lemma client_limiter_cases:
  "client_limiter c next = (case rc_RateLimiter c of
      Some l \<Rightarrow> (Some l, next)
    | None \<Rightarrow> if rc_QPS c = 0 then (limiter_for c next 10, Suc next)
        else if rc_QPS c < 0 then (None, next)
        else (Some \<lparr>li_id = next, li_QPS = rc_QPS c, li_Burst = (if rc_Burst c = 0 then 10 else rc_Burst c)\<rparr>, Suc next))"
  by (auto simp: client_limiter_def limiter_for_def Let_def split: option.split)

lemma client_limiter_defaults [simp]:
  "client_limiter (setConfigDefaults T c) next = client_limiter c next"
  "client_limiter (setDiscoveryDefaults T c) next =
     client_limiter (c\<lparr>rc_Burst := if rc_Burst c = 0 then 300 else rc_Burst c\<rparr>) next"
  by (simp_all add: client_limiter_def Let_def cong: option.case_cong)

lemma DefaultServerUrlFor_defaults [simp]:
  "DefaultServerUrlFor T (setConfigDefaults T c) = map_sum id (\<lambda>u. (u, rooted crd_segs)) (host_url T c)"
  "DefaultServerUrlFor T (setDiscoveryDefaults T c) = map_sum id (\<lambda>u. (u, ''/'')) (host_url T c)"
  by (simp_all add: DefaultServerUrlFor_eq crd_path discovery_path)

lemma typed_eq:
  "typed_NewForConfigAndClient T c h next =
     (case host_url T c of
        Inl e \<Rightarrow> Inl e
      | Inr u \<Rightarrow> (case client_limiter c next of (l, next) \<Rightarrow>
          Inr (NewRESTClient u (rooted crd_segs) SchemeGroupVersion CrdCodecs l h, next)))"
  by (cases "host_url T c") (simp_all add: typed_NewForConfigAndClient_def RESTClientForConfigAndClient_def)

lemma discovery_eq:
  "NewDiscoveryClientForConfigAndClient T c h next =
     (case host_url T c of
        Inl e \<Rightarrow> Inl e
      | Inr u \<Rightarrow> (case client_limiter (c\<lparr>rc_Burst := if rc_Burst c = 0 then 300 else rc_Burst c\<rparr>) next of (l, next) \<Rightarrow>
          Inr (NewRESTClient u ''/'' ([], ''v1'') NoopEncoder l h, next)))"
  by (cases "host_url T c")
    (simp_all add: NewDiscoveryClientForConfigAndClient_def UnversionedRESTClientForConfigAndClient_def)

lemma NewForConfigAndClient_fails:
  "(\<exists>e. NewForConfigAndClient T c h next = Inl e) \<longleftrightarrow>
     rc_RateLimiter c = None \<and> rc_QPS c > 0 \<and> rc_Burst c \<le> 0 \<or> (\<exists>e. host_url T c = Inl e)"
  by (cases "host_url T c")
    (auto simp: NewForConfigAndClient_def typed_eq discovery_eq Let_def split: prod.splits)

definition with_agent :: "'h transports \<Rightarrow> rest_config \<Rightarrow> rest_config" where
  "with_agent T c = (if rc_UserAgent c = [] then c\<lparr>rc_UserAgent := DefaultKubernetesUserAgent T\<rparr> else c)"

lemma with_agent_parts [simp]:
  "rc_Host (with_agent T c) = rc_Host c" "rc_RateLimiter (with_agent T c) = rc_RateLimiter c"
  "rc_QPS (with_agent T c) = rc_QPS c" "rc_Burst (with_agent T c) = rc_Burst c"
  by (simp_all add: with_agent_def)

lemma NewForConfig_eq:
  "NewForConfig T c next = (case HTTPClientFor T (with_agent T c) of
     Inl e \<Rightarrow> Inl e | Inr h \<Rightarrow> NewForConfigAndClient T (with_agent T c) h next)"
  unfolding NewForConfig_def with_agent_def Let_def by (rule refl)

section \<open>Properties\<close>

text \<open>The clients of a clientset: both go through one HTTP client to one host, the typed one to the
  path of the program's group; a rate limiter that was given, or a rate that was, is shared by
  both, without either each gets a limiter of its own with its own burst, and with a negative
  rate none is limited.\<close>

theorem clientset_clients:
  assumes "HTTPClientFor T (with_agent T c) = Inr h" and "host_url T c = Inr u"
    and "rc_RateLimiter c \<noteq> None \<or> rc_QPS c \<le> 0 \<or> 0 < rc_Burst c"
  shows "\<exists>cs next'. NewForConfig T c next = Inr (cs, next')
    \<and> cl_Client (cs_crdmetricsV1alpha1 cs) = h \<and> cl_Client (cs_DiscoveryClient cs) = h
    \<and> cl_versionedAPIPath (cs_crdmetricsV1alpha1 cs) = rooted crd_segs
    \<and> cl_base (cs_crdmetricsV1alpha1 cs) = cl_base (cs_DiscoveryClient cs)
    \<and> (cl_rateLimiter (cs_crdmetricsV1alpha1 cs), cl_rateLimiter (cs_DiscoveryClient cs)) =
        (case rc_RateLimiter c of
           Some l \<Rightarrow> (Some l, Some l)
         | None \<Rightarrow>
             if rc_QPS c > 0
             then (let l = \<lparr>li_id = next, li_QPS = rc_QPS c, li_Burst = rc_Burst c\<rparr> in (Some l, Some l))
             else (limiter_for c next 10, limiter_for c (Suc next) 300))"
  using assms
  by (auto simp: NewForConfig_eq NewForConfigAndClient_def typed_eq discovery_eq client_limiter_cases
      limiter_for_def NewRESTClient_def Let_def split: option.splits)

definition sample_transports :: "nat transports" where
  "sample_transports = \<lparr>HTTPClientFor = (\<lambda>c. Inr 7), ServerURL = (\<lambda>host. Inr \<lparr>u_Host = host, u_Path = ''/proxy/''\<rparr>),
     DefaultKubernetesUserAgent = ''crdmetrics''\<rparr>"

definition sample_config :: rest_config where
  "sample_config = \<lparr>rc_Host = ''api:6443'', rc_APIPath = [], rc_GroupVersion = None, rc_NegotiatedSerializer = None,
     rc_UserAgent = [], rc_QPS = 0, rc_Burst = 0, rc_RateLimiter = None, rc_Timeout = 0\<rparr>"

theorem clientset_clients_witness:
  "\<exists>cs next'. NewForConfig sample_transports sample_config 0 = Inr (cs, next')
    \<and> cl_rateLimiter (cs_crdmetricsV1alpha1 cs) = Some \<lparr>li_id = 0, li_QPS = 5, li_Burst = 10\<rparr>
    \<and> cl_rateLimiter (cs_DiscoveryClient cs) = Some \<lparr>li_id = 1, li_QPS = 5, li_Burst = 300\<rparr>"
  using clientset_clients [of sample_transports sample_config 7 "\<lparr>u_Host = ''api:6443'', u_Path = ''/proxy/''\<rparr>" 0]
  by (simp add: sample_transports_def sample_config_def limiter_for_def) blast

text \<open>The clientset is refused, and the variant that must succeed panics, exactly when there is no
  HTTP client or no URL for the configuration, or a rate without a limiter and a burst; the
  start-up then exits with code 1.\<close>

theorem clientset_failures:
  "((\<exists>e. NewForConfig T c next = Inl e) \<longleftrightarrow>
     (\<exists>e. HTTPClientFor T (with_agent T c) = Inl e) \<or> (\<exists>e. host_url T c = Inl e)
     \<or> rc_RateLimiter c = None \<and> 0 < rc_QPS c \<and> rc_Burst c \<le> 0)
   \<and> (NewForConfigOrDie T c next = Inl p \<longleftrightarrow> p = ExplicitPanic \<and> (\<exists>e. NewForConfig T c next = Inl e))
   \<and> build_clients T (\<lambda>_. Inr k) (\<lambda>_. Inr d) (Inr c) next =
       (case NewForConfig T c next of Inl e \<Rightarrow> Inl 1 | Inr (cs, _) \<Rightarrow> Inr (k, cs, d))"
proof -
  have "(\<exists>e. NewForConfig T c next = Inl e) \<longleftrightarrow>
     (\<exists>e. HTTPClientFor T (with_agent T c) = Inl e) \<or> (\<exists>e. host_url T c = Inl e)
     \<or> rc_RateLimiter c = None \<and> 0 < rc_QPS c \<and> rc_Burst c \<le> 0"
  proof (cases "HTTPClientFor T (with_agent T c)")
    case (Inr h)
    then show ?thesis using NewForConfigAndClient_fails [of T "with_agent T c" h "next"]
      by (auto simp: NewForConfig_eq)
  qed (simp add: NewForConfig_eq)
  moreover have "NewForConfigOrDie T c next = Inl p \<longleftrightarrow> p = ExplicitPanic \<and> (\<exists>e. NewForConfig T c next = Inl e)"
    by (auto simp: NewForConfigOrDie_def split: sum.split)
  moreover have "build_clients T (\<lambda>_. Inr k) (\<lambda>_. Inr d) (Inr c) next =
       (case NewForConfig T c next of Inl e \<Rightarrow> Inl 1 | Inr (cs, _) \<Rightarrow> Inr (k, cs, d))"
    by (simp add: build_clients_def split: sum.split)
  ultimately show ?thesis by blast
qed

text \<open>The requests of the typed client: the path of a resource is made of the base path, the group's,
  the namespace if there is one and the name; a name that is empty or not a segment is an error
  before anything is sent; and no two resources, and no resource and another's status, share a
  path.\<close>

theorem request_paths:
  assumes "cl_versionedAPIPath c = rooted crd_segs" and "ns = [] \<or> IsValidPathSegmentName ns"
  shows "Get_path (newCRDMetricsResources c ns) name =
     (if name = [] then Inl EmptyName
      else if IsValidPathSegmentName name then Inr (rooted (request_segs c ns @ [name]))
      else Inl (InvalidSegment name))
    \<and> (\<forall>ns' name' p. (ns' = [] \<or> IsValidPathSegmentName ns')
         \<and> Get_path (newCRDMetricsResources c ns) name = Inr p \<longrightarrow>
           (Get_path (newCRDMetricsResources c ns') name' = Inr p \<longrightarrow> ns' = ns \<and> name' = name)
           \<and> UpdateStatus_path (newCRDMetricsResources c ns') name' \<noteq> Inr p)"
proof (intro conjI allI impI)
  show "Get_path (newCRDMetricsResources c ns) name =
     (if name = [] then Inl EmptyName
      else if IsValidPathSegmentName name then Inr (rooted (request_segs c ns @ [name]))
      else Inl (InvalidSegment name))"
    using assms by (rule Get_path_eq)
  fix ns' name' p
  assume a: "(ns' = [] \<or> IsValidPathSegmentName ns') \<and> Get_path (newCRDMetricsResources c ns) name = Inr p"
  then have ns': "ns' = [] \<or> IsValidPathSegmentName ns'" by blast
  have n: "name \<noteq> []" "IsValidPathSegmentName name" "p = rooted (request_segs c ns @ [name])"
    using a by (auto simp: Get_path_eq [OF assms] split: if_splits)
  have pl: "\<forall>s \<in> set (request_segs c ns @ [name]). plain_segment s"
    using request_segs_plain [OF assms(2)] valid_plain n by auto
  have st: "plain_segment ''status''" by (simp add: plain_segment_def)
  { assume "Get_path (newCRDMetricsResources c ns') name' = Inr p"
    then have n': "name' \<noteq> []" "IsValidPathSegmentName name'" "p = rooted (request_segs c ns' @ [name'])"
      by (auto simp: Get_path_eq [OF assms(1) ns'] split: if_splits)
    have "\<forall>s \<in> set (request_segs c ns' @ [name']). plain_segment s"
      using request_segs_plain [OF ns'] valid_plain n' by auto
    from rooted_inject [OF pl this] n(3) n'(3) show "ns' = ns" and "name' = name"
      by (auto simp: request_segs_def split: if_splits) }
  show "UpdateStatus_path (newCRDMetricsResources c ns') name' \<noteq> Inr p"
  proof
    assume "UpdateStatus_path (newCRDMetricsResources c ns') name' = Inr p"
    then have n': "name' \<noteq> []" "IsValidPathSegmentName name'" "p = rooted (request_segs c ns' @ [name', ''status''])"
      by (auto simp: UpdateStatus_path_eq [OF assms(1) ns'] split: if_splits)
    have "\<forall>s \<in> set (request_segs c ns' @ [name', ''status'']). plain_segment s"
      using request_segs_plain [OF ns'] valid_plain n' st by auto
    from rooted_inject [OF pl this] n(3) n'(3)
    have "length (request_segs c ns @ [name]) = length (request_segs c ns' @ [name', ''status''])" by metis
    then show False by (simp add: request_segs_def split: if_splits)
  qed
qed

theorem request_paths_witness:
  "\<exists>cs n. NewForConfig sample_transports sample_config 0 = Inr (cs, n)
    \<and> Get_path (newCRDMetricsResources (cs_crdmetricsV1alpha1 cs) []) ''r''
      = Inr ''/proxy/apis/crdmetrics.instrumentation.k8s-sigs.io/v1alpha1/crdmetricsresources/r''"
proof -
  obtain cs n where cs: "NewForConfig sample_transports sample_config 0 = Inr (cs, n)"
    "cl_versionedAPIPath (cs_crdmetricsV1alpha1 cs) = rooted crd_segs"
    "cl_base (cs_crdmetricsV1alpha1 cs) = \<lparr>u_Host = ''api:6443'', u_Path = ''/proxy/''\<rparr>"
    by (simp add: NewForConfig_eq NewForConfigAndClient_def typed_eq discovery_eq client_limiter_cases
        NewRESTClient_def sample_transports_def sample_config_def with_agent_def limiter_for_def)
  have "Get_path (newCRDMetricsResources (cs_crdmetricsV1alpha1 cs) []) ''r'' =
      Inr (rooted (request_segs (cs_crdmetricsV1alpha1 cs) [] @ [''r'']))"
    using request_paths [OF cs(2), of "[]" "''r''"] by (simp add: IsValidPathSegmentName_def)
  then show ?thesis using cs(1) by (simp add: request_segs_def base_segs_def cs(3) crd_segs_def GroupName_def rooted_def)
qed

end
