(* ===== verification/Api_Server.thy ===== *)
theory Api_Server
  imports Events
begin

text \<open>
  What the handler relies on of the API server, as an interface: which resources it has
  stored, and what reads and writes do to them. The handler's effect on the stored resources
  is derived once, from these laws alone; \<open>Fake_Client\<close> provides them.
\<close>

section \<open>Resources as the handler leaves them\<close>

definition labelled :: "string \<Rightarrow> resource \<Rightarrow> resource" where
  "labelled version r = r\<lparr>cr_Labels := Some (metadata_labels version (cr_Labels r))\<rparr>"

definition stated :: "string \<Rightarrow> string \<Rightarrow> string \<Rightarrow> int \<Rightarrow> resource \<Rightarrow> condition" where
  "stated typ status message now r =
     (let c = \<lparr>cd_Type = typ, cd_Status = status, cd_ObservedGeneration = 0,
               cd_LastTransitionTime = 0, cd_Reason = [], cd_Message = message\<rparr>
      in stamped now r (reason_of c) (message_of c) c)"

definition with_condition :: "condition \<Rightarrow> resource \<Rightarrow> resource" where
  "with_condition c r = r\<lparr>cr_Conditions := put_condition c (cr_Conditions r)\<rparr>"

abbreviation key_of :: "resource \<Rightarrow> string \<times> string" where
  "key_of r \<equiv> (cr_Namespace r, cr_Name r)"

lemma labelled_parts [simp]:
  "cr_Name (labelled v r) = cr_Name r" "cr_Namespace (labelled v r) = cr_Namespace r"
  "cr_UID (labelled v r) = cr_UID r" "cr_Configuration (labelled v r) = cr_Configuration r"
  "cr_Conditions (labelled v r) = cr_Conditions r" "cr_Generation (labelled v r) = cr_Generation r"
  by (simp_all add: labelled_def)

lemma with_condition_parts [simp]:
  "cr_Name (with_condition c r) = cr_Name r" "cr_Namespace (with_condition c r) = cr_Namespace r"
  "cr_UID (with_condition c r) = cr_UID r" "cr_Configuration (with_condition c r) = cr_Configuration r"
  "cr_Labels (with_condition c r) = cr_Labels r" "cr_Generation (with_condition c r) = cr_Generation r"
  "cr_Conditions (with_condition c r) = put_condition c (cr_Conditions r)"
  by (simp_all add: with_condition_def)

lemma stated_cong: "cr_Generation r = cr_Generation q \<Longrightarrow> stated t s m now r = stated t s m now q"
  by (simp add: stated_def stamped_def Let_def)

lemma stated_same [simp]:
  "stated t s m now (labelled v r) = stated t s m now r"
  "stated t s m now (with_condition c r) = stated t s m now r"
  by (rule stated_cong; simp)+

lemma stated_type [simp]: "cd_Type (stated t s m now r) = t" "cd_Status (stated t s m now r) = s"
  by (simp_all add: stated_def Let_def)

lemma with_condition_twice [simp]:
  "cd_Type c = cd_Type d \<Longrightarrow> with_condition d (with_condition c r) = with_condition d r"
  by (simp add: with_condition_def put_condition_twice)

lemma emitSuccess_stated:
  "emitSuccessOnResource E got b message w =
     (case api_Get E (cr_Namespace got) (cr_Name got) w of
        (Inl err, w) \<Rightarrow> Inr (Inl err, w)
      | (Inr res, w) \<Rightarrow> (case env_Now E w of (now, w) \<Rightarrow>
          Inr (api_UpdateStatus E (with_condition (stated ''Processed'' b message now res) res) w)))"
  unfolding emitSuccess_eq stated_def with_condition_def Let_def ..

lemma emitFailure_stated:
  "emitFailureOnResource E got message w =
     (case api_Get E (cr_Namespace got) (cr_Name got) w of
        (Inl err, w) \<Rightarrow> Inr w
      | (Inr res, w) \<Rightarrow> (case env_Now E w of (now, w) \<Rightarrow>
          Inr (snd (api_UpdateStatus E (with_condition (stated ''Failed'' ''True'' message now res) res) w))))"
  unfolding emitFailure_eq stated_def with_condition_def Let_def ..

section \<open>The interface\<close>

text \<open>
  A write of a resource that is stored replaces it. It is only required to do so when nothing
  but the labels differs from what is stored, and a status write when nothing but the
  conditions does: the program has no other writes.
\<close>

locale api_server =
  fixes E :: "'w env" and valid :: "'w \<Rightarrow> bool" and stored :: "'w \<Rightarrow> string \<times> string \<Rightarrow> resource option"
  assumes keyed: "valid w \<Longrightarrow> stored w k = Some r \<Longrightarrow> key_of r = k"
    and get: "valid w \<Longrightarrow> \<exists>w'. api_Get E ns n w =
        ((case stored w (ns, n) of None \<Rightarrow> Inl NotFound | Some r \<Rightarrow> Inr r), w')
      \<and> valid w' \<and> stored w' = stored w"
    and update: "valid w \<Longrightarrow> stored w (key_of r) = Some r \<Longrightarrow>
      \<exists>w'. api_Update E (r\<lparr>cr_Labels := ls\<rparr>) w = (Inr (r\<lparr>cr_Labels := ls\<rparr>), w')
      \<and> valid w' \<and> stored w' = (stored w)(key_of r \<mapsto> r\<lparr>cr_Labels := ls\<rparr>)"
    and update_status: "valid w \<Longrightarrow> stored w (key_of r) = Some r \<Longrightarrow>
      \<exists>w'. api_UpdateStatus E (r\<lparr>cr_Conditions := ds\<rparr>) w = (Inr (r\<lparr>cr_Conditions := ds\<rparr>), w')
      \<and> valid w' \<and> stored w' = (stored w)(key_of r \<mapsto> r\<lparr>cr_Conditions := ds\<rparr>)"
    and now: "valid w \<Longrightarrow> env_Now E w = (t, w') \<Longrightarrow> valid w' \<and> stored w' = stored w"
    and tick: "valid w \<Longrightarrow> env_Tick E w = (b, w') \<Longrightarrow> valid w' \<and> stored w' = stored w"
begin

lemma get_stored:
  assumes "valid w" and "stored w (ns, n) = Some r"
  obtains w' where "api_Get E ns n w = (Inr r, w')" "valid w'" "stored w' = stored w"
  using get [OF assms(1), of ns n] assms(2) by auto

lemma get_missing:
  assumes "valid w" and "stored w (ns, n) = None"
  obtains w' where "api_Get E ns n w = (Inl NotFound, w')" "valid w'" "stored w' = stored w"
  using get [OF assms(1), of ns n] assms(2) by auto

text \<open>Reading the resource, the clock, and writing a condition: one status write.\<close>

lemma write_condition:
  assumes "valid w" and "stored w (ns, n) = Some r"
  obtains w1 now w2 w' where "api_Get E ns n w = (Inr r, w1)" "env_Now E w1 = (now, w2)"
    "api_UpdateStatus E (with_condition (f now) r) w2 = (Inr (with_condition (f now) r), w')"
    "valid w'" "stored w' = (stored w)((ns, n) \<mapsto> with_condition (f now) r)"
proof -
  obtain w1 where g: "api_Get E ns n w = (Inr r, w1)" "valid w1" "stored w1 = stored w"
    using assms by (rule get_stored)
  obtain now w2 where t: "env_Now E w1 = (now, w2)" by fastforce
  then have w2: "valid w2" "stored w2 = stored w" using now [OF g(2) t] g(3) by simp_all
  have k: "key_of r = (ns, n)" using assms by (rule keyed)
  with w2(2) assms(2) have "stored w2 (key_of r) = Some r" by simp
  from update_status [OF w2(1) this, of "put_condition (f now) (cr_Conditions r)"]
  show thesis using that [OF g(1) t] k w2(2) by (auto simp: with_condition_def)
qed

lemma emit_success:
  assumes "valid w" and "stored w (key_of g) = Some r"
  shows "\<exists>now w'. emitSuccessOnResource E g b msg w
      = Inr (Inr (with_condition (stated ''Processed'' b msg now r) r), w')
    \<and> valid w' \<and> stored w' = (stored w)(key_of g \<mapsto> with_condition (stated ''Processed'' b msg now r) r)"
  by (rule write_condition [OF assms, of "\<lambda>now. stated ''Processed'' b msg now r"]) (auto simp: emitSuccess_stated)

lemma emit_failure:
  assumes "valid w" and "stored w (key_of g) = Some r"
  shows "\<exists>now w'. emitFailureOnResource E g msg w = Inr w'
    \<and> valid w' \<and> stored w' = (stored w)(key_of g \<mapsto> with_condition (stated ''Failed'' ''True'' msg now r) r)"
  by (rule write_condition [OF assms, of "\<lambda>now. stated ''Failed'' ''True'' msg now r"]) (auto simp: emitFailure_stated)

lemma write_metadata:
  assumes "valid w" and "stored w (key_of g) = Some r" and "env_Tick E w = (True, w1)"
  shows "\<exists>w'. updateMetadata E g w = (True, w') \<and> valid w'
    \<and> stored w' = (stored w)(key_of g \<mapsto> labelled (env_Version E) r)"
proof -
  have w1: "valid w1" "stored w1 = stored w" using tick [OF assms(1,3)] by simp_all
  then obtain w2 where g: "api_Get E (cr_Namespace g) (cr_Name g) w1 = (Inr r, w2)" "valid w2" "stored w2 = stored w"
    using assms(2) get_stored [of w1 "cr_Namespace g" "cr_Name g" r] by auto
  have k: "key_of r = key_of g" using keyed [OF assms(1,2)] .
  have "stored w2 (key_of r) = Some r" using assms(2) g(3) k by simp
  from update [OF g(2) this, of "Some (metadata_labels (env_Version E) (cr_Labels r))"] obtain w' where
    "api_Update E (labelled (env_Version E) r) w2 = (Inr (labelled (env_Version E) r), w')"
    "valid w'" "stored w' = (stored w)(key_of g \<mapsto> labelled (env_Version E) r)"
    using k g(3) by (auto simp: labelled_def)
  then show ?thesis using assms(3) g(1) by (simp add: updateMetadata_def labelled_def)
qed

text \<open>Metadata and the first status write, for a resource that has a configuration.\<close>

lemma reaches:
  assumes "valid w" and "stored w (key_of g) = Some r" and "env_Tick E w = (True, w1)"
    and "cr_Configuration r \<noteq> []"
  obtains now w' where
    "reaches_switch E event g w (with_condition (stated ''Processed'' ConditionFalse (received_message event) now r)
        (labelled (env_Version E) r)) w'"
    "valid w'" "stored w' = (stored w)(key_of g \<mapsto>
        with_condition (stated ''Processed'' ConditionFalse (received_message event) now r) (labelled (env_Version E) r))"
proof -
  obtain w2 where m: "updateMetadata E g w = (True, w2)" "valid w2"
    "stored w2 = (stored w)(key_of g \<mapsto> labelled (env_Version E) r)"
    using write_metadata [OF assms(1-3)] by blast
  then have "stored w2 (key_of g) = Some (labelled (env_Version E) r)" by simp
  from emit_success [OF m(2) this, of ConditionFalse "received_message event"] that show thesis
    using m assms(4) by (auto simp: reaches_switch_def)
qed

text \<open>A good configuration: the stores are rebuilt and the resource says that it is processed.\<close>

lemma handled:
  assumes "valid w" and "stored w (key_of g) = Some r" and "env_Tick E w = (True, w1)"
    and "event = ''addEvent'' \<or> event = ''updateEvent''" and "cr_Configuration r \<noteq> []"
    and "env_yaml E (cr_Configuration r) = Inr ps"
    and "\<forall>p \<in> set ps. \<exists>sc. p = Some sc \<and> store_config sc" and "hstate_wf h"
  shows "\<exists>h' w' now. handleEvent E nc event (ManagedResource g) h w = Inr (h', w') \<and> valid w'
    \<and> stored w' = (stored w)(key_of g \<mapsto>
        with_condition (stated ''Processed'' ''True'' (processed_message event) now r) (labelled (env_Version E) r))
    \<and> stores_at (stores_map h') (cr_UID r) = [length (heap h)..<length (heap h) + length ps]"
proof -
  let ?l = "labelled (env_Version E) r"
  obtain now w2 where r2: "reaches_switch E event g w
      (with_condition (stated ''Processed'' ConditionFalse (received_message event) now r) ?l) w2" "valid w2"
    "stored w2 = (stored w)(key_of g \<mapsto>
        with_condition (stated ''Processed'' ConditionFalse (received_message event) now r) ?l)"
    using assms(1-3,5) by (rule reaches)
  let ?q = "with_condition (stated ''Processed'' ConditionFalse (received_message event) now r) ?l"
  have k: "key_of ?q = key_of g" using keyed [OF assms(1,2)] by simp
  obtain h' where b: "build nc (cr_UID ?q) ps (dropStores (cr_UID ?q) h) = Inr h'"
    using build_no_panic [OF assms(7)] by blast
  have sw: "handle_switch E nc event ?q h w2 = Inr (h', w2, True)"
    using assms(4,6) b by (auto simp: handle_switch_def parse_def)
  have "stored w2 (key_of ?q) = Some ?q" using r2(3) k by simp
  from emit_success [OF r2(2) this, of ConditionTrue "processed_message event"] obtain now' w' where
    e: "emitSuccessOnResource E ?q ConditionTrue (processed_message event) w2
        = Inr (Inr (with_condition (stated ''Processed'' ConditionTrue (processed_message event) now' ?q) ?q), w')"
      "valid w'" "stored w' = (stored w2)(key_of ?q \<mapsto>
          with_condition (stated ''Processed'' ConditionTrue (processed_message event) now' ?q) ?q)"
    by blast
  have "handleEvent E nc event (ManagedResource g) h w = Inr (h', w')"
    by (simp add: handleEvent_switch [OF r2(1)] sw e(1))
  moreover have "stored w' = (stored w)(key_of g \<mapsto>
      with_condition (stated ''Processed'' ''True'' (processed_message event) now' r) ?l)"
    using e(3) r2(3) k by (simp add: ConditionTrue_def)
  moreover have "stores_at (stores_map h') (cr_UID r) = [length (heap h)..<length (heap h) + length ps]"
    using build_spec [OF b dropStores_wf [OF assms(8)]] by (auto simp: dropStores_at)
  ultimately show ?thesis using e(2) by blast
qed

text \<open>A configuration that does not parse: the stores are gone, and the resource says that it failed
  and that its last event is yet to be processed.\<close>

lemma rejected:
  assumes "valid w" and "stored w (key_of g) = Some r" and "env_Tick E w = (True, w1)"
    and "event = ''addEvent'' \<or> event = ''updateEvent''" and "cr_Configuration r \<noteq> []"
    and "env_yaml E (cr_Configuration r) = Inl err"
  shows "\<exists>w' now now'. handleEvent E nc event (ManagedResource g) h w = Inr (dropStores (cr_UID r) h, w')
    \<and> valid w' \<and> stored w' = (stored w)(key_of g \<mapsto>
        with_condition (stated ''Failed'' ''True''
            (''Failed to parse configuration YAML: error unmarshalling configuration: '' @ err) now' r)
          (with_condition (stated ''Processed'' ''False'' (received_message event) now r)
            (labelled (env_Version E) r)))"
proof -
  let ?msg = "''Failed to parse configuration YAML: error unmarshalling configuration: '' @ err"
  let ?l = "labelled (env_Version E) r"
  obtain now w2 where r2: "reaches_switch E event g w
      (with_condition (stated ''Processed'' ConditionFalse (received_message event) now r) ?l) w2" "valid w2"
    "stored w2 = (stored w)(key_of g \<mapsto>
        with_condition (stated ''Processed'' ConditionFalse (received_message event) now r) ?l)"
    using assms(1-3,5) by (rule reaches)
  let ?q = "with_condition (stated ''Processed'' ConditionFalse (received_message event) now r) ?l"
  have k: "key_of ?q = key_of g" using keyed [OF assms(1,2)] by simp
  have "stored w2 (key_of ?q) = Some ?q" using r2(3) k by simp
  from emit_failure [OF r2(2) this, of ?msg] obtain now' w' where
    e: "emitFailureOnResource E ?q ?msg w2 = Inr w'" "valid w'"
      "stored w' = (stored w2)(key_of ?q \<mapsto> with_condition (stated ''Failed'' ''True'' ?msg now' ?q) ?q)"
    by blast
  have "handle_switch E nc event ?q h w2 = Inr (dropStores (cr_UID r) h, w', False)"
    using assms(4,6) e(1) by (auto simp: handle_switch_def parse_def Let_def)
  then have "handleEvent E nc event (ManagedResource g) h w = Inr (dropStores (cr_UID r) h, w')"
    by (simp add: handleEvent_switch [OF r2(1)])
  moreover have "stored w' = (stored w)(key_of g \<mapsto> with_condition (stated ''Failed'' ''True'' ?msg now' r) ?q)"
    using e(3) r2(3) k by simp
  ultimately show ?thesis using e(2) unfolding ConditionFalse_def by blast
qed

text \<open>A resource the server does not have: nothing changes, whatever the event.\<close>

lemma absent:
  assumes "valid w" and "stored w (key_of g) = None"
  shows "\<exists>w'. handleEvent E nc event (ManagedResource g) h w = Inr (h, w') \<and> valid w' \<and> stored w' = stored w"
proof -
  obtain b w1 where t: "env_Tick E w = (b, w1)" by fastforce
  with assms have w1: "valid w1" "stored w1 = stored w" using tick by blast+
  with assms(2) obtain w2 where g: "api_Get E (cr_Namespace g) (cr_Name g) w1 = (Inl NotFound, w2)"
    "valid w2" "stored w2 = stored w"
    using get_missing [of w1 "cr_Namespace g" "cr_Name g"] by auto
  show ?thesis
    using t g w1 by (cases b) (auto simp: handleEvent_def updateMetadata_def)
qed

end

end
