(* ===== verification/Object_Tracker.thy ===== *)
theory Object_Tracker
  imports Api_Server Scheme Reflector
begin

text \<open>
  The object tracker of the vendored \<^verbatim>\<open>client-go/testing\<close>, which the generated fake clientset
  stores its resources in: a map of objects for each resource, watchers that are told of each
  change, and lists in a fixed order. The parsers of selectors and patches, the sorting
  function and the order of map iteration are parameters. Only managed resources are tracked;
  a deep copy of a value is the value.
\<close>

section \<open>Watchers\<close>

text \<open>A watcher's channel holds what has not been received; to send to a full one panics.\<close>

record fake_watcher =
  fw_result :: "(watch_type \<times> resource) list"
  fw_Stopped :: bool

definition DefaultChanSize :: nat where
  "DefaultChanSize = 100"

definition NewRaceFreeFake :: fake_watcher where
  "NewRaceFreeFake = \<lparr>fw_result = [], fw_Stopped = False\<rparr>"

definition watcher_send :: "watch_type \<Rightarrow> resource \<Rightarrow> fake_watcher \<Rightarrow> fake_watcher go" where
  "watcher_send typ obj f =
     (if fw_Stopped f then Inr f
      else if length (fw_result f) < DefaultChanSize
        then Inr (f\<lparr>fw_result := fw_result f @ [(typ, obj)]\<rparr>)
        else Inl ExplicitPanic)"

section \<open>The tracker\<close>

datatype status_error = StatusNotFound string | StatusAlreadyExists string | StatusBadRequest
  | NotRegistered | NotAListType | PatchFailed string | NoReaction | UnhandledWatch

record tracker =
  tr_objects :: "(gvr, (string \<times> string, resource) gomap) gomap"
  tr_watchers :: "(gvr, (string, nat list) gomap) gomap"
  tr_channels :: "fake_watcher list"

definition NewObjectTracker :: tracker where
  "NewObjectTracker = \<lparr>tr_objects = [], tr_watchers = [], tr_channels = []\<rparr>"

definition objects_at :: "gvr \<Rightarrow> tracker \<Rightarrow> (string \<times> string, resource) gomap" where
  "objects_at g t = (case gm_get (tr_objects t) g of None \<Rightarrow> [] | Some objs \<Rightarrow> objs)"

definition watchers_at :: "gvr \<Rightarrow> string \<Rightarrow> tracker \<Rightarrow> nat list" where
  "watchers_at g ns t =
     (case gm_get (tr_watchers t) g of
        None \<Rightarrow> []
      | Some m \<Rightarrow> (case gm_get m ns of None \<Rightarrow> [] | Some w \<Rightarrow> w))"

definition getWatches :: "gvr \<Rightarrow> string \<Rightarrow> tracker \<Rightarrow> nat list" where
  "getWatches g ns t = watchers_at g ns t @ (if ns \<noteq> [] then watchers_at g [] t else [])"

fun announce :: "watch_type \<Rightarrow> resource \<Rightarrow> nat list \<Rightarrow> tracker \<Rightarrow> tracker go" where
  "announce typ obj [] t = Inr t"
| "announce typ obj (a # as) t =
     go_bind (watcher_send typ obj (tr_channels t ! a)) (\<lambda>f.
       announce typ obj as (t\<lparr>tr_channels := (tr_channels t)[a := f]\<rparr>))"

definition namespaced :: "string \<Rightarrow> resource \<Rightarrow> resource" where
  "namespaced ns obj = (if cr_Namespace obj = [] then obj\<lparr>cr_Namespace := ns\<rparr> else obj)"

text \<open>An entry is made for the resource before its objects are looked at.\<close>

definition tracker_add ::
    "gvr \<Rightarrow> resource \<Rightarrow> string \<Rightarrow> bool \<Rightarrow> tracker \<Rightarrow> (status_error option \<times> tracker) go" where
  "tracker_add g obj ns replaceExisting t =
     (let obj = namespaced ns obj in
      if ns \<noteq> cr_Namespace obj then Inr (Some StatusBadRequest, t)
      else
        let objs = objects_at g t;
            t = t\<lparr>tr_objects := gm_set g objs (tr_objects t)\<rparr>;
            with_obj = (\<lambda>t. t\<lparr>tr_objects := gm_set g (gm_set (key_of obj) obj objs) (tr_objects t)\<rparr>)
        in if gm_get objs (key_of obj) \<noteq> None then
             if replaceExisting
             then go_bind (announce Modified obj (getWatches g ns t) t) (\<lambda>t. Inr (None, with_obj t))
             else Inr (Some (StatusAlreadyExists (cr_Name obj)), t)
           else if replaceExisting then Inr (Some (StatusNotFound (cr_Name obj)), t)
           else go_bind (announce Added obj (getWatches g ns t) (with_obj t)) (\<lambda>t. Inr (None, t)))"

definition tracker_Get :: "gvr \<Rightarrow> string \<Rightarrow> string \<Rightarrow> tracker \<Rightarrow> status_error + resource" where
  "tracker_Get g ns name t =
     (case gm_get (objects_at g t) (ns, name) of
        None \<Rightarrow> Inl (StatusNotFound name)
      | Some obj \<Rightarrow> Inr obj)"

definition tracker_Delete ::
    "gvr \<Rightarrow> string \<Rightarrow> string \<Rightarrow> tracker \<Rightarrow> (status_error option \<times> tracker) go" where
  "tracker_Delete g ns name t =
     (case gm_get (objects_at g t) (ns, name) of
        None \<Rightarrow> Inr (Some (StatusNotFound name), t)
      | Some obj \<Rightarrow>
          go_bind (announce Deleted obj (getWatches g ns t)
              (t\<lparr>tr_objects := gm_set g (gm_del (ns, name) (objects_at g t)) (tr_objects t)\<rparr>))
            (\<lambda>t. Inr (None, t)))"

text \<open>The address of the new watcher.\<close>

definition tracker_Watch :: "gvr \<Rightarrow> string \<Rightarrow> tracker \<Rightarrow> nat \<times> tracker" where
  "tracker_Watch g ns t =
     (let m = (case gm_get (tr_watchers t) g of None \<Rightarrow> [] | Some m \<Rightarrow> m);
          a = length (tr_channels t)
      in (a, t\<lparr>tr_watchers := gm_set g (gm_set ns (watchers_at g ns t @ [a]) m) (tr_watchers t),
              tr_channels := tr_channels t @ [NewRaceFreeFake]\<rparr>))"

text \<open>Objects of a namespace, or of all, in the order of their namespaces and names.\<close>

record fake_libs =
  fl_sort :: "(resource \<Rightarrow> resource \<Rightarrow> bool) \<Rightarrow> resource list \<Rightarrow> resource list"
  fl_order :: "((string \<times> string) \<times> resource) list \<Rightarrow> ((string \<times> string) \<times> resource) list"
  fl_Parse :: "string \<Rightarrow> ((string, string) gomap option \<Rightarrow> bool) option"
  fl_ParseSelector :: "string \<Rightarrow> bool"
  fl_patch :: "string \<Rightarrow> string \<Rightarrow> resource \<Rightarrow> string + resource"
  fl_apply_name :: "string \<Rightarrow> string + string"

definition object_less :: "resource \<Rightarrow> resource \<Rightarrow> bool" where
  "object_less r q =
     (if cr_Namespace r \<noteq> cr_Namespace q then cr_Namespace r < cr_Namespace q
      else cr_Name r < cr_Name q)"

definition filterByNamespace ::
    "fake_libs \<Rightarrow> (string \<times> string, resource) gomap \<Rightarrow> string \<Rightarrow> resource list" where
  "filterByNamespace L objs ns =
     fl_sort L object_less
       (filter (\<lambda>obj. \<not> (ns \<noteq> [] \<and> cr_Namespace obj \<noteq> ns)) (map snd (fl_order L objs)))"

definition tracker_List ::
    "fake_libs \<Rightarrow> go_scheme \<Rightarrow> gvr \<Rightarrow> gvk \<Rightarrow> string \<Rightarrow> tracker \<Rightarrow> status_error + resource list" where
  "tracker_List L S g k ns t =
     (let listGVK = k\<lparr>gvk_Kind := gvk_Kind k @ ''List'',
            gvk_Version := (if gvk_Version k = [] then APIVersionInternal else gvk_Version k)\<rparr>
      in case scheme_New S listGVK of
           None \<Rightarrow> Inl NotRegistered
         | Some typ \<Rightarrow>
             if typ \<noteq> crd_type ''CRDMetricsResourceList'' then Inl NotAListType
             else Inr (filterByNamespace L (objects_at g t) ns))"

text \<open>The plural form of a kind, by its last letters.\<close>

definition UnsafeGuessKindToResource :: "gvk \<Rightarrow> gvr" where
  "UnsafeGuessKindToResource k =
     (let singularName = ToLower (gvk_Kind k);
          plural =
            (if drop (length singularName - 9) singularName = ''endpoints'' then singularName
             else if last singularName = CHR ''s'' then singularName @ ''es''
             else if last singularName = CHR ''y'' then butlast singularName @ ''ies''
             else singularName @ ''s'')
      in if gvk_Kind k = [] then \<lparr>gvr_Group = [], gvr_Version = [], gvr_Resource = []\<rparr>
         else \<lparr>gvr_Group = gvk_Group k, gvr_Version = gvk_Version k, gvr_Resource = plural\<rparr>)"

fun add_kinds :: "gvk list \<Rightarrow> resource \<Rightarrow> tracker \<Rightarrow> (status_error option \<times> tracker) go" where
  "add_kinds [] obj t = Inr (None, t)"
| "add_kinds (k # ks) obj t =
     (let g = UnsafeGuessKindToResource k;
          g = (if gvr_Version g = APIVersionInternal then g\<lparr>gvr_Version := []\<rparr> else g)
      in go_bind (tracker_add g obj (cr_Namespace obj) False t) (\<lambda>(err, t).
           case err of Some e \<Rightarrow> Inr (Some e, t) | None \<Rightarrow> add_kinds ks obj t))"

definition tracker_Add :: "go_scheme \<Rightarrow> resource \<Rightarrow> tracker \<Rightarrow> (status_error option \<times> tracker) go" where
  "tracker_Add S obj t =
     (case ObjectKinds S (crd_type ''CRDMetricsResource'') of
        None \<Rightarrow> Inr (Some NotRegistered, t)
      | Some (ks, unversioned) \<Rightarrow>
          if ks = [] then Inr (Some NotRegistered, t) else add_kinds ks obj t)"

section \<open>What is tracked and who is told\<close>

abbreviation tracked :: "tracker \<Rightarrow> gvr \<Rightarrow> string \<times> string \<Rightarrow> resource option" where
  "tracked t g \<equiv> gm_get (objects_at g t)"

lemma namespaced_name [simp]: "cr_Name (namespaced ns obj) = cr_Name obj"
  by (simp add: namespaced_def)

lemma namespaced_own [simp]: "namespaced (cr_Namespace obj) obj = obj"
  by (simp add: namespaced_def)

definition sent :: "watch_type \<Rightarrow> resource \<Rightarrow> fake_watcher \<Rightarrow> fake_watcher" where
  "sent typ obj f = (if fw_Stopped f then f else f\<lparr>fw_result := fw_result f @ [(typ, obj)]\<rparr>)"

lemma sent_parts [simp]:
  "fw_Stopped (sent typ obj f) = fw_Stopped f"
  "\<not> fw_Stopped f \<Longrightarrow> fw_result (sent typ obj f) = fw_result f @ [(typ, obj)]"
  by (simp_all add: sent_def)

lemma watcher_send_Inr: "watcher_send typ obj f = Inr f' \<Longrightarrow> f' = sent typ obj f"
  by (auto simp: watcher_send_def sent_def split: if_splits)

lemma objects_at_set [simp]:
  "objects_at g (t\<lparr>tr_objects := gm_set g' objs (tr_objects t)\<rparr>) = (if g = g' then objs else objects_at g t)"
  "objects_at g (t\<lparr>tr_channels := cs, tr_objects := gm_set g' objs (tr_objects t)\<rparr>)
     = (if g = g' then objs else objects_at g t)"
  by (simp_all add: objects_at_def gm_get_set)

lemma objects_at_channels [simp]:
  "objects_at g (t\<lparr>tr_channels := cs\<rparr>) = objects_at g t"
  "objects_at g (t\<lparr>tr_watchers := ws\<rparr>) = objects_at g t"
  by (simp_all add: objects_at_def)

lemma watchers_at_objects [simp]:
  "watchers_at g ns (t\<lparr>tr_objects := objs\<rparr>) = watchers_at g ns t"
  "watchers_at g ns (t\<lparr>tr_channels := cs\<rparr>) = watchers_at g ns t"
  by (simp_all add: watchers_at_def)

lemma getWatches_objects [simp]:
  "getWatches g ns (t\<lparr>tr_objects := objs\<rparr>) = getWatches g ns t"
  "getWatches g ns (t\<lparr>tr_channels := cs\<rparr>) = getWatches g ns t"
  by (simp_all add: getWatches_def)

text \<open>Telling the watchers changes their channels only, each once.\<close>

definition told :: "watch_type \<Rightarrow> resource \<Rightarrow> nat list \<Rightarrow> fake_watcher list \<Rightarrow> fake_watcher list" where
  "told typ obj as cs = map (\<lambda>(a, f). if a \<in> set as then sent typ obj f else f) (List.enumerate 0 cs)"

lemma told_nth [simp]:
  "a < length cs \<Longrightarrow> told typ obj as cs ! a = (if a \<in> set as then sent typ obj (cs ! a) else cs ! a)"
  by (simp add: told_def nth_enumerate_eq)

lemma length_told [simp]: "length (told typ obj as cs) = length cs"
  by (simp add: told_def)

lemma told_Nil [simp]: "told typ obj [] cs = cs"
  by (rule nth_equalityI) simp_all

lemma announce_told:
  assumes "announce typ obj as t = Inr t'" and "distinct as" and "\<forall>a \<in> set as. a < length (tr_channels t)"
  shows "t' = t\<lparr>tr_channels := told typ obj as (tr_channels t)\<rparr>"
  using assms
proof (induction as arbitrary: t)
  case (Cons a as)
  let ?t = "t\<lparr>tr_channels := (tr_channels t)[a := sent typ obj (tr_channels t ! a)]\<rparr>"
  from Cons.prems(1) have "announce typ obj as ?t = Inr t'"
    by (auto simp: go_bind_eq_Inr dest: watcher_send_Inr)
  then have "t' = ?t\<lparr>tr_channels := told typ obj as (tr_channels ?t)\<rparr>"
    using Cons.prems(2,3) by (intro Cons.IH) auto
  moreover have "told typ obj as (tr_channels ?t) = told typ obj (a # as) (tr_channels t)"
    using Cons.prems(2,3) by (intro nth_equalityI) (auto simp: nth_list_update)
  ultimately show ?case by simp
qed simp

text \<open>Every watcher is in one list, once; every object stands under its own namespace and name.\<close>

definition tracker_wf :: "tracker \<Rightarrow> bool" where
  "tracker_wf t \<longleftrightarrow>
     (\<forall>g ns. distinct (watchers_at g ns t) \<and> (\<forall>a \<in> set (watchers_at g ns t). a < length (tr_channels t)))
     \<and> (\<forall>g ns g' ns' a. a \<in> set (watchers_at g ns t) \<longrightarrow> a \<in> set (watchers_at g' ns' t) \<longrightarrow> g = g' \<and> ns = ns')
     \<and> (\<forall>g k obj. tracked t g k = Some obj \<longrightarrow> key_of obj = k)
     \<and> (\<forall>g. gm_wf (objects_at g t))"

lemma tracker_wfD:
  assumes "tracker_wf t"
  shows "distinct (watchers_at g ns t)" "a \<in> set (watchers_at g ns t) \<Longrightarrow> a < length (tr_channels t)"
    "a \<in> set (watchers_at g ns t) \<Longrightarrow> a \<in> set (watchers_at g' ns' t) \<Longrightarrow> g = g' \<and> ns = ns'"
    "tracked t g k = Some obj \<Longrightarrow> key_of obj = k" "gm_wf (objects_at g t)"
  using assms unfolding tracker_wf_def by blast+

lemma getWatches_ok:
  assumes "tracker_wf t"
  shows "distinct (getWatches g ns t)" "a \<in> set (getWatches g ns t) \<Longrightarrow> a < length (tr_channels t)"
  using tracker_wfD(1,2) [OF assms] tracker_wfD(3) [OF assms, of _ g ns g "[]"]
  by (auto simp: getWatches_def)

lemma announce_wf:
  assumes "announce typ obj (getWatches g ns t) t' = Inr t''" and "tracker_wf t"
    and "tr_channels t' = tr_channels t"
  shows "t'' = t'\<lparr>tr_channels := told typ obj (getWatches g ns t) (tr_channels t)\<rparr>"
  using announce_told [OF assms(1)] getWatches_ok [OF assms(2)] assms(3) by auto

text \<open>What one write does: the entry it changes, if any, and the event that it announces.\<close>

inductive tracker_write :: "gvr \<Rightarrow> tracker \<Rightarrow> tracker \<Rightarrow> bool" for g where
  nothing: "(\<And>g'. objects_at g' t' = objects_at g' t)
    \<Longrightarrow> tr_watchers t' = tr_watchers t \<Longrightarrow> tr_channels t' = tr_channels t \<Longrightarrow> tracker_write g t t'"
| put: "(\<And>g'. objects_at g' t' = (if g' = g then gm_set (key_of obj) obj (objects_at g t) else objects_at g' t))
    \<Longrightarrow> tr_watchers t' = tr_watchers t \<Longrightarrow> tp \<in> {Added, Modified}
    \<Longrightarrow> tr_channels t' = told tp obj (getWatches g (cr_Namespace obj) t) (tr_channels t)
    \<Longrightarrow> tracker_write g t t'"
| removed: "(\<And>g'. objects_at g' t' = (if g' = g then gm_del (key_of obj) (objects_at g t) else objects_at g' t))
    \<Longrightarrow> tr_watchers t' = tr_watchers t
    \<Longrightarrow> tr_channels t' = told Deleted obj (getWatches g (cr_Namespace obj) t) (tr_channels t)
    \<Longrightarrow> tracker_write g t t'"

text \<open>The error of a write, by what is tracked.\<close>

definition add_error :: "gvr \<Rightarrow> resource \<Rightarrow> string \<Rightarrow> bool \<Rightarrow> tracker \<Rightarrow> status_error option" where
  "add_error g obj ns replaceExisting t =
     (if ns \<noteq> cr_Namespace (namespaced ns obj) then Some StatusBadRequest
      else case tracked t g (ns, cr_Name obj) of
          None \<Rightarrow> if replaceExisting then Some (StatusNotFound (cr_Name obj)) else None
        | Some old \<Rightarrow> if replaceExisting then None else Some (StatusAlreadyExists (cr_Name obj)))"

lemma objects_at_touch: "objects_at g' (t\<lparr>tr_objects := gm_set g (objects_at g t) (tr_objects t)\<rparr>) = objects_at g' t"
  by simp

lemma tracker_add_spec:
  assumes "tracker_add g obj ns rep t = Inr (err, t')" and "tracker_wf t"
  shows "err = add_error g obj ns rep t \<and> tr_watchers t' = tr_watchers t
    \<and> (if err = None
       then cr_Namespace (namespaced ns obj) = ns
         \<and> tr_channels t' = told (if rep then Modified else Added) (namespaced ns obj) (getWatches g ns t) (tr_channels t)
         \<and> (\<forall>g'. objects_at g' t' = (if g' = g
              then gm_set (ns, cr_Name obj) (namespaced ns obj) (objects_at g t) else objects_at g' t))
       else tr_channels t' = tr_channels t \<and> (\<forall>g'. objects_at g' t' = objects_at g' t))"
proof (cases "ns = cr_Namespace (namespaced ns obj)")
  case False
  then show ?thesis using assms(1) by (auto simp: tracker_add_def add_error_def Let_def)
next
  case ns: True
  let ?obj = "namespaced ns obj" and ?objs = "objects_at g t"
  let ?t = "t\<lparr>tr_objects := gm_set g ?objs (tr_objects t)\<rparr>"
  let ?put = "\<lambda>t. t\<lparr>tr_objects := gm_set g (gm_set (ns, cr_Name obj) ?obj ?objs) (tr_objects t)\<rparr>"
  have eq: "tracker_add g obj ns rep t =
      (if tracked t g (ns, cr_Name obj) \<noteq> None then
         if rep then go_bind (announce Modified ?obj (getWatches g ns t) ?t) (\<lambda>t. Inr (None, ?put t))
         else Inr (Some (StatusAlreadyExists (cr_Name obj)), ?t)
       else if rep then Inr (Some (StatusNotFound (cr_Name obj)), ?t)
       else go_bind (announce Added ?obj (getWatches g ns t) (?put ?t)) (\<lambda>t. Inr (None, t)))"
    using ns by (simp add: tracker_add_def Let_def)
  show ?thesis
  proof (cases "tracked t g (ns, cr_Name obj)")
    case None
    with assms ns show ?thesis unfolding eq
      by (auto simp: go_bind_eq_Inr add_error_def dest!: announce_wf [where t = t])
  next
    case (Some old)
    with assms ns show ?thesis unfolding eq
      by (auto simp: go_bind_eq_Inr add_error_def split: if_splits dest!: announce_wf [where t = t])
  qed
qed

lemma tracker_add_write:
  assumes "tracker_add g obj ns rep t = Inr (err, t')" and "tracker_wf t"
  shows "tracker_write g t t'"
proof (cases err)
  case None
  with tracker_add_spec [OF assms] show ?thesis
    by (intro tracker_write.put [where obj = "namespaced ns obj" and tp = "if rep then Modified else Added"])
      auto
next
  case (Some e)
  with tracker_add_spec [OF assms] show ?thesis by (intro tracker_write.nothing) auto
qed

lemma tracker_Delete_spec:
  assumes "tracker_Delete g ns name t = Inr (err, t')" and "tracker_wf t"
  shows "tr_watchers t' = tr_watchers t
    \<and> (case tracked t g (ns, name) of
         None \<Rightarrow> err = Some (StatusNotFound name) \<and> t' = t
       | Some obj \<Rightarrow> err = None
           \<and> tr_channels t' = told Deleted obj (getWatches g ns t) (tr_channels t)
           \<and> (\<forall>g'. objects_at g' t' = (if g' = g then gm_del (ns, name) (objects_at g t) else objects_at g' t)))"
  using assms
  by (auto simp: tracker_Delete_def go_bind_eq_Inr split: option.splits dest!: announce_wf [where t = t])

lemma tracker_Delete_write:
  assumes "tracker_Delete g ns name t = Inr (err, t')" and "tracker_wf t"
  shows "tracker_write g t t'"
proof (cases "tracked t g (ns, name)")
  case None
  with tracker_Delete_spec [OF assms] show ?thesis by (intro tracker_write.nothing) auto
next
  case (Some obj)
  then have "key_of obj = (ns, name)" by (rule tracker_wfD(4) [OF assms(2)])
  with Some tracker_Delete_spec [OF assms] show ?thesis
    by (intro tracker_write.removed [where obj = obj]) auto
qed

lemma tracker_write_wf:
  assumes "tracker_write g t t'" and "tracker_wf t"
  shows "tracker_wf t'"
proof -
  have w: "watchers_at g' ns t' = watchers_at g' ns t" for g' ns
    using assms(1) by cases (simp_all add: watchers_at_def)
  have c: "length (tr_channels t') = length (tr_channels t)"
    using assms(1) by cases simp_all
  have "(\<forall>k obj. tracked t' g' k = Some obj \<longrightarrow> key_of obj = k) \<and> gm_wf (objects_at g' t')" for g'
    using assms(1)
  proof cases
    case nothing
    then show ?thesis using tracker_wfD(4,5) [OF assms(2)] by auto
  next
    case (put obj tp)
    then show ?thesis using tracker_wfD(4,5) [OF assms(2), of g'] by (auto simp: gm_get_set gm_wf_set)
  next
    case (removed obj)
    then show ?thesis using tracker_wfD(4,5) [OF assms(2), of g'] by (auto simp: gm_get_del gm_wf_del)
  qed
  with w c assms(2) show ?thesis unfolding tracker_wf_def by metis
qed

end
