(* ===== verification/Fake_Client.thy ===== *)
theory Fake_Client
  imports Object_Tracker
begin

text \<open>
  The generated fake clientset, \<^verbatim>\<open>pkg/generated/clientset/versioned/fake\<close>, and its typed client:
  every call is an action that the first reactor to handle it answers. It stands in for the
  API server in tests. The last part follows what a watcher is told.
\<close>

section \<open>Actions and reactors\<close>

datatype action =
    GetAction gvr string string
  | ListAction gvr gvk string list_options
  | WatchAction gvr string list_options
  | CreateAction gvr string resource
  | UpdateAction gvr string string resource
  | DeleteAction gvr string string
  | DeleteCollectionAction gvr string list_options
  | PatchAction gvr string string string string string

fun GetVerb :: "action \<Rightarrow> string" where
  "GetVerb (GetAction g ns name) = ''get''"
| "GetVerb (ListAction g k ns opts) = ''list''"
| "GetVerb (WatchAction g ns opts) = ''watch''"
| "GetVerb (CreateAction g ns obj) = ''create''"
| "GetVerb (UpdateAction g subresource ns obj) = ''update''"
| "GetVerb (DeleteAction g ns name) = ''delete''"
| "GetVerb (DeleteCollectionAction g ns opts) = ''delete-collection''"
| "GetVerb (PatchAction g subresource ns name pt patch) = ''patch''"

fun GetResource :: "action \<Rightarrow> gvr" where
  "GetResource (GetAction g ns name) = g"
| "GetResource (ListAction g k ns opts) = g"
| "GetResource (WatchAction g ns opts) = g"
| "GetResource (CreateAction g ns obj) = g"
| "GetResource (UpdateAction g subresource ns obj) = g"
| "GetResource (DeleteAction g ns name) = g"
| "GetResource (DeleteCollectionAction g ns opts) = g"
| "GetResource (PatchAction g subresource ns name pt patch) = g"

fun GetSubresource :: "action \<Rightarrow> string" where
  "GetSubresource (UpdateAction g subresource ns obj) = subresource"
| "GetSubresource (PatchAction g subresource ns name pt patch) = subresource"
| "GetSubresource a = []"

fun watch_namespace :: "action \<Rightarrow> string" where
  "watch_namespace (WatchAction g ns opts) = ns"
| "watch_namespace a = []"

text \<open>What a reaction returns: no object, a resource, or a list of them.\<close>

datatype ret = NoObject | OneObject resource | ListObject "resource list"

type_synonym reply = "ret \<times> status_error option"

record reactor =
  sr_Verb :: string
  sr_Resource :: string
  sr_Reaction :: "action \<Rightarrow> tracker \<Rightarrow> ((bool \<times> reply) \<times> tracker) go"

record watch_reactor =
  wr_Resource :: string
  wr_Reaction :: "action \<Rightarrow> tracker \<Rightarrow> (bool \<times> nat option \<times> status_error option) \<times> tracker"

definition resourceCovers :: "string \<Rightarrow> action \<Rightarrow> bool" where
  "resourceCovers res a \<longleftrightarrow>
     res = ''*'' \<or> res = gvr_Resource (GetResource a)
     \<or> CHR ''/'' \<in> set res
       \<and> takeWhile (\<lambda>c. c \<noteq> CHR ''/'') res = gvr_Resource (GetResource a)
       \<and> tl (dropWhile (\<lambda>c. c \<noteq> CHR ''/'') res) = GetSubresource a"

definition Handles :: "reactor \<Rightarrow> action \<Rightarrow> bool" where
  "Handles r a \<longleftrightarrow> (sr_Verb r = ''*'' \<or> sr_Verb r = GetVerb a) \<and> resourceCovers (sr_Resource r) a"

text \<open>The reply of the tracker after a write: its error, or the object read back.\<close>

definition read_back ::
    "gvr \<Rightarrow> string \<Rightarrow> string \<Rightarrow> status_error option \<times> tracker \<Rightarrow> (bool \<times> reply) \<times> tracker" where
  "read_back g ns name = (\<lambda>(err, t).
     case err of
       Some e \<Rightarrow> ((True, NoObject, Some e), t)
     | None \<Rightarrow>
         (case tracker_Get g ns name t of
            Inl e \<Rightarrow> ((True, NoObject, Some e), t)
          | Inr obj \<Rightarrow> ((True, OneObject obj, None), t)))"

definition ApplyPatchType :: string where
  "ApplyPatchType = ''application/apply-patch+yaml''"

text \<open>An apply patch names the object itself; after the others the patched object is returned.\<close>

definition react_patch ::
    "fake_libs \<Rightarrow> gvr \<Rightarrow> string \<Rightarrow> string \<Rightarrow> string \<Rightarrow> string \<Rightarrow> tracker \<Rightarrow> ((bool \<times> reply) \<times> tracker) go" where
  "react_patch L g ns name pt patch t =
     (if pt = ApplyPatchType then
        (case fl_apply_name L patch of
           Inl e \<Rightarrow> Inr ((True, NoObject, Some (PatchFailed e)), t)
         | Inr applied \<Rightarrow>
             (case tracker_Get g ns applied t of
                Inl e \<Rightarrow> Inr ((True, NoObject, Some e), t)
              | Inr obj \<Rightarrow>
                  (case fl_patch L pt patch obj of
                     Inl e \<Rightarrow> Inr ((True, NoObject, Some (PatchFailed e)), t)
                   | Inr obj \<Rightarrow> go_bind (tracker_add g obj ns True t) (\<lambda>r. Inr (read_back g ns name r)))))
      else
        (case tracker_Get g ns name t of
           Inl e \<Rightarrow> Inr ((True, NoObject, Some e), t)
         | Inr obj \<Rightarrow>
             (case fl_patch L pt patch obj of
                Inl e \<Rightarrow> Inr ((True, NoObject, Some (PatchFailed e)), t)
              | Inr obj \<Rightarrow>
                  go_bind (tracker_add g obj ns True t) (\<lambda>(err, t).
                    case err of
                      Some e \<Rightarrow> Inr ((True, NoObject, Some e), t)
                    | None \<Rightarrow> Inr ((True, OneObject obj, None), t)))))"

text \<open>A creation through the typed client has no subresource.\<close>

fun ObjectReaction ::
    "fake_libs \<Rightarrow> go_scheme \<Rightarrow> action \<Rightarrow> tracker \<Rightarrow> ((bool \<times> reply) \<times> tracker) go" where
  "ObjectReaction L S (ListAction g k ns opts) t =
     (case tracker_List L S g k ns t of
        Inl e \<Rightarrow> Inr ((True, NoObject, Some e), t)
      | Inr objs \<Rightarrow> Inr ((True, ListObject objs, None), t))"
| "ObjectReaction L S (GetAction g ns name) t = Inr (read_back g ns name (None, t))"
| "ObjectReaction L S (CreateAction g ns obj) t =
     go_bind (tracker_add g obj ns False t) (\<lambda>r. Inr (read_back g ns (cr_Name obj) r))"
| "ObjectReaction L S (UpdateAction g subresource ns obj) t =
     go_bind (tracker_add g obj ns True t) (\<lambda>r. Inr (read_back g ns (cr_Name obj) r))"
| "ObjectReaction L S (DeleteAction g ns name) t =
     go_bind (tracker_Delete g ns name t) (\<lambda>(err, t). Inr ((True, NoObject, err), t))"
| "ObjectReaction L S (PatchAction g subresource ns name pt patch) t = react_patch L g ns name pt patch t"
| "ObjectReaction L S a t = Inr ((False, NoObject, Some NoReaction), t)"

definition watch_reaction ::
    "action \<Rightarrow> tracker \<Rightarrow> (bool \<times> nat option \<times> status_error option) \<times> tracker" where
  "watch_reaction a t =
     (case tracker_Watch (GetResource a) (watch_namespace a) t of (w, t) \<Rightarrow> ((True, Some w, None), t))"

section \<open>The fake\<close>

record fake =
  fk_actions :: "action list"
  fk_ReactionChain :: "reactor list"
  fk_WatchReactionChain :: "watch_reactor list"
  fk_tracker :: tracker

fun react_first :: "reactor list \<Rightarrow> action \<Rightarrow> ret \<Rightarrow> tracker \<Rightarrow> (reply \<times> tracker) go" where
  "react_first [] a defaultReturnObj t = Inr ((defaultReturnObj, None), t)"
| "react_first (r # rs) a defaultReturnObj t =
     (if \<not> Handles r a then react_first rs a defaultReturnObj t
      else go_bind (sr_Reaction r a t) (\<lambda>((handled, reply), t).
        if \<not> handled then react_first rs a defaultReturnObj t else Inr (reply, t)))"

definition Invokes :: "action \<Rightarrow> ret \<Rightarrow> fake \<Rightarrow> (reply \<times> fake) go" where
  "Invokes a defaultReturnObj c =
     go_bind (react_first (fk_ReactionChain c) a defaultReturnObj (fk_tracker c)) (\<lambda>(reply, t).
       Inr (reply, c\<lparr>fk_actions := fk_actions c @ [a], fk_tracker := t\<rparr>))"

fun watch_first ::
    "watch_reactor list \<Rightarrow> action \<Rightarrow> tracker \<Rightarrow> (nat option \<times> status_error option) \<times> tracker" where
  "watch_first [] a t = ((None, Some UnhandledWatch), t)"
| "watch_first (r # rs) a t =
     (if \<not> resourceCovers (wr_Resource r) a then watch_first rs a t
      else case wr_Reaction r a t of ((handled, reply), t) \<Rightarrow>
        if \<not> handled then watch_first rs a t else (reply, t))"

definition InvokesWatch :: "action \<Rightarrow> fake \<Rightarrow> (nat option \<times> status_error option) \<times> fake" where
  "InvokesWatch a c =
     (case watch_first (fk_WatchReactionChain c) a (fk_tracker c) of (reply, t) \<Rightarrow>
        (reply, c\<lparr>fk_actions := fk_actions c @ [a], fk_tracker := t\<rparr>))"

definition AddReactor ::
    "string \<Rightarrow> string \<Rightarrow> (action \<Rightarrow> tracker \<Rightarrow> ((bool \<times> reply) \<times> tracker) go) \<Rightarrow> fake \<Rightarrow> fake" where
  "AddReactor verb res reaction c =
     c\<lparr>fk_ReactionChain := fk_ReactionChain c @ [\<lparr>sr_Verb = verb, sr_Resource = res, sr_Reaction = reaction\<rparr>]\<rparr>"

definition AddWatchReactor ::
    "string \<Rightarrow> (action \<Rightarrow> tracker \<Rightarrow> (bool \<times> nat option \<times> status_error option) \<times> tracker) \<Rightarrow> fake \<Rightarrow> fake" where
  "AddWatchReactor res reaction c =
     c\<lparr>fk_WatchReactionChain := fk_WatchReactionChain c @ [\<lparr>wr_Resource = res, wr_Reaction = reaction\<rparr>]\<rparr>"

fun add_objects :: "go_scheme \<Rightarrow> resource list \<Rightarrow> tracker \<Rightarrow> tracker go" where
  "add_objects S [] t = Inr t"
| "add_objects S (obj # objs) t =
     go_bind (tracker_Add S obj t) (\<lambda>(err, t).
       case err of Some e \<Rightarrow> Inl ExplicitPanic | None \<Rightarrow> add_objects S objs t)"

definition NewSimpleClientset :: "fake_libs \<Rightarrow> go_scheme \<Rightarrow> resource list \<Rightarrow> fake go" where
  "NewSimpleClientset L S objects =
     go_bind (add_objects S objects NewObjectTracker) (\<lambda>t.
       let cs = \<lparr>fk_actions = [], fk_ReactionChain = [], fk_WatchReactionChain = [], fk_tracker = t\<rparr>
       in Inr (AddWatchReactor ''*'' watch_reaction (AddReactor ''*'' ''*'' (ObjectReaction L S) cs)))"

section \<open>The typed fake client\<close>

definition crdmetricsresourcesResource :: gvr where
  "crdmetricsresourcesResource = \<lparr>gvr_Group = fst SchemeGroupVersion,
     gvr_Version = snd SchemeGroupVersion, gvr_Resource = ''crdmetricsresources''\<rparr>"

definition crdmetricsresourcesKind :: gvk where
  "crdmetricsresourcesKind = WithKind SchemeGroupVersion ''CRDMetricsResource''"

text \<open>The type assertion on the reply; without an object the empty resource is returned.\<close>

definition as_resource ::
    "reply \<times> fake \<Rightarrow> ((resource \<times> status_error option) \<times> fake) go" where
  "as_resource = (\<lambda>((obj, err), c).
     case obj of
       NoObject \<Rightarrow> Inr ((empty_resource, err), c)
     | OneObject r \<Rightarrow> Inr ((r, err), c)
     | ListObject rs \<Rightarrow> Inl InterfaceConversion)"

definition fake_Get ::
    "string \<Rightarrow> string \<Rightarrow> fake \<Rightarrow> ((resource \<times> status_error option) \<times> fake) go" where
  "fake_Get ns name c =
     go_bind (Invokes (GetAction crdmetricsresourcesResource ns name) (OneObject empty_resource) c) as_resource"

definition fake_Create ::
    "string \<Rightarrow> resource \<Rightarrow> fake \<Rightarrow> ((resource \<times> status_error option) \<times> fake) go" where
  "fake_Create ns cRDMetricsResource c =
     go_bind (Invokes (CreateAction crdmetricsresourcesResource ns cRDMetricsResource)
       (OneObject empty_resource) c) as_resource"

definition fake_Update ::
    "string \<Rightarrow> resource \<Rightarrow> fake \<Rightarrow> ((resource \<times> status_error option) \<times> fake) go" where
  "fake_Update ns cRDMetricsResource c =
     go_bind (Invokes (UpdateAction crdmetricsresourcesResource [] ns cRDMetricsResource)
       (OneObject empty_resource) c) as_resource"

definition fake_UpdateStatus ::
    "string \<Rightarrow> resource \<Rightarrow> fake \<Rightarrow> ((resource \<times> status_error option) \<times> fake) go" where
  "fake_UpdateStatus ns cRDMetricsResource c =
     go_bind (Invokes (UpdateAction crdmetricsresourcesResource ''status'' ns cRDMetricsResource)
       (OneObject empty_resource) c) as_resource"

definition fake_Patch ::
    "string \<Rightarrow> string \<Rightarrow> string \<Rightarrow> string \<Rightarrow> string \<Rightarrow> fake
     \<Rightarrow> ((resource \<times> status_error option) \<times> fake) go" where
  "fake_Patch ns name pt data subresource c =
     go_bind (Invokes (PatchAction crdmetricsresourcesResource subresource ns name pt data)
       (OneObject empty_resource) c) as_resource"

definition fake_Delete :: "string \<Rightarrow> string \<Rightarrow> fake \<Rightarrow> (status_error option \<times> fake) go" where
  "fake_Delete ns name c =
     go_bind (Invokes (DeleteAction crdmetricsresourcesResource ns name) (OneObject empty_resource) c)
       (\<lambda>((obj, err), c). Inr (err, c))"

text \<open>The selectors of an action are parsed when it is made; one that does not parse panics.\<close>

definition ExtractFromListOptions ::
    "fake_libs \<Rightarrow> list_options \<Rightarrow> ((string, string) gomap option \<Rightarrow> bool) go" where
  "ExtractFromListOptions L opts =
     (case fl_Parse L (lo_LabelSelector opts) of
        None \<Rightarrow> Inl ExplicitPanic
      | Some label \<Rightarrow>
          if fl_ParseSelector L (lo_FieldSelector opts) then Inr label else Inl ExplicitPanic)"

definition fake_List ::
    "fake_libs \<Rightarrow> string \<Rightarrow> list_options \<Rightarrow> fake \<Rightarrow> ((resource list \<times> status_error option) \<times> fake) go" where
  "fake_List L ns opts c =
     go_bind (ExtractFromListOptions L opts) (\<lambda>_.
     go_bind (Invokes (ListAction crdmetricsresourcesResource crdmetricsresourcesKind ns opts)
         (ListObject []) c) (\<lambda>((obj, err), c).
       case obj of
         NoObject \<Rightarrow> Inr (([], err), c)
       | OneObject r \<Rightarrow> Inl InterfaceConversion
       | ListObject items \<Rightarrow>
           go_bind (ExtractFromListOptions L opts) (\<lambda>label.
             Inr ((filter (\<lambda>item. label (cr_Labels item)) items, err), c))))"

definition fake_DeleteCollection ::
    "fake_libs \<Rightarrow> string \<Rightarrow> list_options \<Rightarrow> fake \<Rightarrow> (status_error option \<times> fake) go" where
  "fake_DeleteCollection L ns listOpts c =
     go_bind (ExtractFromListOptions L listOpts) (\<lambda>_.
     go_bind (Invokes (DeleteCollectionAction crdmetricsresourcesResource ns listOpts) (ListObject []) c)
       (\<lambda>((obj, err), c). Inr (err, c)))"

definition fake_Watch ::
    "fake_libs \<Rightarrow> string \<Rightarrow> list_options \<Rightarrow> fake \<Rightarrow> ((nat option \<times> status_error option) \<times> fake) go" where
  "fake_Watch L ns opts c =
     go_bind (ExtractFromListOptions L opts) (\<lambda>_.
       Inr (InvokesWatch (WatchAction crdmetricsresourcesResource ns opts) c))"

section \<open>Calls of the typed fake client\<close>

definition standard :: "fake_libs \<Rightarrow> go_scheme \<Rightarrow> fake \<Rightarrow> bool" where
  "standard L S c \<longleftrightarrow>
     fk_ReactionChain c = [\<lparr>sr_Verb = ''*'', sr_Resource = ''*'', sr_Reaction = ObjectReaction L S\<rparr>]
     \<and> fk_WatchReactionChain c = [\<lparr>wr_Resource = ''*'', wr_Reaction = watch_reaction\<rparr>]"

lemma standard_update [simp]:
  "standard L S (c\<lparr>fk_actions := as, fk_tracker := t\<rparr>) = standard L S c"
  "standard L S (c\<lparr>fk_tracker := t\<rparr>) = standard L S c"
  "standard L S (c\<lparr>fk_actions := as\<rparr>) = standard L S c"
  by (simp_all add: standard_def)

lemma Invokes_standard:
  assumes "standard L S c"
  shows "Invokes a d c = go_bind (ObjectReaction L S a (fk_tracker c)) (\<lambda>((handled, reply), t).
    Inr (if handled then reply else (d, None), c\<lparr>fk_actions := fk_actions c @ [a], fk_tracker := t\<rparr>))"
proof (cases "ObjectReaction L S a (fk_tracker c)")
  case (Inr r)
  then show ?thesis using assms
    by (cases r) (auto simp: Invokes_def standard_def Handles_def resourceCovers_def split: prod.split)
qed (use assms in \<open>simp add: Invokes_def standard_def Handles_def resourceCovers_def\<close>)

lemma InvokesWatch_standard:
  "standard L S c \<Longrightarrow> InvokesWatch a c = (case tracker_Watch (GetResource a) (watch_namespace a) (fk_tracker c) of
     (w, t) \<Rightarrow> ((Some w, None), c\<lparr>fk_actions := fk_actions c @ [a], fk_tracker := t\<rparr>))"
  by (auto simp: InvokesWatch_def standard_def resourceCovers_def watch_reaction_def split: prod.split)

lemma as_resource_Inr: "as_resource (r, c) = Inr (q, c') \<Longrightarrow> c' = c"
  by (auto simp: as_resource_def split: prod.splits ret.splits)

text \<open>One call, or a watcher's reader that takes an event; the first argument is what was read,
  and by which watcher.\<close>

type_synonym receipt = "nat \<times> watch_type \<times> resource"

inductive fake_step :: "fake_libs \<Rightarrow> receipt list \<Rightarrow> fake \<Rightarrow> fake \<Rightarrow> bool" for L where
  get: "fake_Get ns name c = Inr (r, c') \<Longrightarrow> fake_step L [] c c'"
| list: "fake_List L ns opts c = Inr (rs, c') \<Longrightarrow> fake_step L [] c c'"
| create: "fake_Create ns obj c = Inr (r, c') \<Longrightarrow> fake_step L [] c c'"
| update: "fake_Update ns obj c = Inr (r, c') \<Longrightarrow> fake_step L [] c c'"
| update_status: "fake_UpdateStatus ns obj c = Inr (r, c') \<Longrightarrow> fake_step L [] c c'"
| patch: "fake_Patch ns name pt data sub c = Inr (r, c') \<Longrightarrow> fake_step L [] c c'"
| delete: "fake_Delete ns name c = Inr (e, c') \<Longrightarrow> fake_step L [] c c'"
| delete_collection: "fake_DeleteCollection L ns opts c = Inr (e, c') \<Longrightarrow> fake_step L [] c c'"
| watch: "fake_Watch L ns opts c = Inr (w, c') \<Longrightarrow> fake_step L [] c c'"
| received: "a < length (tr_channels t) \<Longrightarrow> tr_channels t ! a = f \<Longrightarrow> fw_result f = e # es
    \<Longrightarrow> fk_tracker c = t
    \<Longrightarrow> fake_step L [(a, e)] c (c\<lparr>fk_tracker := t\<lparr>tr_channels := (tr_channels t)[a := f\<lparr>fw_result := es\<rparr>]\<rparr>\<rparr>)"

text \<open>A run, with everything that was read in it, in order.\<close>

inductive fake_run :: "fake_libs \<Rightarrow> fake \<Rightarrow> receipt list \<Rightarrow> fake \<Rightarrow> bool" for L where
  start: "fake_run L c [] c"
| further: "fake_run L c rs d \<Longrightarrow> fake_step L r d c' \<Longrightarrow> fake_run L c (rs @ r) c'"

definition received_by :: "nat \<Rightarrow> receipt list \<Rightarrow> (watch_type \<times> resource) list" where
  "received_by a rs = map snd (filter (\<lambda>r. fst r = a) rs)"

lemma received_by_simps [simp]:
  "received_by a [] = []" "received_by a (rs @ rs') = received_by a rs @ received_by a rs'"
  "received_by a [(b, e)] = (if a = b then [e] else [])"
  by (simp_all add: received_by_def)

abbreviation crds :: gvr where
  "crds \<equiv> crdmetricsresourcesResource"

lemma write_refl: "tracker_write g t t"
  by (rule tracker_write.nothing) simp_all

lemma read_back_tracker: "read_back g ns name (err, t) = (r, t') \<Longrightarrow> t' = t"
  by (auto simp: read_back_def split: option.splits sum.splits)

lemma react_patch_write:
  assumes "react_patch L g ns name pt patch t = Inr (r, t')" and "tracker_wf t"
  shows "tracker_write g t t'"
  using assms
  by (auto simp: react_patch_def go_bind_eq_Inr write_refl
      split: if_splits sum.splits option.splits dest!: read_back_tracker dest: tracker_add_write)

lemma reaction_write:
  assumes "ObjectReaction L S a t = Inr (r, t')" and "tracker_wf t"
  shows "tracker_write (GetResource a) t t'"
  using assms
proof (cases a)
  case (PatchAction g sub ns name pt patch)
  with assms show ?thesis using react_patch_write [of L g ns name pt patch t r t'] by simp
qed (auto simp: go_bind_eq_Inr write_refl split: sum.splits prod.splits
      dest!: read_back_tracker dest: tracker_add_write tracker_Delete_write)

lemma Invokes_write:
  assumes "Invokes a d c = Inr (r, c')" and "standard L S c" and "tracker_wf (fk_tracker c)"
  shows "standard L S c' \<and> tracker_write (GetResource a) (fk_tracker c) (fk_tracker c')"
  using assms(1,2) reaction_write [OF _ assms(3)]
  by (auto simp: Invokes_standard [OF assms(2)] go_bind_eq_Inr)

lemma fake_List_Invokes:
  assumes "fake_List L ns opts c = Inr (rs, c')"
  shows "\<exists>r. Invokes (ListAction crds crdmetricsresourcesKind ns opts) (ListObject []) c = Inr (r, c')"
proof -
  from assms obtain obj err c1 where i: "Invokes (ListAction crds crdmetricsresourcesKind ns opts) (ListObject []) c
      = Inr ((obj, err), c1)" "fake_List L ns opts c = (case obj of
       NoObject \<Rightarrow> Inr (([], err), c1)
     | OneObject r \<Rightarrow> Inl InterfaceConversion
     | ListObject items \<Rightarrow> go_bind (ExtractFromListOptions L opts) (\<lambda>label.
         Inr ((filter (\<lambda>item. label (cr_Labels item)) items, err), c1)))"
    by (auto simp: fake_List_def go_bind_eq_Inr)
  with assms have "c' = c1" by (cases obj) (auto simp: go_bind_eq_Inr)
  with i(1) show ?thesis by blast
qed

lemma fake_step_cases:
  assumes "fake_step L rs c c'" and "standard L S c" and "tracker_wf (fk_tracker c)"
  shows "standard L S c' \<and> (rs = [] \<and> tracker_write crds (fk_tracker c) (fk_tracker c')
    \<or> (\<exists>ns a. rs = [] \<and> tracker_Watch crds ns (fk_tracker c) = (a, fk_tracker c'))
    \<or> (\<exists>a e es. rs = [(a, e)] \<and> a < length (tr_channels (fk_tracker c)) \<and> fw_result (tr_channels (fk_tracker c) ! a) = e # es
        \<and> fk_tracker c' = (fk_tracker c)\<lparr>tr_channels := (tr_channels (fk_tracker c))
            [a := (tr_channels (fk_tracker c) ! a)\<lparr>fw_result := es\<rparr>]\<rparr>))"
  using assms(1)
proof cases
  case (received a t f e es)
  then show ?thesis using assms(2) by auto
next
  case (watch ns opts w)
  then show ?thesis using assms(2)
    by (auto simp: fake_Watch_def go_bind_eq_Inr InvokesWatch_standard [OF assms(2)] split: prod.splits)
next
  case (list ns opts os)
  then obtain r where "Invokes (ListAction crds crdmetricsresourcesKind ns opts) (ListObject []) c = Inr (r, c')"
    using fake_List_Invokes by blast
  from Invokes_write [OF this assms(2,3)] show ?thesis using list(1) by simp
qed (auto simp: fake_Get_def fake_Create_def fake_Update_def fake_UpdateStatus_def
      fake_Patch_def fake_Delete_def fake_DeleteCollection_def go_bind_eq_Inr
      dest!: Invokes_write [OF _ assms(2,3)] as_resource_Inr split: ret.splits prod.splits)

section \<open>Watchers follow the tracker\<close>

fun apply_events :: "(watch_type \<times> resource) list \<Rightarrow> (string \<times> string \<Rightarrow> resource option) \<Rightarrow> string \<times> string \<Rightarrow> resource option" where
  "apply_events [] m = m"
| "apply_events ((tp, obj) # evs) m =
     apply_events evs (if tp = Deleted then m(key_of obj := None) else m(key_of obj \<mapsto> obj))"

definition visible :: "string \<Rightarrow> string \<times> string \<Rightarrow> bool" where
  "visible ns k \<longleftrightarrow> ns = [] \<or> fst k = ns"

lemma apply_events_append: "apply_events (evs @ evs') m = apply_events evs' (apply_events evs m)"
  by (induction evs m rule: apply_events.induct) simp_all

lemma apply_events_cong: "m k = m' k \<Longrightarrow> apply_events evs m k = apply_events evs m' k"
proof (induction evs arbitrary: m m')
  case (Cons e evs)
  obtain tp obj where e: "e = (tp, obj)" by fastforce
  show ?case unfolding e apply_events.simps using Cons.prems by (intro Cons.IH) simp
qed simp

text \<open>The watcher \<open>a\<close> is open under a namespace.\<close>

definition watching :: "nat \<Rightarrow> string \<Rightarrow> tracker \<Rightarrow> bool" where
  "watching a ns t \<longleftrightarrow> a \<in> set (watchers_at crds ns t) \<and> \<not> fw_Stopped (tr_channels t ! a)"

lemma getWatches_iff:
  assumes "tracker_wf t" and "a \<in> set (watchers_at g ns t)"
  shows "a \<in> set (getWatches g ns' t) \<longleftrightarrow> ns = ns' \<or> ns = []"
proof -
  have "a \<in> set (watchers_at g n t) \<longleftrightarrow> n = ns" for n
    using assms(2) tracker_wfD(3) [OF assms(1) assms(2), of g n] by blast
  then show ?thesis by (auto simp: getWatches_def)
qed

lemma write_followed:
  assumes "tracker_write crds t t'" and "tracker_wf t" and "watching a ns t"
  shows "watching a ns t' \<and> (\<exists>evs. fw_result (tr_channels t' ! a) = fw_result (tr_channels t ! a) @ evs
    \<and> (\<forall>k. visible ns k \<longrightarrow> apply_events evs (tracked t crds) k = tracked t' crds k))"
proof -
  have a: "a \<in> set (watchers_at crds ns t)" "\<not> fw_Stopped (tr_channels t ! a)" "a < length (tr_channels t)"
    using assms(3) tracker_wfD(2) [OF assms(2)] by (auto simp: watching_def)
  have w: "watchers_at crds ns t' = watchers_at crds ns t"
    using assms(1) by cases (simp_all add: watchers_at_def)
  note told = getWatches_iff [OF assms(2) a(1)]
  show ?thesis using assms(1)
  proof cases
    case nothing
    then show ?thesis using a w by (intro conjI exI [of _ "[]"]) (auto simp: watching_def)
  next
    case (put obj tp)
    let ?evs = "if ns = cr_Namespace obj \<or> ns = [] then [(tp, obj)] else []"
    show ?thesis using a w put told
      by (intro conjI exI [of _ ?evs]) (auto simp: watching_def visible_def gm_get_set)
  next
    case (removed obj)
    let ?evs = "if ns = cr_Namespace obj \<or> ns = [] then [(Deleted, obj)] else []"
    show ?thesis using a w removed told
      by (intro conjI exI [of _ ?evs]) (auto simp: watching_def visible_def gm_get_del)
  qed
qed

lemma tracker_Watch_parts:
  assumes "tracker_Watch g ns t = (a, t')"
  shows "a = length (tr_channels t)" "tr_channels t' = tr_channels t @ [NewRaceFreeFake]"
    "objects_at g' t' = objects_at g' t"
    "watchers_at g' ns' t' = (if g' = g \<and> ns' = ns then watchers_at g ns t @ [a] else watchers_at g' ns' t)"
proof -
  let ?m = "case gm_get (tr_watchers t) g of None \<Rightarrow> [] | Some m \<Rightarrow> m"
  from assms have t': "t' = t\<lparr>tr_watchers := gm_set g (gm_set ns (watchers_at g ns t @ [a]) ?m) (tr_watchers t),
      tr_channels := tr_channels t @ [NewRaceFreeFake]\<rparr>" and a: "a = length (tr_channels t)"
    by (auto simp: tracker_Watch_def Let_def)
  show "a = length (tr_channels t)" by (rule a)
  show "tr_channels t' = tr_channels t @ [NewRaceFreeFake]" by (simp add: t')
  show "objects_at g' t' = objects_at g' t" by (simp add: t' objects_at_def)
  have "watchers_at g' ns' t' = (case gm_get (gm_set g (gm_set ns (watchers_at g ns t @ [a]) ?m) (tr_watchers t)) g' of
      None \<Rightarrow> [] | Some m \<Rightarrow> (case gm_get m ns' of None \<Rightarrow> [] | Some w \<Rightarrow> w))"
    by (simp add: t' watchers_at_def)
  also have "\<dots> = (if g' = g \<and> ns' = ns then watchers_at g ns t @ [a] else watchers_at g' ns' t)"
    by (cases "gm_get (tr_watchers t) g") (simp_all add: gm_get_set watchers_at_def)
  finally show "watchers_at g' ns' t' = (if g' = g \<and> ns' = ns then watchers_at g ns t @ [a] else watchers_at g' ns' t)" .
qed

lemma tracker_Watch_wf:
  assumes "tracker_Watch g ns t = (a, t')" and "tracker_wf t"
  shows "tracker_wf t'"
proof -
  note p = tracker_Watch_parts [OF assms(1)] and wf = tracker_wfD [OF assms(2)]
  have new: "a \<notin> set (watchers_at g' ns' t)" for g' ns'
    unfolding p(1) using wf(2) less_irrefl by blast
  have mem: "b \<in> set (watchers_at g' ns' t') \<longleftrightarrow> b \<in> set (watchers_at g' ns' t) \<or> b = a \<and> g' = g \<and> ns' = ns" for b g' ns'
    unfolding p(4) by (simp split: if_split) blast
  have "distinct (watchers_at g' ns' t')" for g' ns'
    using wf(1) new by (simp add: p(4))
  moreover have "b < length (tr_channels t')" if "b \<in> set (watchers_at g' ns' t')" for b g' ns'
    using that wf(2) [of b g' ns'] p(1) unfolding mem p(2) by auto
  moreover have "g' = g'' \<and> ns' = ns''"
    if "b \<in> set (watchers_at g' ns' t')" "b \<in> set (watchers_at g'' ns'' t')" for b g' ns' g'' ns''
    using that wf(3) [of b g' ns' g'' ns''] new unfolding mem by blast
  ultimately show ?thesis using wf(4,5) unfolding tracker_wf_def p(3) by blast
qed

text \<open>What a watcher's channel held and was then sent is what was read from it and what it still
  holds; the events sent turn the resources of the one tracker into those of the other.\<close>

definition follows :: "nat \<Rightarrow> string \<Rightarrow> tracker \<Rightarrow> (watch_type \<times> resource) list \<Rightarrow> tracker \<Rightarrow> bool" where
  "follows a ns t got t' \<longleftrightarrow> (\<exists>evs.
     fw_result (tr_channels t ! a) @ evs = got @ fw_result (tr_channels t' ! a)
     \<and> (\<forall>k. visible ns k \<longrightarrow> apply_events evs (tracked t crds) k = tracked t' crds k))"

lemma follows_same: "fw_result (tr_channels t ! a) = got @ fw_result (tr_channels t' ! a)
    \<Longrightarrow> tracked t' crds = tracked t crds \<Longrightarrow> follows a ns t got t'"
  unfolding follows_def by (intro exI [of _ "[]"]) simp

lemma follows_trans:
  assumes "follows a ns t r t1" and "follows a ns t1 r' t2"
  shows "follows a ns t (r @ r') t2"
proof -
  obtain evs where e: "fw_result (tr_channels t ! a) @ evs = r @ fw_result (tr_channels t1 ! a)"
    "\<forall>k. visible ns k \<longrightarrow> apply_events evs (tracked t crds) k = tracked t1 crds k"
    using assms(1) by (auto simp: follows_def)
  obtain evs' where e': "fw_result (tr_channels t1 ! a) @ evs' = r' @ fw_result (tr_channels t2 ! a)"
    "\<forall>k. visible ns k \<longrightarrow> apply_events evs' (tracked t1 crds) k = tracked t2 crds k"
    using assms(2) by (auto simp: follows_def)
  have "fw_result (tr_channels t ! a) @ (evs @ evs') = (r @ r') @ fw_result (tr_channels t2 ! a)"
    using e(1) e'(1) by (metis append.assoc)
  moreover have "apply_events (evs @ evs') (tracked t crds) k = tracked t2 crds k" if "visible ns k" for k
  proof -
    have "apply_events evs (tracked t crds) k = tracked t1 crds k" using that e(2) by blast
    then have "apply_events evs' (apply_events evs (tracked t crds)) k = apply_events evs' (tracked t1 crds) k"
      by (rule apply_events_cong)
    with that e'(2) show ?thesis by (simp only: apply_events_append)
  qed
  ultimately show ?thesis unfolding follows_def by blast
qed

lemma step_followed:
  assumes "fake_step L rs c c'" and "standard L S c" and "tracker_wf (fk_tracker c)" and "watching a ns (fk_tracker c)"
  shows "standard L S c' \<and> tracker_wf (fk_tracker c') \<and> watching a ns (fk_tracker c')
    \<and> follows a ns (fk_tracker c) (received_by a rs) (fk_tracker c')"
proof -
  have a: "a \<in> set (watchers_at crds ns (fk_tracker c))" "\<not> fw_Stopped (tr_channels (fk_tracker c) ! a)"
    "a < length (tr_channels (fk_tracker c))"
    using assms(4) tracker_wfD(2) [OF assms(3)] by (auto simp: watching_def)
  from fake_step_cases [OF assms(1-3)] show ?thesis
  proof (elim conjE disjE exE)
    assume w: "tracker_write crds (fk_tracker c) (fk_tracker c')" and "standard L S c'" "rs = []"
    from write_followed [OF w assms(3,4)] obtain evs
      where "fw_result (tr_channels (fk_tracker c') ! a) = fw_result (tr_channels (fk_tracker c) ! a) @ evs"
        "\<forall>k. visible ns k \<longrightarrow> apply_events evs (tracked (fk_tracker c) crds) k = tracked (fk_tracker c') crds k"
        "watching a ns (fk_tracker c')"
      by blast
    then show ?thesis using \<open>standard L S c'\<close> tracker_write_wf [OF w assms(3)]
      unfolding follows_def \<open>rs = []\<close> received_by_simps by (metis append_Nil)
  next
    fix ns' b
    assume w: "tracker_Watch crds ns' (fk_tracker c) = (b, fk_tracker c')" and "standard L S c'" "rs = []"
    note p = tracker_Watch_parts [OF w]
    have "watching a ns (fk_tracker c')" using a by (auto simp: watching_def p(2,4) nth_append)
    moreover have "follows a ns (fk_tracker c) (received_by a rs) (fk_tracker c')"
      using a(3) by (intro follows_same) (simp_all add: p(2,3) nth_append \<open>rs = []\<close>)
    ultimately show ?thesis using \<open>standard L S c'\<close> tracker_Watch_wf [OF w assms(3)] by blast
  next
    fix b e es
    let ?t = "fk_tracker c"
    assume b: "b < length (tr_channels ?t)" "fw_result (tr_channels ?t ! b) = e # es"
      "fk_tracker c' = ?t\<lparr>tr_channels := (tr_channels ?t)[b := (tr_channels ?t ! b)\<lparr>fw_result := es\<rparr>]\<rparr>"
      and "standard L S c'" "rs = [(b, e)]"
    have "tracker_wf (fk_tracker c')" using assms(3) b(3) by (simp add: tracker_wf_def)
    moreover have "watching a ns (fk_tracker c')" using a b(1,3) by (simp add: watching_def nth_list_update)
    moreover have "follows a ns ?t (received_by a rs) (fk_tracker c')"
      unfolding \<open>rs = [(b, e)]\<close> received_by_simps
      using a(3) b by (intro follows_same) (simp_all add: nth_list_update)
    ultimately show ?thesis using \<open>standard L S c'\<close> by blast
  qed
qed

lemma run_followed:
  assumes "fake_run L c rs c'" and "standard L S c" and "tracker_wf (fk_tracker c)" and "watching a ns (fk_tracker c)"
  shows "standard L S c' \<and> tracker_wf (fk_tracker c') \<and> watching a ns (fk_tracker c')
    \<and> follows a ns (fk_tracker c) (received_by a rs) (fk_tracker c')"
  using assms
proof (induction rule: fake_run.induct)
  case (start c)
  then show ?case using follows_same [of _ a "[]"] by simp
next
  case (further c rs d r c')
  then have d: "standard L S d" "tracker_wf (fk_tracker d)" "watching a ns (fk_tracker d)"
    "follows a ns (fk_tracker c) (received_by a rs) (fk_tracker d)" by blast+
  from step_followed [OF further(2) d(1-3)] follows_trans [OF d(4)] show ?case
    unfolding received_by_simps by blast
qed

end
