(* ===== verification/Fake_Server.thy ===== *)
theory Fake_Server
  imports Fake_Client
begin

text \<open>
  The fake clientset as a provider of the handler's interface \<open>api_server\<close>, and as a map from
  namespaces and names to resources; new clientsets, and the properties of the fake.
\<close>

section \<open>A server for the handler\<close>

fun api_error_of :: "status_error \<Rightarrow> api_error" where
  "api_error_of (StatusNotFound name) = NotFound"
| "api_error_of e = OtherApiError"

text \<open>
  The calls of the handler, with the clock and the ticks of a state of their own. A panic of
  the fake, which ends the process, is answered with an error here; none comes from a fake
  that nobody watches.
\<close>

definition fake_request ::
    "(fake \<Rightarrow> ((resource \<times> status_error option) \<times> fake) go) \<Rightarrow> (fake \<times> 'c) request" where
  "fake_request call = (\<lambda>(c, clock).
     case call c of
       Inl p \<Rightarrow> (Inl OtherApiError, (c, clock))
     | Inr ((r, err), c) \<Rightarrow>
         (case err of None \<Rightarrow> Inr r | Some e \<Rightarrow> Inl (api_error_of e), (c, clock)))"

definition fake_env ::
    "('c \<Rightarrow> int \<times> 'c) \<Rightarrow> ('c \<Rightarrow> bool \<times> 'c) \<Rightarrow> yaml_engine \<Rightarrow> string \<Rightarrow> (fake \<times> 'c) env" where
  "fake_env now tick yaml version = \<lparr>
     api_Get = (\<lambda>ns name. fake_request (fake_Get ns name)),
     api_Update = (\<lambda>r. fake_request (fake_Update (cr_Namespace r) r)),
     api_UpdateStatus = (\<lambda>r. fake_request (fake_UpdateStatus (cr_Namespace r) r)),
     env_Now = (\<lambda>(c, clock). case now clock of (t, clock) \<Rightarrow> (t, (c, clock))),
     env_Tick = (\<lambda>(c, clock). case tick clock of (b, clock) \<Rightarrow> (b, (c, clock))),
     env_yaml = yaml, env_Version = version\<rparr>"

definition unwatched :: "tracker \<Rightarrow> bool" where
  "unwatched t \<longleftrightarrow> (\<forall>g ns. watchers_at g ns t = [])"

definition fake_valid :: "fake_libs \<Rightarrow> go_scheme \<Rightarrow> fake \<times> 'c \<Rightarrow> bool" where
  "fake_valid L S = (\<lambda>(c, clock). standard L S c \<and> tracker_wf (fk_tracker c) \<and> unwatched (fk_tracker c))"

definition fake_stored :: "fake \<times> 'c \<Rightarrow> string \<times> string \<Rightarrow> resource option" where
  "fake_stored = (\<lambda>(c, clock). tracked (fk_tracker c) crds)"

lemma unwatched_getWatches [simp]: "unwatched t \<Longrightarrow> getWatches g ns t = []"
  by (simp add: unwatched_def getWatches_def)

text \<open>To send to a watcher fails only when its channel is full.\<close>

definition room :: "fake_watcher \<Rightarrow> bool" where
  "room f \<longleftrightarrow> fw_Stopped f \<or> length (fw_result f) < DefaultChanSize"

definition has_room :: "tracker \<Rightarrow> bool" where
  "has_room t \<longleftrightarrow> (\<forall>g ns. \<forall>a \<in> set (watchers_at g ns t). room (tr_channels t ! a))"

lemma unwatched_room [simp]: "unwatched t \<Longrightarrow> has_room t"
  by (simp add: has_room_def unwatched_def)

lemma watcher_send_room: "room f \<Longrightarrow> watcher_send typ obj f = Inr (sent typ obj f)"
  by (auto simp: room_def watcher_send_def sent_def)

lemma announce_room:
  assumes "distinct as" and "\<forall>a \<in> set as. room (tr_channels t ! a)"
  shows "\<exists>t'. announce typ obj as t = Inr t'"
  using assms
proof (induction as arbitrary: t)
  case (Cons a as)
  let ?t = "t\<lparr>tr_channels := (tr_channels t)[a := sent typ obj (tr_channels t ! a)]\<rparr>"
  have "tr_channels ?t ! b = tr_channels t ! b" if "b \<in> set as" for b
    using that Cons.prems(1) by (cases "b = a") simp_all
  then have "\<exists>t'. announce typ obj as ?t = Inr t'"
    using Cons.prems by (intro Cons.IH) auto
  then show ?case using Cons.prems(2) by (simp add: watcher_send_room)
qed simp

lemma announce_ready:
  assumes "tracker_wf t" and "has_room t" and "tr_channels t' = tr_channels t"
  shows "\<exists>t''. announce typ obj (getWatches g ns t) t' = Inr t''"
  using assms getWatches_ok(1) [OF assms(1)]
  by (intro announce_room) (auto simp: has_room_def getWatches_def)

lemma tracker_add_returns:
  assumes "tracker_wf t" and "has_room t"
  shows "\<exists>t'. tracker_add g obj ns rep t = Inr (add_error g obj ns rep t, t')"
proof -
  let ?put = "\<lambda>obj. t\<lparr>tr_objects := gm_set g (gm_set (key_of obj) obj (objects_at g t))
      (tr_objects (t\<lparr>tr_objects := gm_set g (objects_at g t) (tr_objects t)\<rparr>))\<rparr>"
  let ?touch = "t\<lparr>tr_objects := gm_set g (objects_at g t) (tr_objects t)\<rparr>"
  obtain t1 where t1: "announce Modified (namespaced ns obj) (getWatches g ns t) ?touch = Inr t1"
    using announce_ready [OF assms, of ?touch Modified "namespaced ns obj" g ns] by auto
  obtain t2 where t2: "announce Added (namespaced ns obj) (getWatches g ns t) (?put (namespaced ns obj)) = Inr t2"
    using announce_ready [OF assms, of "?put (namespaced ns obj)" Added "namespaced ns obj" g ns] by auto
  show ?thesis
    using t1 t2 by (auto simp: tracker_add_def add_error_def Let_def split: option.split)
qed

text \<open>What an addition leaves: its entry, if it went well, and who watches.\<close>

definition added :: "gvr \<Rightarrow> resource \<Rightarrow> string \<Rightarrow> bool \<Rightarrow> tracker \<Rightarrow> tracker \<Rightarrow> bool" where
  "added g obj ns rep t t' \<longleftrightarrow> tracker_wf t' \<and> tr_watchers t' = tr_watchers t
     \<and> (\<forall>g'. objects_at g' t' = (if add_error g obj ns rep t = None \<and> g' = g
          then gm_set (ns, cr_Name obj) (namespaced ns obj) (objects_at g t) else objects_at g' t))"

lemma tracker_add_ready:
  assumes "tracker_wf t" and "has_room t"
  shows "\<exists>t'. tracker_add g obj ns rep t = Inr (add_error g obj ns rep t, t') \<and> added g obj ns rep t t'"
proof -
  obtain t' where a: "tracker_add g obj ns rep t = Inr (add_error g obj ns rep t, t')"
    using tracker_add_returns [OF assms] by blast
  note s = tracker_add_spec [OF a assms(1)]
  have "tracker_wf t'" using tracker_write_wf [OF tracker_add_write [OF a assms(1)] assms(1)] .
  with a s show ?thesis by (cases "add_error g obj ns rep t") (simp_all add: added_def)
qed

lemma unwatched_kept: "tr_watchers t' = tr_watchers t \<Longrightarrow> unwatched t' = unwatched t"
  by (simp add: unwatched_def watchers_at_def)

lemma tracker_add_quiet:
  assumes "tracker_wf t" and "unwatched t"
  obtains t' where "tracker_add g obj ns rep t = Inr (add_error g obj ns rep t, t')"
    "tracker_wf t'" "unwatched t'"
    "\<And>g'. objects_at g' t' = (if add_error g obj ns rep t = None \<and> g' = g
       then gm_set (ns, cr_Name obj) (namespaced ns obj) (objects_at g t) else objects_at g' t)"
proof -
  obtain t' where t: "tracker_add g obj ns rep t = Inr (add_error g obj ns rep t, t')" "added g obj ns rep t t'"
    using tracker_add_ready [OF assms(1) unwatched_room [OF assms(2)], of g obj ns rep] by blast
  have "tr_watchers t' = tr_watchers t" using t(2) by (simp add: added_def)
  with assms(2) have "unwatched t'" using unwatched_kept [of t' t] by simp
  moreover note t(2) [unfolded added_def]
  ultimately show thesis using t(1) by (intro that) blast+
qed

text \<open>What the calls answer when every watcher has room, and while nobody watches.\<close>

definition ready :: "fake_libs \<Rightarrow> go_scheme \<Rightarrow> fake \<Rightarrow> bool" where
  "ready L S c \<longleftrightarrow> standard L S c \<and> tracker_wf (fk_tracker c) \<and> has_room (fk_tracker c)"

definition quiet :: "fake_libs \<Rightarrow> go_scheme \<Rightarrow> fake \<Rightarrow> bool" where
  "quiet L S c \<longleftrightarrow> standard L S c \<and> tracker_wf (fk_tracker c) \<and> unwatched (fk_tracker c)"

definition kept :: "fake_libs \<Rightarrow> go_scheme \<Rightarrow> fake \<Rightarrow> fake \<Rightarrow> bool" where
  "kept L S c c' \<longleftrightarrow> standard L S c' \<and> tracker_wf (fk_tracker c') \<and> tr_watchers (fk_tracker c') = tr_watchers (fk_tracker c)"

lemma quiet_ready: "quiet L S c \<Longrightarrow> ready L S c"
  by (simp add: quiet_def ready_def)

lemma kept_quiet: "kept L S c c' \<Longrightarrow> quiet L S c \<Longrightarrow> quiet L S c'"
  using unwatched_kept [of "fk_tracker c'" "fk_tracker c"] by (simp add: kept_def quiet_def)

abbreviation holds :: "fake \<Rightarrow> string \<times> string \<Rightarrow> resource option" where
  "holds c \<equiv> tracked (fk_tracker c) crds"

lemma quiet_actions [simp]: "quiet L S (c\<lparr>fk_actions := as\<rparr>) = quiet L S c"
  by (simp add: quiet_def)

lemma fake_Get_standard:
  assumes "standard L S c"
  shows "fake_Get ns name c = Inr ((case holds c (ns, name) of
      None \<Rightarrow> (empty_resource, Some (StatusNotFound name)) | Some r \<Rightarrow> (r, None)),
    c\<lparr>fk_actions := fk_actions c @ [GetAction crds ns name]\<rparr>)"
  using assms
  by (auto simp: fake_Get_def Invokes_standard read_back_def tracker_Get_def as_resource_def
      split: option.split)

lemma fake_Get_quiet:
  assumes "quiet L S c"
  shows "fake_Get ns name c = Inr ((case holds c (ns, name) of
      None \<Rightarrow> (empty_resource, Some (StatusNotFound name)) | Some r \<Rightarrow> (r, None)),
    c\<lparr>fk_actions := fk_actions c @ [GetAction crds ns name]\<rparr>)"
  using assms by (intro fake_Get_standard [of L S]) (simp add: quiet_def)

lemma write_ready:
  assumes "ready L S c" and "\<And>t. ObjectReaction L S a t =
      go_bind (tracker_add crds obj ns rep t) (\<lambda>r. Inr (read_back crds ns (cr_Name obj) r))"
  obtains c' where "go_bind (Invokes a d c) as_resource = Inr ((case add_error crds obj ns rep (fk_tracker c) of
      Some e \<Rightarrow> (empty_resource, Some e) | None \<Rightarrow> (namespaced ns obj, None)), c')"
    "kept L S c c'" "fk_actions c' = fk_actions c @ [a]"
    "holds c' = (if add_error crds obj ns rep (fk_tracker c) = None
       then (holds c)((ns, cr_Name obj) \<mapsto> namespaced ns obj) else holds c)"
proof -
  have c: "standard L S c" "tracker_wf (fk_tracker c)" "has_room (fk_tracker c)"
    using assms(1) by (simp_all add: ready_def)
  obtain t' where add: "tracker_add crds obj ns rep (fk_tracker c) = Inr (add_error crds obj ns rep (fk_tracker c), t')"
    and post: "added crds obj ns rep (fk_tracker c) t'"
    using tracker_add_ready [OF c(2,3), of crds obj ns rep] by blast
  note t = add post [unfolded added_def, THEN conjunct1] post [unfolded added_def, THEN conjunct2, THEN conjunct1]
    post [unfolded added_def, THEN conjunct2, THEN conjunct2, rule_format]
  let ?c = "c\<lparr>fk_actions := fk_actions c @ [a], fk_tracker := t'\<rparr>"
  show thesis
  proof (rule that)
    show "go_bind (Invokes a d c) as_resource = Inr ((case add_error crds obj ns rep (fk_tracker c) of
        Some e \<Rightarrow> (empty_resource, Some e) | None \<Rightarrow> (namespaced ns obj, None)), ?c)"
      using t by (auto simp: Invokes_standard [OF c(1)] assms(2) read_back_def tracker_Get_def
          as_resource_def gm_get_set split: option.split)
    show "kept L S c ?c" using c(1) t(2,3) by (simp add: kept_def)
    show "fk_actions ?c = fk_actions c @ [a]" by simp
    show "holds ?c = (if add_error crds obj ns rep (fk_tracker c) = None
        then (holds c)((ns, cr_Name obj) \<mapsto> namespaced ns obj) else holds c)"
      using t(4) by (auto simp: fun_eq_iff gm_get_set)
  qed
qed

lemma fake_Update_ready:
  assumes "ready L S c"
  obtains c' where "fake_Update ns obj c = Inr ((case add_error crds obj ns True (fk_tracker c) of
      Some e \<Rightarrow> (empty_resource, Some e) | None \<Rightarrow> (namespaced ns obj, None)), c')" "kept L S c c'"
    "holds c' = (if add_error crds obj ns True (fk_tracker c) = None
       then (holds c)((ns, cr_Name obj) \<mapsto> namespaced ns obj) else holds c)"
  using write_ready [OF assms, of "UpdateAction crds [] ns obj" obj ns True "OneObject empty_resource"]
  unfolding fake_Update_def by auto

lemma fake_UpdateStatus_ready:
  assumes "ready L S c"
  obtains c' where "fake_UpdateStatus ns obj c = Inr ((case add_error crds obj ns True (fk_tracker c) of
      Some e \<Rightarrow> (empty_resource, Some e) | None \<Rightarrow> (namespaced ns obj, None)), c')" "kept L S c c'"
    "holds c' = (if add_error crds obj ns True (fk_tracker c) = None
       then (holds c)((ns, cr_Name obj) \<mapsto> namespaced ns obj) else holds c)"
  using write_ready [OF assms, of "UpdateAction crds ''status'' ns obj" obj ns True "OneObject empty_resource"]
  unfolding fake_UpdateStatus_def by auto



text \<open>The same for nobody watching, which stays so.\<close>

lemma fake_Update_quiet:
  assumes "quiet L S c"
  obtains c' where "fake_Update ns obj c = Inr ((case add_error crds obj ns True (fk_tracker c) of
      Some e \<Rightarrow> (empty_resource, Some e) | None \<Rightarrow> (namespaced ns obj, None)), c')" "quiet L S c'"
    "holds c' = (if add_error crds obj ns True (fk_tracker c) = None
       then (holds c)((ns, cr_Name obj) \<mapsto> namespaced ns obj) else holds c)"
  by (rule fake_Update_ready [OF quiet_ready [OF assms]]) (use kept_quiet [OF _ assms] that in blast)

lemma fake_UpdateStatus_quiet:
  assumes "quiet L S c"
  obtains c' where "fake_UpdateStatus ns obj c = Inr ((case add_error crds obj ns True (fk_tracker c) of
      Some e \<Rightarrow> (empty_resource, Some e) | None \<Rightarrow> (namespaced ns obj, None)), c')" "quiet L S c'"
    "holds c' = (if add_error crds obj ns True (fk_tracker c) = None
       then (holds c)((ns, cr_Name obj) \<mapsto> namespaced ns obj) else holds c)"
  by (rule fake_UpdateStatus_ready [OF quiet_ready [OF assms]]) (use kept_quiet [OF _ assms] that in blast)

interpretation fake: api_server "fake_env now tick yaml version" "fake_valid L S" fake_stored
proof unfold_locales
  fix w :: "fake \<times> 'a"
  obtain c clock where w: "w = (c, clock)" by fastforce
  assume v: "fake_valid L S w"
  then have q: "quiet L S c" by (simp add: w fake_valid_def quiet_def)
  then have wf: "tracker_wf (fk_tracker c)" by (simp add: quiet_def)
  {
    fix k r
    assume "fake_stored w k = Some r"
    then show "key_of r = k" using tracker_wfD(4) [OF wf] by (simp add: w fake_stored_def)
  next
    fix ns n
    show "\<exists>w'. api_Get (fake_env now tick yaml version) ns n w =
        ((case fake_stored w (ns, n) of None \<Rightarrow> Inl NotFound | Some r \<Rightarrow> Inr r), w')
      \<and> fake_valid L S w' \<and> fake_stored w' = fake_stored w"
      using v fake_Get_quiet [OF q, of ns n]
      by (auto simp: w fake_env_def fake_request_def fake_stored_def fake_valid_def split: option.split)
  next
    fix r :: resource and ls
    let ?r = "r\<lparr>cr_Labels := ls\<rparr>"
    assume "fake_stored w (key_of r) = Some r"
    then have e: "add_error crds ?r (cr_Namespace ?r) True (fk_tracker c) = None"
      by (auto simp: add_error_def w fake_stored_def namespaced_def)
    obtain c' where "fake_Update (cr_Namespace ?r) ?r c = Inr ((?r, None), c')" "quiet L S c'"
      "holds c' = (holds c)(key_of ?r \<mapsto> ?r)"
      using fake_Update_quiet [OF q, of "cr_Namespace ?r" ?r] e namespaced_own [of ?r] by auto
    then show "\<exists>w'. api_Update (fake_env now tick yaml version) ?r w = (Inr ?r, w')
      \<and> fake_valid L S w' \<and> fake_stored w' = (fake_stored w)(key_of r \<mapsto> ?r)"
      by (auto simp: w fake_env_def fake_request_def fake_stored_def fake_valid_def quiet_def)
  next
    fix r :: resource and ds
    let ?r = "r\<lparr>cr_Conditions := ds\<rparr>"
    assume "fake_stored w (key_of r) = Some r"
    then have e: "add_error crds ?r (cr_Namespace ?r) True (fk_tracker c) = None"
      by (auto simp: add_error_def w fake_stored_def namespaced_def)
    obtain c' where "fake_UpdateStatus (cr_Namespace ?r) ?r c = Inr ((?r, None), c')" "quiet L S c'"
      "holds c' = (holds c)(key_of ?r \<mapsto> ?r)"
      using fake_UpdateStatus_quiet [OF q, of "cr_Namespace ?r" ?r] e namespaced_own [of ?r] by auto
    then show "\<exists>w'. api_UpdateStatus (fake_env now tick yaml version) ?r w = (Inr ?r, w')
      \<and> fake_valid L S w' \<and> fake_stored w' = (fake_stored w)(key_of r \<mapsto> ?r)"
      by (auto simp: w fake_env_def fake_request_def fake_stored_def fake_valid_def quiet_def)
  next
    fix t w'
    assume "env_Now (fake_env now tick yaml version) w = (t, w')"
    then show "fake_valid L S w' \<and> fake_stored w' = fake_stored w"
      using v by (auto simp: w fake_env_def fake_stored_def fake_valid_def split: prod.splits)
  next
    fix b w'
    assume "env_Tick (fake_env now tick yaml version) w = (b, w')"
    then show "fake_valid L S w' \<and> fake_stored w' = fake_stored w"
      using v by (auto simp: w fake_env_def fake_stored_def fake_valid_def split: prod.splits)
  }
qed

section \<open>New clientsets\<close>

text \<open>The fake has a scheme of its own, built as that of the real clientset.\<close>

definition fake_localSchemeBuilder :: "(go_scheme \<Rightarrow> go_scheme go) list" where
  "fake_localSchemeBuilder = [AddToScheme [addKnownTypes]]"

definition fake_scheme_init :: "go_scheme go" where
  "fake_scheme_init = go_bind (AddToGroupVersion NewScheme ([], ''v1'')) (AddToScheme fake_localSchemeBuilder)"

lemma fake_scheme_init_eq: "fake_scheme_init = scheme_init"
  by (simp add: fake_scheme_init_def scheme_init_def fake_localSchemeBuilder_def localSchemeBuilder_def)

text \<open>There is one kind for a resource.\<close>

definition crd_kind :: gvk where
  "crd_kind = WithKind SchemeGroupVersion ''CRDMetricsResource''"

definition crd_scheme :: "go_scheme \<Rightarrow> bool" where
  "crd_scheme S \<longleftrightarrow> ObjectKinds S (crd_type ''CRDMetricsResource'') = Some ([crd_kind], False)
     \<and> scheme_New S (crd_kind\<lparr>gvk_Kind := ''CRDMetricsResourceList''\<rparr>) = Some (crd_type ''CRDMetricsResourceList'')"

lemma scheme_init_crd: "\<exists>S. scheme_init = Inr S \<and> crd_scheme S"
proof -
  have c: "case_sum (\<lambda>p. False) crd_scheme scheme_init" by code_simp
  show ?thesis
  proof (cases scheme_init)
    case (Inl p)
    show ?thesis using c unfolding Inl by simp
  next
    case (Inr S)
    show ?thesis using c unfolding Inr by simp
  qed
qed

lemma guessed_resource: "UnsafeGuessKindToResource crd_kind = crds"
  by code_simp

lemma crds_version: "gvr_Version crds \<noteq> APIVersionInternal"
  by code_simp

lemma tracker_Add_crd:
  assumes "crd_scheme S"
  shows "tracker_Add S obj t = tracker_add crds obj (cr_Namespace obj) False t"
proof (cases "tracker_add crds obj (cr_Namespace obj) False t")
  case (Inr r)
  with assms crds_version show ?thesis
    by (cases r) (simp add: tracker_Add_def crd_scheme_def guessed_resource split: option.split)
qed (use assms crds_version in \<open>simp add: tracker_Add_def crd_scheme_def guessed_resource\<close>)

definition table :: "resource list \<Rightarrow> string \<times> string \<Rightarrow> resource option" where
  "table objs = map_of (map (\<lambda>obj. (key_of obj, obj)) objs)"

lemma table_Nil: "table [] = Map.empty"
  by (simp add: table_def)

lemma table_Cons: "table (obj # objs) = (table objs)(key_of obj \<mapsto> obj)"
  by (simp add: table_def fun_eq_iff)

lemma table_dom: "key_of obj \<in> dom (table objs) \<longleftrightarrow> key_of obj \<in> key_of ` set objs"
  by (simp add: table_def dom_map_of_conv_image_fst image_image)

text \<open>Objects of different keys are all tracked; a repeated key panics.\<close>

lemma add_objects_tracked:
  assumes "crd_scheme S" and "tracker_wf t" and "unwatched t"
    and "distinct (map key_of objs)" and "\<forall>obj \<in> set objs. tracked t crds (key_of obj) = None"
  shows "\<exists>t'. add_objects S objs t = Inr t' \<and> tracker_wf t' \<and> unwatched t'
    \<and> tracked t' crds = tracked t crds ++ table objs"
  using assms(2-5)
proof (induction objs arbitrary: t)
  case (Cons obj objs)
  have e: "add_error crds obj (cr_Namespace obj) False t = None"
    using Cons.prems(4) by (simp add: add_error_def)
  obtain t1 where t1: "tracker_add crds obj (cr_Namespace obj) False t = Inr (None, t1)"
    "tracker_wf t1" "unwatched t1" "objects_at crds t1 = gm_set (key_of obj) obj (objects_at crds t)"
    by (rule tracker_add_quiet [OF Cons.prems(1,2), of crds obj "cr_Namespace obj" False])
      (simp add: e)
  then have m: "tracked t1 crds = (tracked t crds)(key_of obj \<mapsto> obj)" by (simp add: update_conv' fun_eq_iff)
  have "\<forall>q \<in> set objs. tracked t1 crds (key_of q) = None"
  proof
    fix q assume q: "q \<in> set objs"
    have "key_of obj \<notin> key_of ` set objs" using Cons.prems(3) by simp
    moreover have "key_of q \<in> key_of ` set objs" using q by (rule imageI)
    ultimately have ne: "key_of q \<noteq> key_of obj" by metis
    have "tracked t crds (key_of q) = None" by (rule bspec [OF Cons.prems(4)]) (simp add: q)
    then show "tracked t1 crds (key_of q) = None" by (simp only: m fun_upd_other [OF ne])
  qed
  then obtain t' where t': "add_objects S objs t1 = Inr t'" "tracker_wf t'" "unwatched t'"
    "tracked t' crds = tracked t1 crds ++ table objs"
    using Cons.IH [OF t1(2,3)] Cons.prems(3) by auto
  have "key_of obj \<notin> dom (table objs)" unfolding table_dom using Cons.prems(3) by simp
  then have "tracked t' crds = tracked t crds ++ table (obj # objs)"
    unfolding t'(4) m table_Cons by (metis map_add_upd_left map_add_upd)
  moreover have "add_objects S (obj # objs) t = Inr t'"
    using t'(1) by (simp add: tracker_Add_crd [OF assms(1)] t1(1))
  ultimately show ?case using t'(2,3) by blast
qed (simp add: table_Nil)

lemma NewObjectTracker_quiet: "tracker_wf NewObjectTracker" "unwatched NewObjectTracker"
  by (simp_all add: NewObjectTracker_def tracker_wf_def unwatched_def watchers_at_def objects_at_def)

lemma NewSimpleClientset_quiet:
  assumes "crd_scheme S" and "distinct (map key_of objs)"
  shows "\<exists>c. NewSimpleClientset L S objs = Inr c \<and> quiet L S c
    \<and> holds c = table objs"
proof -
  have "\<forall>obj \<in> set objs. tracked NewObjectTracker crds (key_of obj) = None"
    by (simp add: NewObjectTracker_def objects_at_def)
  from add_objects_tracked [OF assms(1) NewObjectTracker_quiet assms(2) this]
  obtain t where t: "add_objects S objs NewObjectTracker = Inr t" "tracker_wf t" "unwatched t"
    "tracked t crds = tracked NewObjectTracker crds ++ table objs"
    by blast
  have "tracked NewObjectTracker crds = Map.empty" by (simp add: NewObjectTracker_def objects_at_def)
  with t show ?thesis
    by (simp add: NewSimpleClientset_def quiet_def standard_def AddReactor_def AddWatchReactor_def)
qed

section \<open>The fake as a map\<close>


definition map_write :: "bool \<Rightarrow> string \<Rightarrow> resource \<Rightarrow> (string \<times> string \<Rightarrow> resource option)
    \<Rightarrow> (resource \<times> status_error option) \<times> (string \<times> string \<Rightarrow> resource option)" where
  "map_write replacing ns obj m =
     (if cr_Namespace obj \<notin> {[], ns} then ((empty_resource, Some StatusBadRequest), m)
      else if replacing \<and> m (ns, cr_Name obj) = None
        then ((empty_resource, Some (StatusNotFound (cr_Name obj))), m)
      else if \<not> replacing \<and> m (ns, cr_Name obj) \<noteq> None
        then ((empty_resource, Some (StatusAlreadyExists (cr_Name obj))), m)
      else ((namespaced ns obj, None), m((ns, cr_Name obj) \<mapsto> namespaced ns obj)))"











lemma map_write_errors: "fst (map_write rep ns obj m) = (r, Some e) \<Longrightarrow> r = empty_resource \<and> snd (map_write rep ns obj m) = m"
  by (auto simp: map_write_def split: if_splits)


lemma strict_weak_object_less: "strict_weak object_less"
  by (rule strict_weakI) (auto simp: object_less_def split: if_splits)

lemma object_less_total: "key_of r \<noteq> key_of q \<Longrightarrow> object_less r q \<or> object_less q r"
  by (auto simp: object_less_def)

lemma filterByNamespace_exact:
  assumes "tracker_wf t" and "slice_sort (fl_sort L)" and "is_order (fl_order L)"
  shows "sorted_wrt object_less (filterByNamespace L (objects_at g t) ns)"
    and "set (filterByNamespace L (objects_at g t) ns)
      = {r. (\<exists>k. gm_get (objects_at g t) k = Some r) \<and> (ns = [] \<or> cr_Namespace r = ns)}"
proof -
  let ?objs = "objects_at g t"
  let ?in = "filter (\<lambda>obj. \<not> (ns \<noteq> [] \<and> cr_Namespace obj \<noteq> ns)) (map snd (fl_order L ?objs))"
  note wf = tracker_wfD(4,5) [OF assms(1), where g = g]
  have own: "key_of r = k" if "(k, r) \<in> set ?objs" for k r
    using that wf(1) [of k r] gm_get_mem [OF wf(2)] by metis
  have "map key_of (map snd (fl_order L ?objs)) = map fst (fl_order L ?objs)"
    using own by (auto simp: is_order_set [OF assms(3)])
  moreover have "mset (map fst (fl_order L ?objs)) = mset (map fst ?objs)"
    using is_order_mset [OF assms(3), of ?objs] by (simp only: mset_map)
  ultimately have "distinct (map key_of (map snd (fl_order L ?objs)))"
    using wf(2) by (metis mset_eq_imp_distinct_iff)
  then have v: "distinct (map snd (fl_order L ?objs)) \<and> inj_on key_of (set (map snd (fl_order L ?objs)))"
    by (simp only: distinct_map [of key_of])
  then have di: "distinct ?in" by (simp only: distinct_filter)
  have inj: "inj_on key_of (set ?in)" by (rule inj_on_subset [OF conjunct2 [OF v]]) auto
  show "sorted_wrt object_less (filterByNamespace L ?objs ns)"
    unfolding filterByNamespace_def
    using assms(2) strict_weak_object_less di
  proof (rule slice_sort.sort_strict)
    fix r q assume rq: "r \<in> set ?in" "q \<in> set ?in" "r \<noteq> q"
    have "key_of r \<noteq> key_of q" by (rule inj_on_contraD [OF inj rq(3,1,2)])
    then show "object_less r q \<or> object_less q r" by (rule object_less_total)
  qed
  have "r \<in> snd ` set ?objs \<longleftrightarrow> (\<exists>k. gm_get ?objs k = Some r)" for r
    unfolding gm_get_mem [OF wf(2)] by force
  then show "set (filterByNamespace L ?objs ns)
      = {r. (\<exists>k. gm_get ?objs k = Some r) \<and> (ns = [] \<or> cr_Namespace r = ns)}"
    unfolding filterByNamespace_def slice_sort.sort_set [OF assms(2)] set_filter set_map is_order_set [OF assms(3)]
    by blast
qed




section \<open>Properties\<close>


text \<open>A clientset with one resource, for the examples; its libraries do what they are asked for.\<close>

definition sample_libs :: fake_libs where
  "sample_libs = \<lparr>fl_sort = insertionSort, fl_order = (\<lambda>m. m), fl_Parse = (\<lambda>s. Some (\<lambda>labels. True)),
     fl_ParseSelector = (\<lambda>s. True), fl_patch = (\<lambda>pt p r. Inr r), fl_apply_name = (\<lambda>p. Inl p)\<rparr>"

lemma sample_clientset:
  obtains S c where "fake_scheme_init = Inr S" "crd_scheme S" "NewSimpleClientset sample_libs S [sample_resource] = Inr c"
    "quiet sample_libs S c" "holds c = [([], ''r'') \<mapsto> sample_resource]"
proof -
  obtain S where S: "fake_scheme_init = Inr S" "crd_scheme S"
    unfolding fake_scheme_init_eq using scheme_init_crd by blast
  have "key_of sample_resource = ([], ''r'')" by (simp add: sample_resource_def empty_resource_def)
  with NewSimpleClientset_quiet [of S "[sample_resource]" sample_libs] S(2) obtain c
    where "NewSimpleClientset sample_libs S [sample_resource] = Inr c" "quiet sample_libs S c"
      "holds c = [([], ''r'') \<mapsto> sample_resource]"
    by (auto simp: table_Cons table_Nil)
  with S show thesis by (rule that)
qed


text \<open>The handler against the fake clientset, from the event to the stored resource: for a
  resource with a good configuration the stores are rebuilt, one per entry; the resource the
  fake then holds is the one it held, with the controller's labels and with a Processed
  condition that says so, and every other resource is as it was.\<close>

theorem handler_on_fake:
  assumes "quiet L S c" and "holds c (key_of g) = Some r" and "tick clock = (True, clock1)"
    and "event = ''addEvent'' \<or> event = ''updateEvent''" and "cr_Configuration r \<noteq> []"
    and "yaml (cr_Configuration r) = Inr ps"
    and "\<forall>p \<in> set ps. \<exists>sc. p = Some sc \<and> store_config sc" and "hstate_wf h"
  shows "\<exists>h' c' clock' t. handleEvent (fake_env now tick yaml version) nc event (ManagedResource g) h (c, clock)
      = Inr (h', (c', clock')) \<and> quiet L S c'
    \<and> holds c' = (holds c)(key_of g \<mapsto>
        with_condition (stated ''Processed'' ''True'' (processed_message event) t r) (labelled version r))
    \<and> stores_at (stores_map h') (cr_UID r) = [length (heap h)..<length (heap h) + length ps]"
proof -
  let ?E = "fake_env now tick yaml version"
  have v: "fake_valid L S (c, clock)" using assms(1) by (simp add: fake_valid_def quiet_def)
  have s: "fake_stored (c, clock) (key_of g) = Some r" using assms(2) by (simp add: fake_stored_def)
  have t: "env_Tick ?E (c, clock) = (True, (c, clock1))" using assms(3) by (simp add: fake_env_def)
  have y: "env_yaml ?E (cr_Configuration r) = Inr ps" using assms(6) by (simp add: fake_env_def)
  obtain h' w' t where "handleEvent ?E nc event (ManagedResource g) h (c, clock) = Inr (h', w')" "fake_valid L S w'"
    "fake_stored w' = (fake_stored (c, clock))(key_of g \<mapsto>
        with_condition (stated ''Processed'' ''True'' (processed_message event) t r) (labelled (env_Version ?E) r))"
    "stores_at (stores_map h') (cr_UID r) = [length (heap h)..<length (heap h) + length ps]"
    using fake.handled [OF v s t assms(4,5) y assms(7,8), of nc] by blast
  then show ?thesis
    by (cases w') (auto simp: fake_stored_def fake_valid_def quiet_def fake_env_def)
qed

theorem handler_on_fake_witness:
  "\<exists>S c h' c' clock' t. NewSimpleClientset sample_libs S [sample_resource] = Inr c
    \<and> handleEvent (fake_env (\<lambda>s. (s, s + 1)) (\<lambda>s. (True, s)) (env_yaml sample_env) ''v'') False ''addEvent''
        (ManagedResource sample_resource) \<lparr>heap = [], stores_map = []\<rparr> (c, 5) = Inr (h', (c', clock'))
    \<and> holds c' ([], ''r'') = Some (with_condition
        (stated ''Processed'' ''True'' (processed_message ''addEvent'') t sample_resource) (labelled ''v'' sample_resource))
    \<and> stores_at (stores_map h') ''u'' = [0]"
proof -
  obtain S c where c: "NewSimpleClientset sample_libs S [sample_resource] = Inr c"
    "quiet sample_libs S c" "holds c = [([], ''r'') \<mapsto> sample_resource]"
    by (rule sample_clientset)
  have k: "key_of sample_resource = ([], ''r'')" by (simp add: sample_resource_def empty_resource_def)
  with c(3) have s: "holds c (key_of sample_resource) = Some sample_resource" by simp
  have conf: "cr_Configuration sample_resource \<noteq> []" "cr_UID sample_resource = ''u''"
    by (simp_all add: sample_resource_def)
  have y: "env_yaml sample_env (cr_Configuration sample_resource) = Inr [Some sample_entry]"
    by (simp add: sample_env_def sample_resource_def)
  have h: "hstate_wf \<lparr>heap = [], stores_map = []\<rparr>" by (simp add: hstate_wf_def)
  have g: "\<forall>p \<in> set [Some sample_entry]. \<exists>sc. p = Some sc \<and> store_config sc"
    using sample_entry_config by simp
  have e: "''addEvent'' = ''addEvent'' \<or> ''addEvent'' = ''updateEvent''" by simp
  from handler_on_fake [where tick = "\<lambda>s. (True, s)" and now = "\<lambda>s. (s, s + 1)" and clock = 5
      and version = "''v''" and nc = False and yaml = "env_yaml sample_env" and event = "''addEvent''"
      and ps = "[Some sample_entry]" and h = "\<lparr>heap = [], stores_map = []\<rparr>",
      OF c(2) s refl e conf(1) y g h]
  obtain h' c' clock' t where r: "handleEvent (fake_env (\<lambda>s. (s, s + 1)) (\<lambda>s. (True, s)) (env_yaml sample_env) ''v'')
        False ''addEvent'' (ManagedResource sample_resource) \<lparr>heap = [], stores_map = []\<rparr> (c, 5) = Inr (h', (c', clock'))"
    "holds c' = (holds c)(key_of sample_resource \<mapsto> with_condition
        (stated ''Processed'' ''True'' (processed_message ''addEvent'') t sample_resource) (labelled ''v'' sample_resource))"
    "stores_at (stores_map h') (cr_UID sample_resource) = [0..<0 + length [Some sample_entry]]"
    by (simp only: list.size hstate.simps) blast
  from r(2) have "holds c' ([], ''r'') = Some (with_condition
        (stated ''Processed'' ''True'' (processed_message ''addEvent'') t sample_resource) (labelled ''v'' sample_resource))"
    unfolding k by (simp only: fun_upd_same)
  moreover have "stores_at (stores_map h') ''u'' = [0]" using r(3) conf(2) by (simp add: upt_rec)
  ultimately show ?thesis using c(1) r(1) by blast
qed

text \<open>C29: watchers of the fake see exactly what happens: whatever calls are made, and however late
  the events are read, a watcher that is open for a namespace, or for all, has been sent the
  events that turn the resources it could see when it was first looked at into those it can
  see now: those read from it meanwhile and those still in its channel are the ones its
  channel held then, followed by these events.\<close>

theorem watchers_follow:
  assumes "fake_run L c rs c'" and "standard L S c" and "tracker_wf (fk_tracker c)" and "watching a ns (fk_tracker c)"
  shows "\<exists>evs. fw_result (tr_channels (fk_tracker c) ! a) @ evs
        = received_by a rs @ fw_result (tr_channels (fk_tracker c') ! a)
    \<and> (\<forall>k. ns = [] \<or> fst k = ns \<longrightarrow> apply_events evs (holds c) k = holds c' k)"
  using run_followed [OF assms] by (auto simp: follows_def visible_def)

text \<open>A watcher of all namespaces, on the example.\<close>

lemma sample_watched:
  obtains S c a where "standard sample_libs S c" "tracker_wf (fk_tracker c)" "watching a [] (fk_tracker c)"
    "tr_channels (fk_tracker c) ! a = NewRaceFreeFake" "getWatches crds [] (fk_tracker c) = [a]"
    "holds c = [([], ''r'') \<mapsto> sample_resource]"
proof -
  obtain S c where c: "quiet sample_libs S c" "holds c = [([], ''r'') \<mapsto> sample_resource]"
    by (rule sample_clientset)
  obtain a t where w: "tracker_Watch crds [] (fk_tracker c) = (a, t)" by fastforce
  note p = tracker_Watch_parts [OF w]
  let ?c = "c\<lparr>fk_tracker := t\<rparr>"
  have "standard sample_libs S ?c" "tracker_wf (fk_tracker ?c)"
    using c(1) tracker_Watch_wf [OF w] by (simp_all add: quiet_def)
  moreover have "watching a [] (fk_tracker ?c)"
    unfolding watching_def by (simp add: p NewRaceFreeFake_def)
  moreover have "tr_channels (fk_tracker ?c) ! a = NewRaceFreeFake" by (simp add: p(1,2))
  moreover have "getWatches crds [] (fk_tracker ?c) = [a]"
    using c(1) by (simp add: getWatches_def p(4) quiet_def unwatched_def)
  moreover have "holds ?c = holds c" by (simp add: p(3))
  then have "holds ?c = [([], ''r'') \<mapsto> sample_resource]" using c(2) by (rule trans)
  ultimately show thesis by (rule that)
qed

text \<open>It reads the deletion of the resource.\<close>

lemma sample_deleted:
  obtains S c a rs c' where "standard sample_libs S c" "tracker_wf (fk_tracker c)" "watching a [] (fk_tracker c)"
    "tr_channels (fk_tracker c) ! a = NewRaceFreeFake" "holds c = [([], ''r'') \<mapsto> sample_resource]"
    "fake_run sample_libs c rs c'" "received_by a rs = [(Deleted, sample_resource)]"
    "fw_result (tr_channels (fk_tracker c') ! a) = []" "holds c' ([], ''r'') = None"
proof -
  obtain S c a where c: "standard sample_libs S c" "tracker_wf (fk_tracker c)" "watching a [] (fk_tracker c)"
    "tr_channels (fk_tracker c) ! a = NewRaceFreeFake" "getWatches crds [] (fk_tracker c) = [a]"
    "holds c = [([], ''r'') \<mapsto> sample_resource]"
    by (rule sample_watched)
  have r: "holds c ([], ''r'') = Some sample_resource" unfolding c(6) by (rule fun_upd_same)
  have la: "a < length (tr_channels (fk_tracker c))"
    using c(3) tracker_wfD(2) [OF c(2)] by (auto simp: watching_def)
  have "\<exists>t. tracker_Delete crds [] ''r'' (fk_tracker c) = Inr (None, t)
      \<and> tr_channels t = (tr_channels (fk_tracker c))[a := NewRaceFreeFake\<lparr>fw_result := [(Deleted, sample_resource)]\<rparr>]"
    by (simp add: tracker_Delete_def r c(4,5) watcher_send_def NewRaceFreeFake_def DefaultChanSize_def)
  then obtain t where t: "tracker_Delete crds [] ''r'' (fk_tracker c) = Inr (None, t)"
    "tr_channels t ! a = NewRaceFreeFake\<lparr>fw_result := [(Deleted, sample_resource)]\<rparr>" "a < length (tr_channels t)"
    using la by auto
  let ?d = "c\<lparr>fk_actions := fk_actions c @ [DeleteAction crds [] ''r''], fk_tracker := t\<rparr>"
  let ?c = "?d\<lparr>fk_tracker := t\<lparr>tr_channels := (tr_channels t)
      [a := (NewRaceFreeFake\<lparr>fw_result := [(Deleted, sample_resource)]\<rparr>)\<lparr>fw_result := []\<rparr>]\<rparr>\<rparr>"
  have "fake_Delete [] ''r'' c = Inr (None, ?d)"
    by (simp add: fake_Delete_def Invokes_standard [OF c(1)] t)
  then have "fake_step sample_libs [] c ?d" by (rule fake_step.delete)
  then have "fake_run sample_libs c ([] @ []) ?d" by (rule fake_run.further [OF fake_run.start])
  moreover have "fake_step sample_libs [(a, Deleted, sample_resource)] ?d ?c"
    by (rule fake_step.received [OF t(3,2)]) simp_all
  ultimately have run: "fake_run sample_libs c (([] @ []) @ [(a, Deleted, sample_resource)]) ?c"
    by (rule fake_run.further)
  have "holds ?c ([], ''r'') = gm_get (objects_at crds t) ([], ''r'')" by (simp add: objects_at_def)
  moreover have "objects_at crds t = gm_del ([], ''r'') (objects_at crds (fk_tracker c))"
    using tracker_Delete_spec [OF t(1) c(2)] by (simp add: r)
  ultimately have "holds ?c ([], ''r'') = None" by (simp only: gm_get_del) simp
  moreover have "fw_result (tr_channels (fk_tracker ?c) ! a) = []" using t(3) by simp
  ultimately show thesis by (intro that [OF c(1-4,6) run]) simp_all
qed

theorem watchers_follow_witness:
  "\<exists>c c' a rs evs. fake_run sample_libs c rs c' \<and> watching a [] (fk_tracker c)
    \<and> received_by a rs = [(Deleted, sample_resource)] \<and> evs = [(Deleted, sample_resource)]
    \<and> apply_events evs (holds c) ([], ''r'') = holds c' ([], ''r'') \<and> holds c' ([], ''r'') = None"
proof -
  obtain S c a rs c' where c: "standard sample_libs S c" "tracker_wf (fk_tracker c)" "watching a [] (fk_tracker c)"
    "tr_channels (fk_tracker c) ! a = NewRaceFreeFake" "fake_run sample_libs c rs c'"
    "received_by a rs = [(Deleted, sample_resource)]"
    "fw_result (tr_channels (fk_tracker c') ! a) = []" "holds c' ([], ''r'') = None"
    by (rule sample_deleted)
  from watchers_follow [OF c(5,1-3)] obtain evs where
    "fw_result (tr_channels (fk_tracker c) ! a) @ evs = received_by a rs @ fw_result (tr_channels (fk_tracker c') ! a)"
    "apply_events evs (holds c) ([], ''r'') = holds c' ([], ''r'')"
    by auto
  then have "evs = [(Deleted, sample_resource)]" by (simp add: c(4,6,7) NewRaceFreeFake_def)
  with c(3,5,6,8) \<open>apply_events evs (holds c) ([], ''r'') = holds c' ([], ''r'')\<close> show ?thesis by (intro exI conjI)
qed

text \<open>The fake does not delete collections: the tracker has no reaction to that action, so that
  the call answers with no error, whatever its selectors, and every resource is still there;
  the real client deletes them.\<close>

theorem DeleteCollection_keeps:
  assumes "standard L S c"
  shows "fake_DeleteCollection L ns opts c =
     (if fl_Parse L (lo_LabelSelector opts) = None \<or> \<not> fl_ParseSelector L (lo_FieldSelector opts)
      then Inl ExplicitPanic
      else Inr (None, c\<lparr>fk_actions := fk_actions c @ [DeleteCollectionAction crds ns opts]\<rparr>))"
  using assms
  by (auto simp: fake_DeleteCollection_def ExtractFromListOptions_def Invokes_standard split: option.split)

theorem DeleteCollection_keeps_witness:
  "\<exists>S c c'. NewSimpleClientset sample_libs S [sample_resource] = Inr c
    \<and> fake_DeleteCollection sample_libs [] \<lparr>lo_LabelSelector = [], lo_FieldSelector = [],
         lo_ResourceVersion = [], lo_ResourceVersionMatch = []\<rparr> c = Inr (None, c')
    \<and> holds c' ([], ''r'') = Some sample_resource"
proof -
  obtain S c where c: "NewSimpleClientset sample_libs S [sample_resource] = Inr c"
    "quiet sample_libs S c" "holds c = [([], ''r'') \<mapsto> sample_resource]"
    by (rule sample_clientset)
  have "holds c ([], ''r'') = Some sample_resource" unfolding c(3) by (rule fun_upd_same)
  moreover from c(2) have "standard sample_libs S c" by (simp add: quiet_def)
  from DeleteCollection_keeps [OF this, of "[]" "\<lparr>lo_LabelSelector = [], lo_FieldSelector = [],
         lo_ResourceVersion = [], lo_ResourceVersionMatch = []\<rparr>"]
  have "\<exists>c'. fake_DeleteCollection sample_libs [] \<lparr>lo_LabelSelector = [], lo_FieldSelector = [],
         lo_ResourceVersion = [], lo_ResourceVersionMatch = []\<rparr> c = Inr (None, c') \<and> fk_tracker c' = fk_tracker c"
    by (simp add: sample_libs_def)
  ultimately show ?thesis using c(1) by metis
qed

text \<open>A list of the fake has each resource of the namespace, or of all, whose labels match, once,
  in the order of namespace and name, whatever the order of map iteration and the sorting
  algorithm are.\<close>

theorem fake_List_exact:
  assumes "standard L S c" and "tracker_wf (fk_tracker c)" and "crd_scheme S"
    and "slice_sort (fl_sort L)" and "is_order (fl_order L)"
    and "fl_Parse L (lo_LabelSelector opts) = Some matches" and "fl_ParseSelector L (lo_FieldSelector opts)"
  shows "\<exists>rs c'. fake_List L ns opts c = Inr ((rs, None), c') \<and> holds c' = holds c
    \<and> sorted_wrt object_less rs
    \<and> set rs = {r. (\<exists>k. holds c k = Some r) \<and> (ns = [] \<or> cr_Namespace r = ns) \<and> matches (cr_Labels r)}"
proof -
  let ?all = "filterByNamespace L (objects_at crds (fk_tracker c)) ns"
  have l: "tracker_List L S crds crdmetricsresourcesKind ns (fk_tracker c) = Inr ?all"
    using assms(3) by (simp add: tracker_List_def crd_scheme_def crd_kind_def crdmetricsresourcesKind_def
        WithKind_def SchemeGroupVersion_def Let_def)
  let ?c = "c\<lparr>fk_actions := fk_actions c @ [ListAction crds crdmetricsresourcesKind ns opts]\<rparr>"
  have f: "fake_List L ns opts c = Inr ((filter (\<lambda>r. matches (cr_Labels r)) ?all, None), ?c)"
    using assms(6,7) by (simp add: fake_List_def ExtractFromListOptions_def Invokes_standard [OF assms(1)] l)
  note exact = filterByNamespace_exact [OF assms(2,4,5), of crds ns]
  have "sorted_wrt object_less (filter (\<lambda>r. matches (cr_Labels r)) ?all)"
    using exact(1) by (rule sorted_wrt_filter)
  moreover have "set (filter (\<lambda>r. matches (cr_Labels r)) ?all)
      = {r. (\<exists>k. holds c k = Some r) \<and> (ns = [] \<or> cr_Namespace r = ns) \<and> matches (cr_Labels r)}"
    unfolding set_filter exact(2) by blast
  moreover have "holds ?c = holds c" by simp
  ultimately show ?thesis unfolding f by blast
qed

theorem fake_List_exact_witness:
  "\<exists>S c c' rs. NewSimpleClientset sample_libs S [sample_resource] = Inr c
    \<and> fake_List sample_libs [] \<lparr>lo_LabelSelector = [], lo_FieldSelector = [],
         lo_ResourceVersion = [], lo_ResourceVersionMatch = []\<rparr> c = Inr ((rs, None), c')
    \<and> set rs = {sample_resource}"
proof -
  obtain S c where c: "crd_scheme S" "NewSimpleClientset sample_libs S [sample_resource] = Inr c"
    "quiet sample_libs S c" "holds c = [([], ''r'') \<mapsto> sample_resource]"
    by (rule sample_clientset)
  have q: "standard sample_libs S c" "tracker_wf (fk_tracker c)" using c(3) by (simp_all add: quiet_def)
  have one: "(\<exists>k. holds c k = Some r) \<longleftrightarrow> r = sample_resource" for r
    unfolding c(4) by (auto simp: fun_upd_apply)
  let ?o = "\<lparr>lo_LabelSelector = [], lo_FieldSelector = [], lo_ResourceVersion = [], lo_ResourceVersionMatch = []\<rparr>"
  have "slice_sort (fl_sort sample_libs)" "is_order (fl_order sample_libs)"
    "fl_Parse sample_libs (lo_LabelSelector ?o) = Some (\<lambda>labels. True)"
    "fl_ParseSelector sample_libs (lo_FieldSelector ?o)"
    by (simp_all add: sample_libs_def insertion.slice_sort_axioms)
  from fake_List_exact [OF q c(1) this, of "[]"] obtain rs c' where
    "fake_List sample_libs [] ?o c = Inr ((rs, None), c')" "set rs = {r. \<exists>k. holds c k = Some r}"
    by auto
  then have "set rs = {sample_resource}" by (simp only: one) simp
  with \<open>fake_List sample_libs [] ?o c = Inr ((rs, None), c')\<close> c(2) show ?thesis by blast
qed

end
