(* ===== verification/Fake_Watched.thy ===== *)
theory Fake_Watched
  imports Fake_Server
begin

text \<open>
  The fake clientset while it is watched: watchers that read what they are sent right after a
  call never make a later one panic, so that the fake provides the handler's interface then
  too. What they read is recorded, and each record is that of a run of the fake.
\<close>

section \<open>Reading everything\<close>

abbreviation channels :: "fake \<Rightarrow> fake_watcher list" where
  "channels c \<equiv> tr_channels (fk_tracker c)"

definition emptied :: "nat \<Rightarrow> fake \<Rightarrow> fake" where
  "emptied a c = c\<lparr>fk_tracker := (fk_tracker c)\<lparr>tr_channels := (channels c)[a := (channels c ! a)\<lparr>fw_result := []\<rparr>]\<rparr>\<rparr>"

definition read_all :: "fake \<Rightarrow> receipt list \<times> fake" where
  "read_all c =
     (concat (map (\<lambda>a. map (Pair a) (fw_result (channels c ! a))) [0..<length (channels c)]),
      fold emptied [0..<length (channels c)] c)"

lemma fake_run_trans: "fake_run L d rs' e \<Longrightarrow> fake_run L c rs d \<Longrightarrow> fake_run L c (rs @ rs') e"
proof (induction rule: fake_run.induct)
  case (further c' rs' d' r e)
  then show ?case by (metis append.assoc fake_run.further)
qed simp

lemma emptied_parts [simp]:
  "length (channels (emptied a c)) = length (channels c)"
  "b < length (channels c) \<Longrightarrow> channels (emptied a c) ! b = (if a = b then (channels c ! a)\<lparr>fw_result := []\<rparr> else channels c ! b)"
  "standard L S (emptied a c) = standard L S c" "holds (emptied a c) = holds c"
  "watchers_at g ns (fk_tracker (emptied a c)) = watchers_at g ns (fk_tracker c)"
  "objects_at g (fk_tracker (emptied a c)) = objects_at g (fk_tracker c)"
  by (simp_all add: emptied_def nth_list_update)

lemma read_channel:
  "a < length (channels c) \<Longrightarrow> fake_run L c (map (Pair a) (fw_result (channels c ! a))) (emptied a c)"
proof (induction "fw_result (channels c ! a)" arbitrary: c)
  case Nil
  then have "(channels c ! a)\<lparr>fw_result := []\<rparr> = channels c ! a" by simp
  then have "emptied a c = c" by (simp add: emptied_def)
  then show ?case using Nil(1) [symmetric] by (simp add: fake_run.start)
next
  case (Cons e es)
  let ?t = "fk_tracker c"
  let ?d = "c\<lparr>fk_tracker := ?t\<lparr>tr_channels := (tr_channels ?t)[a := (tr_channels ?t ! a)\<lparr>fw_result := es\<rparr>]\<rparr>\<rparr>"
  have s: "fake_step L [(a, e)] c ?d"
    by (rule fake_step.received [OF Cons.prems refl Cons(2) [symmetric] refl])
  have d: "fw_result (channels ?d ! a) = es" "a < length (channels ?d)" using Cons.prems by simp_all
  have "fake_run L ?d (map (Pair a) (fw_result (channels ?d ! a))) (emptied a ?d)"
    by (rule Cons.hyps(1)) (simp_all only: d)
  moreover have "emptied a ?d = emptied a c" using Cons.prems by (simp add: emptied_def)
  ultimately have "fake_run L ?d (map (Pair a) es) (emptied a c)" by (simp only: d)
  from fake_run_trans [OF this fake_run.further [OF fake_run.start s]] show ?case
    by (simp add: Cons(2) [symmetric])
qed

lemma read_channels:
  assumes "distinct as" and "\<forall>a \<in> set as. a < length (channels c)"
  shows "fake_run L c (concat (map (\<lambda>a. map (Pair a) (fw_result (channels c ! a))) as)) (fold emptied as c)"
  using assms
proof (induction as arbitrary: c)
  case (Cons a as)
  have eq: "map (\<lambda>b. map (Pair b) (fw_result (channels (emptied a c) ! b))) as
      = map (\<lambda>b. map (Pair b) (fw_result (channels c ! b))) as"
    using Cons.prems by (intro map_cong) auto
  have "fake_run L (emptied a c) (concat (map (\<lambda>b. map (Pair b) (fw_result (channels (emptied a c) ! b))) as))
      (fold emptied as (emptied a c))"
    using Cons.prems by (intro Cons.IH) auto
  then have "fake_run L (emptied a c) (concat (map (\<lambda>b. map (Pair b) (fw_result (channels c ! b))) as))
      (fold emptied as (emptied a c))"
    unfolding eq .
  moreover have "fake_run L c (map (Pair a) (fw_result (channels c ! a))) (emptied a c)"
    using Cons.prems(2) by (intro read_channel) simp
  ultimately show ?case unfolding list.map concat.simps fold_simps by (rule fake_run_trans)
qed (simp add: fake_run.start)

lemma read_all_run: "fake_run L c (fst (read_all c)) (snd (read_all c))"
  unfolding read_all_def fst_conv snd_conv by (rule read_channels) simp_all

lemma fold_emptied:
  "length (channels (fold emptied as c)) = length (channels c)"
  "b < length (channels c) \<Longrightarrow> fw_result (channels (fold emptied as c) ! b) = (if b \<in> set as then [] else fw_result (channels c ! b))"
  "standard L S (fold emptied as c) = standard L S c" "holds (fold emptied as c) = holds c"
  "tracker_wf (fk_tracker (fold emptied as c)) = tracker_wf (fk_tracker c)"
proof (induction as arbitrary: c)
  case (Cons a as)
  { case 1 show ?case by (simp add: Cons.IH(1)) }
  { case 2 then show ?case by (simp add: Cons.IH(2)) }
  { case 3 show ?case by (simp add: Cons.IH(3)) }
  { case 4 show ?case unfolding fold_simps Cons.IH(4) by (rule emptied_parts(4)) }
  { case 5 show ?case unfolding fold_simps Cons.IH(5) unfolding tracker_wf_def by simp }
qed simp_all

section \<open>Calls that everyone attends to\<close>

definition attended :: "fake_libs \<Rightarrow> go_scheme \<Rightarrow> fake \<Rightarrow> bool" where
  "attended L S c \<longleftrightarrow> standard L S c \<and> tracker_wf (fk_tracker c) \<and> (\<forall>f \<in> set (channels c). fw_result f = [])"

lemma read_all_attended:
  assumes "standard L S c" and "tracker_wf (fk_tracker c)"
  shows "attended L S (snd (read_all c))" and "holds (snd (read_all c)) = holds c"
proof -
  show "holds (snd (read_all c)) = holds c" unfolding read_all_def snd_conv by (rule fold_emptied(4))
  show "attended L S (snd (read_all c))"
    unfolding attended_def read_all_def snd_conv fold_emptied(3,5)
    using assms by (auto simp: in_set_conv_nth fold_emptied(1,2))
qed

text \<open>A replacement of a resource that is there, and what the watchers then read.\<close>

lemma write_attended:
  assumes "attended L S c" and "holds c (key_of obj) \<noteq> None"
    and "\<And>t. ObjectReaction L S a t =
      go_bind (tracker_add crds obj (cr_Namespace obj) True t) (\<lambda>r. Inr (read_back crds (cr_Namespace obj) (cr_Name obj) r))"
  obtains c' where "go_bind (Invokes a d c) as_resource = Inr ((obj, None), c')"
    "attended L S (snd (read_all c'))" "holds (snd (read_all c')) = (holds c)(key_of obj \<mapsto> obj)"
    "\<And>b e. (b, e) \<in> set (fst (read_all c')) \<Longrightarrow> e = (Modified, obj)"
proof -
  let ?ns = "cr_Namespace obj" and ?t = "fk_tracker c"
  have c: "standard L S c" "tracker_wf ?t" "\<forall>f \<in> set (channels c). fw_result f = []"
    using assms(1) by (simp_all add: attended_def)
  have "\<exists>t'. announce Modified obj (getWatches crds ?ns ?t)
      (?t\<lparr>tr_objects := gm_set crds (objects_at crds ?t) (tr_objects ?t)\<rparr>) = Inr t'"
    using getWatches_ok(1) [OF c(2), of crds ?ns] getWatches_ok(2) [OF c(2), of _ crds ?ns] c(3)
    by (intro announce_room) (auto simp: room_def DefaultChanSize_def)
  then obtain err t' where a: "tracker_add crds obj ?ns True ?t = Inr (err, t')"
    using assms(2) by (auto simp: tracker_add_def Let_def)
  have e: "add_error crds obj ?ns True ?t = None" using assms(2) by (auto simp: add_error_def)
  from tracker_add_spec [OF a c(2)] e have t': "err = None"
    "channels (c\<lparr>fk_tracker := t'\<rparr>) = told Modified obj (getWatches crds ?ns ?t) (channels c)"
    "\<And>g'. objects_at g' t' = (if g' = crds then gm_set (key_of obj) obj (objects_at crds ?t) else objects_at g' ?t)"
    by (auto split: if_splits)
  have wf: "tracker_wf t'" using tracker_write_wf [OF tracker_add_write [OF a c(2)] c(2)] .
  let ?c = "c\<lparr>fk_actions := fk_actions c @ [a], fk_tracker := t'\<rparr>"
  have i: "go_bind (Invokes a d c) as_resource = Inr ((obj, None), ?c)"
    using a t' by (simp add: Invokes_standard [OF c(1)] assms(3) read_back_def tracker_Get_def as_resource_def gm_get_set)
  have "standard L S ?c" "tracker_wf (fk_tracker ?c)" using c(1) wf by simp_all
  note r = read_all_attended [OF this]
  have h: "holds ?c = (holds c)(key_of obj \<mapsto> obj)" by (simp add: t'(3) fun_eq_iff gm_get_set)
  have "e = (Modified, obj)" if be: "(b, e) \<in> set (fst (read_all ?c))" for b e
  proof -
    from be have b: "b < length (channels c)" "e \<in> set (fw_result (told Modified obj (getWatches crds ?ns ?t) (channels c) ! b))"
      using t'(2) by (auto simp: read_all_def)
    moreover have "fw_result (channels c ! b) = []" using b(1) c(3) by simp
    ultimately show ?thesis by (auto simp: sent_def split: if_splits)
  qed
  with that [OF i r(1)] show thesis unfolding r(2) h by blast
qed

section \<open>The interface again\<close>

type_synonym 'c attended_world = "(fake \<times> receipt list) \<times> 'c"

definition attended_request ::
    "(fake \<Rightarrow> ((resource \<times> status_error option) \<times> fake) go) \<Rightarrow> 'c attended_world request" where
  "attended_request call = (\<lambda>((c, seen), clock).
     case call c of
       Inl p \<Rightarrow> (Inl OtherApiError, ((c, seen), clock))
     | Inr ((r, err), c) \<Rightarrow>
         (case read_all c of (rs, c) \<Rightarrow>
           (case err of None \<Rightarrow> Inr r | Some e \<Rightarrow> Inl (api_error_of e), ((c, seen @ rs), clock))))"

definition attended_env ::
    "('c \<Rightarrow> int \<times> 'c) \<Rightarrow> ('c \<Rightarrow> bool \<times> 'c) \<Rightarrow> yaml_engine \<Rightarrow> string \<Rightarrow> 'c attended_world env" where
  "attended_env now tick yaml version = \<lparr>
     api_Get = (\<lambda>ns name. attended_request (fake_Get ns name)),
     api_Update = (\<lambda>r. attended_request (fake_Update (cr_Namespace r) r)),
     api_UpdateStatus = (\<lambda>r. attended_request (fake_UpdateStatus (cr_Namespace r) r)),
     env_Now = (\<lambda>(c, clock). case now clock of (t, clock) \<Rightarrow> (t, (c, clock))),
     env_Tick = (\<lambda>(c, clock). case tick clock of (b, clock) \<Rightarrow> (b, (c, clock))),
     env_yaml = yaml, env_Version = version\<rparr>"

text \<open>Since the state \<open>c0\<close> there was a run that only modified resources, and no specification.\<close>

definition same_specs :: "fake \<Rightarrow> receipt list \<Rightarrow> fake \<Rightarrow> bool" where
  "same_specs c0 seen c \<longleftrightarrow>
     (\<forall>k. map_option cr_Configuration (holds c k) = map_option cr_Configuration (holds c0 k))
     \<and> (\<forall>(b, tp, obj) \<in> set seen. tp = Modified
          \<and> map_option cr_Configuration (holds c0 (key_of obj)) = Some (cr_Configuration obj))"

definition attended_valid :: "fake_libs \<Rightarrow> go_scheme \<Rightarrow> fake \<Rightarrow> 'c attended_world \<Rightarrow> bool" where
  "attended_valid L S c0 = (\<lambda>((c, seen), clock). attended L S c \<and> fake_run L c0 seen c \<and> same_specs c0 seen c)"

definition attended_stored :: "'c attended_world \<Rightarrow> string \<times> string \<Rightarrow> resource option" where
  "attended_stored = (\<lambda>((c, seen), clock). holds c)"

lemma attended_write:
  assumes "attended_valid L S c0 ((c, seen), clock)" and "holds c (key_of obj) = Some r"
    and "cr_Configuration obj = cr_Configuration r" and "cr_Namespace obj = ns"
    and "\<And>t. ObjectReaction L S a t =
      go_bind (tracker_add crds obj ns True t) (\<lambda>r. Inr (read_back crds ns (cr_Name obj) r))"
    and "call = (\<lambda>c. go_bind (Invokes a d c) as_resource)"
    and "\<And>r c c'. call c = Inr (r, c') \<Longrightarrow> fake_step L [] c c'"
  shows "\<exists>w'. attended_request call ((c, seen), clock) = (Inr obj, w')
    \<and> attended_valid L S c0 w' \<and> attended_stored w' = (holds c)(key_of obj \<mapsto> obj)"
proof -
  have v: "attended L S c" "fake_run L c0 seen c" "same_specs c0 seen c"
    using assms(1) by (simp_all add: attended_valid_def)
  have "holds c (key_of obj) \<noteq> None" using assms(2) by simp
  from write_attended [OF v(1) this assms(5) [unfolded assms(4) [symmetric]], where d = d]
  obtain c' where c': "call c = Inr ((obj, None), c')"
    "attended L S (snd (read_all c'))" "holds (snd (read_all c')) = (holds c)(key_of obj \<mapsto> obj)"
    "\<And>b e. (b, e) \<in> set (fst (read_all c')) \<Longrightarrow> e = (Modified, obj)"
    unfolding assms(6) by metis
  have "fake_step L [] c c'" using c'(1) by (rule assms(7))
  from fake_run_trans [OF read_all_run fake_run.further [OF v(2) this]]
  have run: "fake_run L c0 (seen @ fst (read_all c')) (snd (read_all c'))" by simp
  have spec: "map_option cr_Configuration (holds c0 (key_of obj)) = Some (cr_Configuration obj)"
    using v(3) assms(2,3) unfolding same_specs_def by (metis option.simps(9))
  have "same_specs c0 (seen @ fst (read_all c')) (snd (read_all c'))"
    unfolding same_specs_def
  proof (intro conjI allI ballI)
    fix k
    show "map_option cr_Configuration (holds (snd (read_all c')) k) = map_option cr_Configuration (holds c0 k)"
    proof (cases "k = key_of obj")
      case True
      then show ?thesis unfolding c'(3) by (simp only: fun_upd_same spec option.map)
    next
      case False
      have "map_option cr_Configuration (holds c k) = map_option cr_Configuration (holds c0 k)"
        using v(3) unfolding same_specs_def by blast
      then show ?thesis unfolding c'(3) using False by (simp only: fun_upd_other not_False_eq_True)
    qed
  next
    fix x assume "x \<in> set (seen @ fst (read_all c'))"
    moreover obtain b tp q where x: "x = (b, tp, q)" by (cases x)
    ultimately show "case x of (b, tp, q) \<Rightarrow> tp = Modified
        \<and> map_option cr_Configuration (holds c0 (key_of q)) = Some (cr_Configuration q)"
      using v(3) c'(4) [of b "(tp, q)"] spec unfolding same_specs_def by auto
  qed
  then show ?thesis using c'(1-3) run
    by (auto simp: attended_request_def attended_valid_def attended_stored_def split: prod.split)
qed

interpretation attended: api_server "attended_env now tick yaml version" "attended_valid L S c0" attended_stored
proof unfold_locales
  fix w :: "'a attended_world"
  obtain c seen clock where w: "w = ((c, seen), clock)" by (metis surj_pair)
  assume v: "attended_valid L S c0 w"
  then have a: "attended L S c" "fake_run L c0 seen c" "same_specs c0 seen c" by (simp_all add: w attended_valid_def)
  then have s: "standard L S c" "tracker_wf (fk_tracker c)" by (simp_all add: attended_def)
  {
    fix k r
    assume "attended_stored w k = Some r"
    then show "key_of r = k" using tracker_wfD(4) [OF s(2)] by (simp add: w attended_stored_def)
  next
    fix ns n
    let ?c = "c\<lparr>fk_actions := fk_actions c @ [GetAction crds ns n]\<rparr>"
    note g = fake_Get_standard [OF s(1), of ns n]
    have sc: "standard L S ?c" "tracker_wf (fk_tracker ?c)" using s by simp_all
    have e: "fst (read_all ?c) = []" using a(1) by (auto simp: read_all_def attended_def)
    have "fake_step L [] c ?c" using g by (rule fake_step.get)
    from fake_run_trans [OF read_all_run fake_run.further [OF a(2) this]]
    have "fake_run L c0 seen (snd (read_all ?c))" by (simp add: e)
    moreover have h: "holds (snd (read_all ?c)) = holds c" using read_all_attended(2) [OF sc] by simp
    moreover have "same_specs c0 seen (snd (read_all ?c))" using a(3) unfolding same_specs_def h .
    ultimately show "\<exists>w'. api_Get (attended_env now tick yaml version) ns n w =
        ((case attended_stored w (ns, n) of None \<Rightarrow> Inl NotFound | Some r \<Rightarrow> Inr r), w')
      \<and> attended_valid L S c0 w' \<and> attended_stored w' = attended_stored w"
      using read_all_attended(1) [OF sc] g e
      by (auto simp: w attended_env_def attended_request_def attended_stored_def attended_valid_def
          split: option.split prod.split)
  next
    fix r :: resource and ls
    let ?r = "r\<lparr>cr_Labels := ls\<rparr>"
    assume "attended_stored w (key_of r) = Some r"
    then have r: "holds c (key_of ?r) = Some r" by (simp add: w attended_stored_def)
    have "\<exists>w'. attended_request (fake_Update (cr_Namespace ?r) ?r) ((c, seen), clock) = (Inr ?r, w')
        \<and> attended_valid L S c0 w' \<and> attended_stored w' = (holds c)(key_of ?r \<mapsto> ?r)"
      by (rule attended_write [OF v [unfolded w] r, where a = "UpdateAction crds [] (cr_Namespace ?r) ?r"
            and d = "OneObject empty_resource" and ns = "cr_Namespace ?r"])
        (simp_all add: fake_Update_def fun_eq_iff fake_step.update)
    then show "\<exists>w'. api_Update (attended_env now tick yaml version) ?r w = (Inr ?r, w')
      \<and> attended_valid L S c0 w' \<and> attended_stored w' = (attended_stored w)(key_of r \<mapsto> ?r)"
      by (simp add: w attended_env_def attended_stored_def)
  next
    fix r :: resource and ds
    let ?r = "r\<lparr>cr_Conditions := ds\<rparr>"
    assume "attended_stored w (key_of r) = Some r"
    then have r: "holds c (key_of ?r) = Some r" by (simp add: w attended_stored_def)
    have "\<exists>w'. attended_request (fake_UpdateStatus (cr_Namespace ?r) ?r) ((c, seen), clock) = (Inr ?r, w')
        \<and> attended_valid L S c0 w' \<and> attended_stored w' = (holds c)(key_of ?r \<mapsto> ?r)"
      by (rule attended_write [OF v [unfolded w] r, where a = "UpdateAction crds ''status'' (cr_Namespace ?r) ?r"
            and d = "OneObject empty_resource" and ns = "cr_Namespace ?r"])
        (simp_all add: fake_UpdateStatus_def fun_eq_iff fake_step.update_status)
    then show "\<exists>w'. api_UpdateStatus (attended_env now tick yaml version) ?r w = (Inr ?r, w')
      \<and> attended_valid L S c0 w' \<and> attended_stored w' = (attended_stored w)(key_of r \<mapsto> ?r)"
      by (simp add: w attended_env_def attended_stored_def)
  next
    fix t w'
    assume "env_Now (attended_env now tick yaml version) w = (t, w')"
    then show "attended_valid L S c0 w' \<and> attended_stored w' = attended_stored w"
      using v by (auto simp: w attended_env_def attended_stored_def attended_valid_def split: prod.splits)
  next
    fix b w'
    assume "env_Tick (attended_env now tick yaml version) w = (b, w')"
    then show "attended_valid L S c0 w' \<and> attended_stored w' = attended_stored w"
      using v by (auto simp: w attended_env_def attended_stored_def attended_valid_def split: prod.splits)
  }
qed

end
