(* ===== verification/Indexer.thy ===== *)
theory Indexer
  imports Cache_Store
begin

text \<open>
  The cache behind an informer: the thread-safe store of the vendored
  \<^verbatim>\<open>client-go/tools/cache/thread_safe_store.go\<close>, with its indices, and the \<^verbatim>\<open>cache\<close> of \<^verbatim>\<open>store.go\<close>
  that computes the keys. Every index is kept in step with the items, so that what an index
  answers is what a search through all items finds. An index function that fails makes a
  write panic; \<open>None\<close> is its error. A set of keys is a Go map to \<open>unit\<close>.
\<close>

declare map_of_eq_Some_iff [simp del]

lemma gm_get_set_fun: "map_of (gm_set k v m) = (map_of m)(k \<mapsto> v)"
  by (rule update_conv')

lemma gm_get_del_fun: "map_of (gm_del k m) = (map_of m)(k := None)"
  by (rule delete_conv')

section \<open>Indices\<close>

type_synonym 'o index_func = "'o \<Rightarrow> string list option"

type_synonym key_set = "(string, unit) gomap"

type_synonym index = "(string, key_set) gomap"

record 'o thread_safe_map =
  tm_items :: "(string, 'o) gomap"
  tm_indexers :: "(string, 'o index_func) gomap"
  tm_indices :: "(string, index) gomap"

definition NewThreadSafeStore :: "(string, 'o index_func) gomap \<Rightarrow> 'o thread_safe_map" where
  "NewThreadSafeStore indexers = \<lparr>tm_items = [], tm_indexers = indexers, tm_indices = []\<rparr>"

definition keys_in :: "string \<Rightarrow> index \<Rightarrow> key_set" where
  "keys_in v index = (case gm_get index v of None \<Rightarrow> [] | Some s \<Rightarrow> s)"

definition index_of :: "string \<Rightarrow> 'o thread_safe_map \<Rightarrow> index" where
  "index_of name t = (case gm_get (tm_indices t) name of None \<Rightarrow> [] | Some index \<Rightarrow> index)"

definition addKeyToIndex :: "string \<Rightarrow> string \<Rightarrow> index \<Rightarrow> index" where
  "addKeyToIndex key indexValue index = gm_set indexValue (gm_set key () (keys_in indexValue index)) index"

definition deleteKeyFromIndex :: "string \<Rightarrow> string \<Rightarrow> index \<Rightarrow> index" where
  "deleteKeyFromIndex key indexValue index =
     (case gm_get index indexValue of
        None \<Rightarrow> index
      | Some s \<Rightarrow>
          (let s = gm_del key s
           in if s = [] then gm_del indexValue index else gm_set indexValue s index))"

text \<open>The values of an object that is there; one that is not has none.\<close>

definition index_values :: "'o index_func \<Rightarrow> 'o option \<Rightarrow> string list go" where
  "index_values f obj =
     (case obj of
        None \<Rightarrow> Inr []
      | Some x \<Rightarrow> (case f x of None \<Rightarrow> Inl ExplicitPanic | Some vs \<Rightarrow> Inr vs))"

text \<open>One index after a key's values changed; one value that stays needs no work.\<close>

definition reindex :: "string \<Rightarrow> string list \<Rightarrow> string list \<Rightarrow> index \<Rightarrow> index" where
  "reindex key oldIndexValues indexValues index =
     (if length indexValues = 1 \<and> length oldIndexValues = 1
         \<and> indexValues ! 0 = oldIndexValues ! 0 then index
      else fold (addKeyToIndex key) indexValues (fold (deleteKeyFromIndex key) oldIndexValues index))"

definition updateSingleIndex ::
    "string \<Rightarrow> 'o option \<Rightarrow> 'o option \<Rightarrow> string \<Rightarrow> 'o thread_safe_map \<Rightarrow> 'o thread_safe_map go" where
  "updateSingleIndex name oldObj newObj key t =
     (case gm_get (tm_indexers t) name of
        None \<Rightarrow> Inl ExplicitPanic
      | Some f \<Rightarrow>
          go_bind (index_values f oldObj) (\<lambda>oldIndexValues.
          go_bind (index_values f newObj) (\<lambda>indexValues.
            Inr (t\<lparr>tm_indices := gm_set name (reindex key oldIndexValues indexValues (index_of name t))
              (tm_indices t)\<rparr>))))"

fun update_each ::
    "string list \<Rightarrow> 'o option \<Rightarrow> 'o option \<Rightarrow> string \<Rightarrow> 'o thread_safe_map \<Rightarrow> 'o thread_safe_map go" where
  "update_each [] oldObj newObj key t = Inr t"
| "update_each (name # names) oldObj newObj key t =
     go_bind (updateSingleIndex name oldObj newObj key t) (update_each names oldObj newObj key)"

text \<open>The order in which a map of indexers, or of items, is visited.\<close>

type_synonym 'o indexer_order = "(string \<times> 'o index_func) list \<Rightarrow> (string \<times> 'o index_func) list"
type_synonym 'o item_order = "(string \<times> 'o) list \<Rightarrow> (string \<times> 'o) list"

definition updateIndices ::
    "'o indexer_order \<Rightarrow> 'o option \<Rightarrow> 'o option \<Rightarrow> string \<Rightarrow> 'o thread_safe_map \<Rightarrow> 'o thread_safe_map go" where
  "updateIndices ord oldObj newObj key t = update_each (map fst (ord (tm_indexers t))) oldObj newObj key t"

section \<open>The store\<close>

definition tm_Update ::
    "'o indexer_order \<Rightarrow> string \<Rightarrow> 'o \<Rightarrow> 'o thread_safe_map \<Rightarrow> 'o thread_safe_map go" where
  "tm_Update ord key obj t =
     updateIndices ord (gm_get (tm_items t) key) (Some obj) key (t\<lparr>tm_items := gm_set key obj (tm_items t)\<rparr>)"

definition tm_Add ::
    "'o indexer_order \<Rightarrow> string \<Rightarrow> 'o \<Rightarrow> 'o thread_safe_map \<Rightarrow> 'o thread_safe_map go" where
  "tm_Add ord key obj t = tm_Update ord key obj t"

definition tm_Delete :: "'o indexer_order \<Rightarrow> string \<Rightarrow> 'o thread_safe_map \<Rightarrow> 'o thread_safe_map go" where
  "tm_Delete ord key t =
     (case gm_get (tm_items t) key of
        None \<Rightarrow> Inr t
      | Some obj \<Rightarrow>
          go_bind (updateIndices ord (Some obj) None key t) (\<lambda>t.
            Inr (t\<lparr>tm_items := gm_del key (tm_items t)\<rparr>)))"

definition tm_Get :: "string \<Rightarrow> 'o thread_safe_map \<Rightarrow> 'o option" where
  "tm_Get key t = gm_get (tm_items t) key"

definition tm_List :: "'o item_order \<Rightarrow> 'o thread_safe_map \<Rightarrow> 'o list" where
  "tm_List ord t = map snd (ord (tm_items t))"

fun index_items :: "'o indexer_order \<Rightarrow> (string \<times> 'o) list \<Rightarrow> 'o thread_safe_map \<Rightarrow> 'o thread_safe_map go" where
  "index_items ord [] t = Inr t"
| "index_items ord ((key, item) # items) t =
     go_bind (updateIndices ord None (Some item) key t) (index_items ord items)"

definition tm_Replace ::
    "'o indexer_order \<Rightarrow> 'o item_order \<Rightarrow> (string, 'o) gomap \<Rightarrow> 'o thread_safe_map \<Rightarrow> 'o thread_safe_map go" where
  "tm_Replace ord iord items t = index_items ord (iord items) (t\<lparr>tm_items := items, tm_indices := []\<rparr>)"

type_synonym key_order = "key_set \<Rightarrow> key_set"

text \<open>\<open>None\<close> is the error of an unknown index or of the index function.\<close>

definition getKeysFromIndex ::
    "key_order \<Rightarrow> string \<Rightarrow> 'o \<Rightarrow> 'o thread_safe_map \<Rightarrow> key_set option" where
  "getKeysFromIndex kord indexName obj t =
     (case gm_get (tm_indexers t) indexName of
        None \<Rightarrow> None
      | Some indexFunc \<Rightarrow>
          (case indexFunc obj of
             None \<Rightarrow> None
           | Some indexedValues \<Rightarrow>
               (let index = index_of indexName t
                in if length indexedValues = 1 then Some (keys_in (indexedValues ! 0) index)
                   else Some (fold (\<lambda>v s. fold (\<lambda>key. gm_set key ()) (map fst (kord (keys_in v index))) s)
                     indexedValues []))))"

text \<open>A key without an item would give \<^verbatim>\<open>nil\<close>, here \<open>None\<close>.\<close>

definition tm_Index ::
    "key_order \<Rightarrow> string \<Rightarrow> 'o \<Rightarrow> 'o thread_safe_map \<Rightarrow> 'o option list option" where
  "tm_Index kord indexName obj t =
     (case getKeysFromIndex kord indexName obj t of
        None \<Rightarrow> None
      | Some storeKeySet \<Rightarrow> Some (map (\<lambda>storeKey. gm_get (tm_items t) storeKey) (map fst (kord storeKeySet))))"

definition tm_ByIndex ::
    "key_order \<Rightarrow> string \<Rightarrow> string \<Rightarrow> 'o thread_safe_map \<Rightarrow> 'o option list option" where
  "tm_ByIndex kord indexName indexedValue t =
     (case gm_get (tm_indexers t) indexName of
        None \<Rightarrow> None
      | Some indexFunc \<Rightarrow>
          Some (map (\<lambda>key. gm_get (tm_items t) key) (map fst (kord (keys_in indexedValue (index_of indexName t))))))"

text \<open>New indexers, \<open>False\<close> when one of them is there already.\<close>

fun index_new :: "string list \<Rightarrow> (string \<times> 'o) list \<Rightarrow> 'o thread_safe_map \<Rightarrow> 'o thread_safe_map go" where
  "index_new names [] t = Inr t"
| "index_new names ((key, item) # items) t =
     go_bind (update_each names None (Some item) key t) (index_new names items)"

definition tm_AddIndexers ::
    "'o indexer_order \<Rightarrow> 'o item_order \<Rightarrow> (string, 'o index_func) gomap \<Rightarrow> 'o thread_safe_map
     \<Rightarrow> (bool \<times> 'o thread_safe_map) go" where
  "tm_AddIndexers ord iord newIndexers t =
     (if \<exists>name \<in> set (map fst newIndexers). gm_get (tm_indexers t) name \<noteq> None then Inr (False, t)
      else
        go_bind (index_new (map fst (ord newIndexers)) (iord (tm_items t))
            (t\<lparr>tm_indexers := fold (\<lambda>(k, v). gm_set k v) (ord newIndexers) (tm_indexers t)\<rparr>))
          (\<lambda>t. Inr (True, t)))"

section \<open>The cache\<close>

text \<open>The key function gives \<open>None\<close> where it fails; \<open>True\<close> is the \<^verbatim>\<open>KeyError\<close> that follows.\<close>

definition NewIndexer :: "(string, 'o index_func) gomap \<Rightarrow> 'o thread_safe_map" where
  "NewIndexer indexers = NewThreadSafeStore indexers"

definition cache_Add ::
    "('o \<Rightarrow> string option) \<Rightarrow> 'o indexer_order \<Rightarrow> 'o \<Rightarrow> 'o thread_safe_map \<Rightarrow> (bool \<times> 'o thread_safe_map) go" where
  "cache_Add keyFunc ord obj t =
     (case keyFunc obj of
        None \<Rightarrow> Inr (True, t)
      | Some key \<Rightarrow> go_bind (tm_Add ord key obj t) (\<lambda>t. Inr (False, t)))"

definition cache_Update ::
    "('o \<Rightarrow> string option) \<Rightarrow> 'o indexer_order \<Rightarrow> 'o \<Rightarrow> 'o thread_safe_map \<Rightarrow> (bool \<times> 'o thread_safe_map) go" where
  "cache_Update keyFunc ord obj t =
     (case keyFunc obj of
        None \<Rightarrow> Inr (True, t)
      | Some key \<Rightarrow> go_bind (tm_Update ord key obj t) (\<lambda>t. Inr (False, t)))"

definition cache_Delete ::
    "('o \<Rightarrow> string option) \<Rightarrow> 'o indexer_order \<Rightarrow> 'o \<Rightarrow> 'o thread_safe_map \<Rightarrow> (bool \<times> 'o thread_safe_map) go" where
  "cache_Delete keyFunc ord obj t =
     (case keyFunc obj of
        None \<Rightarrow> Inr (True, t)
      | Some key \<Rightarrow> go_bind (tm_Delete ord key t) (\<lambda>t. Inr (False, t)))"

definition cache_GetByKey :: "string \<Rightarrow> 'o thread_safe_map \<Rightarrow> 'o option" where
  "cache_GetByKey key t = tm_Get key t"

definition cache_Get ::
    "('o \<Rightarrow> string option) \<Rightarrow> 'o \<Rightarrow> 'o thread_safe_map \<Rightarrow> bool \<times> 'o option" where
  "cache_Get keyFunc obj t =
     (case keyFunc obj of None \<Rightarrow> (True, None) | Some key \<Rightarrow> (False, cache_GetByKey key t))"

fun keyed :: "('o \<Rightarrow> string option) \<Rightarrow> 'o list \<Rightarrow> (string, 'o) gomap \<Rightarrow> (string, 'o) gomap option" where
  "keyed keyFunc [] items = Some items"
| "keyed keyFunc (item # list) items =
     (case keyFunc item of
        None \<Rightarrow> None
      | Some key \<Rightarrow> keyed keyFunc list (gm_set key item items))"

definition cache_Replace ::
    "('o \<Rightarrow> string option) \<Rightarrow> 'o indexer_order \<Rightarrow> 'o item_order \<Rightarrow> 'o list \<Rightarrow> 'o thread_safe_map
     \<Rightarrow> (bool \<times> 'o thread_safe_map) go" where
  "cache_Replace keyFunc ord iord list t =
     (case keyed keyFunc list [] of
        None \<Rightarrow> Inr (True, t)
      | Some items \<Rightarrow> go_bind (tm_Replace ord iord items t) (\<lambda>t. Inr (False, t)))"

section \<open>What an index holds\<close>

lemma keys_in_add: "keys_in w (addKeyToIndex key v index)
    = (if w = v then gm_set key () (keys_in v index) else keys_in w index)"
  by (simp add: addKeyToIndex_def keys_in_def gm_get_set)

lemma keys_in_delete: "keys_in w (deleteKeyFromIndex key v index)
    = (if w = v then gm_del key (keys_in v index) else keys_in w index)"
  by (auto simp: deleteKeyFromIndex_def keys_in_def gm_get_set gm_get_del Let_def split: option.split)

text \<open>Sets of keys are maps, and none of them is kept when it is empty.\<close>

definition clean :: "index \<Rightarrow> bool" where
  "clean index \<longleftrightarrow> (\<forall>v. gm_wf (keys_in v index) \<and> gm_get index v \<noteq> Some [])"

lemma clean_add: "clean index \<Longrightarrow> clean (addKeyToIndex key v index)"
  by (auto simp: clean_def keys_in_add gm_wf_set) (auto simp: addKeyToIndex_def gm_get_set dest: arg_cong [where f = "\<lambda>m. gm_get m key"] simp: gm_get_set split: if_splits)

lemma clean_delete: "clean index \<Longrightarrow> clean (deleteKeyFromIndex key v index)"
  by (auto simp: clean_def keys_in_delete gm_wf_del)
    (auto simp: deleteKeyFromIndex_def gm_get_set gm_get_del Let_def split: option.splits if_splits)

abbreviation keys_at :: "string \<Rightarrow> index \<Rightarrow> string set" where
  "keys_at v index \<equiv> dom (map_of (keys_in v index))"

lemma fold_add:
  "clean index \<Longrightarrow> clean (fold (addKeyToIndex key) vs index)"
  "keys_at w (fold (addKeyToIndex key) vs index) = keys_at w index \<union> (if w \<in> set vs then {key} else {})"
proof (induction vs arbitrary: index)
  case (Cons v vs)
  { case 1 then show ?case by (simp add: Cons.IH(1) clean_add) }
  { case 2 show ?case by (auto simp: Cons.IH(2) keys_in_add gm_get_set split: if_splits) }
qed simp_all

lemma fold_delete:
  "clean index \<Longrightarrow> clean (fold (deleteKeyFromIndex key) vs index)"
  "keys_at w (fold (deleteKeyFromIndex key) vs index) = keys_at w index - (if w \<in> set vs then {key} else {})"
proof (induction vs arbitrary: index)
  case (Cons v vs)
  { case 1 then show ?case by (simp add: Cons.IH(1) clean_delete) }
  { case 2 show ?case by (auto simp: Cons.IH(2) keys_in_delete gm_get_del split: if_splits) }
qed simp_all

text \<open>The shortcut is right because the key was indexed under its old values.\<close>

lemma reindex_keys:
  assumes "clean index" and "\<And>v. key \<in> keys_at v index \<longleftrightarrow> v \<in> set old"
  shows "clean (reindex key old new index)"
    and "k \<in> keys_at v (reindex key old new index) \<longleftrightarrow> (if k = key then v \<in> set new else k \<in> keys_at v index)"
proof -
  show "clean (reindex key old new index)" by (simp add: reindex_def assms(1) fold_add(1) fold_delete(1))
  show "k \<in> keys_at v (reindex key old new index) \<longleftrightarrow> (if k = key then v \<in> set new else k \<in> keys_at v index)"
  proof (cases "length new = 1 \<and> length old = 1 \<and> new ! 0 = old ! 0")
    case True
    then have "new = old" by (auto simp: length_Suc_conv)
    with True assms(2) show ?thesis by (simp add: reindex_def)
  next
    case False
    then show ?thesis unfolding reindex_def if_not_P [OF False] fold_add(2) fold_delete(2)
      using assms(2) [of v] by auto
  qed
qed

text \<open>What an index should hold of a map of items.\<close>

definition index_ok :: "'o index_func \<Rightarrow> (string \<Rightarrow> 'o option) \<Rightarrow> index \<Rightarrow> bool" where
  "index_ok f M index \<longleftrightarrow> clean index
     \<and> (\<forall>v k. k \<in> keys_at v index \<longleftrightarrow> (\<exists>x vs. M k = Some x \<and> f x = Some vs \<and> v \<in> set vs))
     \<and> (\<forall>k x. M k = Some x \<longrightarrow> f x \<noteq> None)"

lemma index_ok_empty: "index_ok f (\<lambda>k. None) []"
  by (simp add: index_ok_def clean_def keys_in_def)

lemma reindex_ok:
  assumes "index_ok f M index" and "index_values f (M key) = Inr old" and "index_values f x = Inr new"
  shows "index_ok f (M(key := x)) (reindex key old new index)"
proof -
  have c: "clean index" and k: "\<And>v k. k \<in> keys_at v index \<longleftrightarrow> (\<exists>x vs. M k = Some x \<and> f x = Some vs \<and> v \<in> set vs)"
    using assms(1) by (simp_all add: index_ok_def)
  have o: "key \<in> keys_at v index \<longleftrightarrow> v \<in> set old" for v
    using assms(2) unfolding k by (auto simp: index_values_def split: option.splits)
  note r = reindex_keys [OF c o]
  have "clean (reindex key old new index)" by (rule r(1))
  moreover have "j \<in> keys_at v (reindex key old new index)
      \<longleftrightarrow> (\<exists>y vs. (M(key := x)) j = Some y \<and> f y = Some vs \<and> v \<in> set vs)" for v j
    using assms(3) unfolding r(2) k by (auto simp: index_values_def split: option.splits)
  moreover have "f y \<noteq> None" if "(M(key := x)) j = Some y" for j y
    using that assms(1,3) by (auto simp: index_ok_def index_values_def split: if_splits option.splits)
  ultimately show ?thesis unfolding index_ok_def by blast
qed

section \<open>What the store holds\<close>

lemma index_of_set [simp]:
  "index_of name (t\<lparr>tm_indices := gm_set n index (tm_indices t)\<rparr>) = (if name = n then index else index_of name t)"
  "index_of name (t\<lparr>tm_items := items\<rparr>) = index_of name t"
  "index_of name (t\<lparr>tm_indexers := indexers\<rparr>) = index_of name t"
  by (simp_all add: index_of_def gm_get_set)

lemma updateSingleIndex_Inr:
  assumes "updateSingleIndex name old new key t = Inr t'"
  obtains f ovs nvs where "gm_get (tm_indexers t) name = Some f" "index_values f old = Inr ovs"
    "index_values f new = Inr nvs"
    "t' = t\<lparr>tm_indices := gm_set name (reindex key ovs nvs (index_of name t)) (tm_indices t)\<rparr>"
  using assms by (auto simp: updateSingleIndex_def go_bind_eq_Inr split: option.splits)

lemma update_each_Cons:
  assumes "update_each (n # ns) old new key t = Inr t'"
  obtains t1 f ovs nvs where "update_each ns old new key t1 = Inr t'" "gm_get (tm_indexers t) n = Some f"
    "index_values f old = Inr ovs" "index_values f new = Inr nvs"
    "t1 = t\<lparr>tm_indices := gm_set n (reindex key ovs nvs (index_of n t)) (tm_indices t)\<rparr>"
proof -
  obtain t1 where t1: "updateSingleIndex n old new key t = Inr t1" "update_each ns old new key t1 = Inr t'"
    using assms by (auto simp: go_bind_eq_Inr)
  from t1(1) show thesis by (rule updateSingleIndex_Inr) (use t1(2) that in blast)
qed

lemma update_each_parts:
  assumes "update_each names old new key t = Inr t'" and "distinct names"
  shows "tm_items t' = tm_items t" "tm_indexers t' = tm_indexers t"
    "name \<notin> set names \<Longrightarrow> index_of name t' = index_of name t"
    "name \<in> set names \<Longrightarrow> gm_get (tm_indexers t) name = Some f \<Longrightarrow> index_ok f M (index_of name t)
      \<Longrightarrow> M key = old \<Longrightarrow> index_ok f (M(key := new)) (index_of name t')"
  using assms
proof (induction names arbitrary: t)
  case (Cons n ns)
  { case 1 from 1(1) show ?case by (rule update_each_Cons) (use Cons.IH(1) 1(2) in auto) }
  { case 2 from 2(1) show ?case by (rule update_each_Cons) (use Cons.IH(2) 2(2) in auto) }
  { case 3 from 3(2) show ?case by (rule update_each_Cons) (use Cons.IH(3) 3(1,3) in auto) }
  { case 4
    from 4(5) obtain t1 g ovs nvs where t1: "update_each ns old new key t1 = Inr t'"
      "gm_get (tm_indexers t) n = Some g" "index_values g old = Inr ovs" "index_values g new = Inr nvs"
      "t1 = t\<lparr>tm_indices := gm_set n (reindex key ovs nvs (index_of n t)) (tm_indices t)\<rparr>"
      by (rule update_each_Cons)
    show ?case
    proof (cases "name = n")
      case True
      then have "index_of name t' = index_of name t1" using Cons.IH(3) [OF _ t1(1)] 4(6) by auto
      also have "\<dots> = reindex key ovs nvs (index_of n t)" by (simp add: t1(5) True)
      finally have e: "index_of name t' = reindex key ovs nvs (index_of n t)" .
      show ?thesis unfolding e by (rule reindex_ok) (use 4(2-4) t1(2-4) True in auto)
    next
      case False
      then show ?thesis using Cons.IH(4) [OF _ _ _ 4(4) t1(1)] 4 by (auto simp: t1(5))
    qed
  }
qed simp_all

text \<open>The invariant: every index there is an index function for is in step with the items.\<close>

definition indices_ok :: "'o thread_safe_map \<Rightarrow> (string \<Rightarrow> 'o option) \<Rightarrow> bool" where
  "indices_ok t M \<longleftrightarrow>
     (\<forall>name. gm_get (tm_indexers t) name = None \<longrightarrow> index_of name t = [])
     \<and> (\<forall>name f. gm_get (tm_indexers t) name = Some f \<longrightarrow> index_ok f M (index_of name t))"

definition tm_inv :: "'o thread_safe_map \<Rightarrow> bool" where
  "tm_inv t \<longleftrightarrow> gm_wf (tm_items t) \<and> gm_wf (tm_indexers t) \<and> indices_ok t (map_of (tm_items t))"

lemma updateIndices_ok:
  assumes "updateIndices ord old new key t = Inr t'" and "is_order ord" and "gm_wf (tm_indexers t)"
    and "indices_ok t M" and "M key = old"
  shows "tm_items t' = tm_items t \<and> tm_indexers t' = tm_indexers t \<and> indices_ok t' (M(key := new))"
proof -
  let ?names = "map fst (ord (tm_indexers t))"
  have d: "distinct ?names"
    using assms(3) is_order_mset [OF assms(2)] by (metis mset_eq_imp_distinct_iff mset_map)
  have n: "set ?names = dom (map_of (tm_indexers t))"
    by (simp add: is_order_set [OF assms(2)] dom_map_of_conv_image_fst)
  note u = update_each_parts [OF assms(1) [unfolded updateIndices_def] d]
  have "index_of name t' = []" if none: "gm_get (tm_indexers t) name = None" for name
  proof -
    have "name \<notin> set ?names" unfolding n using none by blast
    from u(3) [OF this] show ?thesis using none assms(4) by (simp add: indices_ok_def)
  qed
  moreover have "index_ok f (M(key := new)) (index_of name t')" if "gm_get (tm_indexers t) name = Some f" for name f
  proof -
    have "name \<in> set ?names" unfolding n using that by blast
    from u(4) [where M = M, OF this that _ assms(5)] show ?thesis using that assms(4) by (simp add: indices_ok_def)
  qed
  ultimately show ?thesis using u(1,2) unfolding indices_ok_def by simp
qed

lemma NewThreadSafeStore_inv: "gm_wf indexers \<Longrightarrow> tm_inv (NewThreadSafeStore indexers)"
  by (simp add: tm_inv_def indices_ok_def NewThreadSafeStore_def index_of_def index_ok_empty map_of.simps [abs_def])

lemma tm_Update_inv:
  assumes "tm_Update ord key obj t = Inr t'" and "is_order ord" and "tm_inv t"
  shows "tm_inv t' \<and> map_of (tm_items t') = (map_of (tm_items t))(key \<mapsto> obj) \<and> tm_indexers t' = tm_indexers t"
proof -
  let ?t = "t\<lparr>tm_items := gm_set key obj (tm_items t)\<rparr>"
  have "gm_wf (tm_indexers ?t)" "indices_ok ?t (map_of (tm_items t))"
    using assms(3) by (simp_all add: tm_inv_def indices_ok_def)
  from updateIndices_ok [OF assms(1) [unfolded tm_Update_def] assms(2) this refl]
  show ?thesis using assms(3) by (simp add: tm_inv_def gm_wf_set gm_get_set_fun)
qed

lemma tm_Delete_inv:
  assumes "tm_Delete ord key t = Inr t'" and "is_order ord" and "tm_inv t"
  shows "tm_inv t' \<and> map_of (tm_items t') = (map_of (tm_items t))(key := None) \<and> tm_indexers t' = tm_indexers t"
proof (cases "gm_get (tm_items t) key")
  case None
  then have "t' = t" using assms(1) by (simp add: tm_Delete_def)
  then show ?thesis using None assms(3) by (simp add: fun_upd_idem)
next
  case (Some obj)
  with assms(1) obtain t1 where t1: "updateIndices ord (Some obj) None key t = Inr t1"
    "t' = t1\<lparr>tm_items := gm_del key (tm_items t1)\<rparr>"
    by (auto simp: tm_Delete_def go_bind_eq_Inr)
  have "gm_wf (tm_indexers t)" "indices_ok t (map_of (tm_items t))"
    using assms(3) by (simp_all add: tm_inv_def)
  from updateIndices_ok [OF t1(1) assms(2) this Some]
  show ?thesis using assms(3) by (simp add: t1(2) tm_inv_def indices_ok_def gm_wf_del gm_get_del_fun)
qed

lemma is_order_gm_wf: "is_order ord \<Longrightarrow> gm_wf (ord m) = gm_wf m"
  by (metis is_order_mset mset_eq_imp_distinct_iff mset_map)

lemma is_order_map_of: "is_order ord \<Longrightarrow> gm_wf m \<Longrightarrow> map_of (ord m) = map_of m"
  by (simp add: map_of_inject_set is_order_gm_wf is_order_set)

lemma map_add_Cons: "gm_wf ((k, x) # m) \<Longrightarrow> M(k \<mapsto> x) ++ map_of m = M ++ map_of ((k, x) # m)"
  by (simp add: map_of_eq_None_iff [symmetric] map_add_upd_left [symmetric] fun_eq_iff map_add_def split: option.split)

lemma index_items_ok:
  assumes "index_items ord items t = Inr t'" and "is_order ord" and "gm_wf (tm_indexers t)"
    and "indices_ok t M" and "gm_wf items" and "\<forall>k \<in> fst ` set items. M k = None"
  shows "tm_items t' = tm_items t \<and> tm_indexers t' = tm_indexers t \<and> indices_ok t' (M ++ map_of items)"
  using assms
proof (induction items arbitrary: t M)
  case (Cons e items)
  obtain k x where e: "e = (k, x)" by fastforce
  from Cons.prems(1) obtain t1 where t1: "updateIndices ord None (Some x) k t = Inr t1"
    "index_items ord items t1 = Inr t'"
    by (auto simp: e go_bind_eq_Inr)
  have "M k = None" using Cons.prems(6) by (simp add: e)
  from updateIndices_ok [OF t1(1) Cons.prems(2-4) this]
  have u: "tm_items t1 = tm_items t" "tm_indexers t1 = tm_indexers t" "indices_ok t1 (M(k \<mapsto> x))" by simp_all
  have "\<forall>j \<in> fst ` set items. (M(k \<mapsto> x)) j = None" using Cons.prems(5,6) by (auto simp: e)
  moreover have "gm_wf (tm_indexers t1)" "gm_wf items" using Cons.prems(3,5) by (simp_all add: u(2))
  ultimately
  have "tm_items t' = tm_items t1 \<and> tm_indexers t' = tm_indexers t1 \<and> indices_ok t' (M(k \<mapsto> x) ++ map_of items)"
    using Cons.IH [where M = "M(k \<mapsto> x)", OF t1(2) Cons.prems(2) _ u(3)] by blast
  then show ?case using Cons.prems(5) unfolding e by (simp only: u(1,2) map_add_Cons)
qed simp

lemma tm_Replace_inv:
  assumes "tm_Replace ord iord items t = Inr t'" and "is_order ord" and "is_order iord"
    and "tm_inv t" and "gm_wf items"
  shows "tm_inv t' \<and> tm_items t' = items \<and> tm_indexers t' = tm_indexers t"
proof -
  let ?t = "t\<lparr>tm_items := items, tm_indices := []\<rparr>"
  have "gm_wf (tm_indexers ?t)" "indices_ok ?t (\<lambda>k. None)" "gm_wf (iord items)"
    using assms(4,5) is_order_gm_wf [OF assms(3)]
    by (simp_all add: tm_inv_def indices_ok_def index_of_def index_ok_empty)
  from index_items_ok [OF assms(1) [unfolded tm_Replace_def] assms(2) this]
  have "tm_items t' = items" "tm_indexers t' = tm_indexers t" "indices_ok t' (map_of items)"
    by (simp_all add: is_order_map_of [OF assms(3,5)])
  then show ?thesis using assms(4,5) by (simp add: tm_inv_def)
qed

lemma index_new_parts:
  assumes "index_new names items t = Inr t'" and "distinct names"
  shows "tm_items t' = tm_items t" "tm_indexers t' = tm_indexers t"
    "name \<notin> set names \<Longrightarrow> index_of name t' = index_of name t"
    "name \<in> set names \<Longrightarrow> gm_get (tm_indexers t) name = Some f \<Longrightarrow> index_ok f M (index_of name t)
      \<Longrightarrow> gm_wf items \<Longrightarrow> \<forall>k \<in> fst ` set items. M k = None \<Longrightarrow> index_ok f (M ++ map_of items) (index_of name t')"
  using assms
proof (induction items arbitrary: t M)
  case (Cons e items)
  obtain k x where e: "e = (k, x)" by fastforce
  { case 1 then show ?case using Cons.IH(1) update_each_parts(1) by (auto simp: e go_bind_eq_Inr) }
  { case 2 then show ?case using Cons.IH(2) update_each_parts(2) by (auto simp: e go_bind_eq_Inr) }
  { case 3 then show ?case using Cons.IH(3) update_each_parts(3) by (auto simp: e go_bind_eq_Inr) }
  { case 4
    then obtain t1 where t1: "update_each names None (Some x) k t = Inr t1" "index_new names items t1 = Inr t'"
      by (auto simp: e go_bind_eq_Inr)
    have n: "M k = None" and m: "\<forall>j \<in> fst ` set items. (M(k \<mapsto> x)) j = None" using 4(4,5) by (auto simp: e)
    have i: "index_ok f (M(k \<mapsto> x)) (index_of name t1)"
      using update_each_parts(4) [where M = M, OF t1(1) 4(7,1,2,3) n] .
    have f: "gm_get (tm_indexers t1) name = Some f" using update_each_parts(2) [OF t1(1) 4(7)] 4(2) by simp
    have "gm_wf items" using 4(4) by simp
    from Cons.IH(4) [where M = "M(k \<mapsto> x)", OF 4(1) f i this m t1(2) 4(7)]
    show ?case using 4(4) unfolding e by (simp only: map_add_Cons)
  }
qed simp_all

lemma fold_gm_set_map:
  assumes "distinct (map fst kvs)"
  shows "map_of (fold (\<lambda>(k, v). gm_set k v) kvs m) = map_of m ++ map_of kvs"
  using assms
proof (induction kvs arbitrary: m)
  case (Cons e kvs)
  obtain k v where e: "e = (k, v)" by fastforce
  have "map_of (fold (\<lambda>(k, v). gm_set k v) (e # kvs) m) = (map_of m)(k \<mapsto> v) ++ map_of kvs"
    using Cons by (simp add: e gm_get_set_fun)
  then show ?case using Cons.prems unfolding e by (simp only: map_add_Cons)
qed simp

lemma gm_wf_fold_set: "gm_wf m \<Longrightarrow> gm_wf (fold (\<lambda>(k, v). gm_set k v) kvs m)"
  by (induction kvs arbitrary: m) (auto simp: gm_wf_set)

text \<open>New indexers index what is there, the indices that were there stay.\<close>

lemma tm_AddIndexers_inv:
  assumes "tm_AddIndexers ord iord new t = Inr (ok, t')" and "is_order ord" and "is_order iord"
    and "tm_inv t" and "gm_wf new"
  shows "tm_inv t' \<and> tm_items t' = tm_items t
    \<and> map_of (tm_indexers t') = map_of (tm_indexers t) ++ (if ok then map_of new else Map.empty)"
proof (cases "\<exists>name \<in> set (map fst new). gm_get (tm_indexers t) name \<noteq> None")
  case True
  then have "t' = t" "\<not> ok" using assms(1) by (auto simp: tm_AddIndexers_def)
  then show ?thesis using assms(4) by simp
next
  case False
  let ?ix = "fold (\<lambda>(k, v). gm_set k v) (ord new) (tm_indexers t)"
  let ?names = "map fst (ord new)"
  let ?t = "t\<lparr>tm_indexers := ?ix\<rparr>"
  from False assms(1) have r: "index_new ?names (iord (tm_items t)) ?t = Inr t'" and ok
    by (auto simp: tm_AddIndexers_def go_bind_eq_Inr)
  have d: "distinct ?names" using is_order_gm_wf [OF assms(2)] assms(5) by blast
  note p = index_new_parts [OF r d]
  have items: "gm_wf (iord (tm_items t))" "map_of (iord (tm_items t)) = map_of (tm_items t)"
    using assms(3,4) by (simp_all add: is_order_gm_wf is_order_map_of tm_inv_def)
  have ix: "map_of ?ix = map_of (tm_indexers t) ++ map_of new"
    using fold_gm_set_map [OF d] is_order_map_of [OF assms(2,5)] by simp
  have n: "set ?names = dom (map_of new)"
    by (simp add: is_order_set [OF assms(2)] dom_map_of_conv_image_fst)
  have old: "gm_get (tm_indexers t) name = None" if "name \<in> set ?names" for name
    using that False unfolding n by (auto simp: dom_map_of_conv_image_fst)
  have "index_of name t' = []" if "gm_get ?ix name = None" for name
  proof -
    have "name \<notin> set ?names" "gm_get (tm_indexers t) name = None" using that unfolding ix n by auto
    with p(3) assms(4) show ?thesis by (simp add: tm_inv_def indices_ok_def)
  qed
  moreover have "index_ok f (map_of (tm_items t)) (index_of name t')" if f: "gm_get ?ix name = Some f" for name f
  proof (cases "name \<in> set ?names")
    case True
    with old assms(4) have "index_of name ?t = []" by (simp add: tm_inv_def indices_ok_def)
    then have "index_ok f Map.empty (index_of name ?t)" by (simp add: index_ok_empty)
    with p(4) [where M = Map.empty, OF True _ _ items(1)] f show ?thesis by (simp add: items(2))
  next
    case False
    then have "gm_get (tm_indexers t) name = Some f" using f unfolding ix n by (auto simp: map_add_dom_app_simps)
    with p(3) [OF False] assms(4) show ?thesis by (simp add: tm_inv_def indices_ok_def)
  qed
  moreover have "gm_wf ?ix" using assms(4) by (simp add: tm_inv_def gm_wf_fold_set)
  ultimately have "tm_inv t'" using assms(4) p(1,2) by (simp add: tm_inv_def indices_ok_def)
  then show ?thesis using p(1,2) ix \<open>ok\<close> by simp
qed

text \<open>Calls of the store, in any order; a call that panics makes no step.\<close>

inductive tm_step :: "'o thread_safe_map \<Rightarrow> 'o thread_safe_map \<Rightarrow> bool" where
  add: "is_order ord \<Longrightarrow> tm_Add ord key obj t = Inr t' \<Longrightarrow> tm_step t t'"
| update: "is_order ord \<Longrightarrow> tm_Update ord key obj t = Inr t' \<Longrightarrow> tm_step t t'"
| delete: "is_order ord \<Longrightarrow> tm_Delete ord key t = Inr t' \<Longrightarrow> tm_step t t'"
| replace: "is_order ord \<Longrightarrow> is_order iord \<Longrightarrow> gm_wf items \<Longrightarrow> tm_Replace ord iord items t = Inr t'
    \<Longrightarrow> tm_step t t'"
| add_indexers: "is_order ord \<Longrightarrow> is_order iord \<Longrightarrow> gm_wf new
    \<Longrightarrow> tm_AddIndexers ord iord new t = Inr (ok, t') \<Longrightarrow> tm_step t t'"

lemma tm_step_inv:
  assumes "tm_step t t'" and "tm_inv t"
  shows "tm_inv t' \<and> map_of (tm_indexers t) \<subseteq>\<^sub>m map_of (tm_indexers t')"
  using assms
proof cases
  case (add_indexers ord iord new ok)
  have "gm_get new name = None" if ok "gm_get (tm_indexers t) name \<noteq> None" for name
  proof -
    have "\<forall>name \<in> set (map fst new). gm_get (tm_indexers t) name = None"
      using that(1) add_indexers(4) by (auto simp: tm_AddIndexers_def split: if_splits)
    then have "name \<notin> fst ` set new" using that(2) by auto
    then show ?thesis by (rule map_of_eq_None_iff [THEN iffD2])
  qed
  then have "map_of (tm_indexers t) \<subseteq>\<^sub>m map_of (tm_indexers t) ++ (if ok then map_of new else Map.empty)"
    by (auto simp: map_le_def map_add_def split: option.split)
  with tm_AddIndexers_inv [OF add_indexers(4,1,2) assms(2) add_indexers(3)] show ?thesis by simp
qed (auto simp: tm_Add_def map_le_refl dest: tm_Update_inv tm_Delete_inv tm_Replace_inv)

lemma tm_steps_inv:
  "tm_step\<^sup>*\<^sup>* t t' \<Longrightarrow> tm_inv t \<Longrightarrow> tm_inv t' \<and> map_of (tm_indexers t) \<subseteq>\<^sub>m map_of (tm_indexers t')"
proof (induction rule: rtranclp_induct)
  case (step t1 t2)
  with tm_step_inv [OF step(2)] map_le_trans show ?case by blast
qed simp

section \<open>Index functions that never fail\<close>

definition total_indexers :: "'o thread_safe_map \<Rightarrow> bool" where
  "total_indexers t \<longleftrightarrow> (\<forall>(name, f) \<in> set (tm_indexers t). \<forall>x. f x \<noteq> None)"

lemma update_each_total:
  assumes "total_indexers t" and "set names \<subseteq> dom (map_of (tm_indexers t))"
  shows "\<exists>t'. update_each names old new key t = Inr t'"
  using assms
proof (induction names arbitrary: t)
  case (Cons n names)
  from Cons.prems(2) obtain f where f: "gm_get (tm_indexers t) n = Some f" by auto
  then have "(n, f) \<in> set (tm_indexers t)" by (rule map_of_SomeD)
  then have "f x \<noteq> None" for x using Cons.prems(1) unfolding total_indexers_def by blast
  then have v: "\<exists>vs. index_values f x = Inr vs" for x
    unfolding index_values_def by (metis option.case_eq_if)
  from v [of old] v [of new] obtain ovs nvs where "index_values f old = Inr ovs" "index_values f new = Inr nvs"
    by blast
  with f Cons show ?case by (simp add: updateSingleIndex_def total_indexers_def)
qed simp

lemma updateIndices_total:
  assumes "total_indexers t" and "is_order ord"
  shows "\<exists>t'. updateIndices ord old new key t = Inr t'"
  unfolding updateIndices_def
  using assms(1) by (rule update_each_total) (simp add: is_order_set [OF assms(2)] dom_map_of_conv_image_fst)

lemma tm_Update_total: "total_indexers t \<Longrightarrow> is_order ord \<Longrightarrow> \<exists>t'. tm_Update ord key obj t = Inr t'"
  unfolding tm_Update_def by (rule updateIndices_total) (simp_all add: total_indexers_def)

lemma tm_Delete_total:
  assumes "total_indexers t" and "is_order ord"
  shows "\<exists>t'. tm_Delete ord key t = Inr t'"
proof (cases "gm_get (tm_items t) key")
  case (Some obj)
  with updateIndices_total [OF assms, of "Some obj" None key] show ?thesis by (auto simp: tm_Delete_def)
qed (simp add: tm_Delete_def)

section \<open>Lookups\<close>

definition shares :: "string list \<Rightarrow> 'o index_func \<Rightarrow> 'o \<Rightarrow> bool" where
  "shares vs f x \<longleftrightarrow> (case f x of None \<Rightarrow> False | Some ws \<Rightarrow> \<exists>v \<in> set vs. v \<in> set ws)"

lemma fold_keys:
  "gm_wf s \<Longrightarrow> gm_wf (fold (\<lambda>key. gm_set key ()) ks s)"
  "dom (map_of (fold (\<lambda>key. gm_set key ()) ks s)) = set ks \<union> dom (map_of s)"
  by (induction ks arbitrary: s) (simp_all add: gm_wf_set gm_get_set_fun)

lemma fold_key_sets:
  assumes "is_order kord" and "gm_wf s"
  shows "gm_wf (fold (\<lambda>v s. fold (\<lambda>key. gm_set key ()) (map fst (kord (keys_in v index))) s) vs s)"
    "dom (map_of (fold (\<lambda>v s. fold (\<lambda>key. gm_set key ()) (map fst (kord (keys_in v index))) s) vs s))
      = dom (map_of s) \<union> (\<Union>v \<in> set vs. keys_at v index)"
  using assms(2)
proof (induction vs arbitrary: s)
  case (Cons v vs)
  { case 1 show ?case unfolding fold_simps by (rule Cons.IH(1)) (rule fold_keys(1) [OF 1]) }
  { case 2
    have "set (map fst (kord (keys_in v index))) = keys_at v index"
      by (simp add: is_order_set [OF assms(1)] dom_map_of_conv_image_fst)
    then show ?case
      unfolding fold_simps Cons.IH(2) [OF fold_keys(1) [OF 2]] fold_keys(2) by auto }
qed simp_all

lemma map_Some_the: "\<forall>x \<in> set xs. x \<noteq> None \<Longrightarrow> map Some (map the xs) = xs"
  by (induction xs) auto

lemma items_by_key:
  assumes "gm_wf m"
  shows "map (\<lambda>k. gm_get m k) (map fst (filter (\<lambda>(k, x). P x) m)) = map Some (filter P (map snd m))"
proof -
  have "map (\<lambda>k. gm_get m k) (map fst (filter (\<lambda>(k, x). P x) m)) = map (\<lambda>e. Some (snd e)) (filter (\<lambda>(k, x). P x) m)"
    using assms by (auto simp: gm_get_mem)
  also have "\<dots> = map Some (filter P (map snd m))" by (simp add: filter_map comp_def case_prod_unfold)
  finally show ?thesis .
qed

lemma getKeysFromIndex_keys:
  assumes "tm_inv t" and "is_order kord" and "gm_get (tm_indexers t) name = Some f" and "f obj = Some vs"
  obtains s where "getKeysFromIndex kord name obj t = Some s" "gm_wf s"
    "dom (map_of s) = fst ` set (filter (\<lambda>(k, x). shares vs f x) (tm_items t))"
proof -
  let ?i = "index_of name t"
  have i: "index_ok f (map_of (tm_items t)) ?i" and w: "gm_wf (tm_items t)"
    using assms(1,3) by (simp_all add: tm_inv_def indices_ok_def)
  have "(\<Union>v \<in> set vs. keys_at v ?i) = fst ` set (filter (\<lambda>(k, x). shares vs f x) (tm_items t))"
    using i w unfolding index_ok_def by (fastforce simp: shares_def gm_get_mem image_iff split: option.splits)
  moreover obtain s where "getKeysFromIndex kord name obj t = Some s" "gm_wf s"
    "dom (map_of s) = (\<Union>v \<in> set vs. keys_at v ?i)"
  proof (cases "length vs = 1")
    case True
    then obtain v where "vs = [v]" by (auto simp: length_Suc_conv)
    with assms(3,4) i show thesis
      by (intro that [of "keys_in v ?i"])
        (auto simp: getKeysFromIndex_def index_ok_def clean_def)
  next
    case False
    with assms(3,4) fold_key_sets [OF assms(2), of "[]" ?i vs] show thesis
      by (intro that) (simp_all add: getKeysFromIndex_def)
  qed
  ultimately show thesis using that by simp
qed

text \<open>An index answers what a search through all items finds.\<close>

lemma tm_Index_search:
  assumes "tm_inv t" and "is_order kord" and "gm_get (tm_indexers t) name = Some f" and "f obj = Some vs"
  shows "\<exists>xs. tm_Index kord name obj t = Some (map Some xs)
    \<and> mset xs = mset (filter (shares vs f) (map snd (tm_items t)))"
proof -
  obtain s where s: "getKeysFromIndex kord name obj t = Some s" "gm_wf s"
    "dom (map_of s) = fst ` set (filter (\<lambda>(k, x). shares vs f x) (tm_items t))"
    using assms by (rule getKeysFromIndex_keys)
  have w: "gm_wf (tm_items t)" using assms(1) by (simp add: tm_inv_def)
  let ?get = "\<lambda>k. gm_get (tm_items t) k"
  let ?ks = "map fst (filter (\<lambda>(k, x). shares vs f x) (tm_items t))"
  let ?ys = "filter (shares vs f) (map snd (tm_items t))"
  have "distinct ?ks" using w by (rule distinct_map_filter)
  moreover have "distinct (map fst (kord s))" using s(2) is_order_gm_wf [OF assms(2)] by blast
  moreover have "set (map fst (kord s)) = set ?ks"
    using s(3) by (simp only: set_map is_order_set [OF assms(2)] dom_map_of_conv_image_fst)
  ultimately have "mset (map fst (kord s)) = mset ?ks"
    using set_eq_iff_mset_eq_distinct by blast
  then have "mset (map ?get (map fst (kord s))) = mset (map ?get ?ks)"
    by (simp only: mset_map)
  then have m: "mset (map ?get (map fst (kord s))) = mset (map Some ?ys)"
    unfolding items_by_key [OF w] .
  then have "set (map ?get (map fst (kord s))) = Some ` set ?ys"
    by (metis list.set_map set_mset_mset)
  then have "\<forall>x \<in> set (map ?get (map fst (kord s))). x \<noteq> None" by auto
  then have "map Some (map the (map ?get (map fst (kord s)))) = map ?get (map fst (kord s))"
    by (rule map_Some_the)
  then obtain xs where xs: "map ?get (map fst (kord s)) = map Some xs" by metis
  with m have "image_mset Some (mset xs) = image_mset Some (mset ?ys)" by (simp only: mset_map)
  then have "image_mset the (image_mset Some (mset xs)) = image_mset the (image_mset Some (mset ?ys))" by (rule arg_cong)
  then have "mset xs = mset ?ys" by (simp only: image_mset.compositionality comp_def option.sel multiset.map_ident)
  with s(1) xs show ?thesis by (simp add: tm_Index_def)
qed

end
