(* ===== verification/Listers.thy ===== *)
theory Listers
  imports Indexer Controller Informers Api_Server
begin

text \<open>
  The generated lister, \<^verbatim>\<open>pkg/generated/listers\<close>, and the generic informer's, on the vendored
  \<^verbatim>\<open>client-go/listers\<close> and \<^verbatim>\<open>client-go/tools/cache/listers.go\<close>: what they read from the cache of the
  controller's informer. The cache keeps resources under their keys and an index by namespace.
\<close>

section \<open>Selectors and lists\<close>

record selector =
  sel_Empty :: bool
  sel_Matches :: "(string, string) gomap option \<Rightarrow> bool"

text \<open>The contract of a selector: an empty one does not restrict anything.\<close>

definition selector_ok :: "selector \<Rightarrow> bool" where
  "selector_ok selector \<longleftrightarrow> (sel_Empty selector \<longrightarrow> (\<forall>labels. sel_Matches selector labels))"

text \<open>
  The loop over the items with the lister's \<^verbatim>\<open>appendFn\<close>, which asserts the type: it panics on
  \<^verbatim>\<open>nil\<close>, whose metadata is an error. \<open>True\<close> is that error, next to what was appended before.
\<close>

fun append_matching :: "selector \<Rightarrow> resource option list \<Rightarrow> (resource list \<times> bool) go" where
  "append_matching selector [] = Inr ([], False)"
| "append_matching selector (None # items) =
     (if sel_Empty selector then Inl InterfaceConversion else Inr ([], True))"
| "append_matching selector (Some m # items) =
     (if sel_Empty selector \<or> sel_Matches selector (cr_Labels m)
      then go_bind (append_matching selector items) (\<lambda>(ret, err). Inr (m # ret, err))
      else append_matching selector items)"

definition ListAll ::
    "resource item_order \<Rightarrow> resource thread_safe_map \<Rightarrow> selector \<Rightarrow> (resource list \<times> bool) go" where
  "ListAll iord store selector = append_matching selector (map Some (tm_List iord store))"

definition NamespaceIndex :: string where
  "NamespaceIndex = ''namespace''"

definition MetaNamespaceIndexFunc :: "resource index_func" where
  "MetaNamespaceIndexFunc obj = Some [cr_Namespace obj]"

text \<open>The index is asked with an object of which only the namespace is set.\<close>

definition ListAllByNamespace ::
    "key_order \<Rightarrow> resource item_order \<Rightarrow> resource thread_safe_map \<Rightarrow> string \<Rightarrow> selector
     \<Rightarrow> (resource list \<times> bool) go" where
  "ListAllByNamespace kord iord indexer namespace selector =
     (if namespace = NamespaceAll then ListAll iord indexer selector
      else
        case tm_Index kord NamespaceIndex (empty_resource\<lparr>cr_Namespace := namespace\<rparr>) indexer of
          None \<Rightarrow>
            Inr (filter (\<lambda>m. cr_Namespace m = namespace \<and> sel_Matches selector (cr_Labels m))
              (tm_List iord indexer), False)
        | Some items \<Rightarrow> append_matching selector items)"

section \<open>The generated lister\<close>

record resource_indexer =
  ri_resource :: "string \<times> string"
  ri_namespace :: string

definition NewNamespaced :: "resource_indexer \<Rightarrow> string \<Rightarrow> resource_indexer" where
  "NewNamespaced parent namespace = \<lparr>ri_resource = ri_resource parent, ri_namespace = namespace\<rparr>"

definition ResourceIndexer_List ::
    "key_order \<Rightarrow> resource item_order \<Rightarrow> resource_indexer \<Rightarrow> resource thread_safe_map \<Rightarrow> selector
     \<Rightarrow> (resource list \<times> bool) go" where
  "ResourceIndexer_List kord iord l indexer selector =
     ListAllByNamespace kord iord indexer (ri_namespace l) selector"

text \<open>The error says which resource of which name was not found.\<close>

definition ResourceIndexer_Get ::
    "resource_indexer \<Rightarrow> resource thread_safe_map \<Rightarrow> string \<Rightarrow> ((string \<times> string) \<times> string) + resource" where
  "ResourceIndexer_Get l indexer name =
     (let key = (if ri_namespace l = [] then name else ri_namespace l @ ''/'' @ name)
      in case cache_GetByKey key indexer of
           None \<Rightarrow> Inl (ri_resource l, name)
         | Some obj \<Rightarrow> Inr obj)"

definition NewCRDMetricsResourceLister :: resource_indexer where
  "NewCRDMetricsResourceLister = \<lparr>ri_resource = Resource ''crdmetricsresource'', ri_namespace = []\<rparr>"

definition lister_CRDMetricsResources :: "resource_indexer \<Rightarrow> string \<Rightarrow> resource_indexer" where
  "lister_CRDMetricsResources s namespace = NewNamespaced s namespace"

section \<open>The generic informer's lister\<close>

definition NewGenericLister :: "string \<times> string \<Rightarrow> resource_indexer" where
  "NewGenericLister resource = \<lparr>ri_resource = resource, ri_namespace = []\<rparr>"

definition generic_List ::
    "resource item_order \<Rightarrow> resource thread_safe_map \<Rightarrow> selector \<Rightarrow> (resource list \<times> bool) go" where
  "generic_List iord indexer selector = ListAll iord indexer selector"

definition generic_Get ::
    "resource_indexer \<Rightarrow> resource thread_safe_map \<Rightarrow> string \<Rightarrow> ((string \<times> string) \<times> string) + resource" where
  "generic_Get s indexer name =
     (case cache_GetByKey name indexer of
        None \<Rightarrow> Inl (ri_resource s, name)
      | Some obj \<Rightarrow> Inr obj)"

definition generic_ByNamespace :: "resource_indexer \<Rightarrow> string \<Rightarrow> resource_indexer" where
  "generic_ByNamespace s namespace = \<lparr>ri_resource = ri_resource s, ri_namespace = namespace\<rparr>"

definition generic_namespace_List ::
    "key_order \<Rightarrow> resource item_order \<Rightarrow> resource_indexer \<Rightarrow> resource thread_safe_map \<Rightarrow> selector
     \<Rightarrow> (resource list \<times> bool) go" where
  "generic_namespace_List kord iord s indexer selector =
     ListAllByNamespace kord iord indexer (ri_namespace s) selector"

definition generic_namespace_Get ::
    "resource_indexer \<Rightarrow> resource thread_safe_map \<Rightarrow> string \<Rightarrow> ((string \<times> string) \<times> string) + resource" where
  "generic_namespace_Get s indexer name =
     (case cache_GetByKey (ri_namespace s @ ''/'' @ name) indexer of
        None \<Rightarrow> Inl (ri_resource s, name)
      | Some obj \<Rightarrow> Inr obj)"

section \<open>The informer's cache\<close>

definition resource_key :: "resource \<Rightarrow> string option" where
  "resource_key obj = MetaNamespaceKeyFunc (InformerResource obj)"

definition informer_cache :: "resource thread_safe_map" where
  "informer_cache = NewIndexer [(NamespaceIndex, MetaNamespaceIndexFunc)]"

inductive cache_step :: "resource thread_safe_map \<Rightarrow> resource thread_safe_map \<Rightarrow> bool" where
  add: "is_order ord \<Longrightarrow> cache_Add resource_key ord obj t = Inr (err, t') \<Longrightarrow> cache_step t t'"
| update: "is_order ord \<Longrightarrow> cache_Update resource_key ord obj t = Inr (err, t') \<Longrightarrow> cache_step t t'"
| delete: "is_order ord \<Longrightarrow> cache_Delete resource_key ord obj t = Inr (err, t') \<Longrightarrow> cache_step t t'"
| replace: "is_order ord \<Longrightarrow> is_order iord \<Longrightarrow> cache_Replace resource_key ord iord objs t = Inr (err, t')
    \<Longrightarrow> cache_step t t'"

text \<open>Resources stand under their keys, and the one index, by namespace, is in step with them.\<close>

definition cache_inv :: "resource thread_safe_map \<Rightarrow> bool" where
  "cache_inv t \<longleftrightarrow> tm_inv t \<and> tm_indexers t = [(NamespaceIndex, MetaNamespaceIndexFunc)]
     \<and> (\<forall>key obj. gm_get (tm_items t) key = Some obj \<longrightarrow> resource_key obj = Some key)"

definition key_string :: "string \<times> string \<Rightarrow> string" where
  "key_string k = (if fst k = [] then snd k else fst k @ ''/'' @ snd k)"

definition rkey :: "resource \<Rightarrow> string" where
  "rkey obj = key_string (key_of obj)"

lemma resource_key_eq: "resource_key obj = Some (rkey obj)"
  by (simp add: rkey_def resource_key_def MetaNamespaceKeyFunc_def ObjectName_String_def MetaObjectToName_def key_string_def)

lemma key_string_inj:
  assumes "key_string k = key_string j" and "CHR ''/'' \<notin> set (fst k)" and "CHR ''/'' \<notin> set (snd k)"
    and "CHR ''/'' \<notin> set (fst j)" and "CHR ''/'' \<notin> set (snd j)"
  shows "k = j"
proof -
  have s: "CHR ''/'' \<in> set (key_string p) \<longleftrightarrow> fst p \<noteq> []" if "CHR ''/'' \<notin> set (snd p)" for p
    using that by (simp add: key_string_def)
  have t: "takeWhile (\<lambda>c. c \<noteq> CHR ''/'') (key_string p) = fst p
      \<and> dropWhile (\<lambda>c. c \<noteq> CHR ''/'') (key_string p) = CHR ''/'' # snd p"
    if p: "fst p \<noteq> []" "CHR ''/'' \<notin> set (fst p)" for p
  proof -
    have "\<forall>c \<in> set (fst p). c \<noteq> CHR ''/''" using p(2) by auto
    then show ?thesis unfolding key_string_def if_not_P [OF p(1)]
      by (simp add: takeWhile_append dropWhile_append)
  qed
  show ?thesis
  proof (cases "fst k = []")
    case True
    then have "fst j = []" using s [OF assms(3)] s [OF assms(5)] assms(1) by simp
    with True assms(1) show ?thesis by (simp add: key_string_def prod_eq_iff)
  next
    case False
    then have "fst j \<noteq> []" using s [OF assms(3)] s [OF assms(5)] assms(1) by simp
    with t [OF False assms(2)] t [of j] assms(1,4) show ?thesis by (simp add: prod_eq_iff)
  qed
qed

lemma informer_cache_inv: "cache_inv informer_cache"
  by (simp add: cache_inv_def informer_cache_def NewIndexer_def NewThreadSafeStore_inv)
    (simp add: NewThreadSafeStore_def)

lemma cache_inv_total: "cache_inv t \<Longrightarrow> total_indexers t"
  by (simp add: cache_inv_def total_indexers_def MetaNamespaceIndexFunc_def)

lemma one_indexer:
  assumes "tm_inv t" and "map_of (tm_indexers t) = map_of [(NamespaceIndex, f)]"
  shows "tm_indexers t = [(NamespaceIndex, f)]"
proof -
  have "set (tm_indexers t) = {(NamespaceIndex, f)}"
    using assms map_of_inject_set [of "tm_indexers t" "[(NamespaceIndex, f)]"] by (simp add: tm_inv_def)
  moreover have "distinct (tm_indexers t)" using assms(1) by (simp add: tm_inv_def distinct_map)
  ultimately have "mset (tm_indexers t) = mset [(NamespaceIndex, f)]"
    by (intro set_eq_iff_mset_eq_distinct [THEN iffD1]) simp_all
  then show ?thesis by simp
qed

lemma cache_put:
  assumes "cache_inv t" and "is_order ord"
  shows "\<exists>t'. cache_Update resource_key ord obj t = Inr (False, t') \<and> cache_inv t'
    \<and> map_of (tm_items t') = (map_of (tm_items t))(rkey obj \<mapsto> obj)"
proof -
  let ?k = "rkey obj"
  obtain t' where t': "tm_Update ord ?k obj t = Inr t'"
    using tm_Update_total [OF cache_inv_total [OF assms(1)] assms(2)] by blast
  have i: "tm_inv t" using assms(1) by (simp add: cache_inv_def)
  note u = tm_Update_inv [OF t' assms(2) i]
  have "cache_inv t'"
    using u assms(1) by (auto simp: cache_inv_def resource_key_eq split: if_splits)
  moreover have "cache_Update resource_key ord obj t = Inr (False, t')"
    unfolding cache_Update_def resource_key_eq by (simp only: option.case t' go_bind_Inr)
  ultimately show ?thesis using u by blast
qed

lemma cache_Add_Update: "cache_Add keyFunc ord obj t = cache_Update keyFunc ord obj t"
  by (simp add: cache_Add_def cache_Update_def tm_Add_def [abs_def] split: option.split)

lemma cache_drop:
  assumes "cache_inv t" and "is_order ord"
  shows "\<exists>t'. cache_Delete resource_key ord obj t = Inr (False, t') \<and> cache_inv t'
    \<and> map_of (tm_items t') = (map_of (tm_items t))(rkey obj := None)"
proof -
  let ?k = "rkey obj"
  obtain t' where t': "tm_Delete ord ?k t = Inr t'"
    using tm_Delete_total [OF cache_inv_total [OF assms(1)] assms(2)] by blast
  have i: "tm_inv t" using assms(1) by (simp add: cache_inv_def)
  note u = tm_Delete_inv [OF t' assms(2) i]
  have "cache_inv t'"
    using u assms(1) by (auto simp: cache_inv_def resource_key_eq split: if_splits)
  moreover have "cache_Delete resource_key ord obj t = Inr (False, t')"
    unfolding cache_Delete_def resource_key_eq by (simp only: option.case t' go_bind_Inr)
  ultimately show ?thesis using u by blast
qed

definition put_resource :: "resource \<Rightarrow> (string \<Rightarrow> resource option) \<Rightarrow> string \<Rightarrow> resource option" where
  "put_resource obj M = M(rkey obj \<mapsto> obj)"

lemma keyed_resources:
  "\<exists>items. keyed resource_key objs m = Some items \<and> (gm_wf m \<longrightarrow> gm_wf items)
    \<and> map_of items = fold put_resource objs (map_of m)"
proof (induction objs arbitrary: m)
  case (Cons obj objs)
  let ?k = "rkey obj"
  from Cons [of "gm_set ?k obj m"] obtain items where
    i: "keyed resource_key objs (gm_set ?k obj m) = Some items"
      "gm_wf (gm_set ?k obj m) \<longrightarrow> gm_wf items"
      "map_of items = fold put_resource objs (map_of (gm_set ?k obj m))"
    by (elim exE conjE)
  have "gm_wf m \<longrightarrow> gm_wf items" using i(2) by (simp add: gm_wf_set)
  with i(1,3) show ?case unfolding gm_get_set_fun
    by (intro exI [of _ items]) (simp only: keyed.simps resource_key_eq [of obj] option.case fold_simps put_resource_def [of obj])
qed simp

lemma fold_put_own:
  "fold put_resource objs M k = Some obj \<Longrightarrow> (M k = Some obj \<or> obj \<in> set objs \<and> rkey obj = k)"
proof (induction objs arbitrary: M)
  case (Cons q objs)
  from Cons.IH [of "put_resource q M"] Cons.prems show ?case by (auto simp: put_resource_def split: if_splits)
qed simp

lemma index_items_total:
  "total_indexers t \<Longrightarrow> is_order ord \<Longrightarrow> gm_wf (tm_indexers t) \<Longrightarrow> \<exists>t'. index_items ord items t = Inr t'"
proof (induction items arbitrary: t)
  case (Cons e items)
  obtain k x where e: "e = (k, x)" by fastforce
  obtain t1 where t1: "updateIndices ord None (Some x) k t = Inr t1"
    using updateIndices_total Cons.prems by blast
  have "distinct (map fst (ord (tm_indexers t)))" using Cons.prems(3) is_order_gm_wf [OF Cons.prems(2)] by blast
  with update_each_parts(2) t1 have "tm_indexers t1 = tm_indexers t" unfolding updateIndices_def by blast
  with Cons t1 show ?case by (simp add: e total_indexers_def)
qed simp

lemma cache_replaced:
  assumes "cache_inv t" and "is_order ord" and "is_order iord"
  shows "\<exists>t'. cache_Replace resource_key ord iord objs t = Inr (False, t') \<and> cache_inv t'
    \<and> map_of (tm_items t') = fold put_resource objs Map.empty"
proof -
  obtain items where k: "keyed resource_key objs [] = Some items" "gm_wf items"
    "map_of items = fold put_resource objs Map.empty"
    using keyed_resources [of objs "[]"] by auto
  have t: "tm_inv t" "tm_indexers t = [(NamespaceIndex, MetaNamespaceIndexFunc)]"
    using assms(1) by (simp_all add: cache_inv_def)
  have "total_indexers (t\<lparr>tm_items := items, tm_indices := []\<rparr>)"
    using cache_inv_total [OF assms(1)] by (simp add: total_indexers_def)
  then obtain t' where r: "tm_Replace ord iord items t = Inr t'"
    unfolding tm_Replace_def using index_items_total [OF _ assms(2)] t(1) by (fastforce simp: tm_inv_def)
  note i = tm_Replace_inv [OF r assms(2,3) t(1) k(2)]
  have "rkey obj = key" if "map_of items key = Some obj" for key obj
    using fold_put_own [of objs Map.empty key obj] that k(3) by simp
  then have "cache_inv t'" using i t(2) by (simp add: cache_inv_def resource_key_eq)
  with i k r show ?thesis by (simp add: cache_Replace_def)
qed

lemma cache_step_inv: "cache_step t t' \<Longrightarrow> cache_inv t \<Longrightarrow> cache_inv t'"
proof (induction rule: cache_step.induct)
  case (add ord obj t err t')
  with cache_put [of t ord obj] show ?case by (auto simp: cache_Add_Update)
next
  case (update ord obj t err t')
  with cache_put [of t ord obj] show ?case by auto
next
  case (delete ord obj t err t')
  with cache_drop [of t ord obj] show ?case by auto
next
  case (replace ord iord objs t err t')
  with cache_replaced [of t ord iord objs] show ?case by auto
qed

lemma cache_steps_inv: "cache_step\<^sup>*\<^sup>* t t' \<Longrightarrow> cache_inv t \<Longrightarrow> cache_inv t'"
  by (induction rule: rtranclp_induct) (auto dest: cache_step_inv)

section \<open>What listers read\<close>

lemma append_matching_Some:
  assumes "selector_ok selector"
  shows "append_matching selector (map Some xs) = Inr (filter (\<lambda>m. sel_Matches selector (cr_Labels m)) xs, False)"
  using assms by (induction xs) (auto simp: selector_ok_def)

lemma namespace_lookup:
  assumes "cache_inv t" and "is_order kord"
  shows "\<exists>xs. tm_Index kord NamespaceIndex (empty_resource\<lparr>cr_Namespace := namespace\<rparr>) t = Some (map Some xs)
    \<and> mset xs = mset (filter (\<lambda>m. cr_Namespace m = namespace) (map snd (tm_items t)))"
proof -
  have "shares [namespace] MetaNamespaceIndexFunc = (\<lambda>m. cr_Namespace m = namespace)"
    by (auto simp: shares_def MetaNamespaceIndexFunc_def fun_eq_iff)
  moreover have "tm_inv t" "gm_get (tm_indexers t) NamespaceIndex = Some MetaNamespaceIndexFunc"
    using assms(1) by (simp_all add: cache_inv_def)
  moreover have "MetaNamespaceIndexFunc (empty_resource\<lparr>cr_Namespace := namespace\<rparr>) = Some [namespace]"
    by (simp add: MetaNamespaceIndexFunc_def)
  ultimately show ?thesis using tm_Index_search [OF _ assms(2)] by metis
qed

lemma cache_key:
  assumes "cache_inv t"
  shows "gm_get (tm_items t) key = Some obj \<longleftrightarrow> obj \<in> snd ` set (tm_items t) \<and> rkey obj = key"
proof -
  have "gm_wf (tm_items t)" "\<And>key obj. gm_get (tm_items t) key = Some obj \<Longrightarrow> rkey obj = key"
    using assms by (auto simp: cache_inv_def tm_inv_def resource_key_eq)
  then show ?thesis by (force simp: gm_get_mem)
qed

lemma ResourceIndexer_Get_key:
  "ResourceIndexer_Get (lister_CRDMetricsResources NewCRDMetricsResourceLister namespace) t name
     = (case gm_get (tm_items t) (key_string (namespace, name)) of
          None \<Rightarrow> Inl (Resource ''crdmetricsresource'', name) | Some r \<Rightarrow> Inr r)"
  unfolding ResourceIndexer_Get_def lister_CRDMetricsResources_def NewNamespaced_def NewCRDMetricsResourceLister_def
    resource_indexer.simps cache_GetByKey_def tm_Get_def Let_def key_string_def fst_conv snd_conv
  by (rule refl)

section \<open>Properties\<close>

text \<open>C23: listing the resources of a namespace through the index finds what the search without an index
  finds: after any sequence of changes of the cache, the lister returns, without an error and in
  some order, exactly the cached resources of the namespace, or of all, that the selector
  matches.\<close>

theorem namespaced_list_search:
  assumes "cache_step\<^sup>*\<^sup>* informer_cache t" and "selector_ok selector" and "is_order kord" and "is_order iord"
  shows "\<exists>ret. ResourceIndexer_List kord iord (lister_CRDMetricsResources NewCRDMetricsResourceLister namespace) t selector
      = Inr (ret, False)
    \<and> mset ret = mset (filter (\<lambda>m. (namespace = NamespaceAll \<or> cr_Namespace m = namespace)
        \<and> sel_Matches selector (cr_Labels m)) (tm_List iord t))"
proof -
  have inv: "cache_inv t" using assms(1) informer_cache_inv by (rule cache_steps_inv)
  let ?f = "\<lambda>m. sel_Matches selector (cr_Labels m)"
  have list: "mset (tm_List iord t) = mset (map snd (tm_items t))"
    by (simp add: tm_List_def is_order_mset [OF assms(4)])
  show ?thesis
  proof (cases "namespace = NamespaceAll")
    case True
    then show ?thesis
      by (simp add: ResourceIndexer_List_def lister_CRDMetricsResources_def NewNamespaced_def
          ListAllByNamespace_def ListAll_def append_matching_Some [OF assms(2)])
  next
    case False
    obtain xs where xs: "tm_Index kord NamespaceIndex (empty_resource\<lparr>cr_Namespace := namespace\<rparr>) t = Some (map Some xs)"
      "mset xs = mset (filter (\<lambda>m. cr_Namespace m = namespace) (map snd (tm_items t)))"
      using namespace_lookup [OF inv assms(3)] by blast
    have "mset (filter ?f xs) = filter_mset ?f (filter_mset (\<lambda>m. cr_Namespace m = namespace) (mset (tm_List iord t)))"
      using xs(2) list by (simp only: mset_filter)
    also have "\<dots> = mset (filter (\<lambda>m. cr_Namespace m = namespace \<and> ?f m) (tm_List iord t))"
      by (simp only: mset_filter filter_filter_mset conj_commute)
    finally show ?thesis using False xs(1)
      by (simp add: ResourceIndexer_List_def lister_CRDMetricsResources_def NewNamespaced_def
          ListAllByNamespace_def append_matching_Some [OF assms(2)])
  qed
qed

lemma sample_cached:
  obtains t where "cache_step\<^sup>*\<^sup>* informer_cache t"
    "map_of (tm_items t) = [rkey sample_resource \<mapsto> sample_resource]"
proof -
  obtain t where t: "cache_Update resource_key (\<lambda>m. m) sample_resource informer_cache = Inr (False, t)"
    "map_of (tm_items t) = (map_of (tm_items informer_cache))(rkey sample_resource \<mapsto> sample_resource)"
    using cache_put [OF informer_cache_inv is_order_id] by blast
  have "cache_step informer_cache t" using is_order_id t(1) by (rule cache_step.update)
  moreover have "map_of (tm_items informer_cache) = Map.empty"
    by (simp add: informer_cache_def NewIndexer_def NewThreadSafeStore_def)
  ultimately show thesis using t(2) by (intro that) auto
qed

theorem namespaced_list_search_witness:
  "\<exists>t ret. cache_step\<^sup>*\<^sup>* informer_cache t \<and> tm_List rev t = [sample_resource]
    \<and> ResourceIndexer_List rev rev (lister_CRDMetricsResources NewCRDMetricsResourceLister ''elsewhere'') t
        \<lparr>sel_Empty = True, sel_Matches = \<lambda>labels. True\<rparr> = Inr (ret, False) \<and> ret = []"
proof -
  obtain t where t: "cache_step\<^sup>*\<^sup>* informer_cache t"
    "map_of (tm_items t) = [rkey sample_resource \<mapsto> sample_resource]"
    by (rule sample_cached)
  have "gm_wf (tm_items t)" using cache_steps_inv [OF t(1) informer_cache_inv] by (simp add: cache_inv_def tm_inv_def)
  moreover from this have "set (tm_items t) = {(rkey sample_resource, sample_resource)}"
    using t(2) map_of_inject_set [of "tm_items t" "[(rkey sample_resource, sample_resource)]"] by simp
  ultimately have "mset (tm_items t) = mset [(rkey sample_resource, sample_resource)]"
    by (intro set_eq_iff_mset_eq_distinct [THEN iffD1]) (simp_all add: distinct_map)
  then have l: "tm_List rev t = [sample_resource]" by (simp add: tm_List_def)
  have "selector_ok \<lparr>sel_Empty = True, sel_Matches = \<lambda>labels. True\<rparr>" by (simp add: selector_ok_def)
  from namespaced_list_search [OF t(1) this is_order_rev is_order_rev, of "''elsewhere''"] t(1) l
  show ?thesis by (auto simp: NamespaceAll_def sample_resource_def empty_resource_def)
qed

definition plain :: "resource \<Rightarrow> bool" where
  "plain r \<longleftrightarrow> CHR ''/'' \<notin> set (cr_Namespace r) \<and> CHR ''/'' \<notin> set (cr_Name r)"

text \<open>A lister of a namespace gets a resource exactly when the cache has it under that namespace
  and name, the names being API names, which have no slash; the worker that looks a key up
  gets the same.\<close>

theorem lister_Get_exact:
  assumes "cache_step\<^sup>*\<^sup>* informer_cache t" and "\<forall>r \<in> snd ` set (tm_items t). plain r"
    and "CHR ''/'' \<notin> set namespace" and "CHR ''/'' \<notin> set name"
  shows "(ResourceIndexer_Get (lister_CRDMetricsResources NewCRDMetricsResourceLister namespace) t name = Inr obj
      \<longleftrightarrow> obj \<in> snd ` set (tm_items t) \<and> cr_Namespace obj = namespace \<and> cr_Name obj = name)
    \<and> (lister_Get (tm_items t) namespace name = Inr obj
      \<longleftrightarrow> obj \<in> snd ` set (tm_items t) \<and> cr_Namespace obj = namespace \<and> cr_Name obj = name)"
proof -
  have inv: "cache_inv t" using assms(1) informer_cache_inv by (rule cache_steps_inv)
  let ?key = "key_string (namespace, name)"
  have k: "(if namespace = [] then name else namespace @ ''/'' @ name) = ?key"
    unfolding key_string_def fst_conv snd_conv by (rule refl)
  have "rkey obj = ?key \<longleftrightarrow> cr_Namespace obj = namespace \<and> cr_Name obj = name"
    if "obj \<in> snd ` set (tm_items t)"
    using key_string_inj [of "key_of obj" "(namespace, name)"] that assms(2-4)
    unfolding plain_def rkey_def fst_conv snd_conv prod.inject by blast
  then have "gm_get (tm_items t) ?key = Some obj
      \<longleftrightarrow> obj \<in> snd ` set (tm_items t) \<and> cr_Namespace obj = namespace \<and> cr_Name obj = name"
    unfolding cache_key [OF inv] by blast
  moreover have "ResourceIndexer_Get (lister_CRDMetricsResources NewCRDMetricsResourceLister namespace) t name = Inr obj
      \<longleftrightarrow> gm_get (tm_items t) ?key = Some obj"
    unfolding ResourceIndexer_Get_key by (simp split: option.split)
  moreover have "lister_Get (tm_items t) namespace name = Inr obj \<longleftrightarrow> gm_get (tm_items t) ?key = Some obj"
    unfolding lister_Get_def k by (simp split: option.split)
  ultimately show ?thesis by blast
qed

theorem lister_Get_exact_witness:
  "\<exists>t. cache_step\<^sup>*\<^sup>* informer_cache t
    \<and> ResourceIndexer_Get (lister_CRDMetricsResources NewCRDMetricsResourceLister []) t ''r'' = Inr sample_resource
    \<and> lister_Get (tm_items t) [] ''r'' = Inr sample_resource"
proof -
  obtain t where t: "cache_step\<^sup>*\<^sup>* informer_cache t"
    "map_of (tm_items t) = [rkey sample_resource \<mapsto> sample_resource]"
    by (rule sample_cached)
  have w: "gm_wf (tm_items t)" using cache_steps_inv [OF t(1) informer_cache_inv] by (simp add: cache_inv_def tm_inv_def)
  then have s: "set (tm_items t) = {(rkey sample_resource, sample_resource)}"
    using t(2) map_of_inject_set [of "tm_items t" "[(rkey sample_resource, sample_resource)]"] by simp
  have "\<forall>r \<in> snd ` set (tm_items t). plain r"
    by (simp add: s plain_def sample_resource_def empty_resource_def)
  from lister_Get_exact [OF t(1) this, of "[]" "''r''" sample_resource] t(1) s
  show ?thesis by (auto simp: sample_resource_def empty_resource_def)
qed

text \<open>The cache is a store for a reflector as the one of the metrics is.\<close>

definition cached_put :: "resource indexer_order \<Rightarrow> resource thread_safe_map \<Rightarrow> resource \<Rightarrow> resource thread_safe_map go" where
  "cached_put ord t obj = go_bind (cache_Add resource_key ord obj t) (\<lambda>(err, t). Inr t)"

definition cached_drop :: "resource indexer_order \<Rightarrow> resource thread_safe_map \<Rightarrow> resource \<Rightarrow> resource thread_safe_map" where
  "cached_drop ord t obj = (case cache_Delete resource_key ord obj t of Inr (err, t) \<Rightarrow> t | Inl p \<Rightarrow> t)"

lemma cache_object_store:
  assumes "is_order ord"
  shows "object_store (cached_put ord) (cached_drop ord) rkey
    (\<lambda>t. map_of (tm_items t)) cache_inv"
proof
  fix t obj assume i: "cache_inv t"
  from cache_put [OF i assms, of obj]
  show "\<exists>t' v. cached_put ord t obj = Inr t' \<and> cache_inv t'
      \<and> map_of (tm_items t') = (map_of (tm_items t))(rkey obj \<mapsto> v)"
    unfolding cached_put_def cache_Add_Update by (elim exE conjE) (intro exI conjI, simp_all only: go_bind_Inr prod.case)
  from cache_drop [OF i assms, of obj]
  show "cache_inv (cached_drop ord t obj)
      \<and> map_of (tm_items (cached_drop ord t obj)) = (map_of (tm_items t))(rkey obj := None)"
    unfolding cached_drop_def by (elim exE conjE) (simp only: sum.case prod.case)
qed

interpretation cached: object_store "cached_put (\<lambda>m. m)" "cached_drop (\<lambda>m. m)" "\<lambda>obj. rkey obj"
  "\<lambda>t. map_of (tm_items t)" cache_inv
  using is_order_id by (rule cache_object_store)

end
