(* ===== verification/Delta_Fifo.thy ===== *)
theory Delta_Fifo
  imports Listers Reflector
begin

text \<open>
  What stands between the reflector of the controller's informer and its cache: the vendored
  \<^verbatim>\<open>client-go/tools/cache/delta_fifo.go\<close>, which collects the changes of each key, and
  \<^verbatim>\<open>processDeltas\<close> of \<^verbatim>\<open>controller.go\<close>, which applies them to the cache and notifies the handler of
  the controller. The lemmas say what one call does to the cache as it will be once everything
  that is queued has been processed.
\<close>

section \<open>Deltas\<close>

text \<open>Only a deletion that a watch missed carries a tombstone, its object may be unknown.\<close>

datatype delta_object = LiveObject resource | Tombstone string "resource option"

datatype put_type = SyncDelta | ReplacedDelta | AddedDelta | UpdatedDelta

datatype delta = PutDelta put_type resource | DeletedDelta delta_object

type_synonym deltas = "delta list"

record delta_fifo =
  df_items :: "(string, deltas) gomap"
  df_queue :: "string list"
  df_populated :: bool
  df_initialPopulationCount :: nat
  df_emitDeltaTypeReplaced :: bool

text \<open>The queue as the informer makes it.\<close>

definition NewDeltaFIFO :: delta_fifo where
  "NewDeltaFIFO = \<lparr>df_items = [], df_queue = [], df_populated = False,
     df_initialPopulationCount = 0, df_emitDeltaTypeReplaced = True\<rparr>"

fun DeletionHandlingMetaNamespaceKeyFunc :: "delta_object \<Rightarrow> string option" where
  "DeletionHandlingMetaNamespaceKeyFunc (Tombstone key obj) = Some key"
| "DeletionHandlingMetaNamespaceKeyFunc (LiveObject obj) = resource_key obj"

fun KeyOf :: "delta \<Rightarrow> string option" where
  "KeyOf (PutDelta tp obj) = resource_key obj"
| "KeyOf (DeletedDelta d) = DeletionHandlingMetaNamespaceKeyFunc d"

fun isDeletionDup :: "delta \<Rightarrow> delta \<Rightarrow> delta option" where
  "isDeletionDup a (PutDelta tp obj) = None"
| "isDeletionDup (PutDelta tp obj) (DeletedDelta d) = None"
| "isDeletionDup (DeletedDelta d) (DeletedDelta (Tombstone key obj)) = Some (DeletedDelta d)"
| "isDeletionDup (DeletedDelta d) (DeletedDelta (LiveObject obj)) = Some (DeletedDelta (LiveObject obj))"

definition dedupDeltas :: "deltas \<Rightarrow> deltas" where
  "dedupDeltas ds =
     (let n = length ds
      in if n < 2 then ds
         else case isDeletionDup (ds ! (n - 1)) (ds ! (n - 2)) of
                Some out \<Rightarrow> take (n - 1) (ds[n - 2 := out])
              | None \<Rightarrow> ds)"

text \<open>The informer has no transformer. \<open>True\<close> is an error.\<close>

definition queueActionLocked :: "delta \<Rightarrow> delta_fifo \<Rightarrow> bool \<times> delta_fifo" where
  "queueActionLocked d f =
     (case KeyOf d of
        None \<Rightarrow> (True, f)
      | Some key \<Rightarrow>
          (let oldDeltas = gm_get (df_items f) key;
               newDeltas = dedupDeltas ((case oldDeltas of None \<Rightarrow> [] | Some ds \<Rightarrow> ds) @ [d])
           in if length newDeltas > 0 then
                (False, f\<lparr>df_queue := (if oldDeltas = None then df_queue f @ [key] else df_queue f),
                          df_items := gm_set key newDeltas (df_items f)\<rparr>)
              else if oldDeltas = None then (False, f)
              else (True, f\<lparr>df_items := gm_set key newDeltas (df_items f)\<rparr>)))"

definition fifo_Add :: "resource \<Rightarrow> delta_fifo \<Rightarrow> bool \<times> delta_fifo" where
  "fifo_Add obj f = queueActionLocked (PutDelta AddedDelta obj) (f\<lparr>df_populated := True\<rparr>)"

definition fifo_Update :: "resource \<Rightarrow> delta_fifo \<Rightarrow> bool \<times> delta_fifo" where
  "fifo_Update obj f = queueActionLocked (PutDelta UpdatedDelta obj) (f\<lparr>df_populated := True\<rparr>)"

definition fifo_Delete ::
    "resource thread_safe_map \<Rightarrow> delta_object \<Rightarrow> delta_fifo \<Rightarrow> bool \<times> delta_fifo" where
  "fifo_Delete knownObjects obj f =
     (case DeletionHandlingMetaNamespaceKeyFunc obj of
        None \<Rightarrow> (True, f)
      | Some key \<Rightarrow>
          (let f = f\<lparr>df_populated := True\<rparr>
           in if cache_GetByKey key knownObjects = None \<and> gm_get (df_items f) key = None then (False, f)
              else queueActionLocked (DeletedDelta obj) f))"

text \<open>The keys of the list, or an error in the middle of it.\<close>

fun queue_listed ::
    "put_type \<Rightarrow> resource list \<Rightarrow> string list \<Rightarrow> delta_fifo \<Rightarrow> string list option \<times> delta_fifo" where
  "queue_listed action [] ks f = (Some ks, f)"
| "queue_listed action (item # list) ks f =
     (case resource_key item of
        None \<Rightarrow> (None, f)
      | Some key \<Rightarrow>
          (case queueActionLocked (PutDelta action item) f of
             (err, f) \<Rightarrow> if err then (None, f) else queue_listed action list (List.insert key ks) f))"

text \<open>The last object that is known of a key in the queue.\<close>

definition newest_object :: "deltas \<Rightarrow> resource option" where
  "newest_object ds =
     (if ds = [] then None
      else case last ds of
             PutDelta tp obj \<Rightarrow> Some obj
           | DeletedDelta (LiveObject obj) \<Rightarrow> Some obj
           | DeletedDelta (Tombstone key obj) \<Rightarrow> obj)"

fun delete_queued :: "string list \<Rightarrow> (string \<times> deltas) list \<Rightarrow> nat \<Rightarrow> delta_fifo \<Rightarrow> nat option \<times> delta_fifo" where
  "delete_queued ks [] n f = (Some n, f)"
| "delete_queued ks ((key, oldItem) # items) n f =
     (if key \<in> set ks then delete_queued ks items n f
      else case queueActionLocked (DeletedDelta (Tombstone key (newest_object oldItem))) f of
             (err, f) \<Rightarrow> if err then (None, f) else delete_queued ks items (Suc n) f)"

fun delete_known ::
    "resource thread_safe_map \<Rightarrow> string list \<Rightarrow> string list \<Rightarrow> nat \<Rightarrow> delta_fifo \<Rightarrow> nat option \<times> delta_fifo" where
  "delete_known knownObjects ks [] n f = (Some n, f)"
| "delete_known knownObjects ks (key # known) n f =
     (if key \<in> set ks then delete_known knownObjects ks known n f
      else if (case gm_get (df_items f) key of None \<Rightarrow> 0 | Some ds \<Rightarrow> length ds) > 0
        then delete_known knownObjects ks known n f
      else case queueActionLocked (DeletedDelta (Tombstone key (cache_GetByKey key knownObjects))) f of
             (err, f) \<Rightarrow> if err then (None, f) else delete_known knownObjects ks known (Suc n) f)"

type_synonym deltas_order = "(string \<times> deltas) list \<Rightarrow> (string \<times> deltas) list"

definition fifo_Replace ::
    "deltas_order \<Rightarrow> resource item_order \<Rightarrow> resource thread_safe_map \<Rightarrow> resource list \<Rightarrow> delta_fifo
     \<Rightarrow> bool \<times> delta_fifo" where
  "fifo_Replace dord iord knownObjects list f =
     (case queue_listed (if df_emitDeltaTypeReplaced f then ReplacedDelta else SyncDelta) list [] f of
        (None, f) \<Rightarrow> (True, f)
      | (Some ks, f) \<Rightarrow>
          (case delete_queued ks (dord (df_items f)) 0 f of
             (None, f) \<Rightarrow> (True, f)
           | (Some n, f) \<Rightarrow>
               (case delete_known knownObjects ks (map fst (iord (tm_items knownObjects))) n f of
                  (None, f) \<Rightarrow> (True, f)
                | (Some n, f) \<Rightarrow>
                    (False, if df_populated f then f
                            else f\<lparr>df_populated := True, df_initialPopulationCount := length ks + n\<rparr>))))"

section \<open>Processing\<close>

datatype notification =
    AddNotification resource
  | UpdateNotification resource resource
  | DeleteNotification delta_object

fun processDeltas ::
    "resource indexer_order \<Rightarrow> deltas \<Rightarrow> resource thread_safe_map
     \<Rightarrow> ((notification list \<times> bool) \<times> resource thread_safe_map) go" where
  "processDeltas ord [] t = Inr (([], False), t)"
| "processDeltas ord (PutDelta tp obj # ds) t =
     (case cache_Get resource_key obj t of
        (False, Some old) \<Rightarrow>
          go_bind (cache_Update resource_key ord obj t) (\<lambda>(err, t).
            if err then Inr (([], True), t)
            else go_bind (processDeltas ord ds t) (\<lambda>((ns, err), t).
              Inr ((UpdateNotification old obj # ns, err), t)))
      | _ \<Rightarrow>
          go_bind (cache_Add resource_key ord obj t) (\<lambda>(err, t).
            if err then Inr (([], True), t)
            else go_bind (processDeltas ord ds t) (\<lambda>((ns, err), t).
              Inr ((AddNotification obj # ns, err), t))))"
| "processDeltas ord (DeletedDelta d # ds) t =
     (case DeletionHandlingMetaNamespaceKeyFunc d of
        None \<Rightarrow> Inr (([], True), t)
      | Some key \<Rightarrow>
          go_bind (tm_Delete ord key t) (\<lambda>t.
            go_bind (processDeltas ord ds t) (\<lambda>((ns, err), t).
              Inr ((DeleteNotification d # ns, err), t))))"

text \<open>
  \<open>Pop\<close> with that function: \<open>None\<close> while the queue is empty and the caller blocks. A key
  without an item is skipped.
\<close>

fun pop_next :: "string list \<Rightarrow> delta_fifo \<Rightarrow> (deltas \<times> delta_fifo) option" where
  "pop_next [] f = None"
| "pop_next (key # queue) f =
     (let f = f\<lparr>df_queue := queue, df_initialPopulationCount := df_initialPopulationCount f - 1\<rparr>
      in case gm_get (df_items f) key of
           None \<Rightarrow> pop_next queue f
         | Some item \<Rightarrow> Some (item, f\<lparr>df_items := gm_del key (df_items f)\<rparr>))"

definition Pop ::
    "resource indexer_order \<Rightarrow> delta_fifo \<Rightarrow> resource thread_safe_map
     \<Rightarrow> ((notification list \<times> bool) \<times> delta_fifo \<times> resource thread_safe_map) go option" where
  "Pop ord f t =
     (case pop_next (df_queue f) f of
        None \<Rightarrow> None
      | Some (item, f) \<Rightarrow> Some (go_bind (processDeltas ord item t) (\<lambda>(r, t). Inr (r, f, t))))"

text \<open>What the listener of the controller does with a notification.\<close>

fun informer_object_of :: "delta_object \<Rightarrow> informer_object" where
  "informer_object_of (LiveObject obj) = InformerResource obj"
| "informer_object_of (Tombstone key (Some obj)) = DeletedFinalStateUnknown key obj"
| "informer_object_of (Tombstone key None) = NoMetadata"

fun listener_run :: "notification \<Rightarrow> work_item rate_queue \<Rightarrow> work_item rate_queue" where
  "listener_run (UpdateNotification old new) rq = UpdateFunc (InformerResource old) (InformerResource new) rq"
| "listener_run (AddNotification new) rq = AddFunc (InformerResource new) rq"
| "listener_run (DeleteNotification old) rq = DeleteFunc (informer_object_of old) rq"

section \<open>What is queued\<close>

declare put_resource_def [simp]

fun apply_delta :: "delta \<Rightarrow> resource option \<Rightarrow> resource option" where
  "apply_delta (PutDelta tp obj) x = Some obj"
| "apply_delta (DeletedDelta d) x = None"

text \<open>No deletion of what is not there.\<close>

fun valid_deltas :: "deltas \<Rightarrow> resource option \<Rightarrow> bool" where
  "valid_deltas [] x \<longleftrightarrow> True"
| "valid_deltas (PutDelta tp obj # ds) x \<longleftrightarrow> valid_deltas ds (Some obj)"
| "valid_deltas (DeletedDelta d # ds) x \<longleftrightarrow> x \<noteq> None \<and> valid_deltas ds None"

lemma valid_deltas_append:
  "valid_deltas (ds @ es) x \<longleftrightarrow> valid_deltas ds x \<and> valid_deltas es (fold apply_delta ds x)"
  by (induction ds x rule: valid_deltas.induct) auto

lemma KeyOf_put [simp]: "KeyOf (PutDelta tp obj) = Some (rkey obj)"
  by (simp only: KeyOf.simps resource_key_eq)

lemma isDeletionDup_Some:
  "isDeletionDup a b = Some out \<Longrightarrow> (out = a \<or> out = b) \<and> (\<exists>d e c. a = DeletedDelta d \<and> b = DeletedDelta e \<and> out = DeletedDelta c)"
  by (induction a b rule: isDeletionDup.induct) auto

lemma isDeletionDup_deleted: "isDeletionDup (DeletedDelta d) (DeletedDelta e) \<noteq> None"
  by (cases e) simp_all

lemma dedup_two:
  "dedupDeltas (ds @ [b, a]) = (case isDeletionDup a b of None \<Rightarrow> ds @ [b, a] | Some out \<Rightarrow> ds @ [out])"
  by (simp add: dedupDeltas_def nth_append list_update_append Let_def split: option.split)

lemma dedup_one: "dedupDeltas [d] = [d]"
  by (simp add: dedupDeltas_def)

text \<open>A delta after those that are queued: what it adds up to, and that it stays valid.\<close>

lemma dedup_append:
  "dedupDeltas (ds @ [d]) \<noteq> []"
  "fold apply_delta (dedupDeltas (ds @ [d])) x = apply_delta d (fold apply_delta ds x)"
  "set (dedupDeltas (ds @ [d])) \<subseteq> insert d (set ds)"
  "valid_deltas ds x \<Longrightarrow> (\<And>e. d = DeletedDelta e \<Longrightarrow> fold apply_delta ds x \<noteq> None \<or> ds \<noteq> [])
    \<Longrightarrow> valid_deltas (dedupDeltas (ds @ [d])) x"
proof -
  have "dedupDeltas (ds @ [d]) \<noteq> []
    \<and> fold apply_delta (dedupDeltas (ds @ [d])) x = apply_delta d (fold apply_delta ds x)
    \<and> set (dedupDeltas (ds @ [d])) \<subseteq> insert d (set ds)
    \<and> (valid_deltas ds x \<longrightarrow> (\<forall>e. d = DeletedDelta e \<longrightarrow> fold apply_delta ds x \<noteq> None \<or> ds \<noteq> [])
        \<longrightarrow> valid_deltas (dedupDeltas (ds @ [d])) x)"
  proof (cases ds rule: rev_cases)
    case Nil
    then show ?thesis by (cases d) (auto simp: dedup_one)
  next
    case (snoc bs b)
    show ?thesis
    proof (cases "isDeletionDup d b")
      case None
      then have "\<exists>tp obj. d = PutDelta tp obj \<or> b = PutDelta tp obj"
        using isDeletionDup_deleted by (cases d; cases b) auto
      then show ?thesis using None
        by (cases d; cases b) (auto simp: snoc dedup_two valid_deltas_append isDeletionDup_deleted)
    next
      case (Some out)
      from isDeletionDup_Some [OF this] show ?thesis using Some
        by (auto simp: snoc dedup_two valid_deltas_append)
    qed
  qed
  then show "dedupDeltas (ds @ [d]) \<noteq> []"
    "fold apply_delta (dedupDeltas (ds @ [d])) x = apply_delta d (fold apply_delta ds x)"
    "set (dedupDeltas (ds @ [d])) \<subseteq> insert d (set ds)"
    "valid_deltas ds x \<Longrightarrow> (\<And>e. d = DeletedDelta e \<Longrightarrow> fold apply_delta ds x \<noteq> None \<or> ds \<noteq> [])
      \<Longrightarrow> valid_deltas (dedupDeltas (ds @ [d])) x"
    by blast+
qed

definition deltas_at :: "delta_fifo \<Rightarrow> string \<Rightarrow> deltas" where
  "deltas_at f k = (case gm_get (df_items f) k of None \<Rightarrow> [] | Some ds \<Rightarrow> ds)"

text \<open>The cache once everything that is queued has been processed.\<close>

definition pending :: "delta_fifo \<Rightarrow> resource thread_safe_map \<Rightarrow> string \<Rightarrow> resource option" where
  "pending f t k = fold apply_delta (deltas_at f k) (gm_get (tm_items t) k)"

definition fifo_inv :: "delta_fifo \<Rightarrow> bool" where
  "fifo_inv f \<longleftrightarrow> gm_wf (df_items f) \<and> distinct (df_queue f) \<and> set (df_queue f) = dom (map_of (df_items f))
     \<and> (\<forall>k ds. gm_get (df_items f) k = Some ds \<longrightarrow> ds \<noteq> [] \<and> (\<forall>d \<in> set ds. KeyOf d = Some k))"

definition queue_inv :: "delta_fifo \<Rightarrow> resource thread_safe_map \<Rightarrow> bool" where
  "queue_inv f t \<longleftrightarrow> fifo_inv f \<and> cache_inv t \<and> (\<forall>k. valid_deltas (deltas_at f k) (gm_get (tm_items t) k))"

lemma fifo_inv_populated [simp]:
  "fifo_inv (f\<lparr>df_populated := b\<rparr>) = fifo_inv f"
  "fifo_inv (f\<lparr>df_populated := b, df_initialPopulationCount := n\<rparr>) = fifo_inv f"
  "deltas_at (f\<lparr>df_populated := b\<rparr>) = deltas_at f"
  "deltas_at (f\<lparr>df_populated := b, df_initialPopulationCount := n\<rparr>) = deltas_at f"
  "queue_inv (f\<lparr>df_populated := b\<rparr>) t = queue_inv f t"
  "queue_inv (f\<lparr>df_populated := b, df_initialPopulationCount := n\<rparr>) t = queue_inv f t"
  "pending (f\<lparr>df_populated := b\<rparr>) t = pending f t"
  "pending (f\<lparr>df_populated := b, df_initialPopulationCount := n\<rparr>) t = pending f t"
  by (simp_all add: fifo_inv_def deltas_at_def queue_inv_def pending_def fun_eq_iff)

lemma deltas_at_Nil: "fifo_inv f \<Longrightarrow> deltas_at f k = [] \<longleftrightarrow> gm_get (df_items f) k = None"
  by (auto simp: deltas_at_def fifo_inv_def split: option.split)

text \<open>One action: never an error, one key changes, and only as the delta says.\<close>

lemma queueActionLocked_ok:
  assumes "queue_inv f t" and "KeyOf d = Some key"
    and "\<And>e. d = DeletedDelta e \<Longrightarrow> pending f t key \<noteq> None \<or> gm_get (df_items f) key \<noteq> None"
  obtains f' where "queueActionLocked d f = (False, f')" "queue_inv f' t"
    "\<And>k. pending f' t k = (if k = key then apply_delta d (pending f t key) else pending f t k)"
    "\<And>k. gm_get (df_items f') k = None \<longleftrightarrow> k \<noteq> key \<and> gm_get (df_items f) k = None"
    "\<And>k. deltas_at f' k = (if k = key then dedupDeltas (deltas_at f key @ [d]) else deltas_at f k)"
proof -
  let ?ds = "deltas_at f key"
  let ?new = "dedupDeltas (?ds @ [d])"
  let ?f = "f\<lparr>df_queue := (if gm_get (df_items f) key = None then df_queue f @ [key] else df_queue f),
      df_items := gm_set key ?new (df_items f)\<rparr>"
  have inv: "fifo_inv f" "cache_inv t" "\<And>k. valid_deltas (deltas_at f k) (gm_get (tm_items t) k)"
    using assms(1) by (simp_all add: queue_inv_def)
  have at: "deltas_at ?f j = (if j = key then ?new else deltas_at f j)" for j
    by (simp add: deltas_at_def gm_get_set)
  have dom: "dom (map_of (df_items ?f)) = insert key (dom (map_of (df_items f)))"
    by (simp add: gm_get_set_fun)
  have keys: "\<forall>e \<in> set ?ds. KeyOf e = Some key"
    using inv(1) by (auto simp: fifo_inv_def deltas_at_def split: option.split)
  have new: "\<forall>e \<in> set ?new. KeyOf e = Some key" using keys assms(2) dedup_append(3) [of ?ds d] by blast
  have "fifo_inv ?f"
    unfolding fifo_inv_def
  proof (intro conjI allI impI)
    show "gm_wf (df_items ?f)" using inv(1) by (simp add: fifo_inv_def gm_wf_set)
    show "distinct (df_queue ?f)" using inv(1) by (auto simp: fifo_inv_def)
    show "set (df_queue ?f) = dom (map_of (df_items ?f))" unfolding dom using inv(1) by (auto simp: fifo_inv_def)
    fix k ds assume "gm_get (df_items ?f) k = Some ds"
    then show "ds \<noteq> []" "\<forall>e \<in> set ds. KeyOf e = Some k"
      using inv(1) new dedup_append(1) [of ?ds d] by (auto simp: fifo_inv_def gm_get_set split: if_splits)
  qed
  moreover have "valid_deltas (deltas_at ?f j) (gm_get (tm_items t) j)" for j
  proof (cases "j = key")
    case True
    have "valid_deltas ?new (gm_get (tm_items t) key)"
      using inv(3) by (rule dedup_append(4)) (use assms(3) deltas_at_Nil [OF inv(1)] in \<open>auto simp: pending_def\<close>)
    then show ?thesis by (simp add: at True)
  next
    case False
    then show ?thesis using inv(3) by (simp add: at)
  qed
  ultimately have "queue_inv ?f t" using inv(2) by (simp add: queue_inv_def)
  moreover have "queueActionLocked d f = (False, ?f)"
    using assms(2) dedup_append(1) [of ?ds d] by (simp add: queueActionLocked_def deltas_at_def Let_def)
  moreover have "pending ?f t k = (if k = key then apply_delta d (pending f t key) else pending f t k)" for k
    by (simp add: pending_def at dedup_append(2))
  moreover have "gm_get (df_items ?f) k = None \<longleftrightarrow> k \<noteq> key \<and> gm_get (df_items f) k = None" for k
    by (simp add: gm_get_set)
  ultimately show thesis using at that by blast
qed

text \<open>The deltas that are queued, but for tombstones.\<close>

definition live :: "delta_fifo \<Rightarrow> delta set" where
  "live f = {d. (\<exists>k. d \<in> set (deltas_at f k)) \<and> (\<forall>key obj. d \<noteq> DeletedDelta (Tombstone key obj))}"

definition puts :: "resource list \<Rightarrow> delta set" where
  "puts objs = {d. \<exists>tp obj. d = PutDelta tp obj \<and> obj \<in> set objs}"

lemma live_populated [simp]:
  "live (f\<lparr>df_populated := b\<rparr>) = live f" "live (f\<lparr>df_populated := b, df_initialPopulationCount := n\<rparr>) = live f"
  by (simp_all add: live_def)

lemma live_action:
  assumes "\<And>k. deltas_at f' k = (if k = key then dedupDeltas (deltas_at f key @ [d]) else deltas_at f k)"
  shows "live f' \<subseteq> insert d (live f)" and "d = DeletedDelta (Tombstone j obj) \<Longrightarrow> live f' \<subseteq> live f"
proof -
  have "e \<in> insert d (set (deltas_at f k))" if "e \<in> set (deltas_at f' k)" for e k
    using that unfolding assms(1) using dedup_append(3) [of "deltas_at f key" d] by (auto split: if_splits)
  then show "live f' \<subseteq> insert d (live f)" "d = DeletedDelta (Tombstone j obj) \<Longrightarrow> live f' \<subseteq> live f"
    unfolding live_def by blast+
qed

lemma fold_put_keys:
  "k \<in> rkey ` set objs \<Longrightarrow> fold put_resource objs M k = fold put_resource objs M' k"
  "k \<notin> rkey ` set objs \<Longrightarrow> fold put_resource objs M k = M k"
proof (induction objs arbitrary: M M')
  case (Cons q objs)
  { case 1
    show ?case
    proof (cases "k \<in> rkey ` set objs")
      case True
      then show ?thesis unfolding fold_simps by (rule Cons.IH(1))
    next
      case False
      with 1 have "k = rkey q" by simp
      with False show ?thesis unfolding fold_simps Cons.IH(2) [OF False] by simp
    qed }
  { case 2
    then have "k \<notin> rkey ` set objs" "k \<noteq> rkey q" by simp_all
    then show ?case unfolding fold_simps Cons.IH(2) [OF \<open>k \<notin> rkey ` set objs\<close>] by simp }
qed simp_all

lemma fold_put_present: "k \<in> rkey ` set objs \<Longrightarrow> \<exists>q. fold put_resource objs M k = Some q"
proof (induction objs arbitrary: M)
  case (Cons q objs)
  show ?case
  proof (cases "k \<in> rkey ` set objs")
    case True
    then show ?thesis unfolding fold_simps by (rule Cons.IH)
  next
    case False
    then have "k = rkey q" using Cons.prems by simp
    then show ?thesis unfolding fold_simps fold_put_keys(2) [OF False] by simp
  qed
qed simp

lemma fold_put_cong: "(\<And>k. M k = M' k) \<Longrightarrow> fold put_resource objs M k = fold put_resource objs M' k"
  by (metis ext)

lemma queue_listed_ok:
  assumes "queue_inv f t"
  shows "\<exists>ks' f'. queue_listed action objs ks f = (Some ks', f') \<and> queue_inv f' t \<and> live f' \<subseteq> live f \<union> puts objs
    \<and> set ks' = set ks \<union> rkey ` set objs
    \<and> (\<forall>k. pending f' t k = fold put_resource objs (pending f t) k)
    \<and> (\<forall>k. gm_get (df_items f) k \<noteq> None \<longrightarrow> gm_get (df_items f') k \<noteq> None)"
  using assms
proof (induction objs arbitrary: ks f)
  case (Cons obj objs)
  obtain f1 where f1: "queueActionLocked (PutDelta action obj) f = (False, f1)" "queue_inv f1 t"
    "\<And>k. pending f1 t k = (if k = rkey obj then apply_delta (PutDelta action obj) (pending f t (rkey obj)) else pending f t k)"
    "\<And>k. gm_get (df_items f1) k = None \<longleftrightarrow> k \<noteq> rkey obj \<and> gm_get (df_items f) k = None"
    "\<And>k. deltas_at f1 k = (if k = rkey obj then dedupDeltas (deltas_at f (rkey obj) @ [PutDelta action obj]) else deltas_at f k)"
    by (rule queueActionLocked_ok [OF Cons.prems KeyOf_put [of action obj]]) simp_all
  have p: "pending f1 t k = put_resource obj (pending f t) k" for k by (simp add: f1(3))
  from Cons.IH [OF f1(2), of "List.insert (rkey obj) ks"] obtain ks' f' where
    r: "queue_listed action objs (List.insert (rkey obj) ks) f1 = (Some ks', f')" "queue_inv f' t"
    "set ks' = set (List.insert (rkey obj) ks) \<union> rkey ` set objs"
    "\<And>k. pending f' t k = fold put_resource objs (pending f1 t) k"
    "\<And>k. gm_get (df_items f1) k \<noteq> None \<Longrightarrow> gm_get (df_items f') k \<noteq> None" "live f' \<subseteq> live f1 \<union> puts objs"
    by blast
  have "live f1 \<subseteq> insert (PutDelta action obj) (live f)" by (rule live_action(1) [OF f1(5)])
  moreover have "puts objs \<subseteq> puts (obj # objs)" "PutDelta action obj \<in> puts (obj # objs)" by (auto simp: puts_def)
  ultimately have v: "live f' \<subseteq> live f \<union> puts (obj # objs)" using r(6) by blast
  have "queue_listed action (obj # objs) ks f = (Some ks', f')"
    using f1(1) r(1) by (simp add: resource_key_eq)
  moreover have "pending f' t k = fold put_resource (obj # objs) (pending f t) k" for k
    unfolding r(4) fold_simps by (rule fold_put_cong) (rule p)
  moreover have "set ks' = set ks \<union> rkey ` set (obj # objs)" using r(3) by auto
  moreover have "gm_get (df_items f') k \<noteq> None" if "gm_get (df_items f) k \<noteq> None" for k
    using r(5) [of k] f1(4) [of k] that by simp
  ultimately show ?case using r(2) v by blast
qed simp

lemma delete_queued_ok:
  assumes "queue_inv f t" and "gm_wf items" and "\<forall>k \<in> fst ` set items. gm_get (df_items f) k \<noteq> None"
  shows "\<exists>n' f'. delete_queued ks items n f = (Some n', f') \<and> queue_inv f' t \<and> live f' \<subseteq> live f
    \<and> (\<forall>k. pending f' t k = (if k \<in> fst ` set items \<and> k \<notin> set ks then None else pending f t k))
    \<and> (\<forall>k. gm_get (df_items f') k = None \<longleftrightarrow> gm_get (df_items f) k = None)"
  using assms
proof (induction items arbitrary: n f)
  case (Cons e items)
  obtain key ds where e: "e = (key, ds)" by fastforce
  have rest: "gm_wf items" "key \<notin> fst ` set items" "gm_get (df_items f) key \<noteq> None"
    "\<forall>k \<in> fst ` set items. gm_get (df_items f) k \<noteq> None"
    using Cons.prems(2,3) by (auto simp: e)
  show ?case
  proof (cases "key \<in> set ks")
    case True
    then have "delete_queued ks (e # items) n f = delete_queued ks items n f" by (simp add: e)
    moreover have "k \<in> fst ` set (e # items) \<and> k \<notin> set ks \<longleftrightarrow> k \<in> fst ` set items \<and> k \<notin> set ks" for k
      using True by (auto simp: e)
    ultimately show ?thesis using Cons.IH [OF Cons.prems(1) rest(1,4), of n] by presburger
  next
    case False
    let ?d = "DeletedDelta (Tombstone key (newest_object ds))"
    obtain f1 where f1: "queueActionLocked ?d f = (False, f1)" "queue_inv f1 t"
      "\<And>k. pending f1 t k = (if k = key then apply_delta ?d (pending f t key) else pending f t k)"
      "\<And>k. gm_get (df_items f1) k = None \<longleftrightarrow> k \<noteq> key \<and> gm_get (df_items f) k = None"
      "\<And>k. deltas_at f1 k = (if k = key then dedupDeltas (deltas_at f key @ [?d]) else deltas_at f k)"
      by (rule queueActionLocked_ok [OF Cons.prems(1), of ?d key]) (use rest(3) in simp_all)
    have g: "gm_get (df_items f1) k = None \<longleftrightarrow> gm_get (df_items f) k = None" for k
      using f1(4) [of k] rest(3) by auto
    then have "\<forall>k \<in> fst ` set items. gm_get (df_items f1) k \<noteq> None" using rest(4) by simp
    with Cons.IH [OF f1(2) rest(1), of "Suc n"] obtain n' f' where r: "delete_queued ks items (Suc n) f1 = (Some n', f')"
      "queue_inv f' t" "\<And>k. gm_get (df_items f') k = None \<longleftrightarrow> gm_get (df_items f) k = None"
      "\<And>k. pending f' t k = (if k \<in> fst ` set items \<and> k \<notin> set ks then None else pending f1 t k)" "live f' \<subseteq> live f1"
      unfolding g by blast
    have "live f1 \<subseteq> live f" by (rule live_action(2) [OF f1(5) refl])
    with r(5) have v: "live f' \<subseteq> live f" by blast
    have "pending f' t k = (if k \<in> fst ` set (e # items) \<and> k \<notin> set ks then None else pending f t k)" for k
      unfolding r(4) f1(3) using False by (auto simp: e)
    moreover have "delete_queued ks (e # items) n f = (Some n', f')" using False f1(1) r(1) by (simp add: e)
    ultimately show ?thesis using r(2,3) v by blast
  qed
qed simp

lemma delete_known_ok:
  assumes "queue_inv f t" and "\<forall>k \<in> set known. gm_get (tm_items t) k \<noteq> None"
  shows "\<exists>n' f'. delete_known t ks known n f = (Some n', f') \<and> queue_inv f' t \<and> live f' \<subseteq> live f
    \<and> (\<forall>k. pending f' t k = (if k \<in> set known \<and> k \<notin> set ks \<and> gm_get (df_items f) k = None then None else pending f t k))"
  using assms
proof (induction known arbitrary: n f)
  case (Cons key known)
  have inv: "fifo_inv f" using Cons.prems(1) by (simp add: queue_inv_def)
  let ?len = "case gm_get (df_items f) key of None \<Rightarrow> 0 | Some ds \<Rightarrow> length ds"
  have len: "?len > 0 \<longleftrightarrow> gm_get (df_items f) key \<noteq> None"
    using inv by (auto simp: fifo_inv_def split: option.split)
  have rest: "gm_get (tm_items t) key \<noteq> None" "\<forall>k \<in> set known. gm_get (tm_items t) k \<noteq> None"
    using Cons.prems(2) by simp_all
  show ?case
  proof (cases "key \<in> set ks \<or> gm_get (df_items f) key \<noteq> None")
    case True
    then have "delete_known t ks (key # known) n f = delete_known t ks known n f"
      unfolding delete_known.simps len by auto
    moreover have "k \<in> set (key # known) \<and> k \<notin> set ks \<and> gm_get (df_items f) k = None
        \<longleftrightarrow> k \<in> set known \<and> k \<notin> set ks \<and> gm_get (df_items f) k = None" for k
      using True by auto
    ultimately show ?thesis using Cons.IH [OF Cons.prems(1) rest(2), of n] by presburger
  next
    case False
    let ?d = "DeletedDelta (Tombstone key (cache_GetByKey key t))"
    have "deltas_at f key = []" using False deltas_at_Nil [OF inv] by simp
    then have m: "pending f t key \<noteq> None" using rest(1) by (simp add: pending_def)
    obtain f1 where f1: "queueActionLocked ?d f = (False, f1)" "queue_inv f1 t"
      "\<And>k. pending f1 t k = (if k = key then apply_delta ?d (pending f t key) else pending f t k)"
      "\<And>k. gm_get (df_items f1) k = None \<longleftrightarrow> k \<noteq> key \<and> gm_get (df_items f) k = None"
      "\<And>k. deltas_at f1 k = (if k = key then dedupDeltas (deltas_at f key @ [?d]) else deltas_at f k)"
      by (rule queueActionLocked_ok [OF Cons.prems(1), of ?d key]) (use m in simp_all)
    from Cons.IH [OF f1(2) rest(2), of "Suc n"] obtain n' f' where
      r: "delete_known t ks known (Suc n) f1 = (Some n', f')" "queue_inv f' t"
      "\<And>k. pending f' t k = (if k \<in> set known \<and> k \<notin> set ks \<and> gm_get (df_items f1) k = None then None else pending f1 t k)"
      "live f' \<subseteq> live f1"
      by blast
    have "live f1 \<subseteq> live f" by (rule live_action(2) [OF f1(5) refl])
    with r(4) have v: "live f' \<subseteq> live f" by blast
    have "pending f' t k = (if k \<in> set (key # known) \<and> k \<notin> set ks \<and> gm_get (df_items f) k = None then None else pending f t k)" for k
      unfolding r(3) f1(3,4) using False by auto
    moreover have "delete_known t ks (key # known) n f = (Some n', f')"
      unfolding delete_known.simps len using False r(1) f1(1) by simp
    ultimately show ?thesis using r(2) v by blast
  qed
qed simp

text \<open>A list replaces everything, in the cache or queued.\<close>

lemma fifo_Replace_ok:
  assumes "queue_inv f t" and "is_order dord" and "is_order iord"
  shows "\<exists>f'. fifo_Replace dord iord t objs f = (False, f') \<and> queue_inv f' t \<and> live f' \<subseteq> live f \<union> puts objs
    \<and> (\<forall>k. pending f' t k = fold put_resource objs Map.empty k)"
proof -
  let ?a = "if df_emitDeltaTypeReplaced f then ReplacedDelta else SyncDelta"
  from queue_listed_ok [OF assms(1), of ?a objs "[]"] obtain ks f1 where
    l: "queue_listed ?a objs [] f = (Some ks, f1)" "queue_inv f1 t" "set ks = rkey ` set objs"
    "\<And>k. pending f1 t k = fold put_resource objs (pending f t) k" "live f1 \<subseteq> live f \<union> puts objs"
    unfolding list.set Un_empty_left by blast
  have i1: "fifo_inv f1" using l(2) by (simp add: queue_inv_def)
  have s: "k \<in> fst ` set (dord (df_items f1)) \<longleftrightarrow> gm_get (df_items f1) k \<noteq> None" for k
    unfolding is_order_set [OF assms(2)] by (metis domIff dom_map_of_conv_image_fst)
  then have qs: "\<forall>k \<in> fst ` set (dord (df_items f1)). gm_get (df_items f1) k \<noteq> None" by blast
  have "gm_wf (dord (df_items f1))" using i1 by (simp add: fifo_inv_def is_order_gm_wf [OF assms(2)])
  from delete_queued_ok [OF l(2) this qs, of ks 0] obtain n f2 where
    q: "delete_queued ks (dord (df_items f1)) 0 f1 = (Some n, f2)" "queue_inv f2 t"
    "\<And>k. pending f2 t k = (if gm_get (df_items f1) k \<noteq> None \<and> k \<notin> set ks then None else pending f1 t k)"
    "\<And>k. gm_get (df_items f2) k = None \<longleftrightarrow> gm_get (df_items f1) k = None" "live f2 \<subseteq> live f1"
    unfolding s by blast
  have known: "k \<in> set (map fst (iord (tm_items t))) \<longleftrightarrow> gm_get (tm_items t) k \<noteq> None" for k
    unfolding set_map is_order_set [OF assms(3)] by (metis domIff dom_map_of_conv_image_fst)
  then have ks: "\<forall>k \<in> set (map fst (iord (tm_items t))). gm_get (tm_items t) k \<noteq> None" by blast
  from delete_known_ok [OF q(2) ks, of ks n] obtain m f3 where
    d: "delete_known t ks (map fst (iord (tm_items t))) n f2 = (Some m, f3)" "queue_inv f3 t"
    "\<And>k. pending f3 t k = (if gm_get (tm_items t) k \<noteq> None \<and> k \<notin> set ks \<and> gm_get (df_items f1) k = None then None
       else pending f2 t k)" "live f3 \<subseteq> live f2"
    unfolding known q(4) by blast
  let ?f = "if df_populated f3 then f3
    else f3\<lparr>df_populated := True, df_initialPopulationCount := length ks + m\<rparr>"
  have "pending f3 t k = fold put_resource objs Map.empty k" for k
  proof (cases "k \<in> rkey ` set objs")
    case True
    then have "pending f3 t k = fold put_resource objs (pending f t) k" by (simp add: l(3,4) q(3) d(3))
    also have "\<dots> = fold put_resource objs Map.empty k" using True by (rule fold_put_keys(1))
    finally show ?thesis .
  next
    case False
    have "pending f2 t k = gm_get (tm_items t) k" if "gm_get (df_items f1) k = None"
      using that fold_put_keys(2) [OF False] deltas_at_Nil [OF i1, of k] q(3) [of k] by (simp add: pending_def)
    then have "pending f3 t k = None" unfolding d(3) q(3) l(3) using False by auto
    then show ?thesis using fold_put_keys(2) [OF False, of Map.empty] by simp
  qed
  then have "pending ?f t k = fold put_resource objs Map.empty k" for k by simp
  moreover have "queue_inv ?f t" using d(2) by simp
  moreover have "live ?f \<subseteq> live f \<union> puts objs" using l(5) q(5) d(4) by auto
  moreover have "fifo_Replace dord iord t objs f = (False, ?f)"
    by (simp add: fifo_Replace_def l(1) q(1) d(1))
  ultimately show ?thesis by blast
qed

section \<open>Taking deltas\<close>

lemma tm_drop:
  assumes "cache_inv t" and "is_order ord"
  shows "\<exists>t'. tm_Delete ord key t = Inr t' \<and> cache_inv t'
    \<and> (\<forall>k. gm_get (tm_items t') k = (if k = key then None else gm_get (tm_items t) k))"
proof -
  obtain t' where t': "tm_Delete ord key t = Inr t'"
    using tm_Delete_total [OF cache_inv_total [OF assms(1)] assms(2)] by blast
  have i: "tm_inv t" using assms(1) by (simp add: cache_inv_def)
  note u = tm_Delete_inv [OF t' assms(2) i]
  have "cache_inv t'" using u assms(1) by (auto simp: cache_inv_def resource_key_eq split: if_splits)
  with t' u show ?thesis by auto
qed

lemma tm_put:
  assumes "cache_inv t" and "is_order ord"
  shows "\<exists>t'. cache_Update resource_key ord obj t = Inr (False, t') \<and> cache_inv t'
    \<and> (\<forall>k. gm_get (tm_items t') k = (if k = rkey obj then Some obj else gm_get (tm_items t) k))"
  using cache_put [OF assms, of obj] by (elim exE conjE) (intro exI conjI, assumption+, simp)

lemma cache_Get_key: "cache_Get resource_key obj t = (False, gm_get (tm_items t) (rkey obj))"
  by (simp add: cache_Get_def resource_key_eq cache_GetByKey_def tm_Get_def)

text \<open>What a handler learns from notifications; \<open>None\<close> when one does not fit what it knows.\<close>

fun learn :: "notification \<Rightarrow> (string \<Rightarrow> resource option) \<Rightarrow> (string \<Rightarrow> resource option) option" where
  "learn (AddNotification obj) M = (if M (rkey obj) = None then Some (M(rkey obj \<mapsto> obj)) else None)"
| "learn (UpdateNotification old obj) M =
     (if M (rkey obj) = Some old then Some (M(rkey obj \<mapsto> obj)) else None)"
| "learn (DeleteNotification d) M =
     (case DeletionHandlingMetaNamespaceKeyFunc d of
        None \<Rightarrow> None
      | Some key \<Rightarrow> if M key \<noteq> None then Some (M(key := None)) else None)"

fun learn_all :: "notification list \<Rightarrow> (string \<Rightarrow> resource option) \<Rightarrow> (string \<Rightarrow> resource option) option" where
  "learn_all [] M = Some M"
| "learn_all (n # ns) M = (case learn n M of None \<Rightarrow> None | Some M \<Rightarrow> learn_all ns M)"

lemma learn_all_append:
  "learn_all (ns @ ms) M = (case learn_all ns M of None \<Rightarrow> None | Some M \<Rightarrow> learn_all ms M)"
  by (induction ns arbitrary: M) (auto split: option.split)

text \<open>Why a notification was sent: the cache before and the deltas that were processed.\<close>

definition puts_in :: "deltas \<Rightarrow> resource set" where
  "puts_in ds = {obj. \<exists>tp. PutDelta tp obj \<in> set ds}"

fun caused :: "(string \<Rightarrow> resource option) \<Rightarrow> deltas \<Rightarrow> notification \<Rightarrow> bool" where
  "caused M ds (AddNotification obj) \<longleftrightarrow> obj \<in> puts_in ds"
| "caused M ds (UpdateNotification old obj) \<longleftrightarrow> obj \<in> puts_in ds \<and> rkey old = rkey obj
     \<and> (M (rkey obj) = Some old \<or> old \<in> puts_in ds)"
| "caused M ds (DeleteNotification d) \<longleftrightarrow> DeletedDelta d \<in> set ds"

lemma caused_later:
  assumes "caused M1 ds n" and "\<And>k obj. M1 k = Some obj \<Longrightarrow> M k = Some obj \<or> obj \<in> puts_in [d]"
  shows "caused M (d # ds) n"
proof (cases n)
  case (UpdateNotification old obj)
  with assms show ?thesis by (auto simp: puts_in_def)
qed (use assms(1) in \<open>auto simp: puts_in_def\<close>)

lemma fold_apply_put: "fold apply_delta ds x = Some obj \<Longrightarrow> x = Some obj \<or> obj \<in> puts_in ds"
proof (induction ds arbitrary: x)
  case (Cons d ds)
  then have "apply_delta d x = Some obj \<or> obj \<in> puts_in ds" by simp
  then show ?case by (cases d) (auto simp: puts_in_def)
qed simp

lemma processDeltas_ok:
  assumes "cache_inv t" and "is_order ord" and "\<forall>d \<in> set ds. KeyOf d = Some key"
    and "valid_deltas ds (gm_get (tm_items t) key)"
  shows "\<exists>ns t'. processDeltas ord ds t = Inr ((ns, False), t') \<and> cache_inv t'
    \<and> (\<forall>k. gm_get (tm_items t') k
        = (if k = key then fold apply_delta ds (gm_get (tm_items t) key) else gm_get (tm_items t) k))
    \<and> learn_all ns (map_of (tm_items t)) = Some (map_of (tm_items t'))
    \<and> (\<forall>n \<in> set ns. caused (map_of (tm_items t)) ds n)"
  using assms
proof (induction ds arbitrary: t)
  case Nil
  then show ?case by simp
next
  case (Cons d ds)
  note prems = Cons.prems
  obtain t1 n where t1: "processDeltas ord (d # ds) t = go_bind (processDeltas ord ds t1)
      (\<lambda>((ns, err), t). Inr ((n # ns, err), t))"
    "cache_inv t1"
    "\<And>k. gm_get (tm_items t1) k = (if k = key then apply_delta d (gm_get (tm_items t) key) else gm_get (tm_items t) k)"
    "learn n (map_of (tm_items t)) = Some (map_of (tm_items t1))"
    "caused (map_of (tm_items t)) (d # ds) n"
  proof (cases d)
    case (PutDelta tp obj)
    have k: "rkey obj = key" using prems(3) by (simp add: PutDelta resource_key_eq)
    obtain t1 where p: "cache_Update resource_key ord obj t = Inr (False, t1)" "cache_inv t1"
      "\<And>k. gm_get (tm_items t1) k = (if k = rkey obj then Some obj else gm_get (tm_items t) k)"
      using tm_put [OF prems(1,2)] by blast
    have m: "map_of (tm_items t1) = (map_of (tm_items t))(key \<mapsto> obj)"
      by (rule ext) (simp add: p(3) k)
    show thesis
    proof (cases "gm_get (tm_items t) key")
      case None
      show thesis
        by (rule that [of t1 "AddNotification obj"])
          (use p None k in \<open>auto simp: PutDelta cache_Get_key cache_Add_Update m puts_in_def\<close>)
    next
      case (Some old)
      then have "rkey old = key" using prems(1) by (auto simp: cache_inv_def resource_key_eq)
      then show thesis
        by (intro that [of t1 "UpdateNotification old obj"])
          (use p Some k in \<open>auto simp: PutDelta cache_Get_key m puts_in_def\<close>)
    qed
  next
    case (DeletedDelta e)
    have k: "DeletionHandlingMetaNamespaceKeyFunc e = Some key" using prems(3) by (simp add: DeletedDelta)
    obtain t1 where p: "tm_Delete ord key t = Inr t1" "cache_inv t1"
      "\<And>k. gm_get (tm_items t1) k = (if k = key then None else gm_get (tm_items t) k)"
      using tm_drop [OF prems(1,2)] by blast
    have m: "map_of (tm_items t1) = (map_of (tm_items t))(key := None)"
      by (rule ext) (simp add: p(3))
    have "gm_get (tm_items t) key \<noteq> None" using prems(4) by (simp add: DeletedDelta)
    then show thesis
      by (intro that [of t1 "DeleteNotification e"]) (use p k in \<open>simp_all add: DeletedDelta m\<close>)
  qed
  have "gm_get (tm_items t1) key = apply_delta d (gm_get (tm_items t) key)" by (simp add: t1(3))
  moreover have "valid_deltas ds (apply_delta d (gm_get (tm_items t) key))"
    using prems(4) by (cases d) simp_all
  ultimately have "valid_deltas ds (gm_get (tm_items t1) key)" by simp
  with Cons.IH [OF t1(2) prems(2)] prems(3) obtain ns t' where
    r: "processDeltas ord ds t1 = Inr ((ns, False), t')" "cache_inv t'"
    "\<And>k. gm_get (tm_items t') k
        = (if k = key then fold apply_delta ds (gm_get (tm_items t1) key) else gm_get (tm_items t1) k)"
    "learn_all ns (map_of (tm_items t1)) = Some (map_of (tm_items t'))"
    "\<forall>n \<in> set ns. caused (map_of (tm_items t1)) ds n"
    by (metis list.set_intros(2))
  have "processDeltas ord (d # ds) t = Inr ((n # ns, False), t')" by (simp add: t1(1) r(1))
  moreover have "gm_get (tm_items t') k
      = (if k = key then fold apply_delta (d # ds) (gm_get (tm_items t) key) else gm_get (tm_items t) k)" for k
    by (simp add: r(3) t1(3))
  moreover have "learn_all (n # ns) (map_of (tm_items t)) = Some (map_of (tm_items t'))"
    by (simp add: t1(4) r(4))
  moreover have "gm_get (tm_items t) k = Some obj \<or> obj \<in> puts_in [d]"
    if "gm_get (tm_items t1) k = Some obj" for k obj
    using that unfolding t1(3) by (cases d) (auto simp: puts_in_def split: if_splits)
  then have "\<forall>n' \<in> set (n # ns). caused (map_of (tm_items t)) (d # ds) n'"
    using t1(5) r(5) caused_later [of "map_of (tm_items t1)" ds _ "map_of (tm_items t)" d] by auto
  ultimately show ?case using r(2) by blast
qed

lemma Pop_ok:
  assumes "queue_inv f t" and "is_order ord" and "df_queue f \<noteq> []"
  shows "\<exists>ns f' t'. Pop ord f t = Some (Inr ((ns, False), f', t')) \<and> queue_inv f' t'
    \<and> (\<forall>k. pending f' t' k = pending f t k) \<and> length (df_queue f') < length (df_queue f)
    \<and> learn_all ns (map_of (tm_items t)) = Some (map_of (tm_items t'))
    \<and> (\<exists>k. \<forall>n \<in> set ns. caused (map_of (tm_items t)) (deltas_at f k) n)
    \<and> (\<forall>k obj. gm_get (tm_items t') k = Some obj \<longrightarrow> gm_get (tm_items t) k = Some obj \<or> obj \<in> puts_in (deltas_at f k))
    \<and> (\<forall>k. set (deltas_at f' k) \<subseteq> set (deltas_at f k))"
proof -
  obtain key queue where q: "df_queue f = key # queue" using assms(3) by (cases "df_queue f") auto
  have inv: "fifo_inv f" "cache_inv t" "\<And>k. valid_deltas (deltas_at f k) (gm_get (tm_items t) k)"
    using assms(1) by (simp_all add: queue_inv_def)
  have "key \<in> dom (map_of (df_items f))" using inv(1) q by (auto simp: fifo_inv_def)
  then obtain ds where ds: "gm_get (df_items f) key = Some ds" by blast
  let ?f = "f\<lparr>df_queue := queue, df_initialPopulationCount := df_initialPopulationCount f - 1,
    df_items := gm_del key (df_items f)\<rparr>"
  have p: "pop_next (df_queue f) f = Some (ds, ?f)" by (simp add: q ds Let_def)
  have at: "deltas_at f key = ds" "\<And>k. deltas_at ?f k = (if k = key then [] else deltas_at f k)"
    by (simp_all add: deltas_at_def ds gm_get_del)
  have k: "\<forall>d \<in> set ds. KeyOf d = Some key" using inv(1) ds by (auto simp: fifo_inv_def)
  obtain ns t' where r: "processDeltas ord ds t = Inr ((ns, False), t')" "cache_inv t'"
    "\<And>k. gm_get (tm_items t') k
        = (if k = key then fold apply_delta ds (gm_get (tm_items t) key) else gm_get (tm_items t) k)"
    "learn_all ns (map_of (tm_items t)) = Some (map_of (tm_items t'))"
    "\<forall>n \<in> set ns. caused (map_of (tm_items t)) ds n"
    using processDeltas_ok [OF inv(2) assms(2) k] inv(3) [of key] at(1) by metis
  have "fifo_inv ?f"
    using inv(1) q by (auto simp: fifo_inv_def gm_wf_del gm_get_del_fun split: if_splits)
  moreover have "valid_deltas (deltas_at ?f k) (gm_get (tm_items t') k)" for k
    using inv(3) [of k] unfolding at(2) r(3) by simp
  ultimately have "queue_inv ?f t'" using r(2) by (simp add: queue_inv_def)
  moreover have "pending ?f t' k = pending f t k" for k
    unfolding pending_def at(2) r(3) using at(1) by simp
  moreover have "Pop ord f t = Some (Inr ((ns, False), ?f, t'))"
    unfolding Pop_def p by (simp add: r(1))
  moreover have "\<exists>k. \<forall>n \<in> set ns. caused (map_of (tm_items t)) (deltas_at f k) n"
    using r(5) at(1) by blast
  moreover have "gm_get (tm_items t) k = Some obj \<or> obj \<in> puts_in (deltas_at f k)"
    if "gm_get (tm_items t') k = Some obj" for k obj
  proof (cases "k = key")
    case True
    with that r(3) have "fold apply_delta ds (gm_get (tm_items t) k) = Some obj" by simp
    with fold_apply_put True at(1) show ?thesis by blast
  qed (use that r(3) in simp)
  moreover have "set (deltas_at ?f k) \<subseteq> set (deltas_at f k)" for k unfolding at(2) by simp
  moreover have "length (df_queue ?f) < length (df_queue f)" by (simp add: q)
  ultimately show ?thesis using r(4) by blast
qed

end
