(* ===== verification/Informer_Run.thy ===== *)
theory Informer_Run
  imports Delta_Fifo
begin

text \<open>
  The controller's informer at work: its reflector queues what it lists and what it watches
  while its own loop takes deltas, in any order. Whatever the order is, the cache with what is
  still queued is what was reported; the work queue of the controller hears of every resource
  that appears, and of a deletion only when a watch event reported it.
\<close>

section \<open>Runs of the informer\<close>

text \<open>What the reflector reports, and what it adds up to.\<close>

datatype report = Watched watch_type resource | Relisted "resource list"

fun report_effect :: "report \<Rightarrow> (string \<Rightarrow> resource option) \<Rightarrow> string \<Rightarrow> resource option" where
  "report_effect (Watched tp obj) M = (if tp = Deleted then M(rkey obj := None) else M(rkey obj \<mapsto> obj))"
| "report_effect (Relisted objs) M = fold put_resource objs Map.empty"

definition reported :: "report list \<Rightarrow> string \<Rightarrow> resource option" where
  "reported es = fold report_effect es Map.empty"

text \<open>The reflector's calls and those of the informer that takes deltas, in any order.\<close>

inductive informer_run ::
    "report list \<Rightarrow> delta_fifo \<Rightarrow> resource thread_safe_map \<Rightarrow> notification list \<Rightarrow> bool" where
  start: "informer_run [] NewDeltaFIFO informer_cache []"
| added: "informer_run es f t ns \<Longrightarrow> fifo_Add obj f = (err, f')
    \<Longrightarrow> informer_run (es @ [Watched Added obj]) f' t ns"
| modified: "informer_run es f t ns \<Longrightarrow> fifo_Update obj f = (err, f')
    \<Longrightarrow> informer_run (es @ [Watched Modified obj]) f' t ns"
| deleted: "informer_run es f t ns \<Longrightarrow> fifo_Delete t (LiveObject obj) f = (err, f')
    \<Longrightarrow> informer_run (es @ [Watched Deleted obj]) f' t ns"
| relisted: "informer_run es f t ns \<Longrightarrow> is_order dord \<Longrightarrow> is_order iord
    \<Longrightarrow> fifo_Replace dord iord t objs f = (err, f')
    \<Longrightarrow> informer_run (es @ [Relisted objs]) f' t ns"
| popped: "informer_run es f t ns \<Longrightarrow> is_order ord \<Longrightarrow> Pop ord f t = Some (Inr ((ms, err), f', t'))
    \<Longrightarrow> informer_run es f' t' (ns @ ms)"

lemma reported_snoc: "reported (es @ [e]) = report_effect e (reported es)"
  by (simp add: reported_def)

lemma fifo_put_ok:
  assumes "queue_inv f t"
  obtains f' where "queueActionLocked (PutDelta tp obj) (f\<lparr>df_populated := True\<rparr>) = (False, f')" "queue_inv f' t"
    "\<And>k. pending f' t k = (if k = rkey obj then Some obj else pending f t k)" "live f' \<subseteq> insert (PutDelta tp obj) (live f)"
proof -
  let ?f = "f\<lparr>df_populated := True\<rparr>"
  let ?d = "PutDelta tp obj"
  have q: "queue_inv ?f t" using assms by simp
  obtain f' where f': "queueActionLocked ?d ?f = (False, f')" "queue_inv f' t"
    "\<And>k. pending f' t k = (if k = rkey obj then apply_delta ?d (pending ?f t (rkey obj)) else pending ?f t k)"
    "\<And>k. deltas_at f' k = (if k = rkey obj then dedupDeltas (deltas_at ?f (rkey obj) @ [?d]) else deltas_at ?f k)"
    by (rule queueActionLocked_ok [OF q KeyOf_put [of tp obj]]) simp_all
  have "live f' \<subseteq> insert ?d (live ?f)" by (rule live_action(1) [OF f'(4)])
  then show thesis using f' by (intro that) simp_all
qed

lemma fifo_Delete_ok:
  assumes "queue_inv f t"
  obtains f' where "fifo_Delete t (LiveObject obj) f = (False, f')" "queue_inv f' t"
    "\<And>k. pending f' t k = (if k = rkey obj then None else pending f t k)"
    "\<And>k. set (deltas_at f' k) \<subseteq> insert (DeletedDelta (LiveObject obj)) (set (deltas_at f k))"
proof (cases "gm_get (tm_items t) (rkey obj) = None \<and> gm_get (df_items f) (rkey obj) = None")
  case True
  have "fifo_inv f" using assms by (simp add: queue_inv_def)
  with True have "pending f t (rkey obj) = None" using deltas_at_Nil [of f "rkey obj"] by (simp add: pending_def)
  with True assms show thesis
    by (intro that [of "f\<lparr>df_populated := True\<rparr>"])
      (auto simp: fifo_Delete_def resource_key_eq cache_GetByKey_def tm_Get_def)
next
  case False
  let ?f = "f\<lparr>df_populated := True\<rparr>"
  let ?d = "DeletedDelta (LiveObject obj)"
  have k: "KeyOf ?d = Some (rkey obj)" by (simp add: resource_key_eq)
  have i: "fifo_inv f" using assms by (simp add: queue_inv_def)
  have m: "pending ?f t (rkey obj) \<noteq> None \<or> gm_get (df_items ?f) (rkey obj) \<noteq> None"
    using False deltas_at_Nil [OF i, of "rkey obj"] by (cases "gm_get (df_items f) (rkey obj)") (simp_all add: pending_def)
  have q: "queue_inv ?f t" using assms by simp
  obtain f' where f': "queueActionLocked ?d ?f = (False, f')" "queue_inv f' t"
    "\<And>k. pending f' t k = (if k = rkey obj then apply_delta ?d (pending ?f t (rkey obj)) else pending ?f t k)"
    "\<And>k. deltas_at f' k = (if k = rkey obj then dedupDeltas (deltas_at ?f (rkey obj) @ [?d]) else deltas_at ?f k)"
    by (rule queueActionLocked_ok [OF q k]) (use m in simp_all)
  have "fifo_Delete t (LiveObject obj) f = (False, f')"
    using False f'(1) by (auto simp: fifo_Delete_def resource_key_eq cache_GetByKey_def tm_Get_def)
  moreover have "set (deltas_at f' k) \<subseteq> insert ?d (set (deltas_at f k))" for k
    using dedup_append(3) [of "deltas_at f (rkey obj)" ?d] by (auto simp: f'(4))
  moreover have "pending f' t k = (if k = rkey obj then None else pending f t k)" for k
    unfolding f'(3) by simp
  ultimately show thesis using f'(2) by (intro that)
qed

lemma fifo_Delete_live:
  assumes "queue_inv f t" and "fifo_Delete t (LiveObject obj) f = (err, f')"
  shows "live f' \<subseteq> insert (DeletedDelta (LiveObject obj)) (live f)"
proof -
  obtain f1 where f1: "fifo_Delete t (LiveObject obj) f = (False, f1)"
    "\<And>k. set (deltas_at f1 k) \<subseteq> insert (DeletedDelta (LiveObject obj)) (set (deltas_at f k))"
    using fifo_Delete_ok [OF assms(1), of obj] by metis
  from f1(1) assms(2) have "f' = f1" by simp
  with f1(2) show ?thesis by (fastforce simp: live_def)
qed

text \<open>The resources that were reported to be there, and what follows from what was reported.\<close>

definition mentioned :: "report list \<Rightarrow> resource set" where
  "mentioned es = {obj. (\<exists>tp. tp \<noteq> Deleted \<and> Watched tp obj \<in> set es) \<or> (\<exists>objs. Relisted objs \<in> set es \<and> obj \<in> set objs)}"

fun sourced :: "report list \<Rightarrow> delta \<Rightarrow> bool" where
  "sourced es (PutDelta tp obj) \<longleftrightarrow> obj \<in> mentioned es"
| "sourced es (DeletedDelta (LiveObject obj)) \<longleftrightarrow> Watched Deleted obj \<in> set es"
| "sourced es (DeletedDelta (Tombstone key obj)) \<longleftrightarrow> True"

fun explained :: "report list \<Rightarrow> notification \<Rightarrow> bool" where
  "explained es (AddNotification obj) \<longleftrightarrow> obj \<in> mentioned es"
| "explained es (UpdateNotification old obj) \<longleftrightarrow> old \<in> mentioned es \<and> obj \<in> mentioned es \<and> rkey old = rkey obj"
| "explained es (DeleteNotification (LiveObject obj)) \<longleftrightarrow> Watched Deleted obj \<in> set es"
| "explained es (DeleteNotification (Tombstone key obj)) \<longleftrightarrow> True"

lemma mentioned_snoc:
  "mentioned (es @ [Relisted objs]) = mentioned es \<union> set objs"
  "mentioned (es @ [Watched tp obj]) = (if tp = Deleted then mentioned es else insert obj (mentioned es))"
  by (auto simp: mentioned_def)

lemma sourced_snoc: "sourced es d \<Longrightarrow> sourced (es @ [e]) d"
  by (induction es d rule: sourced.induct) (auto simp: mentioned_def)

lemma explained_snoc: "explained es n \<Longrightarrow> explained (es @ [e]) n"
  by (induction es n rule: explained.induct) (auto simp: mentioned_def)

definition accounted :: "report list \<Rightarrow> delta_fifo \<Rightarrow> resource thread_safe_map \<Rightarrow> notification list \<Rightarrow> bool" where
  "accounted es f t ns \<longleftrightarrow> (\<forall>d \<in> live f. sourced es d)
     \<and> (\<forall>k obj. gm_get (tm_items t) k = Some obj \<longrightarrow> obj \<in> mentioned es) \<and> (\<forall>n \<in> set ns. explained es n)"

lemma accounted_report:
  assumes "accounted es f t ns" and "live f' \<subseteq> live f \<union> new" and "\<forall>d \<in> new. sourced (es @ [e]) d"
  shows "accounted (es @ [e]) f' t ns"
proof -
  have "obj \<in> mentioned (es @ [e])" if "obj \<in> mentioned es" for obj using that by (auto simp: mentioned_def)
  with assms show ?thesis using sourced_snoc explained_snoc unfolding accounted_def by blast
qed

definition run_inv :: "report list \<Rightarrow> delta_fifo \<Rightarrow> resource thread_safe_map \<Rightarrow> notification list \<Rightarrow> bool" where
  "run_inv es f t ns \<longleftrightarrow> queue_inv f t \<and> (\<forall>k. pending f t k = reported es k)
     \<and> learn_all ns Map.empty = Some (map_of (tm_items t)) \<and> accounted es f t ns"

lemma run_put:
  assumes "run_inv es f t ns" and "queueActionLocked (PutDelta p obj) (f\<lparr>df_populated := True\<rparr>) = (err, f')" and "tp \<noteq> Deleted"
  shows "run_inv (es @ [Watched tp obj]) f' t ns"
proof -
  have q: "queue_inv f t" using assms(1) by (simp add: run_inv_def)
  obtain f1 where f1: "queueActionLocked (PutDelta p obj) (f\<lparr>df_populated := True\<rparr>) = (False, f1)" "queue_inv f1 t"
    "\<And>k. pending f1 t k = (if k = rkey obj then Some obj else pending f t k)" "live f1 \<subseteq> insert (PutDelta p obj) (live f)"
    using fifo_put_ok [OF q, of p obj] by metis
  have e: "f' = f1" using f1(1) assms(2) by simp
  have "accounted (es @ [Watched tp obj]) f1 t ns"
    by (rule accounted_report [where new = "{PutDelta p obj}"])
      (use assms(1,3) f1(4) in \<open>auto simp: run_inv_def mentioned_snoc\<close>)
  with e f1(2,3) assms(1,3) show ?thesis by (simp add: run_inv_def reported_snoc)
qed

lemma informer_run_inv: "informer_run es f t ns \<Longrightarrow> run_inv es f t ns"
proof (induction rule: informer_run.induct)
  case start
  have e: "tm_items informer_cache = []" by (simp add: informer_cache_def NewIndexer_def NewThreadSafeStore_def)
  have "fifo_inv NewDeltaFIFO" "deltas_at NewDeltaFIFO k = []" for k
    by (simp_all add: fifo_inv_def NewDeltaFIFO_def deltas_at_def)
  then show ?case using informer_cache_inv
    by (auto simp: run_inv_def queue_inv_def pending_def e reported_def live_def accounted_def)
next
  case (added es f t ns obj err f')
  from added(3,2) show ?case unfolding fifo_Add_def by (rule run_put) simp
next
  case (modified es f t ns obj err f')
  from modified(3,2) show ?case unfolding fifo_Update_def by (rule run_put) simp
next
  case (deleted es f t ns obj err f')
  have q: "queue_inv f t" using deleted(3) by (simp add: run_inv_def)
  obtain f1 where f1: "fifo_Delete t (LiveObject obj) f = (False, f1)" "queue_inv f1 t"
    "\<And>k. pending f1 t k = (if k = rkey obj then None else pending f t k)"
    using fifo_Delete_ok [OF q, of obj] by metis
  have e: "f' = f1" using f1(1) deleted(2) by simp
  have "accounted (es @ [Watched Deleted obj]) f' t ns"
    by (rule accounted_report [where new = "{DeletedDelta (LiveObject obj)}"])
      (use deleted(3) fifo_Delete_live [OF q deleted(2)] in \<open>auto simp: run_inv_def\<close>)
  with e f1 deleted(3) show ?case by (simp add: run_inv_def reported_snoc)
next
  case (relisted es f t ns dord iord objs err f')
  have "queue_inv f t" using relisted(5) by (simp add: run_inv_def)
  from fifo_Replace_ok [OF this relisted(2,3), of objs] obtain f1 where
    f1: "fifo_Replace dord iord t objs f = (False, f1)" "queue_inv f1 t" "live f1 \<subseteq> live f \<union> puts objs"
    "\<And>k. pending f1 t k = fold put_resource objs Map.empty k"
    by blast
  have e: "f' = f1" using f1(1) relisted(4) by simp
  have "\<forall>d \<in> puts objs. sourced (es @ [Relisted objs]) d" by (auto simp: puts_def mentioned_snoc)
  with relisted(5) f1(3) have "accounted (es @ [Relisted objs]) f1 t ns"
    unfolding run_inv_def by (blast intro: accounted_report)
  with e f1 relisted(5) show ?case by (simp add: run_inv_def reported_snoc)
next
  case (popped es f t ns ord ms err f' t')
  have "queue_inv f t" using popped(4) by (simp add: run_inv_def)
  moreover have "df_queue f \<noteq> []" using popped(3) by (auto simp: Pop_def)
  ultimately obtain ms1 f1 t1 k where p: "Pop ord f t = Some (Inr ((ms1, False), f1, t1))" "queue_inv f1 t1"
    "\<And>k. pending f1 t1 k = pending f t k" "learn_all ms1 (map_of (tm_items t)) = Some (map_of (tm_items t1))"
    "\<forall>n \<in> set ms1. caused (map_of (tm_items t)) (deltas_at f k) n"
    "\<And>k. set (deltas_at f1 k) \<subseteq> set (deltas_at f k)"
    "\<And>k obj. gm_get (tm_items t1) k = Some obj \<Longrightarrow> gm_get (tm_items t) k = Some obj \<or> obj \<in> puts_in (deltas_at f k)"
    using Pop_ok [OF _ popped(2)] by blast
  have e: "f' = f1" "t' = t1" "ms = ms1" using p(1) popped(3) by simp_all
  have acc: "\<And>d. d \<in> live f \<Longrightarrow> sourced es d" "\<And>k obj. gm_get (tm_items t) k = Some obj \<Longrightarrow> obj \<in> mentioned es"
    "\<forall>n \<in> set ns. explained es n"
    using popped(4) by (simp_all add: run_inv_def accounted_def)
  have put: "obj \<in> mentioned es" if "obj \<in> puts_in (deltas_at f j)" for obj j
    using that acc(1) [of "PutDelta _ obj"] by (fastforce simp: puts_in_def live_def)
  have "live f1 \<subseteq> live f" using p(6) by (auto simp: live_def)
  moreover have "obj \<in> mentioned es" if "gm_get (tm_items t1) j = Some obj" for j obj
    using p(7) [OF that] acc(2) put by blast
  moreover have "explained es n" if n: "n \<in> set ms1" for n
  proof -
    have c: "caused (map_of (tm_items t)) (deltas_at f k) n" using p(5) n by blast
    show ?thesis
    proof (cases n)
      case (DeleteNotification d)
      with c have "DeletedDelta d \<in> set (deltas_at f k)" by simp
      then show ?thesis using acc(1) [of "DeletedDelta d"] DeleteNotification
        by (cases d) (auto simp: live_def)
    qed (use c put acc(2) in auto)
  qed
  ultimately have "accounted es f1 t1 (ns @ ms1)" using acc unfolding accounted_def by auto
  moreover have "learn_all (ns @ ms1) Map.empty = Some (map_of (tm_items t1))"
    using popped(4) p(4) by (simp add: run_inv_def learn_all_append)
  ultimately show ?case using popped(4) p(2,3) unfolding run_inv_def e by auto
qed

section \<open>Properties\<close>

lemma drained_cache:
  assumes "informer_run es f t ns" and "df_queue f = []"
  shows "map_of (tm_items t) = reported es"
proof
  fix k
  have inv: "run_inv es f t ns" using assms(1) by (rule informer_run_inv)
  then have f: "fifo_inv f" by (simp add: run_inv_def queue_inv_def)
  then have "gm_get (df_items f) k = None" using assms(2) by (auto simp: fifo_inv_def)
  with f have "deltas_at f k = []" using deltas_at_Nil by blast
  moreover have "pending f t k = reported es k" using inv by (simp add: run_inv_def)
  ultimately show "gm_get (tm_items t) k = reported es k" by (simp add: pending_def)
qed

text \<open>C9: the informer keeps up with what is reported to it: however calls of its reflector and of
  its own loop alternate, taking deltas never blocks or panics while there are any, reports no
  error and brings the queue closer to its end, and once nothing is queued the cache holds
  exactly what the lists and watch events add up to; the handler was notified of every change
  of the cache, each with the object it knew.\<close>

theorem informer_keeps_up:
  assumes "informer_run es f t ns" and "is_order ord"
  shows "(df_queue f \<noteq> [] \<longrightarrow> (\<exists>ms f' t'. Pop ord f t = Some (Inr ((ms, False), f', t'))
      \<and> length (df_queue f') < length (df_queue f)))
    \<and> (df_queue f = [] \<longrightarrow> map_of (tm_items t) = reported es)
    \<and> learn_all ns Map.empty = Some (map_of (tm_items t))"
proof -
  have inv: "run_inv es f t ns" using assms(1) by (rule informer_run_inv)
  then have q: "queue_inv f t" by (simp add: run_inv_def)
  show ?thesis using inv Pop_ok [OF q assms(2)] drained_cache [OF assms(1)] unfolding run_inv_def by blast
qed

lemma informer_catches_up:
  "informer_run es f t ns \<Longrightarrow> \<exists>f' t' ns'. informer_run es f' t' ns' \<and> df_queue f' = []"
proof (induction "length (df_queue f)" arbitrary: f t ns rule: less_induct)
  case less
  show ?case
  proof (cases "df_queue f = []")
    case False
    then obtain ms f' t' where p: "Pop (\<lambda>m. m) f t = Some (Inr ((ms, False), f', t'))"
      "length (df_queue f') < length (df_queue f)"
      using Pop_ok [OF _ is_order_id False, of t] informer_run_inv [OF less(2)] by (auto simp: run_inv_def)
    from less(1) [OF p(2) informer_run.popped [OF less(2) is_order_id p(1)]] show ?thesis .
  qed (use less in blast)
qed

fun handled_report :: "report \<Rightarrow> bool" where
  "handled_report (Watched tp obj) \<longleftrightarrow> tp = Added \<or> tp = Modified \<or> tp = Deleted"
| "handled_report (Relisted objs) \<longleftrightarrow> True"

lemma any_reports: "\<forall>e \<in> set es. handled_report e \<Longrightarrow> \<exists>f t ns. informer_run es f t ns"
proof (induction es rule: rev_induct)
  case Nil
  then show ?case using informer_run.start by blast
next
  case (snoc e es)
  then obtain f t ns where run: "informer_run es f t ns" by auto
  show ?case
  proof (cases e)
    case (Relisted objs)
    obtain err f' where "fifo_Replace (\<lambda>m. m) (\<lambda>m. m) t objs f = (err, f')" by fastforce
    from informer_run.relisted [OF run is_order_id is_order_id this] show ?thesis unfolding Relisted by blast
  next
    case (Watched tp obj)
    obtain e1 f1 e2 f2 e3 f3 where "fifo_Add obj f = (e1, f1)" "fifo_Update obj f = (e2, f2)"
      "fifo_Delete t (LiveObject obj) f = (e3, f3)" by (meson surj_pair)
    moreover have "tp = Added \<or> tp = Modified \<or> tp = Deleted" using snoc.prems by (simp add: Watched)
    ultimately show ?thesis unfolding Watched using run by (blast intro: informer_run.intros)
  qed
qed

lemma drained_run:
  assumes "\<forall>e \<in> set es. handled_report e"
  obtains f t ns where "informer_run es f t ns" "df_queue f = []"
  using any_reports [OF assms] informer_catches_up by metis

text \<open>A run for the examples: a resource is listed and its delta taken.\<close>

lemma sample_run:
  obtains t where "informer_run [Relisted [sample_resource]] (NewDeltaFIFO\<lparr>df_populated := True\<rparr>) t
      [AddNotification sample_resource]"
    "map_of (tm_items t) = [rkey sample_resource \<mapsto> sample_resource]"
proof -
  let ?r = sample_resource
  have e: "tm_items informer_cache = []" by (simp add: informer_cache_def NewIndexer_def NewThreadSafeStore_def)
  let ?f = "NewDeltaFIFO\<lparr>df_queue := [rkey ?r], df_items := [(rkey ?r, [PutDelta ReplacedDelta ?r])],
    df_populated := True, df_initialPopulationCount := 1\<rparr>"
  have "fifo_Replace (\<lambda>m. m) (\<lambda>m. m) informer_cache [?r] NewDeltaFIFO = (False, ?f)"
    by (simp add: fifo_Replace_def NewDeltaFIFO_def resource_key_eq queueActionLocked_def dedup_one e Let_def)
  with informer_run.start have r1: "informer_run ([] @ [Relisted [?r]]) ?f informer_cache []"
    by (rule informer_run.relisted [OF _ is_order_id is_order_id])
  obtain t where t: "cache_Update resource_key (\<lambda>m. m) ?r informer_cache = Inr (False, t)"
    "map_of (tm_items t) = (map_of (tm_items informer_cache))(rkey ?r \<mapsto> ?r)"
    using cache_put [OF informer_cache_inv is_order_id] by blast
  have "Pop (\<lambda>m. m) ?f informer_cache = Some (Inr (([AddNotification ?r], False), NewDeltaFIFO\<lparr>df_populated := True\<rparr>, t))"
    by (simp add: Pop_def NewDeltaFIFO_def cache_Get_key e cache_Add_Update t(1))
  with r1 have "informer_run ([] @ [Relisted [?r]]) (NewDeltaFIFO\<lparr>df_populated := True\<rparr>) t ([] @ [AddNotification ?r])"
    by (rule informer_run.popped [OF _ is_order_id])
  moreover have "map_of (tm_items t) = [rkey ?r \<mapsto> ?r]" using t(2) by (simp only: e map_of.simps)
  ultimately show thesis by (intro that) simp_all
qed

theorem informer_keeps_up_witness:
  "\<exists>f t ns. informer_run [Relisted [sample_resource]] f t ns \<and> reported [Relisted [sample_resource]] = map_of (tm_items t)
    \<and> gm_get (tm_items t) (rkey sample_resource) = Some sample_resource"
proof -
  obtain t where t: "informer_run [Relisted [sample_resource]] (NewDeltaFIFO\<lparr>df_populated := True\<rparr>) t
      [AddNotification sample_resource]"
    "map_of (tm_items t) = [rkey sample_resource \<mapsto> sample_resource]"
    by (rule sample_run)
  from informer_keeps_up [OF t(1) is_order_id] have "map_of (tm_items t) = reported [Relisted [sample_resource]]"
    by (simp add: NewDeltaFIFO_def)
  then have "reported [Relisted [sample_resource]] = map_of (tm_items t)" by (rule sym)
  moreover have "gm_get (tm_items t) (rkey sample_resource) = Some sample_resource" unfolding t(2) by simp
  ultimately show ?thesis using t(1) by blast
qed

section \<open>From the cache to the work queue\<close>

abbreviation dirty :: "work_item rate_queue \<Rightarrow> work_item set" where
  "dirty rq \<equiv> set (wq_dirty (rq_typed rq))"

lemma wq_Add_dirty:
  "\<not> wq_shuttingDown q \<Longrightarrow> set (wq_dirty (wq_Add item q)) = insert item (set (wq_dirty q))
    \<and> \<not> wq_shuttingDown (wq_Add item q)"
  by (auto simp: wq_Add_def Let_def)

lemma listener_run_dirty:
  assumes "\<not> wq_shuttingDown (rq_typed rq)"
  shows "\<not> wq_shuttingDown (rq_typed (listener_run n rq))"
    and "dirty rq \<subseteq> dirty (listener_run n rq)"
    and "n = AddNotification obj \<Longrightarrow> (rkey obj, ''addEvent'') \<in> dirty (listener_run n rq)"
    and "(k, ''deleteEvent'') \<in> dirty (listener_run n rq) \<Longrightarrow> (k, ''deleteEvent'') \<in> dirty rq
      \<or> (\<exists>obj. n = DeleteNotification (LiveObject obj) \<and> k = rkey obj)"
    and "(k, ''updateEvent'') \<in> dirty (listener_run n rq) \<Longrightarrow> (k, ''updateEvent'') \<in> dirty rq
      \<or> (\<exists>old obj. n = UpdateNotification old obj \<and> k = rkey obj \<and> cr_Configuration old \<noteq> cr_Configuration obj)"
proof -
  have key: "MetaNamespaceKeyFunc (InformerResource obj) = Some (rkey obj)" for obj
    using resource_key_eq [of obj] by (simp add: resource_key_def)
  have "listener_run n rq = rq
    \<or> (\<exists>obj e. listener_run n rq = rq\<lparr>rq_typed := wq_Add (rkey obj, eventType_String e) (rq_typed rq)\<rparr>
        \<and> (n = AddNotification obj \<and> e = addEvent \<or> e = updateEvent \<and> (\<exists>old. n = UpdateNotification old obj \<and> cr_Configuration old \<noteq> cr_Configuration obj)
          \<or> n = DeleteNotification (LiveObject obj) \<and> e = deleteEvent))"
  proof (cases n)
    case (AddNotification obj)
    then show ?thesis by (intro disjI2 exI [of _ obj] exI [of _ addEvent]) (simp add: AddFunc_def enqueueCRDMetrics_def key)
  next
    case (UpdateNotification old obj)
    then show ?thesis by (auto simp: UpdateFunc_def enqueueCRDMetrics_def key)
  next
    case (DeleteNotification d)
    show ?thesis
    proof (cases d)
      case (LiveObject obj)
      then show ?thesis using DeleteNotification
        by (intro disjI2 exI [of _ obj] exI [of _ deleteEvent]) (simp add: DeleteFunc_def enqueueCRDMetrics_def key)
    next
      case (Tombstone j obj)
      then show ?thesis using DeleteNotification
        by (cases obj) (simp_all add: DeleteFunc_def enqueueCRDMetrics_def MetaNamespaceKeyFunc_def)
    qed
  qed
  then show "\<not> wq_shuttingDown (rq_typed (listener_run n rq))" "dirty rq \<subseteq> dirty (listener_run n rq)"
    "(k, ''deleteEvent'') \<in> dirty (listener_run n rq) \<Longrightarrow> (k, ''deleteEvent'') \<in> dirty rq
      \<or> (\<exists>obj. n = DeleteNotification (LiveObject obj) \<and> k = rkey obj)"
    "(k, ''updateEvent'') \<in> dirty (listener_run n rq) \<Longrightarrow> (k, ''updateEvent'') \<in> dirty rq
      \<or> (\<exists>old obj. n = UpdateNotification old obj \<and> k = rkey obj \<and> cr_Configuration old \<noteq> cr_Configuration obj)"
    using wq_Add_dirty [OF assms] assms by auto
  show "n = AddNotification obj \<Longrightarrow> (rkey obj, ''addEvent'') \<in> dirty (listener_run n rq)"
    using wq_Add_dirty [OF assms] by (simp add: AddFunc_def enqueueCRDMetrics_def key)
qed

lemma fold_listener_run:
  assumes "\<not> wq_shuttingDown (rq_typed rq)"
  shows "\<not> wq_shuttingDown (rq_typed (fold listener_run ns rq))"
    and "dirty rq \<subseteq> dirty (fold listener_run ns rq)"
    and "AddNotification obj \<in> set ns \<Longrightarrow> (rkey obj, ''addEvent'') \<in> dirty (fold listener_run ns rq)"
    and "(k, ''deleteEvent'') \<in> dirty (fold listener_run ns rq) \<Longrightarrow> (k, ''deleteEvent'') \<in> dirty rq
      \<or> (\<exists>obj. DeleteNotification (LiveObject obj) \<in> set ns \<and> k = rkey obj)"
    and "(k, ''updateEvent'') \<in> dirty (fold listener_run ns rq) \<Longrightarrow> (k, ''updateEvent'') \<in> dirty rq
      \<or> (\<exists>old obj. UpdateNotification old obj \<in> set ns \<and> k = rkey obj \<and> cr_Configuration old \<noteq> cr_Configuration obj)"
  using assms
proof (induction ns arbitrary: rq)
  case (Cons n ns)
  { case 1 then show ?case using Cons.IH(1) listener_run_dirty(1) by simp }
  { case 2 then show ?case using Cons.IH(2) listener_run_dirty(1,2) by fastforce }
  { case 3
    show ?case
    proof (cases "n = AddNotification obj")
      case True
      then have "(rkey obj, ''addEvent'') \<in> dirty (listener_run n rq)" by (rule listener_run_dirty(3) [OF 3(2)])
      with Cons.IH(2) [OF listener_run_dirty(1) [OF 3(2)]] show ?thesis by auto
    next
      case False
      then show ?thesis using Cons.IH(3) [OF _ listener_run_dirty(1) [OF 3(2)]] 3(1) by simp
    qed }
  { case 4
    then have "(k, ''deleteEvent'') \<in> dirty (fold listener_run ns (listener_run n rq))" by simp
    from Cons.IH(4) [OF this listener_run_dirty(1) [OF 4(2)]]
    show ?case using listener_run_dirty(4) [OF 4(2)] by auto }
  { case 5
    then have "(k, ''updateEvent'') \<in> dirty (fold listener_run ns (listener_run n rq))" by simp
    from Cons.IH(5) [OF this listener_run_dirty(1) [OF 5(2)]]
    show ?case using listener_run_dirty(5) [OF 5(2)] by auto }
qed simp_all

lemma learned_added:
  "learn_all ns M = Some M' \<Longrightarrow> M' k \<noteq> None \<Longrightarrow> M k = None \<Longrightarrow> \<exists>obj. AddNotification obj \<in> set ns \<and> rkey obj = k"
proof (induction ns arbitrary: M)
  case (Cons n ns)
  from Cons.prems(1) obtain M1 where M1: "learn n M = Some M1" "learn_all ns M1 = Some M'"
    by (auto split: option.splits)
  show ?case
  proof (cases "M1 k")
    case None
    with Cons.IH [OF M1(2) Cons.prems(2)] show ?thesis by auto
  next
    case (Some q)
    with M1(1) Cons.prems(3) have "\<exists>obj. n = AddNotification obj \<and> rkey obj = k"
      by (cases n) (auto split: if_splits option.splits)
    then show ?thesis by auto
  qed
qed simp

text \<open>C26: a resource in the informer's cache has been put on the work queue with an add event: none
  that a list or a watch reported is overlooked.\<close>

theorem cached_resource_queued:
  assumes "informer_run es f t ns" and "\<not> wq_shuttingDown (rq_typed rq)" and "gm_get (tm_items t) k \<noteq> None"
  shows "(k, ''addEvent'') \<in> set (wq_dirty (rq_typed (fold listener_run ns rq)))"
proof -
  have "learn_all ns Map.empty = Some (map_of (tm_items t))"
    using informer_run_inv [OF assms(1)] by (simp add: run_inv_def)
  from learned_added [OF this assms(3)] obtain obj where "AddNotification obj \<in> set ns" "rkey obj = k" by auto
  then show ?thesis using fold_listener_run(3) [OF assms(2)] by blast
qed

theorem cached_resource_queued_witness:
  "\<exists>f t ns. informer_run [Relisted [sample_resource]] f t ns
    \<and> (rkey sample_resource, ''addEvent'') \<in> set (wq_dirty (rq_typed (fold listener_run ns newRateLimitingQueue)))"
proof -
  obtain t where t: "informer_run [Relisted [sample_resource]] (NewDeltaFIFO\<lparr>df_populated := True\<rparr>) t
      [AddNotification sample_resource]"
    "map_of (tm_items t) = [rkey sample_resource \<mapsto> sample_resource]"
    by (rule sample_run)
  have "gm_get (tm_items t) (rkey sample_resource) \<noteq> None" unfolding t(2) by simp
  moreover have "\<not> wq_shuttingDown (rq_typed (newRateLimitingQueue :: work_item rate_queue))"
    by (simp add: newRateLimitingQueue_def newQueue_def)
  ultimately show ?thesis using cached_resource_queued [OF t(1)] t(1) by blast
qed

text \<open>C21: a deletion that no watch event reported is never queued: when a list after a lost watch shows
  that a resource is gone, it leaves the cache, but the tombstone that the controller is
  notified with has no key for it, so that nothing removes the stores of the resource.\<close>

theorem missed_deletion_not_queued:
  assumes "informer_run es f t ns" and "\<not> wq_shuttingDown (rq_typed rq)"
    and "\<And>obj. rkey obj = k \<Longrightarrow> Watched Deleted obj \<notin> set es"
  shows "(k, ''deleteEvent'') \<in> set (wq_dirty (rq_typed (fold listener_run ns rq)))
    \<longleftrightarrow> (k, ''deleteEvent'') \<in> set (wq_dirty (rq_typed rq))"
proof -
  have "Watched Deleted obj \<in> set es" if "DeleteNotification (LiveObject obj) \<in> set ns" for obj
    using informer_run_inv [OF assms(1)] that by (auto simp: run_inv_def accounted_def)
  then show ?thesis using fold_listener_run(2,4) [OF assms(2)] assms(3) by blast
qed

theorem missed_deletion_not_queued_witness:
  "\<exists>f t ns. informer_run [Relisted [sample_resource], Relisted []] f t ns \<and> tm_items t = []
    \<and> (rkey sample_resource, ''deleteEvent'') \<notin> set (wq_dirty (rq_typed (fold listener_run ns newRateLimitingQueue)))"
proof -
  let ?r = sample_resource
  obtain f2 t2 ns where r2: "informer_run [Relisted [?r], Relisted []] f2 t2 ns" "df_queue f2 = []"
    by (rule drained_run [of "[Relisted [?r], Relisted []]"]) simp_all
  have "map_of (tm_items t2) = reported [Relisted [?r], Relisted []]"
    using r2 by (rule drained_cache)
  then have "map_of (tm_items t2) = Map.empty" by (simp add: reported_def)
  then have "tm_items t2 = []" by simp
  moreover have "\<not> wq_shuttingDown (rq_typed (newRateLimitingQueue :: work_item rate_queue))"
    by (simp add: newRateLimitingQueue_def newQueue_def)
  moreover have "(rkey ?r, ''deleteEvent'') \<notin> set (wq_dirty (rq_typed newRateLimitingQueue))"
    by (simp add: newRateLimitingQueue_def newQueue_def)
  ultimately show ?thesis using missed_deletion_not_queued [OF r2(1), of newRateLimitingQueue "rkey ?r"] r2(1) by auto
qed

text \<open>C16: what is not a change of the specification is not queued: as long as all the versions of a
  resource that lists and watches report have the same configuration, no update of it reaches
  the work queue, so that the status and labels which the handler writes do not make it run
  again.\<close>

theorem unchanged_spec_not_queued:
  assumes "informer_run es f t ns" and "\<not> wq_shuttingDown (rq_typed rq)"
    and "\<And>old obj. old \<in> mentioned es \<Longrightarrow> obj \<in> mentioned es \<Longrightarrow> rkey old = k \<Longrightarrow> rkey obj = k
      \<Longrightarrow> cr_Configuration old = cr_Configuration obj"
  shows "(k, ''updateEvent'') \<in> set (wq_dirty (rq_typed (fold listener_run ns rq)))
    \<longleftrightarrow> (k, ''updateEvent'') \<in> set (wq_dirty (rq_typed rq))"
proof -
  have "cr_Configuration old = cr_Configuration obj" if n: "UpdateNotification old obj \<in> set ns" "k = rkey obj" for old obj
  proof -
    have "explained es (UpdateNotification old obj)"
      using informer_run_inv [OF assms(1)] n(1) unfolding run_inv_def accounted_def by blast
    then have e: "old \<in> mentioned es" "obj \<in> mentioned es" "rkey old = rkey obj" by simp_all
    show ?thesis by (rule assms(3) [OF e(1,2)]) (simp_all only: e(3) n(2))
  qed
  then show ?thesis using fold_listener_run(2,5) [OF assms(2)] by blast
qed

theorem unchanged_spec_not_queued_witness:
  "\<exists>f t ns. informer_run [Relisted [sample_resource], Watched Modified (sample_resource\<lparr>cr_ResourceVersion := ''2''\<rparr>)] f t ns
    \<and> gm_get (tm_items t) (rkey sample_resource) = Some (sample_resource\<lparr>cr_ResourceVersion := ''2''\<rparr>)
    \<and> (rkey sample_resource, ''updateEvent'') \<notin> set (wq_dirty (rq_typed (fold listener_run ns newRateLimitingQueue)))"
proof -
  let ?r = sample_resource
  let ?q = "sample_resource\<lparr>cr_ResourceVersion := ''2''\<rparr>"
  let ?es = "[Relisted [?r], Watched Modified ?q]"
  obtain f t ns where run: "informer_run ?es f t ns" "df_queue f = []"
    by (rule drained_run [of ?es]) simp_all
  have k: "rkey ?q = rkey ?r" by (simp add: rkey_def)
  have "map_of (tm_items t) = reported ?es" using run by (rule drained_cache)
  then have "map_of (tm_items t) (rkey ?r) = Some ?q" by (simp add: reported_def k)
  moreover have "mentioned ?es = {?r, ?q}" by (auto simp: mentioned_def)
  then have "cr_Configuration old = cr_Configuration obj"
    if "old \<in> mentioned ?es" "obj \<in> mentioned ?es" for old obj using that by auto
  moreover have "\<not> wq_shuttingDown (rq_typed (newRateLimitingQueue :: work_item rate_queue))"
    by (simp add: newRateLimitingQueue_def newQueue_def)
  moreover have "(rkey ?r, ''updateEvent'') \<notin> set (wq_dirty (rq_typed newRateLimitingQueue))"
    by (simp add: newRateLimitingQueue_def newQueue_def)
  ultimately show ?thesis
    using unchanged_spec_not_queued [OF run(1), of newRateLimitingQueue "rkey ?r"] run(1) by blast
qed

end
