(* ===== verification/Fake_Informer.thy ===== *)
theory Fake_Informer
  imports Informer_Run Fake_Server
begin

text \<open>
  The fake clientset and the controller's informer together: what the informer lists and
  watches is what the fake sends, so that its cache ends up with the resources of the fake.
\<close>

definition plain_key :: "string \<times> string \<Rightarrow> bool" where
  "plain_key k \<longleftrightarrow> CHR ''/'' \<notin> set (fst k) \<and> CHR ''/'' \<notin> set (snd k)"

lemma plain_key_of [simp]: "plain_key (key_of r) = plain r"
  by (simp add: plain_key_def plain_def)

text \<open>A cache, by keys, and a server, by namespaces and names, with the same resources.\<close>

definition agree :: "(string \<Rightarrow> resource option) \<Rightarrow> (string \<times> string \<Rightarrow> resource option) \<Rightarrow> bool" where
  "agree M m \<longleftrightarrow> (\<forall>k. plain_key k \<longrightarrow> M (key_string k) = m k)"

lemma rkey_plain:
  assumes "plain_key k" and "plain r"
  shows "key_string k = rkey r \<longleftrightarrow> k = key_of r"
  using key_string_inj [of k "key_of r"] assms unfolding plain_key_def plain_def rkey_def fst_conv snd_conv by blast

definition watched :: "(watch_type \<times> resource) list \<Rightarrow> report list" where
  "watched evs = map (\<lambda>(tp, obj). Watched tp obj) evs"

lemma agree_events:
  assumes "agree M m" and "\<forall>e \<in> set evs. plain (snd e)"
  shows "agree (fold report_effect (watched evs) M) (apply_events evs m)"
  using assms
proof (induction evs arbitrary: M m)
  case Nil
  then show ?case by (simp add: watched_def)
next
  case (Cons e evs)
  obtain tp obj where e: "e = (tp, obj)" by fastforce
  have p: "plain obj" using Cons.prems(2) by (simp add: e)
  let ?M = "report_effect (Watched tp obj) M"
  let ?m = "if tp = Deleted then m(key_of obj := None) else m(key_of obj \<mapsto> obj)"
  have "?M (key_string k) = ?m k" if k: "plain_key k" for k
  proof (cases "k = key_of obj")
    case True
    then have r: "key_string k = rkey obj" using rkey_plain [OF k p] by blast
    show ?thesis unfolding r unfolding True by (cases "tp = Deleted") simp_all
  next
    case False
    then have "key_string k \<noteq> rkey obj" using rkey_plain [OF k p] by blast
    then have "?M (key_string k) = M (key_string k)" by simp
    moreover have "?m k = m k" using False by (cases "tp = Deleted") (simp_all add: fun_upd_other)
    moreover have "M (key_string k) = m k" using Cons.prems(1) k unfolding agree_def by blast
    ultimately show ?thesis by (simp only:)
  qed
  then have "agree ?M ?m" by (simp add: agree_def)
  then have "agree (fold report_effect (watched evs) ?M) (apply_events evs ?m)"
    by (rule Cons.IH) (use Cons.prems(2) in simp)
  then show ?case by (simp only: e watched_def list.map prod.case fold_simps apply_events.simps)
qed

lemma agree_listed:
  assumes "set objs = {r. \<exists>k. m k = Some r}" and "\<And>k r. m k = Some r \<Longrightarrow> key_of r = k" and "\<forall>r \<in> set objs. plain r"
  shows "agree (fold put_resource objs Map.empty) m"
  unfolding agree_def
proof (intro allI impI)
  fix k assume k: "plain_key k"
  show "fold put_resource objs Map.empty (key_string k) = m k"
  proof (cases "key_string k \<in> rkey ` set objs")
    case True
    then obtain q where "fold put_resource objs Map.empty (key_string k) = Some q"
      using fold_put_present [of "key_string k" objs] by blast
    with fold_put_own [OF this] have q: "q \<in> set objs" "rkey q = key_string k" by simp_all
    then have "k = key_of q" using rkey_plain [OF k, of q] assms(3) by simp
    moreover obtain j where "m j = Some q" using q(1) assms(1) by blast
    moreover from this have "key_of q = j" by (rule assms(2))
    ultimately have "m k = Some q" by (simp only:)
    then show ?thesis using \<open>fold put_resource objs Map.empty (key_string k) = Some q\<close> by simp
  next
    case False
    have "m k = None"
    proof (rule ccontr)
      assume "m k \<noteq> None"
      then obtain q where q: "m k = Some q" by blast
      then have "q \<in> set objs" using assms(1) by blast
      moreover have "key_of q = k" using q by (rule assms(2))
      then have "key_string k = rkey q" by (simp only: rkey_def)
      ultimately show False using False by blast
    qed
    then show ?thesis using fold_put_keys(2) [OF False, of Map.empty] by simp
  qed
qed

lemma plain_events:
  assumes "apply_events evs m k = Some r" and "\<And>j q. m j = Some q \<Longrightarrow> plain q" and "\<forall>e \<in> set evs. plain (snd e)"
  shows "plain r"
  using assms
proof (induction evs arbitrary: m)
  case (Cons e evs)
  obtain tp obj where e: "e = (tp, obj)" by fastforce
  let ?m = "if tp = Deleted then m(key_of obj := None) else m(key_of obj \<mapsto> obj)"
  have "plain obj" using Cons.prems(3) by (simp add: e)
  then have m: "plain q" if "?m j = Some q" for j q
    using that Cons.prems(2) [of j q] by (simp add: fun_upd_apply split: if_splits)
  have "apply_events evs ?m k = Some r" using Cons.prems(1) by (simp only: e apply_events.simps)
  then show ?case by (rule Cons.IH) (use m Cons.prems(3) in auto)
qed simp

text \<open>The cache of an informer that has processed what its list and its watch have reported.\<close>

lemma cache_follows:
  assumes "fake_run L c rs c'" and "standard L S c" and "tracker_wf (fk_tracker c)"
    and "watching a [] (fk_tracker c)" and "fw_result (tr_channels (fk_tracker c) ! a) = []"
    and "set objs = {r. \<exists>k. holds c k = Some r}" and "\<forall>r \<in> set objs. plain r"
    and "fw_result (tr_channels (fk_tracker c') ! a) = []" and "\<forall>e \<in> set (received_by a rs). plain (snd e)"
  shows "\<And>f t ms k. informer_run (Relisted objs # watched (received_by a rs)) f t ms \<Longrightarrow> df_queue f = [] \<Longrightarrow> plain_key k
      \<Longrightarrow> gm_get (tm_items t) (key_string k) = holds c' k"
    and "\<And>k r. holds c' k = Some r \<Longrightarrow> plain r"
proof -
  let ?evs = "received_by a rs"
  have "follows a [] (fk_tracker c) ?evs (fk_tracker c')" using run_followed [OF assms(1-4)] by blast
  then have evs: "apply_events ?evs (holds c) k = holds c' k" for k
    by (auto simp: follows_def visible_def assms(5,8) simp del: split_paired_All)
  have "agree (fold put_resource objs Map.empty) (holds c)"
    using assms(6) tracker_wfD(4) [OF assms(3)] assms(7) by (rule agree_listed)
  then have "agree (fold report_effect (watched ?evs) (fold put_resource objs Map.empty)) (apply_events ?evs (holds c))"
    using assms(9) by (rule agree_events)
  moreover have "reported (Relisted objs # watched ?evs)
      = fold report_effect (watched ?evs) (fold put_resource objs Map.empty)"
    by (simp add: reported_def)
  ultimately have "agree (reported (Relisted objs # watched ?evs)) (apply_events ?evs (holds c))" by (simp only:)
  then have "reported (Relisted objs # watched ?evs) (key_string k) = holds c' k" if "plain_key k" for k
    using that unfolding agree_def evs by blast
  then show "gm_get (tm_items t) (key_string k) = holds c' k"
    if "informer_run (Relisted objs # watched ?evs) f t ms" "df_queue f = []" "plain_key k" for f t ms k
    using that(3) unfolding drained_cache [OF that(1,2)] .
  have "plain q" if "holds c j = Some q" for j q using that assms(6,7) by blast
  then show "plain r" if "holds c' k = Some r" for k r
    using that plain_events [of ?evs "holds c" k r] assms(9) unfolding evs by blast
qed

section \<open>Properties\<close>

text \<open>C10: from the server to the lister: an informer lists the resources of the fake clientset and
  opens a watch; whatever calls the clientset then gets, once every event sent to the watch has
  been received and whatever is queued of them has been processed, in whatever order all this
  went on, the lister of the controller gets exactly the resources that the fake holds. Names
  with a slash are not API names.\<close>

theorem lister_follows_server:
  assumes "fake_run L c rs c'" and "standard L S c" and "tracker_wf (fk_tracker c)"
    and "watching a [] (fk_tracker c)" and "fw_result (tr_channels (fk_tracker c) ! a) = []"
    and "set objs = {r. \<exists>k. holds c k = Some r}" and "\<forall>r \<in> set objs. plain r"
    and "fw_result (tr_channels (fk_tracker c') ! a) = []" and "\<forall>e \<in> set (received_by a rs). plain (snd e)"
    and "informer_run (Relisted objs # watched (received_by a rs)) f t ms" and "df_queue f = []"
    and "CHR ''/'' \<notin> set namespace" and "CHR ''/'' \<notin> set name"
  shows "ResourceIndexer_Get (lister_CRDMetricsResources NewCRDMetricsResourceLister namespace) t name
      = (case holds c' (namespace, name) of
           None \<Rightarrow> Inl (Resource ''crdmetricsresource'', name) | Some r \<Rightarrow> Inr r)"
proof -
  have "plain_key (namespace, name)" using assms(12,13) by (simp add: plain_key_def)
  then have "gm_get (tm_items t) (key_string (namespace, name)) = holds c' (namespace, name)"
    by (rule cache_follows(1) [OF assms(1-11)])
  then show ?thesis unfolding ResourceIndexer_Get_key by (simp only:)
qed

theorem lister_follows_server_witness:
  "\<exists>c c' a rs f t ms. fake_run sample_libs c rs c' \<and> received_by a rs = [(Deleted, sample_resource)]
    \<and> informer_run (Relisted [sample_resource] # watched [(Deleted, sample_resource)]) f t ms \<and> df_queue f = []
    \<and> ResourceIndexer_Get (lister_CRDMetricsResources NewCRDMetricsResourceLister []) t ''r''
      = Inl (Resource ''crdmetricsresource'', ''r'')"
proof -
  obtain S c a rs c' where c: "standard sample_libs S c" "tracker_wf (fk_tracker c)" "watching a [] (fk_tracker c)"
    "tr_channels (fk_tracker c) ! a = NewRaceFreeFake" "holds c = [([], ''r'') \<mapsto> sample_resource]"
    "fake_run sample_libs c rs c'" "received_by a rs = [(Deleted, sample_resource)]"
    "fw_result (tr_channels (fk_tracker c') ! a) = []" "holds c' ([], ''r'') = None"
    by (rule sample_deleted)
  have e: "fw_result (tr_channels (fk_tracker c) ! a) = []" unfolding c(4) by (simp add: NewRaceFreeFake_def)
  have "set [sample_resource] = {r. \<exists>k. holds c k = Some r}"
    unfolding c(5) by (auto simp: fun_upd_apply)
  moreover have "plain sample_resource" by (simp add: plain_def sample_resource_def empty_resource_def)
  moreover have "\<forall>r \<in> set [sample_resource]. plain r" using \<open>plain sample_resource\<close> by simp
  moreover have "\<forall>e \<in> set (received_by a rs). plain (snd e)" using \<open>plain sample_resource\<close> by (simp add: c(7))
  moreover obtain f t ms where run: "informer_run (Relisted [sample_resource] # watched (received_by a rs)) f t ms" "df_queue f = []"
    by (rule drained_run [of "Relisted [sample_resource] # watched (received_by a rs)"])
      (simp_all add: c(7) watched_def)
  ultimately have "ResourceIndexer_Get (lister_CRDMetricsResources NewCRDMetricsResourceLister []) t ''r''
      = (case holds c' ([], ''r'') of None \<Rightarrow> Inl (Resource ''crdmetricsresource'', ''r'') | Some r \<Rightarrow> Inr r)"
    by (intro lister_follows_server [OF c(6,1-3) e _ _ c(8) _ run]) simp_all
  then have "ResourceIndexer_Get (lister_CRDMetricsResources NewCRDMetricsResourceLister []) t ''r''
      = Inl (Resource ''crdmetricsresource'', ''r'')"
    unfolding c(9) by (simp only: option.case)
  with c(6,7) run(2) run(1) [unfolded c(7)] show ?thesis by (intro exI conjI)
qed

end
