(* ===== verification/Reconcile.thy ===== *)
theory Reconcile
  imports Fake_Watched Fake_Informer
begin

text \<open>
  All the parts together: an API server, the informer that follows it, the work queue, a worker
  that takes an item from it, the handler and the stores. Whoever provides the server, a worker
  leaves its resource as the handler does; with the fake clientset as the server, the events of
  those writes reach the informer again.
\<close>

section \<open>One work item, against any server\<close>

lemma lister_Get_key:
  "lister_Get indexer ns n = (case gm_get indexer (key_string (ns, n)) of None \<Rightarrow> Inl NotFound | Some r \<Rightarrow> Inr r)"
  by (simp add: lister_Get_def key_string_def)

lemma Split_key_string:
  assumes "plain_key (ns, n)"
  shows "SplitMetaNamespaceKey (key_string (ns, n)) = Some (ns, n)"
proof -
  let ?r = "empty_resource\<lparr>cr_Namespace := ns, cr_Name := n\<rparr>"
  have "key_string (ns, n) = ObjectName_String (MetaObjectToName ?r)"
    by (simp add: key_string_def ObjectName_String_def MetaObjectToName_def)
  then show ?thesis using SplitMetaNamespaceKey_name [of ?r] assms by (simp add: plain_key_def)
qed

context api_server
begin

lemma worker_handles:
  assumes "valid w" and "stored w (ns, n) = Some r" and "env_Tick E w = (True, w1)"
    and "event = ''addEvent'' \<or> event = ''updateEvent''" and "cr_Configuration r \<noteq> []"
    and "env_yaml E (cr_Configuration r) = Inr ps"
    and "\<forall>p \<in> set ps. \<exists>sc. p = Some sc \<and> store_config sc" and "hstate_wf h"
    and "plain_key (ns, n)" and "gm_get indexer (key_string (ns, n)) = Some r"
    and "wq_Get (rq_typed q) = Some (Item (key_string (ns, n), event), q')"
  shows "\<exists>h' w' now. processNextWorkItem E nc bucket time
      \<lparr>c_queue = q, c_indexer = indexer, c_stores = h, c_world = w\<rparr>
    = Some (Inr (True, \<lparr>c_queue = (Forget (key_string (ns, n), event) q)
          \<lparr>rq_typed := wq_Done (key_string (ns, n), event) q'\<rparr>,
        c_indexer = indexer, c_stores = h', c_world = w'\<rparr>))
    \<and> valid w' \<and> stored w' = (stored w)((ns, n) \<mapsto>
        with_condition (stated ''Processed'' ''True'' (processed_message event) now r) (labelled (env_Version E) r))
    \<and> stores_at (stores_map h') (cr_UID r) = [length (heap h)..<length (heap h) + length ps]"
proof -
  have k: "key_of r = (ns, n)" using assms(1,2) by (rule keyed)
  have "stored w (key_of r) = Some r" unfolding k by (rule assms(2))
  from handled [OF assms(1) this assms(3-8), of nc] obtain h' w' now where
    r: "handleEvent E nc event (ManagedResource r) h w = Inr (h', w')" "valid w'"
    "stored w' = (stored w)(key_of r \<mapsto>
        with_condition (stated ''Processed'' ''True'' (processed_message event) now r) (labelled (env_Version E) r))"
    "stores_at (stores_map h') (cr_UID r) = [length (heap h)..<length (heap h) + length ps]"
    by blast
  have "syncHandler E nc (lister_Get indexer) (key_string (ns, n)) event h w = Inr (False, h', w')"
    by (simp add: syncHandler_def Split_key_string [OF assms(9)] lister_Get_key assms(10) handleObject_def r(1))
  then have "processNextWorkItem E nc bucket time \<lparr>c_queue = q, c_indexer = indexer, c_stores = h, c_world = w\<rparr>
    = Some (Inr (True, \<lparr>c_queue = (Forget (key_string (ns, n), event) q)
          \<lparr>rq_typed := wq_Done (key_string (ns, n), event) q'\<rparr>,
        c_indexer = indexer, c_stores = h', c_world = w'\<rparr>))"
    by (simp add: processNextWorkItem_def assms(11) process_item_def Forget_def Let_def)
  with r(2-4) show ?thesis unfolding k by blast
qed

end

section \<open>One work item, against the fake clientset\<close>

lemma watching_read:
  assumes "watching a seen t" and "tracker_wf t" and "\<forall>f \<in> set (tr_channels t). fw_result f = []"
  shows "fw_result (tr_channels t ! a) = []"
  using assms(1,3) tracker_wfD(2) [OF assms(2)] by (auto simp: watching_def)

lemma same_specs_plain:
  assumes "same_specs c1 seen c2" and "tracker_wf (fk_tracker c1)"
    and plain: "\<And>k r. holds c1 k = Some r \<Longrightarrow> plain r" and "(b, tp, obj) \<in> set seen"
  shows "plain obj"
proof -
  have "map_option cr_Configuration (holds c1 (key_of obj)) = Some (cr_Configuration obj)"
    using assms(1,4) unfolding same_specs_def by blast
  then obtain z where z: "holds c1 (key_of obj) = Some z" by (cases "holds c1 (key_of obj)") simp_all
  have "key_of z = key_of obj" using z by (rule tracker_wfD(4) [OF assms(2)])
  moreover have "plain z" using z by (rule plain)
  ultimately show ?thesis unfolding plain_key_of [symmetric] by (simp only:)
qed

lemma attended_worker_handles:
  assumes "attended L S c1" and "holds c1 (ns, n) = Some r" and "tick clock = (True, clock1)"
    and "event = ''addEvent'' \<or> event = ''updateEvent''" and "cr_Configuration r \<noteq> []"
    and "yaml (cr_Configuration r) = Inr ps" and "\<forall>p \<in> set ps. \<exists>sc. p = Some sc \<and> store_config sc"
    and "hstate_wf h" and "plain_key (ns, n)" and "gm_get indexer (key_string (ns, n)) = Some r"
    and "wq_Get (rq_typed q) = Some (Item (key_string (ns, n), event), q')"
  obtains h' c2 seen clock' stamp where
    "processNextWorkItem (attended_env now tick yaml version) nc bucket time
        \<lparr>c_queue = q, c_indexer = indexer, c_stores = h, c_world = ((c1, []), clock)\<rparr>
      = Some (Inr (True, \<lparr>c_queue = (Forget (key_string (ns, n), event) q)
            \<lparr>rq_typed := wq_Done (key_string (ns, n), event) q'\<rparr>,
          c_indexer = indexer, c_stores = h', c_world = ((c2, seen), clock')\<rparr>))"
    and "stores_at (stores_map h') (cr_UID r) = [length (heap h)..<length (heap h) + length ps]"
    and "holds c2 = (holds c1)((ns, n) \<mapsto>
        with_condition (stated ''Processed'' ''True'' (processed_message event) stamp r) (labelled version r))"
    and "attended L S c2" and "fake_run L c1 seen c2" and "same_specs c1 seen c2"
proof -
  let ?E = "attended_env now tick yaml version"
  have v: "attended_valid L S c1 ((c1, []), clock)"
    using assms(1) fake_run.start [of L c1] by (simp add: attended_valid_def same_specs_def)
  have st: "attended_stored ((c1, []), clock) (ns, n) = Some r" using assms(2) by (simp add: attended_stored_def)
  have ti: "env_Tick ?E ((c1, []), clock) = (True, ((c1, []), clock1))" using assms(3) by (simp add: attended_env_def)
  have y: "env_yaml ?E (cr_Configuration r) = Inr ps" using assms(6) by (simp add: attended_env_def)
  have vn: "env_Version ?E = version" by (simp add: attended_env_def)
  from attended.worker_handles [OF v st ti assms(4,5) y assms(7-11), of nc bucket time]
  obtain h' w' stamp where step: "processNextWorkItem ?E nc bucket time
        \<lparr>c_queue = q, c_indexer = indexer, c_stores = h, c_world = ((c1, []), clock)\<rparr>
      = Some (Inr (True, \<lparr>c_queue = (Forget (key_string (ns, n), event) q)
            \<lparr>rq_typed := wq_Done (key_string (ns, n), event) q'\<rparr>,
          c_indexer = indexer, c_stores = h', c_world = w'\<rparr>))"
    "attended_valid L S c1 w'" "attended_stored w' = (attended_stored ((c1, []), clock))((ns, n) \<mapsto>
        with_condition (stated ''Processed'' ''True'' (processed_message event) stamp r) (labelled version r))"
    "stores_at (stores_map h') (cr_UID r) = [length (heap h)..<length (heap h) + length ps]"
    unfolding vn by blast
  obtain c2 seen clock' where w': "w' = ((c2, seen), clock')" by (metis surj_pair)
  show thesis
  proof (rule that)
    show "holds c2 = (holds c1)((ns, n) \<mapsto>
        with_condition (stated ''Processed'' ''True'' (processed_message event) stamp r) (labelled version r))"
      using step(3) unfolding w' attended_stored_def prod.case .
    show "attended L S c2" "fake_run L c1 seen c2" "same_specs c1 seen c2"
      using step(2) by (simp_all add: w' attended_valid_def)
  qed (rule step(1) [unfolded w'], rule step(4))
qed

section \<open>Properties\<close>

text \<open>C4: from the server to the stores and back: when the informer has caught up with the fake
  clientset and a worker takes an add or update item of a resource with a good configuration,
  it finds the resource of the server in its cache, builds one store for each entry, labels
  the resource and states that it is processed, and is done with the item without a retry.
  Every watcher reads the handler's own writes as modifications that leave the configuration
  as it is, and an informer that has taken them has the server's resources in its cache again.\<close>

theorem reconciled:
  assumes "fake_run L c rs c1" and "standard L S c" and "tracker_wf (fk_tracker c)"
    and "watching a [] (fk_tracker c)" and "fw_result (channels c ! a) = []"
    and "set objs = {q. \<exists>k. holds c k = Some q}" and "\<forall>q \<in> set objs. plain q"
    and "\<forall>e \<in> set (received_by a rs). plain (snd e)" and "\<forall>f \<in> set (channels c1). fw_result f = []"
    and "informer_run (Relisted objs # watched (received_by a rs)) f t ms" and "df_queue f = []"
    and "holds c1 (ns, n) = Some r" and "wq_Get (rq_typed q) = Some (Item (key_string (ns, n), event), q')"
    and "event = ''addEvent'' \<or> event = ''updateEvent''" and "cr_Configuration r \<noteq> []"
    and "yaml (cr_Configuration r) = Inr ps" and "\<forall>p \<in> set ps. \<exists>sc. p = Some sc \<and> store_config sc"
    and "hstate_wf h" and "tick clock = (True, clock1)"
  shows "\<exists>h' c2 seen clock' stamp.
      processNextWorkItem (attended_env now tick yaml version) nc bucket time
        \<lparr>c_queue = q, c_indexer = tm_items t, c_stores = h, c_world = ((c1, []), clock)\<rparr>
      = Some (Inr (True, \<lparr>c_queue = (Forget (key_string (ns, n), event) q)
            \<lparr>rq_typed := wq_Done (key_string (ns, n), event) q'\<rparr>,
          c_indexer = tm_items t, c_stores = h', c_world = ((c2, seen), clock')\<rparr>))
    \<and> stores_at (stores_map h') (cr_UID r) = [length (heap h)..<length (heap h) + length ps]
    \<and> holds c2 = (holds c1)((ns, n) \<mapsto>
        with_condition (stated ''Processed'' ''True'' (processed_message event) stamp r) (labelled version r))
    \<and> (\<forall>(b, tp, obj) \<in> set seen. tp = Modified
        \<and> map_option cr_Configuration (holds c1 (key_of obj)) = Some (cr_Configuration obj))
    \<and> (\<forall>f' t' ms' k. informer_run (Relisted objs # watched (received_by a (rs @ seen))) f' t' ms'
        \<and> df_queue f' = [] \<and> plain_key k \<longrightarrow> gm_get (tm_items t') (key_string k) = holds c2 k)"
proof -
  have s1: "standard L S c1" "tracker_wf (fk_tracker c1)" "watching a [] (fk_tracker c1)"
    using run_followed [OF assms(1-4)] by blast+
  have e1: "fw_result (channels c1 ! a) = []" using s1(3,2) assms(9) by (rule watching_read)
  note cache = cache_follows [OF assms(1-7) e1 assms(8)]
  have "key_of r = (ns, n)" using assms(12) by (rule tracker_wfD(4) [OF s1(2)])
  then have p: "plain_key (ns, n)" using cache(2) [OF assms(12)] plain_key_of [of r] by (simp only:)
  have g: "gm_get (tm_items t) (key_string (ns, n)) = Some r"
    unfolding cache(1) [OF assms(10,11) p] by (rule assms(12))
  have "attended L S c1" using s1(1,2) assms(9) by (simp add: attended_def)
  then obtain h' c2 seen clock' stamp where step: "processNextWorkItem (attended_env now tick yaml version) nc bucket time
        \<lparr>c_queue = q, c_indexer = tm_items t, c_stores = h, c_world = ((c1, []), clock)\<rparr>
      = Some (Inr (True, \<lparr>c_queue = (Forget (key_string (ns, n), event) q)
            \<lparr>rq_typed := wq_Done (key_string (ns, n), event) q'\<rparr>,
          c_indexer = tm_items t, c_stores = h', c_world = ((c2, seen), clock')\<rparr>))"
    "stores_at (stores_map h') (cr_UID r) = [length (heap h)..<length (heap h) + length ps]"
    "holds c2 = (holds c1)((ns, n) \<mapsto>
        with_condition (stated ''Processed'' ''True'' (processed_message event) stamp r) (labelled version r))"
    and a2: "attended L S c2" "fake_run L c1 seen c2" "same_specs c1 seen c2"
    by (rule attended_worker_handles [where tick = tick and yaml = yaml and now = now and version = version
          and nc = nc and bucket = bucket and time = time, OF _ assms(12,19,14-18) p g assms(13)])
  have total: "fake_run L c (rs @ seen) c2" using a2(2) assms(1) by (rule fake_run_trans)
  have w2: "watching a [] (fk_tracker c2)" using run_followed [OF total assms(2-4)] by blast
  have e2: "fw_result (channels c2 ! a) = []"
    by (rule watching_read [OF w2]) (use a2(1) in \<open>simp_all add: attended_def\<close>)
  have "\<forall>e \<in> set (received_by a (rs @ seen)). plain (snd e)"
    using assms(8) same_specs_plain [OF a2(3) s1(2) cache(2)] by (auto simp: received_by_def)
  note later = cache_follows(1) [OF total assms(2-7) e2 this]
  have "\<forall>(b, tp, obj) \<in> set seen. tp = Modified
      \<and> map_option cr_Configuration (holds c1 (key_of obj)) = Some (cr_Configuration obj)"
    using a2(3) unfolding same_specs_def by blast
  then show ?thesis
    by (intro exI conjI) (rule step(1), rule step(2), rule step(3), assumption, use later in blast)
qed

theorem reconciled_witness:
  "\<exists>c1 (t :: resource thread_safe_map) q h' c2 seen clock' stamp. holds c1 = [([], ''r'') \<mapsto> sample_resource]
    \<and> gm_get (tm_items t) (key_string ([], ''r'')) = Some sample_resource
    \<and> processNextWorkItem (attended_env (\<lambda>s. (s, s + 1)) (\<lambda>s. (True, s)) (env_yaml sample_env) ''v'') False 0 0
        \<lparr>c_queue = AddFunc (InformerResource sample_resource) newRateLimitingQueue, c_indexer = tm_items t,
         c_stores = \<lparr>heap = [], stores_map = []\<rparr>, c_world = ((c1, []), 5)\<rparr>
      = Some (Inr (True, \<lparr>c_queue = q, c_indexer = tm_items t, c_stores = h', c_world = ((c2, seen), clock')\<rparr>))
    \<and> stores_at (stores_map h') ''u'' = [0]
    \<and> holds c2 ([], ''r'') = Some (with_condition
        (stated ''Processed'' ''True'' (processed_message ''addEvent'') stamp sample_resource) (labelled ''v'' sample_resource))"
proof -
  let ?r = sample_resource
  obtain S c0 a where c0: "standard sample_libs S c0" "tracker_wf (fk_tracker c0)" "watching a [] (fk_tracker c0)"
    "holds c0 = [([], ''r'') \<mapsto> ?r]"
    by (rule sample_watched)
  let ?c = "snd (read_all c0)"
  have c: "standard sample_libs S ?c" "tracker_wf (fk_tracker ?c)" "watching a [] (fk_tracker ?c)"
    using run_followed [OF read_all_run c0(1-3)] by blast+
  have e: "\<forall>f \<in> set (channels ?c). fw_result f = []"
    using read_all_attended(1) [OF c0(1,2)] by (simp add: attended_def)
  then have ea: "fw_result (channels ?c ! a) = []"
    using c(3) tracker_wfD(2) [OF c(2)] by (auto simp: watching_def)
  have h: "holds ?c = [([], ''r'') \<mapsto> ?r]" unfolding read_all_attended(2) [OF c0(1,2)] by (rule c0(4))
  have one: "set [?r] = {q. \<exists>k. holds ?c k = Some q}" unfolding h by (auto simp: fun_upd_apply)
  have pl: "\<forall>q \<in> set [?r]. plain q" by (simp add: plain_def sample_resource_def empty_resource_def)
  have none: "\<forall>e \<in> set (received_by a []). plain (snd e)" by simp
  have hr: "holds ?c ([], ''r'') = Some ?r" unfolding h by (rule fun_upd_same)
  obtain f t ms where run: "informer_run (Relisted [?r] # watched (received_by a [])) f t ms" "df_queue f = []"
    by (rule drained_run [of "Relisted [?r] # watched (received_by a [])"]) (simp_all add: watched_def)
  let ?q = "AddFunc (InformerResource ?r) newRateLimitingQueue"
  have "\<exists>q'. wq_Get (rq_typed ?q) = Some (Item (key_string ([], ''r''), ''addEvent''), q')"
    by (simp add: AddFunc_def enqueueCRDMetrics_def MetaNamespaceKeyFunc_def ObjectName_String_def MetaObjectToName_def
        sample_resource_def empty_resource_def newRateLimitingQueue_def newQueue_def wq_Add_def wq_Get_def key_string_def Let_def)
  then obtain q' where q': "wq_Get (rq_typed ?q) = Some (Item (key_string ([], ''r''), ''addEvent''), q')" by blast
  have ev: "''addEvent'' = ''addEvent'' \<or> ''addEvent'' = ''updateEvent''" by simp
  have conf: "cr_Configuration ?r \<noteq> []" "cr_UID ?r = ''u''" by (simp_all add: sample_resource_def)
  have y: "env_yaml sample_env (cr_Configuration ?r) = Inr [Some sample_entry]"
    by (simp add: sample_env_def sample_resource_def)
  have st: "hstate_wf \<lparr>heap = [], stores_map = []\<rparr>" by (simp add: hstate_wf_def)
  have g: "\<forall>p \<in> set [Some sample_entry]. \<exists>sc. p = Some sc \<and> store_config sc"
    using sample_entry_config by simp
  from reconciled [where yaml = "env_yaml sample_env" and event = "''addEvent''" and ns = "[]" and n = "''r''"
        and tick = "\<lambda>s. (True, s)" and now = "\<lambda>s. (s, s + 1)" and clock = 5 and ?clock1.0 = 5
        and version = "''v''" and nc = False and bucket = 0 and time = 0 and ps = "[Some sample_entry]" and q = ?q
        and h = "\<lparr>heap = [], stores_map = []\<rparr>" and rs = "[]" and c = ?c and ?c1.0 = ?c,
      OF fake_run.start c ea one pl none e run hr q' ev conf(1) y g st refl]
  obtain h' c2 seen clock' stamp where r:
    "processNextWorkItem (attended_env (\<lambda>s. (s, s + 1)) (\<lambda>s. (True, s)) (env_yaml sample_env) ''v'') False 0 0
        \<lparr>c_queue = ?q, c_indexer = tm_items t, c_stores = \<lparr>heap = [], stores_map = []\<rparr>, c_world = ((?c, []), 5)\<rparr>
      = Some (Inr (True, \<lparr>c_queue = (Forget (key_string ([], ''r''), ''addEvent'') ?q)
            \<lparr>rq_typed := wq_Done (key_string ([], ''r''), ''addEvent'') q'\<rparr>,
          c_indexer = tm_items t, c_stores = h', c_world = ((c2, seen), clock')\<rparr>))"
    "stores_at (stores_map h') (cr_UID ?r) = [0..<0 + length [Some sample_entry]]"
    "holds c2 = (holds ?c)(([], ''r'') \<mapsto> with_condition
        (stated ''Processed'' ''True'' (processed_message ''addEvent'') stamp ?r) (labelled ''v'' ?r))"
    by (simp only: list.size hstate.simps) blast
  have "stores_at (stores_map h') ''u'' = [0]" using r(2) conf(2) by (simp add: upt_rec)
  moreover have "holds c2 ([], ''r'') = Some (with_condition
        (stated ''Processed'' ''True'' (processed_message ''addEvent'') stamp ?r) (labelled ''v'' ?r))"
    unfolding r(3) by (rule fun_upd_same)
  moreover have "map_of (tm_items t) = reported [Relisted [?r]]"
    using drained_cache [OF run] by (simp add: watched_def)
  then have "map_of (tm_items t) = [rkey ?r \<mapsto> ?r]" by (simp add: reported_def)
  moreover have "key_string ([], ''r'') = rkey ?r" by (simp add: rkey_def sample_resource_def empty_resource_def)
  ultimately have "gm_get (tm_items t) (key_string ([], ''r'')) = Some ?r" by simp
  with h r(1) \<open>stores_at (stores_map h') ''u'' = [0]\<close>
    \<open>holds c2 ([], ''r'') = Some (with_condition
        (stated ''Processed'' ''True'' (processed_message ''addEvent'') stamp ?r) (labelled ''v'' ?r))\<close>
  show ?thesis by (intro exI conjI)
qed

end
