(* ===== verification/Assembly.thy ===== *)
theory Assembly
  imports Informers Clients Controller
begin

text \<open>
  How the program is put together: \<^verbatim>\<open>main\<close> hands its clients to \<^verbatim>\<open>NewController\<close>, which
  registers the program's types, makes the work queue and the informer factory and puts its
  callbacks on the informer; a worker makes a handler, and the handler a configurer, out of the
  controller's clients. The event recorder is client-go's and a parameter.
\<close>

section \<open>The parts\<close>

record ('k, 'c, 'd) crdmetricsHandler =
  ha_kubeClientset :: 'k
  ha_crdmetricsClientset :: 'c
  ha_dynamicClientset :: 'd

definition newCRDMetricsHandler :: "'k \<Rightarrow> 'c \<Rightarrow> 'd \<Rightarrow> ('k, 'c, 'd) crdmetricsHandler" where
  "newCRDMetricsHandler kubeClientset crdmetricsClientset dynamicClientset =
     \<lparr>ha_kubeClientset = kubeClientset, ha_crdmetricsClientset = crdmetricsClientset,
      ha_dynamicClientset = dynamicClientset\<rparr>"

text \<open>The configuration is what the parser has put there: nothing at first.\<close>

record 'd configurer =
  cf_configuration :: "store_type option list"
  cf_dynamicClientset :: 'd
  cf_resource :: resource

definition newConfigurer :: "'d \<Rightarrow> resource \<Rightarrow> 'd configurer" where
  "newConfigurer dynamicClientset res =
     \<lparr>cf_configuration = [], cf_dynamicClientset = dynamicClientset, cf_resource = res\<rparr>"

record ('k, 'c, 'd, 'o, 't, 'rec, 'opt) controller_parts =
  ct_kubeclientset :: 'k
  ct_crdmetricsClientset :: 'c
  ct_dynamicClientset :: 'd
  ct_crdmetricsInformerFactory :: "('c, 'o, 't) sharedInformerFactory"
  ct_workqueue :: "work_item rate_queue"
  ct_recorder :: 'rec
  ct_crdmetricsUIDToStores :: "(string, addr list) gomap option"
  ct_options :: 'opt

text \<open>
  An error of the registration would panic; there is none but the panics of the scheme. The
  stores map stays \<^verbatim>\<open>nil\<close> until \<^verbatim>\<open>Run\<close> makes it. The heap of the informers is the last component.
\<close>

definition NewController ::
    "(string \<Rightarrow> string) \<Rightarrow> (go_scheme \<Rightarrow> 'k \<Rightarrow> string \<Rightarrow> 'rec) \<Rightarrow> go_scheme \<Rightarrow> 'opt \<Rightarrow> 'k \<Rightarrow> 'c \<Rightarrow> 'd
     \<Rightarrow> (('k, 'c, 'd, 'o, 't, 'rec, 'opt) controller_parts \<times> go_scheme \<times> ('c, 'o, 't) informer list) go" where
  "NewController getenv NewRecorder scheme options kubeClientset crdmetricsClientset dynamicClientset =
     go_bind (AddToScheme localSchemeBuilder scheme) (\<lambda>scheme.
       case controller_informers crdmetricsClientset of (factory, informers) \<Rightarrow>
         Inr (\<lparr>ct_kubeclientset = kubeClientset, ct_crdmetricsClientset = crdmetricsClientset,
               ct_dynamicClientset = dynamicClientset, ct_crdmetricsInformerFactory = factory,
               ct_workqueue = newRateLimitingQueue,
               ct_recorder = NewRecorder scheme kubeClientset (getenv ''EMIT_NAMESPACE''),
               ct_crdmetricsUIDToStores = None, ct_options = options\<rparr>, scheme, informers))"

text \<open>What \<^verbatim>\<open>Run\<close> does to the controller before a worker is launched.\<close>

definition made_stores ::
    "('k, 'c, 'd, 'o, 't, 'rec, 'opt) controller_parts \<Rightarrow> ('k, 'c, 'd, 'o, 't, 'rec, 'opt) controller_parts" where
  "made_stores c = c\<lparr>ct_crdmetricsUIDToStores := Some []\<rparr>"

definition controller_handler :: "('k, 'c, 'd, 'o, 't, 'rec, 'opt) controller_parts \<Rightarrow> ('k, 'c, 'd) crdmetricsHandler" where
  "controller_handler c =
     newCRDMetricsHandler (ct_kubeclientset c) (ct_crdmetricsClientset c) (ct_dynamicClientset c)"

definition handler_configurer :: "('k, 'c, 'd) crdmetricsHandler \<Rightarrow> resource \<Rightarrow> 'd configurer" where
  "handler_configurer h res = newConfigurer (ha_dynamicClientset h) res"

text \<open>The controller as its workers see it: \<open>None\<close> while its stores map is \<^verbatim>\<open>nil\<close>.\<close>

definition controller_state ::
    "('k, 'c, 'd, 'o, 't, 'rec, 'opt) controller_parts \<Rightarrow> 'w \<Rightarrow> 'w cstate option" where
  "controller_state c w = map_option (\<lambda>m. \<lparr>c_queue = ct_workqueue c, c_indexer = [],
     c_stores = \<lparr>heap = [], stores_map = m\<rparr>, c_world = w\<rparr>) (ct_crdmetricsUIDToStores c)"

section \<open>Properties\<close>

text \<open>C35: a new controller is ready to run: on a scheme in which none of its kinds stands for another
  type nothing panics and the scheme then knows its resources; its callbacks are on the one
  informer there is, which lists all namespaces through the program's own client and has not
  been run; its queue is empty, its stores map is only there once \<^verbatim>\<open>Run\<close> has made it, and then
  it is in the state from which its workers start. Another controller on the same scheme changes
  nothing in it.\<close>

theorem NewController_ready:
  fixes options :: 'opt and getenv :: "string \<Rightarrow> string" and NewRecorder :: "go_scheme \<Rightarrow> 'k \<Rightarrow> string \<Rightarrow> 'rec"
  assumes "scheme_wf S" and "no_conflict crd_registrations S" and "unversioned_free unversioned_meta_types S"
  shows "\<exists>S' (c :: ('k, 'c, 'd, 'o, 't, 'rec, 'opt) controller_parts) informers.
      NewController getenv NewRecorder S options kube crd dyn = Inr (c, S', informers)
    \<and> scheme_New S' (WithKind SchemeGroupVersion ''CRDMetricsResource'') = Some (crd_type ''CRDMetricsResource'')
    \<and> (\<forall>k t. type_at S k = Some t \<longrightarrow> type_at S' k = Some t)
    \<and> sf_informers (ct_crdmetricsInformerFactory c) = [(crd_type ''CRDMetricsResource'', 0)]
    \<and> informers = [(new_informer crd)\<lparr>if_handlers := 1\<rparr>]
    \<and> controller_state c w = None \<and> controller_state (made_stores c) w = Some (initial_cstate w)
    \<and> cf_dynamicClientset (handler_configurer (controller_handler c) r) = dyn
    \<and> (\<exists>c' informers'. (NewController getenv NewRecorder S' options kube crd dyn
        :: (('k, 'c, 'd, 'o, 't, 'rec, 'opt) controller_parts \<times> go_scheme \<times> ('c, 'o, 't) informer list) go)
        = Inr (c', S', informers'))"
proof -
  obtain S' where S': "addKnownTypes S = Inr S'" "marked Unversioned unversioned_meta_types S'"
    using addKnownTypes_ok [OF assms(2,1,3)] by blast
  have e: "extends crd_registrations S S'" using S'(1) assms(1) by (rule addKnownTypes_extends)
  have same: "addKnownTypes S' = Inr S'" using extends_settled [OF e assms(2)] S'(2) by (rule addKnownTypes_same)
  have reg: "AddToScheme localSchemeBuilder S = Inr S'" "AddToScheme localSchemeBuilder S' = Inr S'"
    using S'(1) same by (simp_all add: localSchemeBuilder_def)
  let ?k = "WithKind SchemeGroupVersion ''CRDMetricsResource''" and ?t = "crd_type ''CRDMetricsResource''"
  have "(?k, ?t) \<in> set crd_registrations" by (simp add: crd_registrations_def named_in_def crd_type_def)
  with e have "type_at S' ?k = Some ?t" unfolding extends_def by blast
  then have "scheme_New S' ?k = Some ?t" by (simp add: scheme_New_def)
  moreover have "\<forall>k t. type_at S k = Some t \<longrightarrow> type_at S' k = Some t" using e unfolding extends_def by blast
  moreover have "\<exists>c informers. NewController getenv NewRecorder S options kube crd dyn = Inr (c, S', informers)
    \<and> sf_informers (ct_crdmetricsInformerFactory c) = [(?t, 0)] \<and> informers = [(new_informer crd)\<lparr>if_handlers := 1\<rparr>]
    \<and> controller_state c w = None \<and> controller_state (made_stores c) w = Some (initial_cstate w)
    \<and> cf_dynamicClientset (handler_configurer (controller_handler c) r) = dyn"
    for crd :: 'c and kube :: 'k and dyn :: 'd
    by (simp add: NewController_def reg(1) controller_informers_eq controller_state_def made_stores_def
        initial_cstate_def handler_configurer_def newConfigurer_def controller_handler_def newCRDMetricsHandler_def)
  moreover have "\<exists>c' informers'. NewController getenv NewRecorder S' options kube crd dyn = Inr (c', S', informers')"
    by (simp add: NewController_def reg(2) controller_informers_eq)
  ultimately show ?thesis by blast
qed

theorem NewController_ready_witness:
  "\<exists>S' (c :: (unit, nat, unit, unit, unit, string, unit) controller_parts) informers.
      NewController (\<lambda>v. ''ns'') (\<lambda>S k ns. ns) NewScheme () () 7 () = Inr (c, S', informers)
    \<and> scheme_New S' (WithKind SchemeGroupVersion ''CRDMetricsResource'') = Some (crd_type ''CRDMetricsResource'')
    \<and> if_client (informers ! 0) = 7 \<and> controller_state (made_stores c) () = Some (initial_cstate ())"
proof -
  obtain S' informers and c :: "(unit, nat, unit, unit, unit, string, unit) controller_parts" where
    "NewController (\<lambda>v. ''ns'') (\<lambda>S k ns. ns) NewScheme () () 7 () = Inr (c, S', informers)"
    "scheme_New S' (WithKind SchemeGroupVersion ''CRDMetricsResource'') = Some (crd_type ''CRDMetricsResource'')"
    "informers = [(new_informer 7)\<lparr>if_handlers := 1\<rparr>]" "controller_state (made_stores c) () = Some (initial_cstate ())"
    using NewController_ready [OF NewScheme_wf crd_no_conflict new_unversioned_free,
        where getenv = "\<lambda>v. ''ns''" and NewRecorder = "\<lambda>S k ns. ns" and options = "()" and kube = "()"
          and crd = "7 :: nat" and dyn = "()" and w = "()"]
    by blast
  then show ?thesis by (intro exI [of _ S'] exI [of _ c] exI [of _ informers]) (simp add: new_informer_def)
qed

end
