(* ===== verification/Text_Parser.thy ===== *)
theory Text_Parser
  imports Go_Float Sorting_Slices
begin

text \<open>
  The parser of the text exposition format that the vendored Prometheus library has
  (\<^verbatim>\<open>vendor/github.com/prometheus/common/expfmt/text_parse.go\<close>), with which the test framework
  reads a scrape: its state machine, one definition per state function, over the parser's
  fields. A byte that is read at the end of the input is zero and sets the error \<open>EOF\<close>. The
  metrics are objects that a family and the maps of summaries and histograms share: they
  live in a list, and a pointer is an index. The current family is the one that the map has
  under \<open>tp_MF\<close>.
\<close>

section \<open>Metric families\<close>

datatype metric_kind = COUNTER | GAUGE | SUMMARY | UNTYPED | HISTOGRAM | GAUGE_HISTOGRAM

record dto_summary =
  sm_SampleCount :: "64 word option"
  sm_SampleSum :: "float64 option"
  sm_Quantile :: "(float64 \<times> float64) list"

record dto_histogram =
  hg_SampleCount :: "64 word option"
  hg_SampleSum :: "float64 option"
  hg_Bucket :: "(float64 \<times> 64 word) list"

record dto_metric =
  dm_Label :: "(string \<times> string option) list"
  dm_Counter :: "float64 option"
  dm_Gauge :: "float64 option"
  dm_Untyped :: "float64 option"
  dm_Summary :: "dto_summary option"
  dm_Histogram :: "dto_histogram option"
  dm_TimestampMs :: "int option"

definition empty_metric :: dto_metric where
  "empty_metric = \<lparr>dm_Label = [], dm_Counter = None, dm_Gauge = None, dm_Untyped = None,
     dm_Summary = None, dm_Histogram = None, dm_TimestampMs = None\<rparr>"

record metric_family =
  mf_Name :: string
  mf_Help :: "string option"
  mf_Type :: "metric_kind option"
  mf_Metric :: "nat list"

definition new_family :: "string \<Rightarrow> metric_family" where
  "new_family name = \<lparr>mf_Name = name, mf_Help = None, mf_Type = None, mf_Metric = []\<rparr>"

text \<open>\<^verbatim>\<open>GetType\<close> of a family without one is the first kind.\<close>

definition GetType :: "metric_family \<Rightarrow> metric_kind" where
  "GetType mf = (case mf_Type mf of None \<Rightarrow> COUNTER | Some t \<Rightarrow> t)"

text \<open>
  \<^verbatim>\<open>MetricType_value[strings.ToUpper(token)]\<close>. Two runes outside ASCII have an upper case in
  ASCII: the dotless i and the long s.
\<close>

fun upper_bytes :: "string \<Rightarrow> string" where
  "upper_bytes (c # d # cs) =
     (if c = CHR 0xC4 \<and> d = CHR 0xB1 then CHR ''I'' # upper_bytes cs
      else if c = CHR 0xC5 \<and> d = CHR 0xBF then CHR ''S'' # upper_bytes cs
      else upper_char c # upper_bytes (d # cs))"
| "upper_bytes s = map upper_char s"

definition MetricType_value :: "string \<Rightarrow> metric_kind option" where
  "MetricType_value = map_of [(''COUNTER'', COUNTER), (''GAUGE'', GAUGE), (''SUMMARY'', SUMMARY),
     (''UNTYPED'', UNTYPED), (''HISTOGRAM'', HISTOGRAM), (''GAUGE_HISTOGRAM'', GAUGE_HISTOGRAM)]"

section \<open>Signatures of label sets\<close>

text \<open>\<^verbatim>\<open>model/fnv.go\<close> and \<^verbatim>\<open>LabelsToSignature\<close>: the labels in the order of their names.\<close>

unbundle bit_operations_syntax

definition hashNew :: "64 word" where
  "hashNew = 14695981039346656037"

definition hashAddByte :: "64 word \<Rightarrow> char \<Rightarrow> 64 word" where
  "hashAddByte h b = (h XOR of_nat (byte b)) * 1099511628211"

definition hashAdd :: "64 word \<Rightarrow> string \<Rightarrow> 64 word" where
  "hashAdd h s = foldl hashAddByte h s"

definition LabelsToSignature :: "(string, string) gomap \<Rightarrow> 64 word" where
  "LabelsToSignature labels =
     (if labels = [] then hashNew
      else foldl (\<lambda>sum labelName. hashAddByte (hashAdd (hashAddByte (hashAdd sum labelName) CHR 0xFF)
             (case gm_get labels labelName of None \<Rightarrow> [] | Some v \<Rightarrow> v)) CHR 0xFF)
           hashNew (sort (map fst labels)))"

section \<open>The parser\<close>

datatype parse_msg =
    UnexpectedEnd
  | InvalidNameInComment
  | InvalidMetricName
  | InvalidLabelName string
  | ReservedLabelName
  | ExpectedEquals char
  | DuplicateLabelNames string
  | ExpectedQuote char
  | InvalidLabelValue string
  | ExpectedQuantile string
  | ExpectedBucket string
  | UnexpectedAfterLabelValue string
  | ExpectedValue string
  | ExpectedTimestamp string
  | SpuriousAfterTimestamp string
  | SecondHelp string
  | SecondType string
  | UnknownMetricType string
  | InvalidEscape char
  | UnescapedNewline string

datatype parser_err = EOF | UnexpectedType string | ParseError nat parse_msg

record text_parser =
  tp_families :: "(string, metric_family) gomap"
  tp_metrics :: "dto_metric list"
  tp_buf :: string
  tp_err :: "parser_err option"
  tp_lineCount :: nat
  tp_byte :: char
  tp_token :: string
  tp_MF :: string
  tp_Metric :: nat
  tp_LabelPair :: "string \<times> string option"
  tp_listed :: bool
  tp_Labels :: "(string, string) gomap"
  tp_summaries :: "(64 word, nat) gomap"
  tp_Quantile :: float64
  tp_histograms :: "(64 word, nat) gomap"
  tp_Bucket :: float64
  tp_SummaryCount :: bool
  tp_SummarySum :: bool
  tp_HistogramCount :: bool
  tp_HistogramSum :: bool

text \<open>\<^verbatim>\<open>reset\<close> of a new parser.\<close>

definition parser_reset :: "string \<Rightarrow> text_parser" where
  "parser_reset text =
     \<lparr>tp_families = [], tp_metrics = [], tp_buf = text, tp_err = None, tp_lineCount = 0,
      tp_byte = CHR 0x00, tp_token = [], tp_MF = [], tp_Metric = 0, tp_LabelPair = ([], None),
      tp_listed = False, tp_Labels = [], tp_summaries = [], tp_Quantile = NaN, tp_histograms = [],
      tp_Bucket = NaN, tp_SummaryCount = False, tp_SummarySum = False,
      tp_HistogramCount = False, tp_HistogramSum = False\<rparr>"

definition parseError :: "parse_msg \<Rightarrow> text_parser \<Rightarrow> text_parser" where
  "parseError msg p = p\<lparr>tp_err := Some (ParseError (tp_lineCount p) msg)\<rparr>"

definition ReadByte :: "text_parser \<Rightarrow> text_parser" where
  "ReadByte p = (case tp_buf p of
       [] \<Rightarrow> p\<lparr>tp_byte := CHR 0x00, tp_err := Some EOF\<rparr>
     | c # cs \<Rightarrow> p\<lparr>tp_byte := c, tp_buf := cs, tp_err := None\<rparr>)"

definition push_token :: "char \<Rightarrow> text_parser \<Rightarrow> text_parser" where
  "push_token c p = p\<lparr>tp_token := tp_token p @ [c]\<rparr>"

text \<open>The current family and the current metric, through their pointers.\<close>

definition the_family :: "text_parser \<Rightarrow> metric_family" where
  "the_family p = (case gm_get (tp_families p) (tp_MF p) of None \<Rightarrow> new_family (tp_MF p) | Some mf \<Rightarrow> mf)"

definition set_family :: "(metric_family \<Rightarrow> metric_family) \<Rightarrow> text_parser \<Rightarrow> text_parser" where
  "set_family f p = p\<lparr>tp_families := gm_set (tp_MF p) (f (the_family p)) (tp_families p)\<rparr>"

definition the_metric :: "text_parser \<Rightarrow> dto_metric" where
  "the_metric p = tp_metrics p ! tp_Metric p"

definition set_metric :: "(dto_metric \<Rightarrow> dto_metric) \<Rightarrow> text_parser \<Rightarrow> text_parser" where
  "set_metric f p = p\<lparr>tp_metrics := (tp_metrics p)[tp_Metric p := f (the_metric p)]\<rparr>"

section \<open>Characters and names\<close>

definition isValidLabelNameStart :: "char \<Rightarrow> bool" where
  "isValidLabelNameStart b \<longleftrightarrow> is_lower b \<or> is_upper b \<or> b = CHR ''_''"

definition isValidLabelNameContinuation :: "char \<Rightarrow> bool" where
  "isValidLabelNameContinuation b \<longleftrightarrow> isValidLabelNameStart b \<or> is_digit b"

definition isValidMetricNameStart :: "char \<Rightarrow> bool" where
  "isValidMetricNameStart b \<longleftrightarrow> isValidLabelNameStart b \<or> b = CHR '':''"

definition isValidMetricNameContinuation :: "char \<Rightarrow> bool" where
  "isValidMetricNameContinuation b \<longleftrightarrow> isValidLabelNameContinuation b \<or> b = CHR '':''"

abbreviation tab :: char where
  "tab \<equiv> CHR 0x09"

definition isBlankOrTab :: "char \<Rightarrow> bool" where
  "isBlankOrTab b \<longleftrightarrow> b = CHR '' '' \<or> b = tab"

text \<open>A name that is longer than a suffix and ends with it.\<close>

definition has_suffix :: "string \<Rightarrow> string \<Rightarrow> bool" where
  "has_suffix suffix name \<longleftrightarrow> length suffix < length name
     \<and> drop (length name - length suffix) name = suffix"

definition without :: "string \<Rightarrow> string \<Rightarrow> string" where
  "without suffix name = take (length name - length suffix) name"

definition isCount :: "string \<Rightarrow> bool" where "isCount = has_suffix ''_count''"

definition isSum :: "string \<Rightarrow> bool" where "isSum = has_suffix ''_sum''"

definition isBucket :: "string \<Rightarrow> bool" where "isBucket = has_suffix ''_bucket''"

definition summaryMetricName :: "string \<Rightarrow> string" where
  "summaryMetricName name =
     (if isCount name then without ''_count'' name else if isSum name then without ''_sum'' name else name)"

definition histogramMetricName :: "string \<Rightarrow> string" where
  "histogramMetricName name =
     (if isCount name then without ''_count'' name else if isSum name then without ''_sum'' name
      else if isBucket name then without ''_bucket'' name else name)"

text \<open>\<^verbatim>\<open>utf8.ValidString\<close>: every rune is ASCII or has a width of its own.\<close>

function ValidString :: "string \<Rightarrow> bool" where
  "ValidString [] = True"
| "ValidString (c # cs) = ((byte c < 128 \<or> 1 < rune_width (c # cs)) \<and> ValidString (drop (rune_width (c # cs)) (c # cs)))"
  by pat_completeness auto
termination
proof (relation "measure length", simp)
  fix c cs
  show "(drop (rune_width (c # cs)) (c # cs), c # cs) \<in> measure length"
    using rune_width_pos [of "c # cs"] by simp
qed

text \<open>Hexadecimal floats and digit separators are not floats of the format.\<close>

definition parse_value :: "string \<Rightarrow> float64 option" where
  "parse_value s = (if \<exists>c \<in> set s. c \<in> {CHR ''p'', CHR ''P'', CHR ''_''} then None else ParseFloat s)"

text \<open>\<^verbatim>\<open>strconv.ParseInt(s, 10, 64)\<close>.\<close>

definition ParseInt10 :: "string \<Rightarrow> int option" where
  "ParseInt10 s = (let (neg, ds) = strip_sign s; n = int (nat_of_digits ds) in
     if ds = [] \<or> \<not> list_all is_digit ds then None
     else if neg then (if n \<le> 2 ^ 63 then Some (- n) else None)
     else if n < 2 ^ 63 then Some n else None)"

text \<open>
  \<^verbatim>\<open>uint64(value)\<close> cuts the fraction off; of a value outside the type the result is the
  machine's, \<open>arch\<close>.
\<close>

definition to_uint64 :: "(float64 \<Rightarrow> 64 word) \<Rightarrow> float64 \<Rightarrow> 64 word" where
  "to_uint64 arch x = (case x of
       Fin neg m e \<Rightarrow>
         (let n = (if 0 \<le> e then m * 2 ^ nat e else m div 2 ^ nat (- e)) in
          if n < 2 ^ 64 \<and> (neg \<longrightarrow> n = 0) then of_nat n else arch x)
     | _ \<Rightarrow> arch x)"

section \<open>Reading tokens\<close>

text \<open>A reader stops at the end of the input: what is left to read, and whether it has ended.\<close>

definition unread :: "text_parser \<Rightarrow> nat" where
  "unread p = length (tp_buf p)"

definition readable :: "text_parser \<Rightarrow> nat" where
  "readable p = (if tp_err p = None then Suc (unread p) else 0)"

lemma ReadByte_unread:
  "unread (ReadByte p) \<le> unread p" "tp_err (ReadByte p) = None \<Longrightarrow> unread (ReadByte p) < unread p"
  by (simp_all add: ReadByte_def unread_def split: list.splits)

lemma ReadByte_readable: "tp_err p = None \<Longrightarrow> readable (ReadByte p) < readable p"
  by (auto simp: ReadByte_def readable_def unread_def split: list.split)

lemma push_token_parts [simp]:
  "unread (push_token c p) = unread p" "tp_err (push_token c p) = tp_err p" "readable (push_token c p) = readable p"
  by (simp_all add: push_token_def unread_def readable_def)

lemma parseError_parts [simp]: "unread (parseError msg p) = unread p" "tp_err (parseError msg p) \<noteq> None"
  by (simp_all add: parseError_def unread_def)

function skipBlankTab :: "text_parser \<Rightarrow> text_parser" where
  "skipBlankTab p = (let p = ReadByte p in
     if tp_err p \<noteq> None \<or> \<not> isBlankOrTab (tp_byte p) then p else skipBlankTab p)"
  by pat_completeness auto
termination
  by (relation "measure unread") (auto simp: ReadByte_unread)

definition skipBlankTabIfCurrentBlankTab :: "text_parser \<Rightarrow> text_parser" where
  "skipBlankTabIfCurrentBlankTab p = (if isBlankOrTab (tp_byte p) then skipBlankTab p else p)"

text \<open>The loops of the other readers; the readers empty the token first.\<close>

function until_whitespace :: "text_parser \<Rightarrow> text_parser" where
  "until_whitespace p =
     (if tp_err p = None \<and> \<not> isBlankOrTab (tp_byte p) \<and> tp_byte p \<noteq> newline
      then until_whitespace (ReadByte (push_token (tp_byte p) p)) else p)"
  by pat_completeness auto
termination
  by (relation "measure readable") (auto intro: order.strict_trans2 [OF ReadByte_readable])

definition readTokenUntilWhitespace :: "text_parser \<Rightarrow> text_parser" where
  "readTokenUntilWhitespace p = until_whitespace (p\<lparr>tp_token := []\<rparr>)"

function until_newline :: "bool \<Rightarrow> bool \<Rightarrow> text_parser \<Rightarrow> text_parser" where
  "until_newline recognize escaped p =
     (if tp_err p \<noteq> None then p
      else if recognize \<and> escaped then
        (if tp_byte p = backslash then until_newline recognize False (ReadByte (push_token (tp_byte p) p))
         else if tp_byte p = CHR ''n'' then until_newline recognize False (ReadByte (push_token newline p))
         else parseError (InvalidEscape (tp_byte p)) p)
      else if tp_byte p = newline then p
      else if tp_byte p = backslash then until_newline recognize True (ReadByte p)
      else until_newline recognize escaped (ReadByte (push_token (tp_byte p) p)))"
  by pat_completeness auto
termination
  by (relation "measure (\<lambda>(r, e, p). readable p)") (auto intro: order.strict_trans2 [OF ReadByte_readable])

definition readTokenUntilNewline :: "bool \<Rightarrow> text_parser \<Rightarrow> text_parser" where
  "readTokenUntilNewline recognize p = until_newline recognize False (p\<lparr>tp_token := []\<rparr>)"

function name_loop :: "(char \<Rightarrow> bool) \<Rightarrow> text_parser \<Rightarrow> text_parser" where
  "name_loop continues p = (let p = ReadByte (push_token (tp_byte p) p) in
     if tp_err p \<noteq> None \<or> \<not> continues (tp_byte p) then p else name_loop continues p)"
  by pat_completeness auto
termination
  by (relation "measure (\<lambda>(c, p). unread p)") (auto intro: order.strict_trans2 [OF ReadByte_unread(2)])

definition readTokenAsMetricName :: "text_parser \<Rightarrow> text_parser" where
  "readTokenAsMetricName p = (let p = p\<lparr>tp_token := []\<rparr> in
     if \<not> isValidMetricNameStart (tp_byte p) then p else name_loop isValidMetricNameContinuation p)"

definition readTokenAsLabelName :: "text_parser \<Rightarrow> text_parser" where
  "readTokenAsLabelName p = (let p = p\<lparr>tp_token := []\<rparr> in
     if \<not> isValidLabelNameStart (tp_byte p) then p else name_loop isValidLabelNameContinuation p)"

function label_value :: "bool \<Rightarrow> text_parser \<Rightarrow> text_parser" where
  "label_value escaped p = (let p = ReadByte p in
     if tp_err p \<noteq> None then p
     else if escaped then
       (if tp_byte p = dquote \<or> tp_byte p = backslash then label_value False (push_token (tp_byte p) p)
        else if tp_byte p = CHR ''n'' then label_value False (push_token newline p)
        else parseError (InvalidEscape (tp_byte p)) p)
     else if tp_byte p = dquote then p
     else if tp_byte p = newline then parseError (UnescapedNewline (tp_token p)) p
     else if tp_byte p = backslash then label_value True p
     else label_value False (push_token (tp_byte p) p))"
  by pat_completeness auto
termination
  by (relation "measure (\<lambda>(e, p). unread p)") (auto simp: ReadByte_unread)

definition readTokenAsLabelValue :: "text_parser \<Rightarrow> text_parser" where
  "readTokenAsLabelValue p = label_value False (p\<lparr>tp_token := []\<rparr>)"

function to_newline :: "text_parser \<Rightarrow> text_parser" where
  "to_newline p = (if tp_byte p = newline then p
     else let p = ReadByte p in if tp_err p \<noteq> None then p else to_newline p)"
  by pat_completeness auto
termination
  by (relation "measure unread") (auto simp: ReadByte_unread)

declare skipBlankTab.simps [simp del] until_whitespace.simps [simp del] until_newline.simps [simp del]
  name_loop.simps [simp del] label_value.simps [simp del] to_newline.simps [simp del]

definition setOrCreateCurrentMF :: "text_parser \<Rightarrow> text_parser" where
  "setOrCreateCurrentMF p =
     (let p = p\<lparr>tp_SummaryCount := False, tp_SummarySum := False, tp_HistogramCount := False, tp_HistogramSum := False\<rparr>;
          name = tp_token p;
          kind = (\<lambda>n. map_option GetType (gm_get (tp_families p) n)) in
      if gm_get (tp_families p) name \<noteq> None then p\<lparr>tp_MF := name\<rparr>
      else if kind (summaryMetricName name) = Some SUMMARY
        then p\<lparr>tp_MF := summaryMetricName name, tp_SummaryCount := isCount name, tp_SummarySum := isSum name\<rparr>
      else if kind (histogramMetricName name) = Some HISTOGRAM
        then p\<lparr>tp_MF := histogramMetricName name, tp_HistogramCount := isCount name, tp_HistogramSum := isSum name\<rparr>
      else p\<lparr>tp_MF := name, tp_families := gm_set name (new_family name) (tp_families p)\<rparr>)"

section \<open>The state functions\<close>

text \<open>Each returns the next state, or none: \<^verbatim>\<open>nil\<close> ends the parse.\<close>

datatype state_fn =
    StartOfLine | StartComment | ReadingMetricName | ReadingLabels | StartLabelName
  | StartLabelValue | ReadingValue | StartTimestamp | ReadingHelp | ReadingType

type_synonym state_result = "state_fn option \<times> text_parser"

definition stop :: "text_parser \<Rightarrow> state_result" where
  "stop p = (None, p)"

definition failed :: "parse_msg \<Rightarrow> text_parser \<Rightarrow> state_result" where
  "failed msg p = (None, parseError msg p)"

text \<open>\<^verbatim>\<open>if p.step(); p.err != nil { return nil }\<close>.\<close>

definition after :: "text_parser \<Rightarrow> (text_parser \<Rightarrow> state_result) \<Rightarrow> state_result" where
  "after p k = (if tp_err p \<noteq> None then stop p else k p)"

definition startOfLine :: "text_parser \<Rightarrow> state_result" where
  "startOfLine p = (let p = skipBlankTab (p\<lparr>tp_lineCount := Suc (tp_lineCount p)\<rparr>) in
     if tp_err p \<noteq> None then stop (if tp_err p = Some EOF then p\<lparr>tp_err := None\<rparr> else p)
     else if tp_byte p = CHR ''#'' then (Some StartComment, p)
     else if tp_byte p = newline then (Some StartOfLine, p)
     else (Some ReadingMetricName, p))"

definition startComment :: "text_parser \<Rightarrow> state_result" where
  "startComment p =
     after (skipBlankTab p) (\<lambda>p.
     if tp_byte p = newline then (Some StartOfLine, p) else
     after (readTokenUntilWhitespace p) (\<lambda>p.
     if tp_byte p = newline then (Some StartOfLine, p) else
     let keyword = tp_token p in
     if keyword \<noteq> ''HELP'' \<and> keyword \<noteq> ''TYPE'' then after (to_newline p) (\<lambda>p. (Some StartOfLine, p)) else
     after (skipBlankTab p) (\<lambda>p.
     after (readTokenAsMetricName p) (\<lambda>p.
     if tp_byte p = newline then (Some StartOfLine, p) else
     if \<not> isBlankOrTab (tp_byte p) then failed InvalidNameInComment p else
     after (skipBlankTab (setOrCreateCurrentMF p)) (\<lambda>p.
     if tp_byte p = newline then (Some StartOfLine, p)
     else (Some (if keyword = ''HELP'' then ReadingHelp else ReadingType), p))))))"

definition readingMetricName :: "text_parser \<Rightarrow> state_result" where
  "readingMetricName p =
     after (readTokenAsMetricName p) (\<lambda>p.
     if length (tp_token p) = 0 then failed InvalidMetricName p else
     let p = setOrCreateCurrentMF p;
         p = (if mf_Type (the_family p) = None then set_family (\<lambda>mf. mf\<lparr>mf_Type := Some UNTYPED\<rparr>) p else p);
         p = p\<lparr>tp_metrics := tp_metrics p @ [empty_metric], tp_Metric := length (tp_metrics p)\<rparr>
     in after (skipBlankTabIfCurrentBlankTab p) (\<lambda>p. (Some ReadingLabels, p)))"

definition readingLabels :: "text_parser \<Rightarrow> state_result" where
  "readingLabels p =
     (let p = (if GetType (the_family p) = SUMMARY \<or> GetType (the_family p) = HISTOGRAM
               then p\<lparr>tp_Labels := [(''__name__'', mf_Name (the_family p))], tp_Quantile := NaN, tp_Bucket := NaN\<rparr>
               else p)
      in (Some (if tp_byte p \<noteq> CHR ''{'' then ReadingValue else StartLabelName), p))"

text \<open>A label pair is listed in the metric before its value is known.\<close>

definition startLabelName :: "text_parser \<Rightarrow> state_result" where
  "startLabelName p =
     after (skipBlankTab p) (\<lambda>p.
     if tp_byte p = CHR ''}'' then after (skipBlankTab p) (\<lambda>p. (Some ReadingValue, p)) else
     after (readTokenAsLabelName p) (\<lambda>p.
     if length (tp_token p) = 0 then failed (InvalidLabelName (mf_Name (the_family p))) p else
     let name = tp_token p; p = p\<lparr>tp_LabelPair := (name, None)\<rparr> in
     if name = ''__name__'' then failed ReservedLabelName p else
     let listed = (\<not> (GetType (the_family p) = SUMMARY \<and> name = ''quantile'')
           \<and> \<not> (GetType (the_family p) = HISTOGRAM \<and> name = ''le''));
         p = p\<lparr>tp_listed := listed\<rparr>;
         p = (if listed then set_metric (\<lambda>m. m\<lparr>dm_Label := dm_Label m @ [(name, None)]\<rparr>) p else p)
     in after (skipBlankTabIfCurrentBlankTab p) (\<lambda>p.
     if tp_byte p \<noteq> CHR ''='' then failed (ExpectedEquals (tp_byte p)) p else
     if \<not> distinct (map fst (dm_Label (the_metric p))) then failed (DuplicateLabelNames (mf_Name (the_family p))) p
     else (Some StartLabelValue, p))))"

text \<open>\<^verbatim>\<open>p.currentLabelPair.Value = proto.String(p.currentToken.String())\<close>, through the pointer.\<close>

definition set_label_value :: "text_parser \<Rightarrow> text_parser" where
  "set_label_value p =
     (let pair = (fst (tp_LabelPair p), Some (tp_token p));
          p = p\<lparr>tp_LabelPair := pair\<rparr>
      in if tp_listed p then set_metric (\<lambda>m. m\<lparr>dm_Label := butlast (dm_Label m) @ [pair]\<rparr>) p else p)"

text \<open>
  The label that a summary or a histogram does not list: its value is a float. The argument
  \<open>store\<close> writes it, or what comes with an error, which nobody reads then.
\<close>

definition special_label ::
    "string \<Rightarrow> (float64 \<Rightarrow> text_parser \<Rightarrow> text_parser) \<Rightarrow> (string \<Rightarrow> parse_msg) \<Rightarrow> text_parser \<Rightarrow> text_parser" where
  "special_label label store msg p =
     (let name = fst (tp_LabelPair p); value = (case snd (tp_LabelPair p) of None \<Rightarrow> [] | Some v \<Rightarrow> v) in
      if name = label then
        (case parse_value value of
           None \<Rightarrow> parseError (msg value) (store (Fin False 0 (- 1074)) p)
         | Some x \<Rightarrow> store x p)
      else p\<lparr>tp_Labels := gm_set name value (tp_Labels p)\<rparr>)"

definition startLabelValue :: "text_parser \<Rightarrow> state_result" where
  "startLabelValue p =
     after (skipBlankTab p) (\<lambda>p.
     if tp_byte p \<noteq> dquote then failed (ExpectedQuote (tp_byte p)) p else
     after (readTokenAsLabelValue p) (\<lambda>p.
     if \<not> ValidString (tp_token p) then failed (InvalidLabelValue (tp_token p)) p else
     let p = set_label_value p; value = tp_token p;
         p = (if GetType (the_family p) = SUMMARY
              then special_label ''quantile'' (\<lambda>x p. p\<lparr>tp_Quantile := x\<rparr>) ExpectedQuantile p else p)
     in after p (\<lambda>p.
     let p = (if GetType (the_family p) = HISTOGRAM
              then special_label ''le'' (\<lambda>x p. p\<lparr>tp_Bucket := x\<rparr>) ExpectedBucket p else p)
     in after p (\<lambda>p.
     after (skipBlankTab p) (\<lambda>p.
     if tp_byte p = CHR '','' then (Some StartLabelName, p)
     else if tp_byte p = CHR ''}'' then after (skipBlankTab p) (\<lambda>p. (Some ReadingValue, p))
     else failed (UnexpectedAfterLabelValue value) p)))))"

definition append_metric :: "text_parser \<Rightarrow> text_parser" where
  "append_metric p = set_family (\<lambda>mf. mf\<lparr>mf_Metric := mf_Metric mf @ [tp_Metric p]\<rparr>) p"

definition attach_metric :: "text_parser \<Rightarrow> text_parser" where
  "attach_metric p =
     (let signature = LabelsToSignature (tp_Labels p) in
      case GetType (the_family p) of
        SUMMARY \<Rightarrow> (case gm_get (tp_summaries p) signature of
            Some a \<Rightarrow> p\<lparr>tp_Metric := a\<rparr>
          | None \<Rightarrow> append_metric (p\<lparr>tp_summaries := gm_set signature (tp_Metric p) (tp_summaries p)\<rparr>))
      | HISTOGRAM \<Rightarrow> (case gm_get (tp_histograms p) signature of
            Some a \<Rightarrow> p\<lparr>tp_Metric := a\<rparr>
          | None \<Rightarrow> append_metric (p\<lparr>tp_histograms := gm_set signature (tp_Metric p) (tp_histograms p)\<rparr>))
      | _ \<Rightarrow> append_metric p)"

definition summary_of :: "dto_metric \<Rightarrow> dto_summary" where
  "summary_of m = (case dm_Summary m of Some s \<Rightarrow> s
     | None \<Rightarrow> \<lparr>sm_SampleCount = None, sm_SampleSum = None, sm_Quantile = []\<rparr>)"

definition histogram_of :: "dto_metric \<Rightarrow> dto_histogram" where
  "histogram_of m = (case dm_Histogram m of Some h \<Rightarrow> h
     | None \<Rightarrow> \<lparr>hg_SampleCount = None, hg_SampleSum = None, hg_Bucket = []\<rparr>)"

definition set_value :: "(float64 \<Rightarrow> 64 word) \<Rightarrow> float64 \<Rightarrow> text_parser \<Rightarrow> text_parser" where
  "set_value arch value p = (case GetType (the_family p) of
       COUNTER \<Rightarrow> set_metric (\<lambda>m. m\<lparr>dm_Counter := Some value\<rparr>) p
     | GAUGE \<Rightarrow> set_metric (\<lambda>m. m\<lparr>dm_Gauge := Some value\<rparr>) p
     | UNTYPED \<Rightarrow> set_metric (\<lambda>m. m\<lparr>dm_Untyped := Some value\<rparr>) p
     | SUMMARY \<Rightarrow> set_metric (\<lambda>m. let s = summary_of m in m\<lparr>dm_Summary := Some
         (if tp_SummaryCount p then s\<lparr>sm_SampleCount := Some (to_uint64 arch value)\<rparr>
          else if tp_SummarySum p then s\<lparr>sm_SampleSum := Some value\<rparr>
          else if tp_Quantile p \<noteq> NaN then s\<lparr>sm_Quantile := sm_Quantile s @ [(tp_Quantile p, value)]\<rparr>
          else s)\<rparr>) p
     | HISTOGRAM \<Rightarrow> set_metric (\<lambda>m. let h = histogram_of m in m\<lparr>dm_Histogram := Some
         (if tp_HistogramCount p then h\<lparr>hg_SampleCount := Some (to_uint64 arch value)\<rparr>
          else if tp_HistogramSum p then h\<lparr>hg_SampleSum := Some value\<rparr>
          else if tp_Bucket p \<noteq> NaN then h\<lparr>hg_Bucket := hg_Bucket h @ [(tp_Bucket p, to_uint64 arch value)]\<rparr>
          else h)\<rparr>) p
     | GAUGE_HISTOGRAM \<Rightarrow> p\<lparr>tp_err := Some (UnexpectedType (mf_Name (the_family p)))\<rparr>)"

text \<open>An unexpected type sets the error and goes on: the next byte that is read clears it.\<close>

definition readingValue :: "(float64 \<Rightarrow> 64 word) \<Rightarrow> text_parser \<Rightarrow> state_result" where
  "readingValue arch p =
     after (readTokenUntilWhitespace (attach_metric p)) (\<lambda>p.
     case parse_value (tp_token p) of
       None \<Rightarrow> failed (ExpectedValue (tp_token p)) p
     | Some value \<Rightarrow>
         let p = set_value arch value p in
         (Some (if tp_byte p = newline then StartOfLine else StartTimestamp), p))"

definition startTimestamp :: "text_parser \<Rightarrow> state_result" where
  "startTimestamp p =
     after (skipBlankTab p) (\<lambda>p.
     after (readTokenUntilWhitespace p) (\<lambda>p.
     case ParseInt10 (tp_token p) of
       None \<Rightarrow> failed (ExpectedTimestamp (tp_token p)) p
     | Some timestamp \<Rightarrow>
         after (readTokenUntilNewline False (set_metric (\<lambda>m. m\<lparr>dm_TimestampMs := Some timestamp\<rparr>) p)) (\<lambda>p.
         if 0 < length (tp_token p) then failed (SpuriousAfterTimestamp (tp_token p)) p
         else (Some StartOfLine, p))))"

definition readingHelp :: "text_parser \<Rightarrow> state_result" where
  "readingHelp p =
     (if mf_Help (the_family p) \<noteq> None then failed (SecondHelp (mf_Name (the_family p))) p else
      after (readTokenUntilNewline True p) (\<lambda>p.
      (Some StartOfLine, set_family (\<lambda>mf. mf\<lparr>mf_Help := Some (tp_token p)\<rparr>) p)))"

definition readingType :: "text_parser \<Rightarrow> state_result" where
  "readingType p =
     (if mf_Type (the_family p) \<noteq> None then failed (SecondType (mf_Name (the_family p))) p else
      after (readTokenUntilNewline False p) (\<lambda>p.
      case MetricType_value (upper_bytes (tp_token p)) of
        None \<Rightarrow> failed (UnknownMetricType (tp_token p)) p
      | Some metricType \<Rightarrow> (Some StartOfLine, set_family (\<lambda>mf. mf\<lparr>mf_Type := Some metricType\<rparr>) p)))"

fun state_step :: "(float64 \<Rightarrow> 64 word) \<Rightarrow> state_fn \<Rightarrow> text_parser \<Rightarrow> state_result" where
  "state_step arch StartOfLine = startOfLine"
| "state_step arch StartComment = startComment"
| "state_step arch ReadingMetricName = readingMetricName"
| "state_step arch ReadingLabels = readingLabels"
| "state_step arch StartLabelName = startLabelName"
| "state_step arch StartLabelValue = startLabelValue"
| "state_step arch ReadingValue = readingValue arch"
| "state_step arch StartTimestamp = startTimestamp"
| "state_step arch ReadingHelp = readingHelp"
| "state_step arch ReadingType = readingType"

section \<open>The loop ends\<close>

lemma after_Some: "after p k = (Some st, q) \<longleftrightarrow> tp_err p = None \<and> k p = (Some st, q)"
  by (auto simp: after_def stop_def)

lemma no_next [simp]: "stop p \<noteq> (Some st, q)" "failed msg p \<noteq> (Some st, q)"
  by (simp_all add: stop_def failed_def)

lemma skipBlankTab_unread: "unread (skipBlankTab p) \<le> unread p"
proof (induction p rule: skipBlankTab.induct)
  case (1 p)
  then show ?case using ReadByte_unread(1) [of p] by (subst skipBlankTab.simps) (auto simp: Let_def)
qed

lemma skipBlankTab_strict: "tp_err (skipBlankTab p) = None \<Longrightarrow> unread (skipBlankTab p) < unread p"
proof (induction p rule: skipBlankTab.induct)
  case (1 p)
  show ?case
  proof (cases "tp_err (ReadByte p) \<noteq> None \<or> \<not> isBlankOrTab (tp_byte (ReadByte p))")
    case True
    with 1(2) show ?thesis using ReadByte_unread(2) [of p] by (simp add: skipBlankTab.simps [of p] Let_def)
  next
    case False
    then have "skipBlankTab p = skipBlankTab (ReadByte p)" by (simp add: skipBlankTab.simps [of p] Let_def)
    with 1 False ReadByte_unread(1) [of p] show ?thesis by (simp add: Let_def)
  qed
qed

lemma until_whitespace_unread: "unread (until_whitespace p) \<le> unread p"
proof (induction p rule: until_whitespace.induct)
  case (1 p)
  then show ?case using ReadByte_unread(1) [of "push_token (tp_byte p) p"]
    by (subst until_whitespace.simps) (auto intro: order_trans)
qed

lemma until_newline_unread: "unread (until_newline r e p) \<le> unread p"
proof (induction r e p rule: until_newline.induct)
  case (1 r e p)
  have "unread (ReadByte p) \<le> unread p" "unread (ReadByte (push_token c p)) \<le> unread p" for c
    using ReadByte_unread(1) [of p] ReadByte_unread(1) [of "push_token c p"] by simp_all
  with 1 show ?case by (subst until_newline.simps) (auto intro: order_trans)
qed

lemma name_loop_unread: "unread (name_loop c p) \<le> unread p"
proof (induction c p rule: name_loop.induct)
  case (1 c p)
  then show ?case using ReadByte_unread(1) [of "push_token (tp_byte p) p"]
    by (subst name_loop.simps) (auto simp: Let_def intro: order_trans)
qed

lemma label_value_unread: "unread (label_value e p) \<le> unread p"
proof (induction e p rule: label_value.induct)
  case (1 e p)
  then show ?case using ReadByte_unread(1) [of p]
    by (subst label_value.simps) (auto simp: Let_def intro: order_trans)
qed

lemma to_newline_unread: "unread (to_newline p) \<le> unread p"
proof (induction p rule: to_newline.induct)
  case (1 p)
  then show ?case using ReadByte_unread(1) [of p] by (subst to_newline.simps) (auto simp: Let_def)
qed

lemma readers_unread:
  "unread (skipBlankTabIfCurrentBlankTab p) \<le> unread p" "unread (readTokenUntilWhitespace p) \<le> unread p"
  "unread (readTokenUntilNewline r p) \<le> unread p" "unread (readTokenAsMetricName p) \<le> unread p"
  "unread (readTokenAsLabelName p) \<le> unread p" "unread (readTokenAsLabelValue p) \<le> unread p"
  using skipBlankTab_unread [of p] until_whitespace_unread [of "p\<lparr>tp_token := []\<rparr>"]
    until_newline_unread [of r False "p\<lparr>tp_token := []\<rparr>"] name_loop_unread [of _ "p\<lparr>tp_token := []\<rparr>"]
    label_value_unread [of False "p\<lparr>tp_token := []\<rparr>"]
  by (simp_all add: skipBlankTabIfCurrentBlankTab_def readTokenUntilWhitespace_def readTokenUntilNewline_def
      readTokenAsMetricName_def readTokenAsLabelName_def readTokenAsLabelValue_def Let_def unread_def)

lemma writers_unread [simp]:
  "unread (set_family f p) = unread p" "unread (set_metric g p) = unread p"
  "unread (setOrCreateCurrentMF p) = unread p" "unread (set_label_value p) = unread p"
  "unread (attach_metric p) = unread p" "unread (set_value arch x p) = unread p"
  by (auto simp: set_family_def set_metric_def setOrCreateCurrentMF_def set_label_value_def attach_metric_def
      append_metric_def set_value_def unread_def Let_def split: metric_kind.split option.split)

lemma special_label_unread:
  "(\<And>x p. unread (store x p) = unread p) \<Longrightarrow> unread (special_label l store msg p) = unread p"
  by (simp add: special_label_def Let_def split: option.split) (simp add: unread_def)

text \<open>How many states can follow without reading a byte.\<close>

fun state_rank :: "state_fn \<Rightarrow> nat" where
  "state_rank ReadingMetricName = 3"
| "state_rank ReadingLabels = 2"
| "state_rank ReadingValue = 1"
| "state_rank ReadingHelp = 1"
| "state_rank ReadingType = 1"
| "state_rank _ = 0"

definition parse_left :: "state_fn \<Rightarrow> text_parser \<Rightarrow> nat" where
  "parse_left st p = 4 * unread p + state_rank st"

lemma unread_fields [simp]:
  "unread (p\<lparr>tp_token := t\<rparr>) = unread p" "unread (p\<lparr>tp_lineCount := n\<rparr>) = unread p"
  "unread (p\<lparr>tp_LabelPair := lp\<rparr>) = unread p" "unread (p\<lparr>tp_listed := b\<rparr>) = unread p"
  "unread (p\<lparr>tp_Quantile := x\<rparr>) = unread p" "unread (p\<lparr>tp_Bucket := x\<rparr>) = unread p"
  "unread (p\<lparr>tp_metrics := ms, tp_Metric := a\<rparr>) = unread p"
  "unread (p\<lparr>tp_Labels := ls\<rparr>) = unread p"
  by (simp_all add: unread_def)

text \<open>A state result that leaves at most \<open>n\<close> bytes to a state of a rank of at most \<open>m\<close>.\<close>

definition leaves :: "nat \<Rightarrow> nat \<Rightarrow> state_result \<Rightarrow> bool" where
  "leaves m n r \<longleftrightarrow> (\<forall>st q. r = (Some st, q) \<longrightarrow> unread q \<le> n \<and> state_rank st \<le> m)"

named_theorems leaving \<open>what a state function leaves unread\<close>

lemma leaves_step [leaving]:
  "leaves m n (stop p)" "leaves m n (failed msg p)"
  "unread p \<le> n \<Longrightarrow> state_rank st \<le> m \<Longrightarrow> leaves m n (Some st, p)"
  by (auto simp: leaves_def)

lemma leaves_if [leaving]: "leaves m n r \<Longrightarrow> leaves m n s \<Longrightarrow> leaves m n (if b then r else s)"
  by simp

lemma leaves_option [leaving]:
  "leaves m n r \<Longrightarrow> (\<And>x. leaves m n (f x)) \<Longrightarrow> leaves m n (case z of None \<Rightarrow> r | Some x \<Rightarrow> f x)"
  by (cases z) simp_all

lemma leaves_after [leaving]:
  assumes "unread p \<le> n" and "\<And>q. unread q \<le> n \<Longrightarrow> leaves m n (k q)"
  shows "leaves m n (after p k)"
  using assms by (auto simp: after_def leaves_def stop_def)

lemma readers_leave [leaving]:
  "unread p \<le> n \<Longrightarrow> unread (skipBlankTab p) \<le> n"
  "unread p \<le> n \<Longrightarrow> unread (to_newline p) \<le> n"
  "unread p \<le> n \<Longrightarrow> unread (skipBlankTabIfCurrentBlankTab p) \<le> n"
  "unread p \<le> n \<Longrightarrow> unread (readTokenUntilWhitespace p) \<le> n"
  "unread p \<le> n \<Longrightarrow> unread (readTokenUntilNewline r p) \<le> n"
  "unread p \<le> n \<Longrightarrow> unread (readTokenAsMetricName p) \<le> n"
  "unread p \<le> n \<Longrightarrow> unread (readTokenAsLabelName p) \<le> n"
  "unread p \<le> n \<Longrightarrow> unread (readTokenAsLabelValue p) \<le> n"
  using skipBlankTab_unread [of p] to_newline_unread [of p] readers_unread [where p = p]
  by (auto intro: order_trans)

lemma unread_if [simp]: "unread (if b then p else q) = (if b then unread p else unread q)"
  by simp

lemma leaves_first:
  assumes "after (skipBlankTab p) k = (Some st, q)" and "\<And>q. leaves 1 (unread q) (k q)"
  shows "unread q < unread p \<and> state_rank st \<le> 1"
  using assms(1) assms(2) [of "skipBlankTab p"] skipBlankTab_strict [of p] by (auto simp: after_Some leaves_def)

lemma startComment_left: "startComment p = (Some st, q) \<Longrightarrow> unread q < unread p \<and> state_rank st \<le> 1"
  unfolding startComment_def Let_def
  by (erule leaves_first) (intro leaving; simp)

lemma startTimestamp_left: "startTimestamp p = (Some st, q) \<Longrightarrow> unread q < unread p \<and> state_rank st \<le> 1"
  unfolding startTimestamp_def Let_def
  by (erule leaves_first) (intro leaving; simp)

lemma startLabelName_left: "startLabelName p = (Some st, q) \<Longrightarrow> unread q < unread p \<and> state_rank st \<le> 1"
  unfolding startLabelName_def Let_def
  by (erule leaves_first) (intro leaving; simp)

lemma startLabelValue_left: "startLabelValue p = (Some st, q) \<Longrightarrow> unread q < unread p \<and> state_rank st \<le> 1"
  unfolding startLabelValue_def Let_def
  by (erule leaves_first) (intro leaving; simp add: special_label_unread)

lemma readingValue_left: "leaves 1 (unread p) (readingValue arch p)"
  unfolding readingValue_def Let_def by (intro leaving; simp)

lemma quiet_states_left:
  "leaves 2 (unread p) (readingMetricName p)" "leaves 1 (unread p) (readingLabels p)"
  "leaves 0 (unread p) (readingHelp p)" "leaves 0 (unread p) (readingType p)"
  unfolding readingMetricName_def readingLabels_def readingHelp_def readingType_def Let_def
  by (intro leaving; simp)+

lemma readingValue_rank: "readingValue arch p = (Some st, q) \<Longrightarrow> state_rank st = 0"
  by (auto simp: readingValue_def after_Some Let_def split: option.splits)

lemma startOfLine_left: "startOfLine p = (Some st, q) \<Longrightarrow> unread q < unread p \<and> state_rank st \<le> 3"
  using skipBlankTab_strict [of "p\<lparr>tp_lineCount := Suc (tp_lineCount p)\<rparr>"]
  by (auto simp: startOfLine_def Let_def split: if_splits)

lemma state_step_left: "state_step arch st p = (Some st', q) \<Longrightarrow> parse_left st' q < parse_left st p"
  using startOfLine_left [of p st' q] startComment_left [of p st' q] startTimestamp_left [of p st' q]
    startLabelName_left [of p st' q] startLabelValue_left [of p st' q] readingValue_left [of p arch]
    quiet_states_left [of p] readingValue_rank [of arch p st' q]
  by (cases st) (auto simp: parse_left_def leaves_def)

function parse_loop :: "(float64 \<Rightarrow> 64 word) \<Rightarrow> state_fn \<Rightarrow> text_parser \<Rightarrow> text_parser" where
  "parse_loop arch st p = (case state_step arch st p of
       (None, q) \<Rightarrow> q
     | (Some st', q) \<Rightarrow> parse_loop arch st' q)"
  by pat_completeness auto
termination
  by (relation "measure (\<lambda>(arch, st, p). parse_left st p)") (auto simp: state_step_left)

declare parse_loop.simps [simp del]

text \<open>
  \<^verbatim>\<open>TextToMetricFamilies\<close>: families without a metric are deleted, and an input that ends too
  early gets an error of its own.
\<close>

definition TextToMetricFamilies :: "(float64 \<Rightarrow> 64 word) \<Rightarrow> string \<Rightarrow> text_parser" where
  "TextToMetricFamilies arch text =
     (let p = parse_loop arch StartOfLine (parser_reset text);
          p = p\<lparr>tp_families := filter (\<lambda>(k, mf). length (mf_Metric mf) \<noteq> 0) (tp_families p)\<rparr>
      in if tp_err p = Some EOF then parseError UnexpectedEnd p else p)"

end
