(* ===== verification/Go_Decimal.thy ===== *)
theory Go_Decimal
  imports Go_Float
begin

text \<open>
  What \<^verbatim>\<open>%f\<close> writes reads back: \<^verbatim>\<open>ParseFloat\<close> takes the six-digit decimal of a double for the
  double nearest to it, and never refuses it.
\<close>

section \<open>Reading a decimal with a point\<close>

text \<open>After the point every digit lowers the exponent by one, a leading zero included.\<close>

lemma mant_loop_fraction:
  assumes "list_all is_digit ds" and "nd st = 0 \<Longrightarrow> mantissa st = 0"
  shows "\<exists>st'. mant_loop False st ds = (st', [])
      \<and> mantissa st' = foldl (\<lambda>a c. 10 * a + digit_val c) (mantissa st) ds
      \<and> sawdot st' = sawdot st \<and> underscores st' = underscores st
      \<and> sawdigits st' = (sawdigits st \<or> ds \<noteq> [])
      \<and> dp st' - int (nd st') = dp st - int (nd st) - int (length ds)"
  using assms
proof (induction ds arbitrary: st)
  case (Cons c cs)
  have cs: "list_all is_digit cs" and "is_digit c"
    using Cons.prems(1) by simp_all
  then have c: "is_digit c" "c \<noteq> CHR ''_''" "c \<noteq> CHR ''.''"
    by (auto simp: is_digit_def)
  show ?case
  proof (cases "c = CHR ''0'' \<and> nd st = 0")
    case True
    then show ?thesis
      using Cons.IH [OF cs, of "st\<lparr>sawdigits := True, dp := dp st - 1\<rparr>"] Cons.prems(2) c
      by (auto simp: digit_val_def)
  next
    case False
    let ?st = "st\<lparr>sawdigits := True, nd := Suc (nd st), mantissa := 10 * mantissa st + digit_val c\<rparr>"
    from False c have "mant_loop False st (c # cs) = mant_loop False ?st cs" by auto
    moreover obtain st' where "mant_loop False ?st cs = (st', [])"
      "mantissa st' = foldl (\<lambda>a c. 10 * a + digit_val c) (10 * mantissa st + digit_val c) cs"
      "sawdot st' = sawdot st" "underscores st' = underscores st" "sawdigits st'"
      "dp st' - int (nd st') = dp st - int (Suc (nd st)) - int (length cs)"
      using Cons.IH [OF cs, of ?st] by auto
    ultimately show ?thesis by (intro exI [of _ st']) simp
  qed
qed simp

lemma mant_loop_stops:
  "list_all is_digit ds \<Longrightarrow> mant_loop False st ds = (st', [])
   \<Longrightarrow> mant_loop False st (ds @ t) = mant_loop False st' t"
proof (induction ds arbitrary: st)
  case (Cons c cs)
  then have "c \<noteq> CHR ''_''" "c \<noteq> CHR ''.''" "is_digit c" by (auto simp: is_digit_def)
  with Cons show ?case by (auto split: if_splits)
qed simp

lemma mant_loop_zero:
  assumes "list_all is_digit ds" and "nd st = 0 \<Longrightarrow> mantissa st = 0" and "mant_loop False st ds = (st', [])"
    and "nd st' = 0"
  shows "mantissa st' = 0"
  using assms
proof (induction ds arbitrary: st)
  case (Cons c cs)
  have d: "is_digit c" "list_all is_digit cs" using Cons.prems(1) by simp_all
  then have c: "c \<noteq> CHR ''_''" "c \<noteq> CHR ''.''" by (auto simp: is_digit_def)
  show ?case
  proof (cases "c = CHR ''0'' \<and> nd st = 0")
    case True
    show ?thesis
      by (rule Cons.IH [of "st\<lparr>sawdigits := True, dp := dp st - 1\<rparr>"]) (use Cons.prems c d True in auto)
  next
    case False
    show ?thesis
      by (rule Cons.IH [of "st\<lparr>sawdigits := True, nd := Suc (nd st), mantissa := 10 * mantissa st + digit_val c\<rparr>"])
        (use Cons.prems c d False in auto)
  qed
qed simp

lemma mant_loop_point:
  assumes "list_all is_digit ds" and "ds \<noteq> []" and "list_all is_digit fs"
  obtains st where "mant_loop False mant_init (ds @ CHR ''.'' # fs) = (st, [])"
    and "mantissa st = nat_of_digits (ds @ fs)" and "sawdot st" and "\<not> underscores st" and "sawdigits st"
    and "dp st - int (nd st) = - int (length fs)"
proof -
  obtain s1 where s1: "mant_loop False mant_init ds = (s1, [])" "mantissa s1 = nat_of_digits ds"
    "\<not> sawdot s1" "\<not> underscores s1" "sawdigits s1"
    using mant_loop_digits [OF assms(1), of mant_init] assms(2) by (auto simp: mant_init_def nat_of_digits_def)
  let ?s2 = "s1\<lparr>sawdot := True, dp := int (nd s1)\<rparr>"
  have "nd ?s2 = 0 \<Longrightarrow> mantissa ?s2 = 0"
    using mant_loop_zero [OF assms(1) _ s1(1)] by (simp add: mant_init_def)
  then obtain st where st: "mant_loop False ?s2 fs = (st, [])"
    "mantissa st = foldl (\<lambda>a c. 10 * a + digit_val c) (mantissa s1) fs" "sawdot st"
    "underscores st = underscores s1" "sawdigits st = (sawdigits s1 \<or> fs \<noteq> [])" "dp st - int (nd st) = - int (length fs)"
    using mant_loop_fraction [OF assms(3), of ?s2] by auto
  have "mant_loop False mant_init (ds @ CHR ''.'' # fs) = (st, [])"
    using mant_loop_stops [OF assms(1) s1(1)] s1(3) st(1) by simp
  moreover have "mantissa st = nat_of_digits (ds @ fs)"
    by (simp add: st(2) s1(2) nat_of_digits_def)
  ultimately show thesis using st s1 that by blast
qed

lemma point_not_hex:
  assumes "list_all is_digit ds" and "ds \<noteq> []" and "list_all is_digit fs"
  shows "\<not> hex_prefix (ds @ CHR ''.'' # fs)"
proof (cases ds)
  case (Cons d es)
  then show ?thesis
    using assms
    by (cases es) (auto simp: hex_prefix_def is_digit_def lower_char_def is_upper_def split: list.splits)
qed (use assms in simp)

lemma ParseFloat_decimal:
  assumes "list_all is_digit ds" and "ds \<noteq> []" and "list_all is_digit fs"
  shows "ParseFloat ((if neg then ''-'' else []) @ ds @ CHR ''.'' # fs)
    = round_ratio neg (nat_of_digits (ds @ fs)) (10 ^ length fs)"
proof -
  let ?t = "ds @ CHR ''.'' # fs" and ?n = "nat_of_digits (ds @ fs)"
  let ?s = "(if neg then ''-'' else []) @ ?t"
  obtain st where st: "mant_loop False mant_init ?t = (st, [])" "mantissa st = ?n" "sawdot st" "\<not> underscores st"
    "sawdigits st" "dp st - int (nd st) = - int (length fs)"
    using mant_loop_point [OF assms] by blast
  obtain d es where ds: "ds = d # es" using assms(2) by (cases ds) auto
  have "is_digit d" using assms(1) by (simp add: ds)
  then have d: "lower_char d = d" "byte d < 58" "d \<noteq> CHR ''+''" "d \<noteq> CHR ''-''"
    by (auto simp: lower_char_def is_upper_def is_digit_def)
  then have "common_prefix ?t ''infinity'' = 0" by (auto simp: ds)
  then have "special ?s = None" using d by (auto simp: special_def ds Let_def)
  moreover have strip: "strip_sign ?s = (neg, ?t)" using d by (simp add: strip_sign_def ds)
  have "read_float ?s = Some (neg, ?n, if ?n = 0 then 0 else - int (length fs), False, [])"
    using st point_not_hex [OF assms]
    by (simp add: read_float_def strip read_exp_def Let_def)
  moreover have "to_float neg ?n (if ?n = 0 then 0 else - int (length fs)) False = round_ratio neg ?n (10 ^ length fs)"
  proof (cases "?n = 0 \<or> length fs = 0")
    case True
    then show ?thesis by (auto simp: to_float_def round_ratio_def)
  next
    case False
    then show ?thesis by (simp add: to_float_def)
  qed
  ultimately show ?thesis by (simp add: ParseFloat_def)
qed

section \<open>The text of \<^verbatim>\<open>%f\<close>\<close>

lemma nat_of_digits_append: "nat_of_digits (a @ b) = nat_of_digits a * 10 ^ length b + nat_of_digits b"
proof (induction b rule: rev_induct)
  case (snoc c cs)
  then show ?case by (simp add: nat_of_digits_snoc flip: append_assoc)
qed simp

lemma nat_of_digits_zeros: "nat_of_digits (replicate n CHR ''0'' @ s) = nat_of_digits s"
proof -
  have "nat_of_digits (replicate n CHR ''0'') = 0"
    by (induction n) (simp_all add: nat_of_digits_snoc digit_val_def flip: replicate_append_same)
  then show ?thesis by (simp add: nat_of_digits_append)
qed

lemma length_show_nat: "n < 10 ^ k \<Longrightarrow> 0 < k \<Longrightarrow> length (show_nat n) \<le> k"
proof (induction n arbitrary: k rule: show_nat.induct)
  case (1 n)
  show ?case
  proof (cases "n < 10")
    case True
    with 1 show ?thesis by (subst show_nat.simps) simp
  next
    case False
    with 1 have "1 < k" by (cases k; cases "k - 1") auto
    then obtain j where k: "k = Suc j" "0 < j" by (cases k) auto
    with 1 have "n div 10 < 10 ^ j" by (simp add: less_mult_imp_div_less mult.commute)
    with 1 False k have "length (show_nat (n div 10)) \<le> j" by blast
    with False k show ?thesis by (subst show_nat.simps) simp
  qed
qed

lemma pad_left_digits:
  assumes "n < 10 ^ k" and "0 < k"
  shows "list_all is_digit (pad_left k (show_nat n))" and "length (pad_left k (show_nat n)) = k"
    and "nat_of_digits (pad_left k (show_nat n)) = n"
  using length_show_nat [OF assms] show_nat_digits [of n]
  by (auto simp: pad_left_def list_all_iff nat_of_digits_zeros is_digit_def)

lemma ParseFloat_format_Fin: "ParseFloat (format_f (Fin neg m e)) = round_ratio neg (millionths m e) 1000000"
proof -
  let ?u = "millionths m e"
  have r: "?u mod 1000000 < 10 ^ 6" by simp
  note fs = pad_left_digits [OF r]
  have "nat_of_digits (show_nat (?u div 1000000) @ pad_left 6 (show_nat (?u mod 1000000))) = ?u"
    using fs by (simp add: nat_of_digits_append)
  moreover have "format_f (Fin neg m e) = (if neg then ''-'' else [])
      @ show_nat (?u div 1000000) @ CHR ''.'' # pad_left 6 (show_nat (?u mod 1000000))"
    by (simp add: Let_def)
  ultimately show ?thesis
    using ParseFloat_decimal [OF show_nat_digits show_nat_not_Nil fs(1)] fs(2) by (simp del: format_f.simps)
qed

section \<open>No text of \<^verbatim>\<open>%f\<close> is out of range\<close>

lemma float_exp_less:
  assumes "0 < a" and "0 < b" and "ratio a b < 2 powi k" and "- 1021 \<le> k"
  shows "float_exp a b \<le> k - 53"
proof (rule ccontr)
  assume n: "\<not> float_exp a b \<le> k - 53"
  then have "2 powi (float_exp a b + 52) \<le> ratio a b"
    using float_exp_bounds(2) [OF assms(1,2)] assms(4) by auto
  moreover have "(2::real) powi k \<le> 2 powi (float_exp a b + 52)"
    by (rule power_int_increasing) (use n in simp_all)
  ultimately show False using assms(3) by linarith
qed

lemma round_ratio_Some:
  assumes "0 < b" and "ratio a b < 2 powi 1023"
  shows "round_ratio neg a b \<noteq> None"
proof (cases "a = 0")
  case False
  then have "float_exp a b \<le> 970" using float_exp_less [OF _ assms, of] by simp
  with False show ?thesis by (simp add: round_ratio_def Let_def split: prod.split)
qed (simp add: round_ratio_def)

lemma round_ratio_exact:
  assumes "2 ^ 52 \<le> m" and "m < 2 ^ 53" and "0 < b"
  shows "round_ratio neg (m * b * 2 ^ 971) b = Some (Fin neg m 971)"
proof -
  define a where "a = m * b * 2 ^ 971"
  have r: "ratio a b = real m * 2 powi 971" using assms(3) by (simp add: a_def ratio_def power_int_def)
  have m: "0 < m" using assms(1) by (cases m) auto
  have a: "0 < a" using m assms(3) by (simp add: a_def)
  have "real m < 2 ^ 53" using assms(2) by (metis of_nat_less_iff of_nat_numeral of_nat_power)
  then have "real m * 2 powi 971 < 2 ^ 53 * 2 powi 971" by (intro mult_strict_right_mono) simp_all
  also have "(2::real) ^ 53 * 2 powi 971 = 2 powi 1024" by (simp add: power_int_def flip: power_add)
  finally have hi: "float_exp a b \<le> 971" using float_exp_less [OF a assms(3), of 1024] r by simp
  have "(2::real) ^ 52 \<le> real m" using assms(1) by (metis of_nat_le_iff of_nat_numeral of_nat_power)
  then have "(2::real) ^ 52 * 2 powi 971 \<le> real m * 2 powi 971" by (intro mult_right_mono) simp_all
  moreover have "(2::real) ^ 52 * 2 powi 971 = 2 powi 1023" by (simp add: power_int_def flip: power_add)
  ultimately have "(2::real) powi 1023 \<le> ratio a b" by (simp only: r)
  then have less: "(2::real) powi 1023 < 2 powi (float_exp a b + 53)"
    using float_exp_bounds(1) [OF a assms(3)] by linarith
  have "\<not> float_exp a b + 53 \<le> 1023"
  proof
    assume "float_exp a b + 53 \<le> 1023"
    then have "(2::real) powi (float_exp a b + 53) \<le> 2 powi 1023" by (intro power_int_increasing) simp_all
    with less show False by linarith
  qed
  with hi have e: "float_exp a b = 971" by linarith
  have "round_div a (b * 2 ^ 971) = m"
    using round_div_exact [of "b * 2 ^ 971" m] assms(3) by (simp add: a_def mult.assoc)
  then show ?thesis
    unfolding a_def [symmetric] using a assms(2) by (simp add: round_ratio_def e scale_def Let_def)
qed

lemma millionths_ratio:
  "\<bar>ratio (millionths m e) 1000000 - real m * 2 powi e\<bar> \<le> 1 / 2000000"
proof (cases "0 \<le> e")
  case True
  then show ?thesis by (simp add: millionths_def ratio_def power_int_def)
next
  case False
  let ?d = "(2::nat) ^ nat (- e)"
  have "\<bar>real (round_div (m * 1000000) ?d) - ratio (m * 1000000) ?d\<bar> \<le> 1 / 2"
    by (rule round_div_nearest) simp
  moreover have "ratio (m * 1000000) ?d = real m * 2 powi e * 1000000"
    using False by (simp add: ratio_def power_int_def field_simps)
  ultimately have "\<bar>real (millionths m e) - real m * 2 powi e * 1000000\<bar> \<le> 1 / 2"
    using False by (simp add: millionths_def)
  then show ?thesis unfolding ratio_def by (simp add: abs_le_iff field_simps)
qed

theorem format_f_reads:
  assumes "float_wf x"
  shows "\<exists>y. ParseFloat (format_f x) = Some y"
proof (cases x)
  case (Fin neg m e)
  with assms have wf: "m < 2 ^ 53" "e \<le> 971" "e = - 1074 \<or> 2 ^ 52 \<le> m" by (simp_all add: float_wf_def)
  have "round_ratio neg (millionths m e) 1000000 \<noteq> None"
  proof (cases "e = 971")
    case True
    then have "millionths m e = m * 1000000 * 2 ^ 971" by (simp add: millionths_def mult_ac)
    with True show ?thesis using round_ratio_exact [of m 1000000 neg] wf by simp
  next
    case False
    have "real m \<le> 2 ^ 53 - 1" using wf(1) by (simp add: numeral_power_eq_of_nat_cancel_iff)
    moreover have "(2::real) powi e \<le> 2 powi 970" by (rule power_int_increasing) (use False wf in simp_all)
    ultimately have "real m * 2 powi e \<le> (2 ^ 53 - 1) * 2 powi 970" by (intro mult_mono) simp_all
    then have "ratio (millionths m e) 1000000 \<le> (2 ^ 53 - 1) * 2 powi 970 + 1"
      using millionths_ratio [of m e] by linarith
    also have "(2 ^ 53 - 1) * 2 powi 970 + 1 < (2::real) powi 1023"
    proof -
      have "(2::real) powi 1023 = 2 ^ 53 * 2 powi 970" "(1::real) < 2 powi 970"
        by (simp_all add: power_int_def flip: power_add)
      then show ?thesis by (simp add: algebra_simps)
    qed
    finally show ?thesis by (intro round_ratio_Some) simp_all
  qed
  then show ?thesis by (auto simp: Fin ParseFloat_format_Fin simp del: format_f.simps)
next
  case (Infty neg)
  have "ParseFloat ''+Inf'' = Some (Infty False)" "ParseFloat ''-Inf'' = Some (Infty True)" by code_simp+
  with Infty show ?thesis by simp
next
  case NaN
  have "ParseFloat ''NaN'' = Some NaN" by code_simp
  with NaN show ?thesis by simp
qed

end
