(* ===== verification/Text_Reading.thy ===== *)
theory Text_Reading
  imports Text_Parser Metric Go_Decimal
begin

text \<open>
  The parser of the text format on the lines that the program writes, followed through their
  bytes: the two header lines of a family and its series, each to the state that the next line
  starts from, or to the error that ends the parse.
\<close>

section \<open>The readers on given bytes\<close>

abbreviation cursor :: "char \<Rightarrow> string \<Rightarrow> text_parser \<Rightarrow> text_parser" where
  "cursor c s p \<equiv> p\<lparr>tp_byte := c, tp_buf := s, tp_err := None\<rparr>"

lemma ReadByte_Cons: "tp_buf p = c # s \<Longrightarrow> ReadByte p = cursor c s p"
  by (simp add: ReadByte_def)

lemma skip_blanks:
  "tp_buf p = ws @ c # s \<Longrightarrow> \<forall>b \<in> set ws. isBlankOrTab b \<Longrightarrow> \<not> isBlankOrTab c
   \<Longrightarrow> skipBlankTab p = cursor c s p"
proof (induction ws arbitrary: p)
  case Nil
  then show ?case by (simp add: skipBlankTab.simps [of p] ReadByte_Cons Let_def)
next
  case (Cons b ws)
  then have r: "ReadByte p = cursor b (ws @ c # s) p" by (simp add: ReadByte_Cons)
  have "skipBlankTab (cursor b (ws @ c # s) p) = cursor c s (cursor b (ws @ c # s) p)"
    using Cons.prems by (intro Cons.IH) simp_all
  with r Cons.prems show ?case by (simp add: skipBlankTab.simps [of p] Let_def)
qed

lemma skip_none: "tp_buf p = c # s \<Longrightarrow> \<not> isBlankOrTab c \<Longrightarrow> skipBlankTab p = cursor c s p"
  using skip_blanks [of p "[]" c s] by simp

lemma skip_one:
  "tp_buf p = b # c # s \<Longrightarrow> isBlankOrTab b \<Longrightarrow> \<not> isBlankOrTab c \<Longrightarrow> skipBlankTab p = cursor c s p"
  using skip_blanks [of p "[b]" c s] by simp

lemma name_loop_reads:
  "tp_buf p = cs @ d # s \<Longrightarrow> \<forall>c \<in> set cs. continues c \<Longrightarrow> \<not> continues d
   \<Longrightarrow> name_loop continues p = cursor d s (p\<lparr>tp_token := tp_token p @ tp_byte p # cs\<rparr>)"
proof (induction cs arbitrary: p)
  case Nil
  then show ?case by (simp add: name_loop.simps [of continues p] ReadByte_def push_token_def Let_def)
next
  case (Cons c cs)
  let ?q = "cursor c (cs @ d # s) (push_token (tp_byte p) p)"
  have r: "ReadByte (push_token (tp_byte p) p) = ?q"
    using Cons.prems by (intro ReadByte_Cons) (simp add: push_token_def)
  have "name_loop continues ?q = cursor d s (?q\<lparr>tp_token := tp_token ?q @ tp_byte ?q # cs\<rparr>)"
    using Cons.prems by (intro Cons.IH) simp_all
  with r Cons.prems show ?case by (simp add: name_loop.simps [of continues p] Let_def) (simp add: push_token_def)
qed

lemma whitespace_reads:
  "tp_buf p = cs @ d # s \<Longrightarrow> tp_err p = None \<Longrightarrow> \<forall>c \<in> set (tp_byte p # cs). \<not> isBlankOrTab c \<and> c \<noteq> newline
   \<Longrightarrow> isBlankOrTab d \<or> d = newline
   \<Longrightarrow> until_whitespace p = cursor d s (p\<lparr>tp_token := tp_token p @ tp_byte p # cs\<rparr>)"
proof (induction cs arbitrary: p)
  case Nil
  let ?q = "cursor d s (push_token (tp_byte p) p)"
  have r: "ReadByte (push_token (tp_byte p) p) = ?q"
    using Nil by (intro ReadByte_Cons) (simp add: push_token_def)
  have "until_whitespace ?q = ?q" using Nil by (subst until_whitespace.simps) auto
  with r Nil show ?case by (simp add: until_whitespace.simps [of p]) (simp add: push_token_def)
next
  case (Cons c cs)
  let ?q = "cursor c (cs @ d # s) (push_token (tp_byte p) p)"
  have r: "ReadByte (push_token (tp_byte p) p) = ?q"
    using Cons.prems by (intro ReadByte_Cons) (simp add: push_token_def)
  have "until_whitespace ?q = cursor d s (?q\<lparr>tp_token := tp_token ?q @ tp_byte ?q # cs\<rparr>)"
    using Cons.prems by (intro Cons.IH) simp_all
  with r Cons.prems show ?case by (simp add: until_whitespace.simps [of p]) (simp add: push_token_def)
qed

lemma newline_reads:
  "tp_buf p = cs @ newline # s \<Longrightarrow> tp_err p = None \<Longrightarrow> \<forall>c \<in> set (tp_byte p # cs). c \<noteq> newline \<and> c \<noteq> backslash
   \<Longrightarrow> until_newline r False p = cursor newline s (p\<lparr>tp_token := tp_token p @ tp_byte p # cs\<rparr>)"
proof (induction cs arbitrary: p)
  case Nil
  let ?q = "cursor newline s (push_token (tp_byte p) p)"
  have r: "ReadByte (push_token (tp_byte p) p) = ?q"
    using Nil by (intro ReadByte_Cons) (simp add: push_token_def)
  have "until_newline r False ?q = ?q" by (subst until_newline.simps) simp
  with r Nil show ?case by (simp add: until_newline.simps [of r False p]) (simp add: push_token_def)
next
  case (Cons c cs)
  let ?q = "cursor c (cs @ newline # s) (push_token (tp_byte p) p)"
  have r: "ReadByte (push_token (tp_byte p) p) = ?q"
    using Cons.prems by (intro ReadByte_Cons) (simp add: push_token_def)
  have "until_newline r False ?q = cursor newline s (?q\<lparr>tp_token := tp_token ?q @ tp_byte ?q # cs\<rparr>)"
    using Cons.prems by (intro Cons.IH) simp_all
  with r Cons.prems show ?case by (simp add: until_newline.simps [of r False p]) (simp add: push_token_def)
qed

text \<open>A label value is read back whatever bytes it has.\<close>

lemma label_value_reads:
  "tp_buf p = escape v @ dquote # s
   \<Longrightarrow> label_value False p = cursor dquote s (p\<lparr>tp_token := tp_token p @ v\<rparr>)"
proof (induction v arbitrary: p)
  case Nil
  then have "ReadByte p = cursor dquote s p" by (simp add: ReadByte_Cons)
  then show ?case by (simp add: label_value.simps [of False p] Let_def)
next
  case (Cons c v)
  let ?q = "\<lambda>b. push_token c (cursor b (escape v @ dquote # s) p)"
  have IH: "label_value False (?q b) = cursor dquote s ((?q b)\<lparr>tp_token := tp_token (?q b) @ v\<rparr>)" for b
    by (rule Cons.IH) (simp add: push_token_def)
  show ?case
  proof (cases "c = backslash \<or> c = newline \<or> c = dquote")
    case True
    define b where "b = (if c = newline then CHR ''n'' else c)"
    have "tp_buf p = backslash # b # escape v @ dquote # s"
      using Cons.prems True by (auto simp: escape_Cons escape_char_def b_def)
    then have r: "ReadByte p = cursor backslash (b # escape v @ dquote # s) p" by (rule ReadByte_Cons)
    have "label_value True (cursor backslash (b # escape v @ dquote # s) p) = label_value False (?q b)"
      using True by (subst label_value.simps) (auto simp: ReadByte_def Let_def b_def)
    then have "label_value False p = label_value False (?q b)"
      by (subst label_value.simps) (simp add: r Let_def)
    then show ?thesis by (simp add: IH) (simp add: push_token_def)
  next
    case False
    then have "ReadByte p = cursor c (escape v @ dquote # s) p"
      using Cons.prems by (intro ReadByte_Cons) (simp add: escape_Cons escape_char_def)
    with False have "label_value False p = label_value False (?q c)"
      by (subst label_value.simps) (simp add: Let_def)
    then show ?thesis by (simp add: IH) (simp add: push_token_def)
  qed
qed

section \<open>The place in the text\<close>

text \<open>
  A parser at a byte \<open>c\<close>, before the text \<open>s\<close>, with the token \<open>t\<close>, in line \<open>n\<close> and without an
  error. What it has made of the text so far is in the other fields.
\<close>

definition place :: "char \<Rightarrow> string \<Rightarrow> string \<Rightarrow> nat \<Rightarrow> text_parser \<Rightarrow> text_parser" where
  "place c s t n p = p\<lparr>tp_byte := c, tp_buf := s, tp_err := None, tp_token := t, tp_lineCount := n\<rparr>"

named_theorems placed \<open>the parser at a given place\<close>

lemma place_fields [placed]:
  "tp_byte (place c s t n p) = c" "tp_buf (place c s t n p) = s" "tp_err (place c s t n p) = None"
  "tp_token (place c s t n p) = t" "tp_lineCount (place c s t n p) = n"
  "tp_families (place c s t n p) = tp_families p" "tp_metrics (place c s t n p) = tp_metrics p"
  "tp_MF (place c s t n p) = tp_MF p" "tp_Metric (place c s t n p) = tp_Metric p"
  "tp_LabelPair (place c s t n p) = tp_LabelPair p" "tp_listed (place c s t n p) = tp_listed p"
  "tp_Labels (place c s t n p) = tp_Labels p"
  by (simp_all add: place_def)

lemma place_updates [placed]:
  "(place c s t n p)\<lparr>tp_token := t'\<rparr> = place c s t' n p"
  "(place c s t n p)\<lparr>tp_lineCount := n'\<rparr> = place c s t n' p"
  "(place c s t n p)\<lparr>tp_LabelPair := lp\<rparr> = place c s t n (p\<lparr>tp_LabelPair := lp\<rparr>)"
  "(place c s t n p)\<lparr>tp_listed := b\<rparr> = place c s t n (p\<lparr>tp_listed := b\<rparr>)"
  "(place c s t n p)\<lparr>tp_MF := name\<rparr> = place c s t n (p\<lparr>tp_MF := name\<rparr>)"
  "(place c s t n p)\<lparr>tp_metrics := ms, tp_Metric := a\<rparr> = place c s t n (p\<lparr>tp_metrics := ms, tp_Metric := a\<rparr>)"
  by (simp_all add: place_def)

lemma place_family [placed]: "the_family (place c s t n p) = the_family p"
  unfolding the_family_def place_fields ..

lemma place_metric [placed]: "the_metric (place c s t n p) = the_metric p"
  unfolding the_metric_def place_fields ..

lemma place_objects [placed]:
  "set_family f (place c s t n p) = place c s t n (set_family f p)"
  "set_metric g (place c s t n p) = place c s t n (set_metric g p)"
  unfolding set_family_def set_metric_def place_family place_metric place_fields by (simp_all add: place_def)

lemma place_cursor: "cursor c s (place c' s' t n p) = place c s t n p"
  by (simp add: place_def)

lemma place_self: "tp_err p = None \<Longrightarrow> p = place (tp_byte p) (tp_buf p) (tp_token p) (tp_lineCount p) p"
  by (cases p) (simp add: place_def)

lemma skip_place:
  "\<forall>b \<in> set ws. isBlankOrTab b \<Longrightarrow> \<not> isBlankOrTab c
   \<Longrightarrow> skipBlankTab (place c' (ws @ c # s) t n p) = place c s t n p"
  by (subst skip_blanks [of _ ws c s]) (simp_all add: placed place_cursor)

lemma skip_place_simps [placed]:
  "\<not> isBlankOrTab c \<Longrightarrow> skipBlankTab (place c' (c # s) t n p) = place c s t n p"
  "\<not> isBlankOrTab c \<Longrightarrow> skipBlankTab (place c' (CHR '' '' # c # s) t n p) = place c s t n p"
  using skip_place [of "[]" c] skip_place [of "'' ''" c] by (simp_all add: isBlankOrTab_def)

lemma skip_here [placed]: "\<not> isBlankOrTab c \<Longrightarrow> skipBlankTabIfCurrentBlankTab (place c s t n p) = place c s t n p"
  by (simp add: skipBlankTabIfCurrentBlankTab_def placed)

lemma whitespace_place:
  "\<forall>b \<in> set (c # cs). \<not> isBlankOrTab b \<and> b \<noteq> newline \<Longrightarrow> isBlankOrTab d \<or> d = newline
   \<Longrightarrow> readTokenUntilWhitespace (place c (cs @ d # s) t n p) = place d s (c # cs) n p"
  unfolding readTokenUntilWhitespace_def place_updates
  by (subst whitespace_reads [of _ cs d s]) (simp_all add: placed place_cursor)

lemma metric_name_place:
  "isValidMetricNameStart c \<Longrightarrow> \<forall>b \<in> set cs. isValidMetricNameContinuation b \<Longrightarrow> \<not> isValidMetricNameContinuation d
   \<Longrightarrow> readTokenAsMetricName (place c (cs @ d # s) t n p) = place d s (c # cs) n p"
  by (simp add: readTokenAsMetricName_def placed Let_def)
    (subst name_loop_reads [of _ cs d s], simp_all add: placed place_cursor)

lemma label_name_place:
  "isValidLabelNameStart c \<Longrightarrow> \<forall>b \<in> set cs. isValidLabelNameContinuation b \<Longrightarrow> \<not> isValidLabelNameContinuation d
   \<Longrightarrow> readTokenAsLabelName (place c (cs @ d # s) t n p) = place d s (c # cs) n p"
  by (simp add: readTokenAsLabelName_def placed Let_def)
    (subst name_loop_reads [of _ cs d s], simp_all add: placed place_cursor)

lemma label_value_place:
  "readTokenAsLabelValue (place c (escape v @ dquote # s) t n p) = place dquote s v n p"
  unfolding readTokenAsLabelValue_def place_updates
  by (subst label_value_reads [of _ v s]) (simp_all add: placed place_cursor)

lemma newline_place:
  "\<forall>b \<in> set (c # cs). b \<noteq> newline \<and> b \<noteq> backslash
   \<Longrightarrow> readTokenUntilNewline r (place c (cs @ newline # s) t n p) = place newline s (c # cs) n p"
  unfolding readTokenUntilNewline_def place_updates
  by (subst newline_reads [of _ cs s]) (simp_all add: placed place_cursor)

section \<open>The current family\<close>

definition name_ok :: "string \<Rightarrow> bool" where
  "name_ok name \<longleftrightarrow> (case name of [] \<Rightarrow> False
     | c # cs \<Rightarrow> isValidMetricNameStart c \<and> (\<forall>d \<in> set cs. isValidMetricNameContinuation d))"

lemmas name_char_defs = isValidMetricNameStart_def isValidMetricNameContinuation_def
  isValidLabelNameStart_def isValidLabelNameContinuation_def isBlankOrTab_def char_class_defs

lemma name_start_char: "isValidMetricNameStart c \<Longrightarrow> \<not> isBlankOrTab c \<and> c \<noteq> newline \<and> c \<noteq> CHR ''#''"
  by (auto simp: name_char_defs)

lemma not_name_char [simp]:
  "\<not> isValidMetricNameContinuation CHR '' ''" "\<not> isValidMetricNameContinuation CHR ''{''"
  "\<not> isValidLabelNameContinuation CHR ''=''"
  by (simp_all add: name_char_defs)

text \<open>No family has a type whose series go by other names.\<close>

definition plain_families :: "(string, metric_family) gomap \<Rightarrow> bool" where
  "plain_families fams \<longleftrightarrow>
     (\<forall>k mf. gm_get fams k = Some mf \<longrightarrow> GetType mf \<noteq> SUMMARY \<and> GetType mf \<noteq> HISTOGRAM)"

definition unmarked :: "text_parser \<Rightarrow> text_parser" where
  "unmarked p = p\<lparr>tp_SummaryCount := False, tp_SummarySum := False, tp_HistogramCount := False, tp_HistogramSum := False\<rparr>"

lemma unmarked_parts [simp]:
  "tp_families (unmarked p) = tp_families p" "tp_metrics (unmarked p) = tp_metrics p" "tp_buf (unmarked p) = tp_buf p"
  "tp_err (unmarked p) = tp_err p" "tp_lineCount (unmarked p) = tp_lineCount p" "tp_byte (unmarked p) = tp_byte p"
  "tp_token (unmarked p) = tp_token p"
  by (simp_all add: unmarked_def)

definition with_family :: "string \<Rightarrow> (string, metric_family) gomap \<Rightarrow> (string, metric_family) gomap" where
  "with_family name fams = (if gm_get fams name = None then gm_set name (new_family name) fams else fams)"

lemma same_families: "p\<lparr>tp_families := tp_families p\<rparr> = p"
  by (cases p) simp

lemma setOrCreate_unmarked: "setOrCreateCurrentMF p =
     (if gm_get (tp_families p) (tp_token p) \<noteq> None then (unmarked p)\<lparr>tp_MF := tp_token p\<rparr>
      else if map_option GetType (gm_get (tp_families p) (summaryMetricName (tp_token p))) = Some SUMMARY
        then (unmarked p)\<lparr>tp_MF := summaryMetricName (tp_token p), tp_SummaryCount := isCount (tp_token p), tp_SummarySum := isSum (tp_token p)\<rparr>
      else if map_option GetType (gm_get (tp_families p) (histogramMetricName (tp_token p))) = Some HISTOGRAM
        then (unmarked p)\<lparr>tp_MF := histogramMetricName (tp_token p), tp_HistogramCount := isCount (tp_token p), tp_HistogramSum := isSum (tp_token p)\<rparr>
      else (unmarked p)\<lparr>tp_MF := tp_token p, tp_families := gm_set (tp_token p) (new_family (tp_token p)) (tp_families p)\<rparr>)"
  unfolding setOrCreateCurrentMF_def Let_def unmarked_def [symmetric] unmarked_parts ..

lemma setOrCreate_plain:
  assumes "plain_families (tp_families p)"
  shows "setOrCreateCurrentMF p =
    (unmarked p)\<lparr>tp_families := with_family (tp_token p) (tp_families p), tp_MF := tp_token p\<rparr>"
proof -
  have k: "map_option GetType (gm_get (tp_families p) n) \<noteq> Some SUMMARY"
    "map_option GetType (gm_get (tp_families p) n) \<noteq> Some HISTOGRAM" for n
    using assms unfolding plain_families_def map_option_eq_Some by blast+
  show ?thesis
  proof (cases "gm_get (tp_families p) (tp_token p)")
    case None
    then show ?thesis
      unfolding setOrCreate_unmarked if_not_P [OF k(1)] if_not_P [OF k(2)] with_family_def by simp
  next
    case (Some mf)
    have "unmarked p = (unmarked p)\<lparr>tp_families := tp_families p\<rparr>"
      using same_families [of "unmarked p"] by simp
    with Some show ?thesis unfolding setOrCreate_unmarked with_family_def by simp
  qed
qed

lemma with_family_get: "gm_get (with_family name fams) name =
    Some (case gm_get fams name of None \<Rightarrow> new_family name | Some mf \<Rightarrow> mf)"
  by (auto simp: with_family_def gm_get_set)

lemma parse_next: "state_step arch st p = (Some st', q) \<Longrightarrow> parse_loop arch st p = parse_loop arch st' q"
  by (simp add: parse_loop.simps [of arch st p])

lemma parse_stop: "state_step arch st p = (None, q) \<Longrightarrow> parse_loop arch st p = q"
  by (simp add: parse_loop.simps [of arch st p])

section \<open>Header lines\<close>

definition settled_on :: "string \<Rightarrow> text_parser \<Rightarrow> text_parser" where
  "settled_on name p = (unmarked p)\<lparr>tp_families := with_family name (tp_families p), tp_MF := name\<rparr>"

lemma settle_place [placed]:
  assumes "plain_families (tp_families p)"
  shows "setOrCreateCurrentMF (place c s t n p) = place c s t n (settled_on t p)"
proof -
  have "plain_families (tp_families (place c s t n p))" using assms by (simp only: place_fields)
  from setOrCreate_plain [OF this] show ?thesis
    unfolding place_fields settled_on_def unmarked_def place_def by simp
qed

lemma settled_parts [simp]:
  "tp_families (settled_on name p) = with_family name (tp_families p)" "tp_MF (settled_on name p) = name"
  "tp_metrics (settled_on name p) = tp_metrics p"
  by (simp_all add: settled_on_def)

lemma comment_reads:
  assumes k: "keyword = ''HELP'' \<or> keyword = ''TYPE''" and n: "name_ok name" and pl: "plain_families (tp_families p)"
    and buf: "s = ''# '' @ keyword @ '' '' @ name @ '' '' @ text @ newline # rest"
  shows "parse_loop arch StartOfLine (place b s t l p) =
    (case dropWhile isBlankOrTab text of
       [] \<Rightarrow> parse_loop arch StartOfLine (place newline rest name (Suc l) (settled_on name p))
     | c # cs \<Rightarrow> parse_loop arch
         (if c = newline then StartOfLine else if keyword = ''HELP'' then ReadingHelp else ReadingType)
         (place c (cs @ newline # rest) name (Suc l) (settled_on name p)))"
proof -
  obtain c cs where name: "name = c # cs" "isValidMetricNameStart c" "\<forall>d \<in> set cs. isValidMetricNameContinuation d"
    using n by (auto simp: name_ok_def split: list.splits)
  have "\<forall>d \<in> set keyword. \<not> isBlankOrTab d \<and> d \<noteq> newline" "keyword \<noteq> []"
    using k by (auto simp: isBlankOrTab_def)
  then obtain a as where kw: "keyword = a # as" "\<forall>d \<in> set (a # as). \<not> isBlankOrTab d \<and> d \<noteq> newline"
    by (cases keyword) simp_all
  let ?text = "text @ newline # rest" and ?q = "settled_on name p"
  let ?line = "name @ CHR '' '' # ?text"
  have b: "\<not> isBlankOrTab CHR ''#''" "isBlankOrTab CHR '' ''" "\<not> isBlankOrTab newline"
    "\<not> isBlankOrTab a" "a \<noteq> newline" "\<not> isBlankOrTab c" "c \<noteq> newline"
    using kw name name_start_char by (auto simp: isBlankOrTab_def)
  have "state_step arch StartOfLine (place b s t l p)
      = (Some StartComment, place CHR ''#'' ('' '' @ keyword @ CHR '' '' # ?line) t (Suc l) p)"
    using b by (simp add: startOfLine_def placed buf)
  then have 1: "parse_loop arch StartOfLine (place b s t l p)
      = parse_loop arch StartComment (place CHR ''#'' ('' '' @ keyword @ CHR '' '' # ?line) t (Suc l) p)"
    by (rule parse_next)
  have s2: "skipBlankTab (place CHR ''#'' ('' '' @ keyword @ CHR '' '' # ?line) t (Suc l) p)
      = place a (as @ CHR '' '' # ?line) t (Suc l) p"
    using b by (simp add: placed kw)
  have s3: "readTokenUntilWhitespace (place a (as @ CHR '' '' # ?line) t (Suc l) p)
      = place CHR '' '' ?line keyword (Suc l) p"
    using kw b by (subst whitespace_place) simp_all
  have s4: "skipBlankTab (place CHR '' '' ?line keyword (Suc l) p)
      = place c (cs @ CHR '' '' # ?text) keyword (Suc l) p"
    using b by (simp add: placed name)
  have s5: "readTokenAsMetricName (place c (cs @ CHR '' '' # ?text) keyword (Suc l) p)
      = place CHR '' '' ?text name (Suc l) p"
    using name by (subst metric_name_place) simp_all
  have s6: "setOrCreateCurrentMF (place CHR '' '' ?text name (Suc l) p) = place CHR '' '' ?text name (Suc l) ?q"
    using pl by (rule settle_place)
  let ?w = "takeWhile isBlankOrTab text" and ?d = "dropWhile isBlankOrTab text"
  have w: "text = ?w @ ?d" "\<forall>b \<in> set ?w. isBlankOrTab b" by simp (blast dest: set_takeWhileD)
  have s7: "skipBlankTab (place CHR '' '' ?text name (Suc l) ?q) = (case ?d of
      [] \<Rightarrow> place newline rest name (Suc l) ?q | c # cs \<Rightarrow> place c (cs @ newline # rest) name (Suc l) ?q)"
  proof (cases ?d)
    case Nil
    then have t: "?text = ?w @ newline # rest" using w(1) by (simp only: append_Nil2)
    show ?thesis unfolding Nil list.case by (subst t) (rule skip_place [OF w(2) b(3)])
  next
    case (Cons e es)
    with w(1) have t: "?text = ?w @ e # es @ newline # rest" by (metis append.assoc append_Cons)
    have e: "\<not> isBlankOrTab e" using Cons by (metis hd_dropWhile list.sel(1) list.distinct(1))
    show ?thesis unfolding Cons list.case by (subst t) (rule skip_place [OF w(2) e])
  qed
  obtain e es where es: "(e, es) = (case ?d of [] \<Rightarrow> (newline, rest) | c # cs \<Rightarrow> (c, cs @ newline # rest))"
    by (metis surj_pair)
  have "skipBlankTab (place CHR '' '' ?text name (Suc l) ?q) = place e es name (Suc l) ?q"
    using es unfolding s7 by (cases ?d) (simp_all only: list.case prod.inject)
  then have "state_step arch StartComment (place CHR ''#'' ('' '' @ keyword @ CHR '' '' # ?line) t (Suc l) p)
      = (Some (if e = newline then StartOfLine else if keyword = ''HELP'' then ReadingHelp else ReadingType),
         place e es name (Suc l) ?q)"
    unfolding state_step.simps startComment_def s2 after_def place_fields Let_def s3
    using k b by (auto simp: s4 s5 s6 placed)
  from parse_next [OF this] show ?thesis
    using es unfolding 1 by (cases ?d) (simp_all only: list.case prod.inject refl if_True)
qed

text \<open>
  From the text \<open>s\<close> in line \<open>l\<close> the parse gets to \<open>s'\<close> in line \<open>l'\<close>, whatever byte and token it
  had last.
\<close>

definition leads :: "(float64 \<Rightarrow> 64 word) \<Rightarrow> string \<Rightarrow> nat \<Rightarrow> text_parser \<Rightarrow> string \<Rightarrow> nat \<Rightarrow> text_parser \<Rightarrow> bool" where
  "leads arch s l p s' l' q \<longleftrightarrow> (\<forall>b t. \<exists>b' t'.
     parse_loop arch StartOfLine (place b s t l p) = parse_loop arch StartOfLine (place b' s' t' l' q))"

lemma leads_refl: "leads arch s l p s l p"
  unfolding leads_def by blast

lemma leads_trans: "leads arch s l p s' l' q \<Longrightarrow> leads arch s' l' q s'' l'' r \<Longrightarrow> leads arch s l p s'' l'' r"
  unfolding leads_def by metis

text \<open>Where the parse ends with an error.\<close>

definition refused :: "(float64 \<Rightarrow> 64 word) \<Rightarrow> string \<Rightarrow> nat \<Rightarrow> text_parser \<Rightarrow> parser_err \<Rightarrow> bool" where
  "refused arch s l p e \<longleftrightarrow> (\<forall>b t. tp_err (parse_loop arch StartOfLine (place b s t l p)) = Some e)"

lemma leads_refused: "leads arch s l p s' l' q \<Longrightarrow> refused arch s' l' q e \<Longrightarrow> refused arch s l p e"
  unfolding leads_def refused_def by metis

definition help_of :: "string \<Rightarrow> string option" where
  "help_of text = (case dropWhile isBlankOrTab text of [] \<Rightarrow> None | c # cs \<Rightarrow> Some (c # cs))"

definition one_line :: "string \<Rightarrow> bool" where
  "one_line text \<longleftrightarrow> (\<forall>c \<in> set text. c \<noteq> newline \<and> c \<noteq> backslash)"

lemma one_line_rest: "one_line text \<Longrightarrow> dropWhile P text = c # cs \<Longrightarrow> \<forall>b \<in> set (c # cs). b \<noteq> newline \<and> b \<noteq> backslash"
  unfolding one_line_def by (metis set_dropWhileD)

lemma settled_family: "the_family (settled_on name p) =
    (case gm_get (tp_families p) name of None \<Rightarrow> new_family name | Some mf \<Rightarrow> mf)"
  by (simp add: the_family_def with_family_get)

lemma set_family_parts [simp]:
  "tp_families (set_family f p) = gm_set (tp_MF p) (f (the_family p)) (tp_families p)"
  "tp_metrics (set_family f p) = tp_metrics p" "tp_MF (set_family f p) = tp_MF p" "tp_Metric (set_family f p) = tp_Metric p"
  by (simp_all add: set_family_def)

lemma the_set_family: "the_family (set_family f p) = f (the_family p)"
  unfolding the_family_def [of "set_family f p"] set_family_parts gm_get_set by simp

lemma help_line:
  assumes "name_ok name" and "plain_families (tp_families p)" and "gm_get (tp_families p) name = None" and "one_line help"
  shows "\<exists>q. leads arch (''# HELP '' @ name @ '' '' @ help @ newline # rest) l p rest (Suc l) q
    \<and> tp_families q = gm_set name ((new_family name)\<lparr>mf_Help := help_of help\<rparr>) (tp_families p)
    \<and> tp_metrics q = tp_metrics p"
proof -
  let ?s = "''# HELP '' @ name @ '' '' @ help @ newline # rest"
  have s: "?s = ''# '' @ ''HELP'' @ '' '' @ name @ '' '' @ help @ newline # rest" by simp
  note loop = comment_reads [OF disjI1 [OF refl] assms(1,2) s]
  have fam: "tp_families (settled_on name p) = gm_set name (new_family name) (tp_families p)"
    by (simp add: with_family_def assms(3))
  show ?thesis
  proof (cases "dropWhile isBlankOrTab help")
    case Nil
    then have "leads arch ?s l p rest (Suc l) (settled_on name p)"
      unfolding leads_def loop Nil list.case by blast
    moreover have "help_of help = None" unfolding help_of_def Nil by simp
    ultimately show ?thesis using fam
      by (intro exI [of _ "settled_on name p"]) (simp add: new_family_def)
  next
    case (Cons c cs)
    note cs = one_line_rest [OF assms(4) Cons]
    let ?q = "set_family (\<lambda>mf. mf\<lparr>mf_Help := Some (c # cs)\<rparr>) (settled_on name p)"
    have "state_step arch ReadingHelp (place c (cs @ newline # rest) name (Suc l) (settled_on name p))
      = (Some StartOfLine, place newline rest (c # cs) (Suc l) ?q)"
      by (simp add: readingHelp_def placed newline_place [OF cs] settled_family assms(3) new_family_def after_def)
    from parse_next [OF this] have "leads arch ?s l p rest (Suc l) ?q"
      unfolding leads_def loop Cons using cs by (simp add: Cons) blast
    moreover have "tp_families ?q = gm_set name ((new_family name)\<lparr>mf_Help := help_of help\<rparr>) (tp_families p)"
      by (simp add: settled_family assms(3) fam Cons help_of_def with_family_def)
    ultimately show ?thesis by (intro exI [of _ ?q]) simp
  qed
qed

lemma type_line:
  assumes "name_ok name" and "plain_families (tp_families p)" and "gm_get (tp_families p) name = Some mf" and "mf_Type mf = None"
  shows "\<exists>q. leads arch (''# TYPE '' @ name @ '' gauge'' @ newline # rest) l p rest (Suc l) q
    \<and> tp_families q = gm_set name (mf\<lparr>mf_Type := Some GAUGE\<rparr>) (tp_families p) \<and> tp_metrics q = tp_metrics p"
proof -
  let ?s = "''# TYPE '' @ name @ '' gauge'' @ newline # rest"
  have s: "?s = ''# '' @ ''TYPE'' @ '' '' @ name @ '' '' @ ''gauge'' @ newline # rest" by simp
  note loop = comment_reads [OF disjI2 [OF refl] assms(1,2) s]
  have g: "dropWhile isBlankOrTab ''gauge'' = ''gauge''" by (simp add: isBlankOrTab_def)
  let ?q = "set_family (\<lambda>mf. mf\<lparr>mf_Type := Some GAUGE\<rparr>) (settled_on name p)"
  have v: "MetricType_value (upper_bytes ''gauge'') = Some GAUGE" by code_simp
  have "state_step arch ReadingType (place CHR ''g'' (''auge'' @ newline # rest) name (Suc l) (settled_on name p))
    = (Some StartOfLine, place newline rest ''gauge'' (Suc l) ?q)"
    using newline_place [of "CHR ''g''" "''auge''" False rest name "Suc l" "settled_on name p"]
    by (simp add: readingType_def placed settled_family assms(3,4) after_def v del: upper_bytes.simps)
  from parse_next [OF this] have "leads arch ?s l p rest (Suc l) ?q"
    unfolding leads_def loop g by simp blast
  moreover have "tp_families ?q = gm_set name (mf\<lparr>mf_Type := Some GAUGE\<rparr>) (tp_families p)"
    by (simp add: settled_family assms(3) with_family_def)
  ultimately show ?thesis by (intro exI [of _ ?q]) simp
qed

section \<open>Labels\<close>

definition label_name_ok :: "string \<Rightarrow> bool" where
  "label_name_ok k \<longleftrightarrow> (case k of [] \<Rightarrow> False
     | c # cs \<Rightarrow> isValidLabelNameStart c \<and> (\<forall>d \<in> set cs. isValidLabelNameContinuation d)) \<and> k \<noteq> ''__name__''"

definition label_ok :: "string \<times> string \<Rightarrow> bool" where
  "label_ok kv \<longleftrightarrow> label_name_ok (fst kv) \<and> ValidString (snd kv)"

text \<open>The series of the current family are gauges, and its current metric is there.\<close>

definition in_gauge :: "text_parser \<Rightarrow> bool" where
  "in_gauge p \<longleftrightarrow> GetType (the_family p) = GAUGE \<and> tp_Metric p < length (tp_metrics p)"

definition more_labels :: "(string \<times> string) list \<Rightarrow> dto_metric \<Rightarrow> dto_metric" where
  "more_labels kvs m = m\<lparr>dm_Label := dm_Label m @ map (\<lambda>(k, v). (k, Some v)) kvs\<rparr>"

lemma the_family_cong: "tp_families p = tp_families q \<Longrightarrow> tp_MF p = tp_MF q \<Longrightarrow> the_family p = the_family q"
  by (simp only: the_family_def)

lemma set_metric_parts [simp]:
  "tp_families (set_metric f p) = tp_families p" "tp_MF (set_metric f p) = tp_MF p" "tp_Metric (set_metric f p) = tp_Metric p"
  "length (tp_metrics (set_metric f p)) = length (tp_metrics p)"
  "tp_listed (set_metric f p) = tp_listed p" "tp_LabelPair (set_metric f p) = tp_LabelPair p"
  by (simp_all add: set_metric_def)

lemma same_family [simp]:
  "the_family (set_metric f p) = the_family p" "the_family (p\<lparr>tp_LabelPair := lp\<rparr>) = the_family p"
  by (rule the_family_cong; simp)+

lemma the_set_metric: "tp_Metric p < length (tp_metrics p) \<Longrightarrow> the_metric (set_metric f p) = f (the_metric p)"
  by (simp add: the_metric_def set_metric_def)

text \<open>What is left of the parser's state by a name that is read, its value not yet.\<close>

definition named :: "string \<Rightarrow> text_parser \<Rightarrow> text_parser" where
  "named k p = set_metric (\<lambda>m. m\<lparr>dm_Label := dm_Label m @ [(k, None)]\<rparr>) (p\<lparr>tp_LabelPair := (k, None), tp_listed := True\<rparr>)"

lemma named_parts [simp]:
  "tp_families (named k p) = tp_families p" "tp_MF (named k p) = tp_MF p" "tp_Metric (named k p) = tp_Metric p"
  "length (tp_metrics (named k p)) = length (tp_metrics p)" "tp_listed (named k p)" "tp_LabelPair (named k p) = (k, None)"
  by (simp_all add: named_def)

lemma named_family [simp]: "the_family (named k p) = the_family p"
  by (rule the_family_cong) simp_all

lemma named_metric: "tp_Metric p < length (tp_metrics p) \<Longrightarrow>
    the_metric (named k p) = (the_metric p)\<lparr>dm_Label := dm_Label (the_metric p) @ [(k, None)]\<rparr>"
  by (simp add: named_def the_metric_def set_metric_def)

lemma label_name_step:
  assumes "label_name_ok k" and "in_gauge p"
  shows "state_step arch StartLabelName (place b (k @ CHR ''='' # s) t l p) =
    (if distinct (map fst (dm_Label (the_metric p)) @ [k]) then (Some StartLabelValue, place CHR ''='' s k l (named k p))
     else (None, parseError (DuplicateLabelNames (mf_Name (the_family p))) (place CHR ''='' s k l (named k p))))"
proof -
  obtain c cs where k: "k = c # cs" "isValidLabelNameStart c" "\<forall>d \<in> set cs. isValidLabelNameContinuation d" "k \<noteq> ''__name__''"
    using assms(1) by (auto simp: label_name_ok_def split: list.splits)
  have c: "\<not> isBlankOrTab c" "c \<noteq> CHR ''}''" "\<not> isBlankOrTab CHR ''=''" using k(2) by (auto simp: name_char_defs)
  have s1: "skipBlankTab (place b (k @ CHR ''='' # s) t l p) = place c (cs @ CHR ''='' # s) t l p"
    using c by (simp add: k(1) placed)
  have s2: "readTokenAsLabelName (place c (cs @ CHR ''='' # s) t l p) = place CHR ''='' s k l p"
    using k by (subst label_name_place) simp_all
  have m: "map fst (dm_Label (the_metric (named k p))) = map fst (dm_Label (the_metric p)) @ [k]"
    using assms(2) by (simp add: in_gauge_def named_metric)
  have n: "set_metric (\<lambda>m. m\<lparr>dm_Label := dm_Label m @ [(k, None)]\<rparr>) (p\<lparr>tp_LabelPair := (k, None), tp_listed := True\<rparr>) = named k p"
    by (simp add: named_def)
  have g: "GetType (the_family (p\<lparr>tp_LabelPair := (k, None)\<rparr>)) = GAUGE" "GetType (the_family p) = GAUGE"
    using assms(2) by (simp_all add: in_gauge_def)
  have "k \<noteq> []" by (simp add: k(1))
  then show ?thesis
    unfolding state_step.simps startLabelName_def s1 after_def place_fields s2 Let_def
    using k(4) c m by (simp add: placed g n failed_def)
qed

text \<open>The label with its value.\<close>

definition valued :: "string \<Rightarrow> string \<Rightarrow> text_parser \<Rightarrow> text_parser" where
  "valued k v p = set_metric (\<lambda>m. m\<lparr>dm_Label := butlast (dm_Label m) @ [(k, Some v)]\<rparr>)
     ((named k p)\<lparr>tp_LabelPair := (k, Some v)\<rparr>)"

lemma set_label_value_place:
  "set_label_value (place c s v l (named k p)) = place c s v l (valued k v p)"
  by (simp add: set_label_value_def placed valued_def Let_def)

lemma valued_parts [simp]:
  "tp_families (valued k v p) = tp_families p" "tp_MF (valued k v p) = tp_MF p" "tp_Metric (valued k v p) = tp_Metric p"
  "length (tp_metrics (valued k v p)) = length (tp_metrics p)"
  by (simp_all add: valued_def)

lemma valued_family [simp]: "the_family (valued k v p) = the_family p"
  by (rule the_family_cong) simp_all

lemma valued_metrics:
  "tp_Metric p < length (tp_metrics p) \<Longrightarrow>
   tp_metrics (valued k v p) = (tp_metrics p)[tp_Metric p := more_labels [(k, v)] (the_metric p)]"
  by (simp add: valued_def named_def set_metric_def the_metric_def more_labels_def)

lemma valued_gauge: "in_gauge p \<Longrightarrow> in_gauge (valued k v p)"
  by (simp add: in_gauge_def)

lemma label_value_step:
  assumes "ValidString v" and "in_gauge p"
  shows "state_step arch StartLabelValue (place b (dquote # escape v @ dquote # CHR '','' # s) t l (named k p))
      = (Some StartLabelName, place CHR '','' s v l (valued k v p))"
    and "\<not> isBlankOrTab d \<Longrightarrow>
      state_step arch StartLabelValue (place b (dquote # escape v @ dquote # ''} '' @ d # s) t l (named k p))
      = (Some ReadingValue, place d s v l (valued k v p))"
proof -
  have b: "\<not> isBlankOrTab dquote" "\<not> isBlankOrTab CHR '',''" "\<not> isBlankOrTab CHR ''}''"
    by (simp_all add: isBlankOrTab_def)
  have s1: "skipBlankTab (place b (dquote # s') t l (named k p)) = place dquote s' t l (named k p)" for s'
    using b by (simp add: placed)
  have g: "GetType (the_family p) = GAUGE" using assms(2) by (simp add: in_gauge_def)
  have v: "state_step arch StartLabelValue (place b (dquote # escape v @ dquote # s') t l (named k p)) =
      after (skipBlankTab (place dquote s' v l (valued k v p))) (\<lambda>p.
        if tp_byte p = CHR '','' then (Some StartLabelName, p)
        else if tp_byte p = CHR ''}'' then after (skipBlankTab p) (\<lambda>p. (Some ReadingValue, p))
        else failed (UnexpectedAfterLabelValue v) p)" for s'
    using assms(1) unfolding state_step.simps startLabelValue_def s1 after_def place_fields Let_def
    by (simp add: label_value_place placed set_label_value_place g)
  show "state_step arch StartLabelValue (place b (dquote # escape v @ dquote # CHR '','' # s) t l (named k p))
      = (Some StartLabelName, place CHR '','' s v l (valued k v p))"
    unfolding v using b by (simp add: placed after_def)
  show "state_step arch StartLabelValue (place b (dquote # escape v @ dquote # ''} '' @ d # s) t l (named k p))
      = (Some ReadingValue, place d s v l (valued k v p))" if "\<not> isBlankOrTab d"
    unfolding v using b that by (simp add: placed after_def)
qed

lemma show_label_text: "show_label (k, v) @ s = k @ CHR ''='' # dquote # escape v @ dquote # s"
  by (simp add: show_label_def)

lemma labels_read:
  assumes "kvs \<noteq> []" and "\<forall>kv \<in> set kvs. label_ok kv" and "in_gauge p" and "\<not> isBlankOrTab d"
    and "distinct (map fst (dm_Label (the_metric p)) @ map fst kvs)"
  shows "\<exists>t' q. parse_loop arch StartLabelName (place b (intersperse '','' (map show_label kvs) @ ''} '' @ d # s) t l p)
      = parse_loop arch ReadingValue (place d s t' l q)
    \<and> tp_families q = tp_families p \<and> tp_MF q = tp_MF p \<and> tp_Metric q = tp_Metric p
    \<and> tp_metrics q = (tp_metrics p)[tp_Metric p := more_labels kvs (the_metric p)]"
  using assms
proof (induction kvs arbitrary: b t p)
  case (Cons kv kvs)
  obtain k v where kv: "kv = (k, v)" by fastforce
  have ok: "label_name_ok k" "ValidString v" and g: "tp_Metric p < length (tp_metrics p)"
    using Cons.prems(2,3) by (simp_all add: kv label_ok_def in_gauge_def)
  let ?p = "valued k v p"
  have di: "distinct (map fst (dm_Label (the_metric p)) @ [k])" using Cons.prems(5) by (auto simp: kv)
  have m: "the_metric ?p = more_labels [(k, v)] (the_metric p)"
    using g by (simp add: the_metric_def valued_metrics)
  have name: "parse_loop arch StartLabelName (place b (show_label (k, v) @ s') t l p)
      = parse_loop arch StartLabelValue (place CHR ''='' (dquote # escape v @ dquote # s') k l (named k p))" for s'
    unfolding show_label_text
    by (rule parse_next) (simp only: label_name_step [OF ok(1) Cons.prems(3)] di if_True)
  show ?case
  proof (cases kvs)
    case Nil
    let ?s = "show_label (k, v) @ ''} '' @ d # s"
    have "parse_loop arch StartLabelName (place b ?s t l p) = parse_loop arch ReadingValue (place d s v l ?p)"
      unfolding name by (rule parse_next) (rule label_value_step(2) [OF ok(2) Cons.prems(3,4)])
    then show ?thesis
      using g by (intro exI [of _ v] exI [of _ ?p]) (simp add: Nil kv valued_metrics)
  next
    case kvs: (Cons kv' kvs')
    let ?s = "intersperse '','' (map show_label kvs) @ ''} '' @ d # s"
    have "intersperse '','' (map show_label (kv # kvs)) @ ''} '' @ d # s = show_label (k, v) @ CHR '','' # ?s"
      by (simp add: kvs kv)
    moreover have "parse_loop arch StartLabelName (place b (show_label (k, v) @ CHR '','' # ?s) t l p)
        = parse_loop arch StartLabelName (place CHR '','' ?s v l ?p)"
      unfolding name by (rule parse_next) (rule label_value_step(1) [OF ok(2) Cons.prems(3)])
    moreover obtain t' q where "parse_loop arch StartLabelName (place CHR '','' ?s v l ?p)
        = parse_loop arch ReadingValue (place d s t' l q)"
      "tp_families q = tp_families p" "tp_MF q = tp_MF p" "tp_Metric q = tp_Metric p"
      "tp_metrics q = (tp_metrics ?p)[tp_Metric p := more_labels kvs (the_metric ?p)]"
      using Cons.IH [of ?p "CHR '',''" v] Cons.prems valued_gauge [OF Cons.prems(3), of k v]
      by (auto simp: kvs m kv more_labels_def)
    moreover have "more_labels kvs (more_labels [(k, v)] m) = more_labels (kv # kvs) m" for m
      by (simp add: more_labels_def kv)
    ultimately show ?thesis
      using g by (intro exI [of _ t'] exI [of _ q]) (simp only: m valued_metrics list_update_overwrite)
  qed
qed simp

text \<open>A label name that is there already ends the parse.\<close>

lemma labels_refused:
  assumes "\<forall>kv \<in> set kvs. label_ok kv" and "in_gauge p" and "distinct (map fst (dm_Label (the_metric p)))"
    and "\<not> distinct (map fst (dm_Label (the_metric p)) @ map fst kvs)" and "\<not> isBlankOrTab d"
  shows "tp_err (parse_loop arch StartLabelName (place b (intersperse '','' (map show_label kvs) @ ''} '' @ d # s) t l p))
    = Some (ParseError l (DuplicateLabelNames (mf_Name (the_family p))))"
  using assms
proof (induction kvs arbitrary: b t p)
  case (Cons kv kvs)
  obtain k v where kv: "kv = (k, v)" by fastforce
  have ok: "label_name_ok k" "ValidString v" and g: "tp_Metric p < length (tp_metrics p)"
    using Cons.prems(1,2) by (simp_all add: kv label_ok_def in_gauge_def)
  let ?s = "intersperse '','' (map show_label kvs) @ ''} '' @ d # s"
  obtain s' where s': "intersperse '','' (map show_label (kv # kvs)) @ ''} '' @ d # s = show_label (k, v) @ s'"
    "kvs \<noteq> [] \<Longrightarrow> s' = CHR '','' # ?s"
    by (cases kvs) (auto simp: kv)
  show ?case
  proof (cases "k \<in> fst ` set (dm_Label (the_metric p))")
    case True
    then have di: "distinct (map fst (dm_Label (the_metric p)) @ [k]) = False" by simp
    show ?thesis
      unfolding s' show_label_text
        parse_stop [OF label_name_step [OF ok(1) Cons.prems(2), unfolded di if_False]]
      by (simp add: parseError_def placed)
  next
    case False
    with Cons.prems(3) have di: "distinct (map fst (dm_Label (the_metric p)) @ [k])" by simp
    with Cons.prems(4) have ne: "kvs \<noteq> []" by (auto simp: kv)
    let ?p = "valued k v p"
    have "the_metric ?p = more_labels [(k, v)] (the_metric p)"
      using g by (simp add: the_metric_def valued_metrics)
    then have m: "map fst (dm_Label (the_metric ?p)) = map fst (dm_Label (the_metric p)) @ [k]"
      by (simp add: more_labels_def)
    have "parse_loop arch StartLabelName (place b (show_label (k, v) @ CHR '','' # ?s) t l p)
        = parse_loop arch StartLabelValue (place CHR ''='' (dquote # escape v @ dquote # CHR '','' # ?s) k l (named k p))"
      unfolding show_label_text
      by (rule parse_next) (simp only: label_name_step [OF ok(1) Cons.prems(2)] di if_True)
    also have "\<dots> = parse_loop arch StartLabelName (place CHR '','' ?s v l ?p)"
      by (rule parse_next) (rule label_value_step(1) [OF ok(2) Cons.prems(2)])
    finally show ?thesis
      unfolding s' s'(2) [OF ne]
      using Cons.IH [of ?p "CHR '',''" v] Cons.prems(1,4,5) di valued_gauge [OF Cons.prems(2), of k v]
      by (simp add: m kv)
  qed
qed simp

text \<open>What the program writes as a label name has word characters only. Not all such names are good.\<close>

definition word_key :: "string \<Rightarrow> bool" where
  "word_key k \<longleftrightarrow> (\<forall>c \<in> set k. isValidLabelNameContinuation c)"

lemma bad_label_name:
  assumes "\<not> label_name_ok k" and "word_key k"
  shows "\<exists>msg. tp_err (parse_loop arch StartLabelName (place b (k @ CHR ''='' # s) t l p)) = Some (ParseError l msg)"
proof (cases "k = ''__name__''")
  case True
  have "readTokenAsLabelName (place CHR ''_'' (''_name__'' @ CHR ''='' # s) t l p) = place CHR ''='' s k l p"
    by (subst label_name_place) (simp_all add: True name_char_defs)
  moreover have "skipBlankTab (place b (k @ CHR ''='' # s) t l p) = place CHR ''_'' (''_name__'' @ CHR ''='' # s) t l p"
    by (simp add: True placed isBlankOrTab_def)
  ultimately have "state_step arch StartLabelName (place b (k @ CHR ''='' # s) t l p)
      = (None, parseError ReservedLabelName (place CHR ''='' s k l (p\<lparr>tp_LabelPair := (k, None)\<rparr>)))"
    by (simp add: startLabelName_def after_def placed Let_def True failed_def)
  then show ?thesis by (simp add: parse_stop parseError_def placed)
next
  case False
  obtain c cs where k: "k @ CHR ''='' # s = c # cs" by (cases k) auto
  have c: "\<not> isBlankOrTab c" "c \<noteq> CHR ''}''" "\<not> isValidLabelNameStart c"
    using assms False k by (cases k; auto simp: word_key_def label_name_ok_def name_char_defs)+
  have "skipBlankTab (place b (c # cs) t l p) = place c cs t l p" using c by (simp add: placed)
  then have "state_step arch StartLabelName (place b (c # cs) t l p)
      = (None, parseError (InvalidLabelName (mf_Name (the_family p))) (place c cs [] l p))"
    using c by (simp add: startLabelName_def after_def placed Let_def readTokenAsLabelName_def failed_def)
  then show ?thesis unfolding k by (simp add: parse_stop parseError_def placed)
qed

lemma bad_label_value:
  assumes "\<not> ValidString v"
  shows "tp_err (parse_loop arch StartLabelValue (place b (dquote # escape v @ dquote # s) t l p))
    = Some (ParseError l (InvalidLabelValue v))"
proof -
  have "skipBlankTab (place b (dquote # escape v @ dquote # s) t l p) = place dquote (escape v @ dquote # s) t l p"
    by (simp add: placed isBlankOrTab_def)
  with assms have "state_step arch StartLabelValue (place b (dquote # escape v @ dquote # s) t l p)
      = (None, parseError (InvalidLabelValue v) (place dquote s v l p))"
    by (simp add: startLabelValue_def after_def placed label_value_place failed_def)
  then show ?thesis by (simp add: parse_stop parseError_def placed)
qed

lemma bad_labels:
  assumes "\<forall>kv \<in> set kvs. word_key (fst kv)" and "\<exists>kv \<in> set kvs. \<not> label_ok kv" and "in_gauge p"
    and "distinct (map fst (dm_Label (the_metric p)))" and "\<not> isBlankOrTab d"
  shows "\<exists>msg. tp_err (parse_loop arch StartLabelName
    (place b (intersperse '','' (map show_label kvs) @ ''} '' @ d # s) t l p)) = Some (ParseError l msg)"
  using assms
proof (induction kvs arbitrary: b t p)
  case (Cons kv kvs)
  obtain k v where kv: "kv = (k, v)" by fastforce
  let ?s = "intersperse '','' (map show_label kvs) @ ''} '' @ d # s"
  obtain s' where s': "intersperse '','' (map show_label (kv # kvs)) @ ''} '' @ d # s = show_label (k, v) @ s'"
    "kvs \<noteq> [] \<Longrightarrow> s' = CHR '','' # ?s"
    by (cases kvs) (auto simp: kv)
  have wk: "word_key k" using Cons.prems(1) by (simp add: kv)
  let ?di = "distinct (map fst (dm_Label (the_metric p)) @ [k])"
  show ?case
  proof (cases "label_name_ok k")
    case False
    then show ?thesis unfolding s' show_label_text using wk by (rule bad_label_name)
  next
    case ok: True
    show ?thesis
    proof (cases ?di)
      case False
      then have di: "?di = False" by simp
      show ?thesis
        unfolding s' show_label_text parse_stop [OF label_name_step [OF ok Cons.prems(3), unfolded di if_False]]
        by (simp add: parseError_def placed)
    next
      case di: True
      have name: "parse_loop arch StartLabelName (place b (show_label (k, v) @ s') t l p)
          = parse_loop arch StartLabelValue (place CHR ''='' (dquote # escape v @ dquote # s') k l (named k p))"
        unfolding show_label_text
        by (rule parse_next) (simp only: label_name_step [OF ok Cons.prems(3)] di if_True)
      show ?thesis
      proof (cases "ValidString v")
        case False
        then show ?thesis unfolding s' name by (blast dest: bad_label_value)
      next
        case v: True
        with ok Cons.prems(2) have rest: "\<exists>kv \<in> set kvs. \<not> label_ok kv" by (auto simp: kv label_ok_def)
        then have ne: "kvs \<noteq> []" by auto
        let ?p = "valued k v p"
        have "tp_Metric p < length (tp_metrics p)" using Cons.prems(3) by (simp add: in_gauge_def)
        then have "the_metric ?p = more_labels [(k, v)] (the_metric p)"
          by (simp add: the_metric_def valued_metrics)
        then have m: "distinct (map fst (dm_Label (the_metric ?p)))" using di by (simp add: more_labels_def)
        have "parse_loop arch StartLabelValue (place CHR ''='' (dquote # escape v @ dquote # CHR '','' # ?s) k l (named k p))
            = parse_loop arch StartLabelName (place CHR '','' ?s v l ?p)"
          by (rule parse_next) (rule label_value_step(1) [OF v Cons.prems(3)])
        moreover have "\<exists>msg. tp_err (parse_loop arch StartLabelName (place CHR '','' ?s v l ?p)) = Some (ParseError l msg)"
          using Cons.IH [OF _ rest valued_gauge [OF Cons.prems(3)] m Cons.prems(5)] Cons.prems(1) by simp
        ultimately show ?thesis unfolding s' name by (simp only: s'(2) [OF ne])
      qed
    qed
  qed
qed simp

section \<open>Series\<close>

text \<open>The metric that a series of a gauge becomes.\<close>

definition gauge_metric :: "(string \<times> string) list \<Rightarrow> float64 \<Rightarrow> dto_metric" where
  "gauge_metric kvs y = (more_labels kvs empty_metric)\<lparr>dm_Gauge := Some y\<rparr>"

definition value_ok :: "string \<Rightarrow> bool" where
  "value_ok text \<longleftrightarrow> text \<noteq> [] \<and> (\<forall>c \<in> set text. \<not> isBlankOrTab c \<and> c \<noteq> newline)"

text \<open>The parser where the labels of a series begin.\<close>

definition opened :: "string \<Rightarrow> text_parser \<Rightarrow> text_parser" where
  "opened name p = (settled_on name p)\<lparr>tp_metrics := tp_metrics p @ [empty_metric], tp_Metric := length (tp_metrics p)\<rparr>"

lemma opened_parts [simp]:
  "tp_families (opened name p) = with_family name (tp_families p)" "tp_MF (opened name p) = name"
  "tp_metrics (opened name p) = tp_metrics p @ [empty_metric]" "tp_Metric (opened name p) = length (tp_metrics p)"
  by (simp_all add: opened_def)

lemma opened_family: "the_family (opened name p) =
    (case gm_get (tp_families p) name of None \<Rightarrow> new_family name | Some mf \<Rightarrow> mf)"
  unfolding settled_family [symmetric] by (rule the_family_cong) simp_all

lemma opened_metric [simp]: "the_metric (opened name p) = empty_metric"
  by (simp add: the_metric_def)

lemma series_opens:
  assumes "name_ok name" and "plain_families (tp_families p)" and "gm_get (tp_families p) name = Some mf"
    and "mf_Type mf = Some GAUGE"
  shows "parse_loop arch StartOfLine (place b (name @ CHR ''{'' # s) t l p)
    = parse_loop arch StartLabelName (place CHR ''{'' s name (Suc l) (opened name p))"
    and "in_gauge (opened name p)"
proof -
  obtain c cs where name: "name = c # cs" "isValidMetricNameStart c" "\<forall>d \<in> set cs. isValidMetricNameContinuation d"
    using assms(1) by (auto simp: name_ok_def split: list.splits)
  have c: "\<not> isBlankOrTab c" "c \<noteq> newline" "c \<noteq> CHR ''#''" "\<not> isBlankOrTab CHR ''{''"
    using name_start_char [OF name(2)] by (auto simp: isBlankOrTab_def)
  let ?s = "CHR ''{'' # s"
  have "parse_loop arch StartOfLine (place b (name @ ?s) t l p)
      = parse_loop arch ReadingMetricName (place c (cs @ ?s) t (Suc l) p)"
    using c by (intro parse_next) (simp add: startOfLine_def placed name(1))
  moreover have r: "readTokenAsMetricName (place c (cs @ ?s) t (Suc l) p) = place CHR ''{'' s name (Suc l) p"
    using name by (subst metric_name_place) simp_all
  have f: "the_family (settled_on name p) = mf" by (simp add: settled_family assms(3))
  have "readingMetricName (place c (cs @ ?s) t (Suc l) p) = (Some ReadingLabels, place CHR ''{'' s name (Suc l) (opened name p))"
    unfolding readingMetricName_def r after_def place_fields Let_def settle_place [OF assms(2)] place_family f
    using c by (simp add: assms(4) placed name(1)) (simp add: opened_def)
  then have "parse_loop arch ReadingMetricName (place c (cs @ ?s) t (Suc l) p)
      = parse_loop arch ReadingLabels (place CHR ''{'' s name (Suc l) (opened name p))"
    by (intro parse_next) simp
  moreover have g: "GetType (the_family (opened name p)) = GAUGE"
    by (simp add: opened_family assms(3,4) GetType_def)
  then have "parse_loop arch ReadingLabels (place CHR ''{'' s name (Suc l) (opened name p))
      = parse_loop arch StartLabelName (place CHR ''{'' s name (Suc l) (opened name p))"
    by (intro parse_next) (simp add: readingLabels_def placed)
  ultimately show "parse_loop arch StartOfLine (place b (name @ CHR ''{'' # s) t l p)
    = parse_loop arch StartLabelName (place CHR ''{'' s name (Suc l) (opened name p))" by simp
  show "in_gauge (opened name p)" using g by (simp add: in_gauge_def)
qed

lemma format_f_chars: "c \<in> set (format_f x) \<Longrightarrow> is_digit c \<or> c \<in> set ''.+-InfaN''"
proof -
  assume c: "c \<in> set (format_f x)"
  have d: "b \<in> set (show_nat n) \<Longrightarrow> is_digit b" for b n
    using show_nat_digits [of n] by (simp add: list_all_iff)
  then have "b \<in> set (pad_left k (show_nat n)) \<Longrightarrow> is_digit b" for b k n
    by (auto simp: pad_left_def is_digit_def)
  with c d show ?thesis by (cases x) (auto simp: Let_def split: if_splits)
qed

lemma format_f_value: "value_ok (format_f x)" "parse_value (format_f x) = ParseFloat (format_f x)"
proof -
  have "\<not> isBlankOrTab c \<and> c \<noteq> newline \<and> c \<notin> {CHR ''p'', CHR ''P'', CHR ''_''}" if "c \<in> set (format_f x)" for c
    using format_f_chars [OF that] by (auto simp: isBlankOrTab_def is_digit_def)
  moreover have "format_f x \<noteq> []" by (cases x) (simp_all add: Let_def)
  ultimately show "value_ok (format_f x)" "parse_value (format_f x) = ParseFloat (format_f x)"
    by (auto simp: value_ok_def parse_value_def)
qed

lemma value_reads:
  assumes "value_ok (d # ds)" and "parse_value (d # ds) = Some y" and "GetType (the_family q) = GAUGE"
  shows "parse_loop arch ReadingValue (place d (ds @ newline # rest) t l q)
    = parse_loop arch StartOfLine (place newline rest (d # ds) l
        (set_metric (\<lambda>m. m\<lparr>dm_Gauge := Some y\<rparr>) (append_metric q)))"
proof (rule parse_next)
  let ?q = "append_metric q"
  have a: "attach_metric (place c s t l q) = place c s t l ?q" for c s t l
    by (simp add: attach_metric_def placed assms(3) append_metric_def Let_def)
  have r: "readTokenUntilWhitespace (place d (ds @ newline # rest) t l ?q) = place newline rest (d # ds) l ?q"
    using assms(1) by (subst whitespace_place) (auto simp: value_ok_def)
  have "GetType (the_family ?q) = GAUGE"
    using assms(3) by (simp add: append_metric_def the_set_family) (simp add: GetType_def)
  then show "state_step arch ReadingValue (place d (ds @ newline # rest) t l q)
    = (Some StartOfLine, place newline rest (d # ds) l (set_metric (\<lambda>m. m\<lparr>dm_Gauge := Some y\<rparr>) ?q))"
    by (simp add: readingValue_def a r after_def placed assms(2) set_value_def Let_def)
qed

lemma series_line_reads:
  assumes "name_ok name" and "plain_families (tp_families p)" and "gm_get (tp_families p) name = Some mf"
    and "mf_Type mf = Some GAUGE" and "kvs \<noteq> []" and "\<forall>kv \<in> set kvs. label_ok kv" and "distinct (map fst kvs)"
    and "ParseFloat (format_f x) = Some y"
  shows "\<exists>q. leads arch (name @ series_head kvs @ format_f x @ newline # rest) l p rest (Suc l) q
    \<and> tp_families q = gm_set name (mf\<lparr>mf_Metric := mf_Metric mf @ [length (tp_metrics p)]\<rparr>) (tp_families p)
    \<and> tp_metrics q = tp_metrics p @ [gauge_metric kvs y]"
proof -
  obtain d ds where f: "format_f x = d # ds" using format_f_value(1) [of x] by (cases "format_f x") (auto simp: value_ok_def)
  have v: "value_ok (d # ds)" "parse_value (d # ds) = Some y"
    using format_f_value [of x] assms(8) by (simp_all add: f)
  have d: "\<not> isBlankOrTab d" using v(1) by (simp add: value_ok_def)
  let ?o = "opened name p" and ?s = "ds @ newline # rest"
  note opens = series_opens [OF assms(1-4)]
  have bytes: "name @ series_head kvs @ format_f x @ newline # rest
      = name @ CHR ''{'' # intersperse '','' (map show_label kvs) @ ''} '' @ d # ?s"
    by (simp add: series_head_def f)
  have di: "distinct (map fst (dm_Label (the_metric ?o)) @ map fst kvs)"
    using assms(7) by (simp add: empty_metric_def)
  obtain t' q where q: "parse_loop arch StartLabelName
        (place CHR ''{'' (intersperse '','' (map show_label kvs) @ ''} '' @ d # ?s) name (Suc l) ?o)
      = parse_loop arch ReadingValue (place d ?s t' (Suc l) q)"
    "tp_families q = tp_families ?o" "tp_MF q = tp_MF ?o" "tp_Metric q = tp_Metric ?o"
    "tp_metrics q = (tp_metrics ?o)[tp_Metric ?o := more_labels kvs (the_metric ?o)]"
    using labels_read [OF assms(5,6) opens(2) d di] by blast
  have fam: "the_family q = mf"
    using the_family_cong [OF q(2,3)] by (simp add: opened_family assms(3))
  let ?q = "set_metric (\<lambda>m. m\<lparr>dm_Gauge := Some y\<rparr>) (append_metric q)"
  have "GetType (the_family q) = GAUGE" using assms(4) by (simp add: fam GetType_def)
  from value_reads [OF v this] have "parse_loop arch ReadingValue (place d ?s t' (Suc l) q)
      = parse_loop arch StartOfLine (place newline rest (d # ds) (Suc l) ?q)" .
  then have "leads arch (name @ series_head kvs @ format_f x @ newline # rest) l p rest (Suc l) ?q"
    unfolding leads_def bytes opens(1) q(1) by blast
  moreover have "tp_families ?q = gm_set name (mf\<lparr>mf_Metric := mf_Metric mf @ [length (tp_metrics p)]\<rparr>) (tp_families p)"
    using assms(3) by (simp add: append_metric_def fam q with_family_def)
  moreover have "tp_metrics ?q = tp_metrics p @ [gauge_metric kvs y]"
    by (simp add: set_metric_def the_metric_def append_metric_def q gauge_metric_def)
  ultimately show ?thesis by blast
qed

text \<open>A series with a label name twice is refused, and the rest of the exposition with it.\<close>

lemma series_text:
  obtains d ds where "format_f x = d # ds" and "\<not> isBlankOrTab d"
    and "\<And>rest. name @ series_head kvs @ format_f x @ newline # rest
      = name @ CHR ''{'' # intersperse '','' (map show_label kvs) @ ''} '' @ d # ds @ newline # rest"
  using format_f_value(1) [of x] by (cases "format_f x") (auto simp: value_ok_def series_head_def)

lemma series_line_refused:
  assumes "name_ok name" and "plain_families (tp_families p)" and "gm_get (tp_families p) name = Some mf"
    and "mf_Type mf = Some GAUGE" and "\<forall>kv \<in> set kvs. word_key (fst kv)"
    and "\<not> ((\<forall>kv \<in> set kvs. label_ok kv) \<and> distinct (map fst kvs))"
  shows "\<exists>msg. refused arch (name @ series_head kvs @ format_f x @ newline # rest) l p (ParseError (Suc l) msg)"
    and "\<forall>kv \<in> set kvs. label_ok kv \<Longrightarrow> refused arch (name @ series_head kvs @ format_f x @ newline # rest) l p
      (ParseError (Suc l) (DuplicateLabelNames (mf_Name mf)))"
proof -
  obtain d ds where bytes: "\<not> isBlankOrTab d" "name @ series_head kvs @ format_f x @ newline # rest
      = name @ CHR ''{'' # intersperse '','' (map show_label kvs) @ ''} '' @ d # ds @ newline # rest"
    by (rule series_text [where x = x and name = name and kvs = kvs]) metis
  note opens = series_opens [OF assms(1-4)]
  have f: "the_family (opened name p) = mf" by (simp add: opened_family assms(3))
  have dup: "refused arch (name @ series_head kvs @ format_f x @ newline # rest) l p
      (ParseError (Suc l) (DuplicateLabelNames (mf_Name mf)))" if ok: "\<forall>kv \<in> set kvs. label_ok kv"
    unfolding refused_def bytes(2) opens(1)
    using labels_refused [OF ok opens(2) _ _ bytes(1)] assms(6) ok f by (simp add: empty_metric_def)
  then show "\<forall>kv \<in> set kvs. label_ok kv \<Longrightarrow> refused arch (name @ series_head kvs @ format_f x @ newline # rest) l p
      (ParseError (Suc l) (DuplicateLabelNames (mf_Name mf)))" .
  show "\<exists>msg. refused arch (name @ series_head kvs @ format_f x @ newline # rest) l p (ParseError (Suc l) msg)"
  proof (cases "\<forall>kv \<in> set kvs. label_ok kv")
    case True
    with dup show ?thesis by blast
  next
    case False
    then have "\<exists>kv \<in> set kvs. \<not> label_ok kv" by blast
    from bad_labels [OF assms(5) this opens(2) _ bytes(1)] show ?thesis
      unfolding refused_def bytes(2) opens(1) by (simp add: empty_metric_def)
  qed
qed

end
