(* ===== verification/Exposition.thy ===== *)
theory Exposition
  imports Text_Reading
begin

text \<open>
  What the parser of the text format makes of an exposition: the view of the families it has,
  as a function of the lines so far, and for a whole exposition whether it is accepted and
  what is then in it.
\<close>

section \<open>What has been parsed\<close>

text \<open>A family as its user sees it: its help, its type and its metrics, without the pointers.\<close>

type_synonym family_view = "string option \<times> metric_kind option \<times> dto_metric list"

definition family_view :: "dto_metric list \<Rightarrow> metric_family \<Rightarrow> family_view" where
  "family_view ms mf = (mf_Help mf, mf_Type mf, map (\<lambda>a. ms ! a) (mf_Metric mf))"

definition parsed :: "text_parser \<Rightarrow> string \<Rightarrow> family_view option" where
  "parsed p name = map_option (family_view (tp_metrics p)) (gm_get (tp_families p) name)"

text \<open>The families have their names, and their metrics are there.\<close>

definition parser_wf :: "text_parser \<Rightarrow> bool" where
  "parser_wf p \<longleftrightarrow> gm_wf (tp_families p)
     \<and> (\<forall>name mf. gm_get (tp_families p) name = Some mf
          \<longrightarrow> mf_Name mf = name \<and> (\<forall>a \<in> set (mf_Metric mf). a < length (tp_metrics p)))"

definition gauges :: "(string \<Rightarrow> family_view option) \<Rightarrow> bool" where
  "gauges M \<longleftrightarrow> (\<forall>name h k ms. M name = Some (h, k, ms) \<longrightarrow> k = None \<or> k = Some GAUGE)"

lemma gauges_plain: "gauges (parsed p) \<Longrightarrow> plain_families (tp_families p)"
  unfolding plain_families_def
proof (intro allI impI)
  fix k mf
  assume g: "gauges (parsed p)" and k: "gm_get (tp_families p) k = Some mf"
  have "parsed p k = Some (mf_Help mf, mf_Type mf, map (\<lambda>a. tp_metrics p ! a) (mf_Metric mf))"
    by (simp add: parsed_def k family_view_def)
  with g have "mf_Type mf = None \<or> mf_Type mf = Some GAUGE" unfolding gauges_def by blast
  then show "GetType mf \<noteq> SUMMARY \<and> GetType mf \<noteq> HISTOGRAM" by (auto simp: GetType_def)
qed

text \<open>A family is set, and metrics are added: what that does to the view.\<close>

lemma parsed_set:
  assumes "parser_wf p" and "tp_families q = gm_set name mf (tp_families p)" and "tp_metrics q = tp_metrics p @ ms"
    and "mf_Name mf = name" and "\<forall>a \<in> set (mf_Metric mf). a < length (tp_metrics q)"
  shows "parser_wf q" and "parsed q = (parsed p)(name \<mapsto> family_view (tp_metrics q) mf)"
proof -
  have old: "mf_Name f = n" "\<forall>a \<in> set (mf_Metric f). a < length (tp_metrics p)"
    if "gm_get (tp_families p) n = Some f" for n f
    using assms(1) that unfolding parser_wf_def by blast+
  have "mf_Name f = n \<and> (\<forall>a \<in> set (mf_Metric f). a < length (tp_metrics q))"
    if "gm_get (tp_families q) n = Some f" for n f
    using that old [of n f] assms(2-5) by (auto simp: gm_get_set split: if_splits)
  then show "parser_wf q"
    using assms(1,2) by (auto simp: parser_wf_def gm_wf_set)
  have "family_view (tp_metrics q) f = family_view (tp_metrics p) f" if "gm_get (tp_families p) n = Some f" for n f
    using old [OF that] by (auto simp: family_view_def assms(3) nth_append)
  then have "parsed q n = ((parsed p)(name \<mapsto> family_view (tp_metrics q) mf)) n" for n
    unfolding parsed_def assms(2) gm_get_set by (cases "gm_get (tp_families p) n") auto
  then show "parsed q = (parsed p)(name \<mapsto> family_view (tp_metrics q) mf)" by (rule ext)
qed

lemma parsed_SomeE:
  assumes "parser_wf p" and "parsed p name = Some (h, k, ms)"
  obtains mf where "gm_get (tp_families p) name = Some mf" and "mf_Name mf = name" and "mf_Help mf = h"
    and "mf_Type mf = k" and "map (\<lambda>a. tp_metrics p ! a) (mf_Metric mf) = ms"
    and "\<forall>a \<in> set (mf_Metric mf). a < length (tp_metrics p)"
  using assms by (auto simp: parsed_def family_view_def parser_wf_def)

lemma parsed_NoneE: "parsed p name = None \<Longrightarrow> gm_get (tp_families p) name = None"
  by (simp add: parsed_def)

text \<open>A state of the parse: where it is, and what it has.\<close>

definition reaches :: "(float64 \<Rightarrow> 64 word) \<Rightarrow> string \<Rightarrow> nat \<Rightarrow> text_parser \<Rightarrow> string \<Rightarrow> nat
    \<Rightarrow> (string \<Rightarrow> family_view option) \<Rightarrow> bool" where
  "reaches arch s l p s' l' M \<longleftrightarrow> (\<exists>q. leads arch s l p s' l' q \<and> parser_wf q \<and> parsed q = M)"

lemma reachesI: "leads arch s l p s' l' q \<Longrightarrow> parser_wf q \<Longrightarrow> parsed q = M \<Longrightarrow> reaches arch s l p s' l' M"
  unfolding reaches_def by blast

lemma reaches_trans:
  assumes "reaches arch s l p s' l' M"
    and "\<And>q. parser_wf q \<Longrightarrow> parsed q = M \<Longrightarrow> reaches arch s' l' q s'' l'' N"
  shows "reaches arch s l p s'' l'' N"
  using assms leads_trans unfolding reaches_def by metis

lemma reaches_refused:
  assumes "reaches arch s l p s' l' M" and "\<And>q. parser_wf q \<Longrightarrow> parsed q = M \<Longrightarrow> refused arch s' l' q e"
  shows "refused arch s l p e"
  using assms leads_refused unfolding reaches_def by metis

lemma reaches_refused_somehow:
  assumes "reaches arch s l p s' l' M"
    and "\<And>q. parser_wf q \<Longrightarrow> parsed q = M \<Longrightarrow> \<exists>line msg. refused arch s' l' q (ParseError line msg)"
  shows "\<exists>line msg. refused arch s l p (ParseError line msg)"
proof -
  obtain q where q: "leads arch s l p s' l' q" "parser_wf q" "parsed q = M" using assms(1) unfolding reaches_def by blast
  obtain line msg where "refused arch s' l' q (ParseError line msg)" using assms(2) [OF q(2,3)] by blast
  from leads_refused [OF q(1) this] show ?thesis by blast
qed

lemma help_reaches:
  assumes "name_ok name" and "parser_wf p" and "gauges (parsed p)" and "parsed p name = None" and "one_line help"
  shows "reaches arch (''# HELP '' @ name @ '' '' @ help @ newline # rest) l p rest (Suc l)
    ((parsed p)(name \<mapsto> (help_of help, None, [])))"
proof -
  obtain q where q: "leads arch (''# HELP '' @ name @ '' '' @ help @ newline # rest) l p rest (Suc l) q"
    "tp_families q = gm_set name ((new_family name)\<lparr>mf_Help := help_of help\<rparr>) (tp_families p)"
    "tp_metrics q = tp_metrics p @ []"
    using help_line [OF assms(1) gauges_plain [OF assms(3)] parsed_NoneE [OF assms(4)] assms(5)] unfolding append_Nil2 by blast
  from parsed_set [OF assms(2) q(2,3)] show ?thesis
    by (intro reachesI [OF q(1)]) (simp_all add: new_family_def family_view_def)
qed

lemma type_reaches:
  assumes "name_ok name" and "parser_wf p" and "gauges (parsed p)" and "parsed p name = Some (h, None, ms)"
  shows "reaches arch (''# TYPE '' @ name @ '' gauge'' @ newline # rest) l p rest (Suc l)
    ((parsed p)(name \<mapsto> (h, Some GAUGE, ms)))"
proof -
  from parsed_SomeE [OF assms(2,4)] obtain mf where mf: "gm_get (tp_families p) name = Some mf" "mf_Name mf = name"
    "mf_Help mf = h" "mf_Type mf = None" "map (\<lambda>a. tp_metrics p ! a) (mf_Metric mf) = ms"
    "\<forall>a \<in> set (mf_Metric mf). a < length (tp_metrics p)" .
  obtain q where q: "leads arch (''# TYPE '' @ name @ '' gauge'' @ newline # rest) l p rest (Suc l) q"
    "tp_families q = gm_set name (mf\<lparr>mf_Type := Some GAUGE\<rparr>) (tp_families p)" "tp_metrics q = tp_metrics p @ []"
    using type_line [OF assms(1) gauges_plain [OF assms(3)] mf(1,4)] unfolding append_Nil2 by blast
  from parsed_set [OF assms(2) q(2,3)] mf show ?thesis
    by (intro reachesI [OF q(1)]) (simp_all add: q family_view_def)
qed

lemma series_reaches:
  assumes "name_ok name" and "parser_wf p" and "gauges (parsed p)" and "parsed p name = Some (h, Some GAUGE, ms)"
    and "kvs \<noteq> []" and "\<forall>kv \<in> set kvs. label_ok kv" and "distinct (map fst kvs)" and "ParseFloat (format_f x) = Some y"
  shows "reaches arch (name @ series_head kvs @ format_f x @ newline # rest) l p rest (Suc l)
    ((parsed p)(name \<mapsto> (h, Some GAUGE, ms @ [gauge_metric kvs y])))"
proof -
  from parsed_SomeE [OF assms(2,4)] obtain mf where mf: "gm_get (tp_families p) name = Some mf" "mf_Name mf = name"
    "mf_Help mf = h" "mf_Type mf = Some GAUGE" "map (\<lambda>a. tp_metrics p ! a) (mf_Metric mf) = ms"
    "\<forall>a \<in> set (mf_Metric mf). a < length (tp_metrics p)" .
  obtain q where q: "leads arch (name @ series_head kvs @ format_f x @ newline # rest) l p rest (Suc l) q"
    "tp_families q = gm_set name (mf\<lparr>mf_Metric := mf_Metric mf @ [length (tp_metrics p)]\<rparr>) (tp_families p)"
    "tp_metrics q = tp_metrics p @ [gauge_metric kvs y]"
    using series_line_reads [OF assms(1) gauges_plain [OF assms(3)] mf(1,4) assms(5-8)] by blast
  have "map (\<lambda>a. (tp_metrics p @ [gauge_metric kvs y]) ! a) (mf_Metric mf) = ms"
    using mf(5,6) by (auto simp: nth_append)
  with parsed_set [OF assms(2) q(2,3)] mf show ?thesis
    by (intro reachesI [OF q(1)]) (auto simp: q family_view_def less_SucI)
qed

lemma series_refused:
  assumes "name_ok name" and "parser_wf p" and "gauges (parsed p)" and "parsed p name = Some (h, Some GAUGE, ms)"
    and "\<forall>kv \<in> set kvs. word_key (fst kv)"
    and "\<not> ((\<forall>kv \<in> set kvs. label_ok kv) \<and> distinct (map fst kvs))"
  shows "\<exists>msg. refused arch (name @ series_head kvs @ format_f x @ newline # rest) l p (ParseError (Suc l) msg)"
    and "\<forall>kv \<in> set kvs. label_ok kv \<Longrightarrow> refused arch (name @ series_head kvs @ format_f x @ newline # rest) l p
      (ParseError (Suc l) (DuplicateLabelNames name))"
proof -
  from parsed_SomeE [OF assms(2,4)] obtain mf where mf: "gm_get (tp_families p) name = Some mf" "mf_Name mf = name"
    "mf_Type mf = Some GAUGE" by metis
  note r = series_line_refused [OF assms(1) gauges_plain [OF assms(3)] mf(1,3) assms(5,6)]
  show "\<exists>msg. refused arch (name @ series_head kvs @ format_f x @ newline # rest) l p (ParseError (Suc l) msg)"
    by (rule r(1))
  show "\<forall>kv \<in> set kvs. label_ok kv \<Longrightarrow> refused arch (name @ series_head kvs @ format_f x @ newline # rest) l p
      (ParseError (Suc l) (DuplicateLabelNames name))"
    using r(2) unfolding mf(2) .
qed

text \<open>
  A second header of a family: a second help is an error if there is a first, and the type that
  follows is one in any case.
\<close>

lemma header_refused:
  assumes n: "name_ok name" and wf: "parser_wf p" and g: "gauges (parsed p)"
    and h: "parsed p name = Some (h, Some GAUGE, ms)" and o: "one_line help"
    and s_def: "s = ''# HELP '' @ name @ '' '' @ help @ newline # ''# TYPE '' @ name @ '' gauge'' @ newline # rest"
  shows "refused arch s l p (if h \<noteq> None \<and> help_of help \<noteq> None then ParseError (Suc l) (SecondHelp name)
      else ParseError (Suc (Suc l)) (SecondType name))"
proof -
  from parsed_SomeE [OF wf h] obtain mf where mf: "gm_get (tp_families p) name = Some mf" "mf_Name mf = name"
    "mf_Help mf = h" "mf_Type mf = Some GAUGE" by metis
  let ?type = "''# TYPE '' @ name @ '' gauge'' @ newline # rest"
  have s: "s = ''# '' @ ''HELP'' @ '' '' @ name @ '' '' @ help @ newline # ?type" by (simp add: s_def)
  have pl: "plain_families (tp_families p)" using g by (rule gauges_plain)
  note loop = comment_reads [OF disjI1 [OF refl] n pl s]
  have fam: "the_family (settled_on name p) = mf" by (simp add: settled_family mf(1))
  have fams: "with_family name (tp_families p) = tp_families p" by (simp add: with_family_def mf(1))
  have second: "refused arch ?type l' q (ParseError (Suc l') (SecondType name))"
    if q: "plain_families (tp_families q)" "gm_get (tp_families q) name = Some f" "mf_Type f = Some GAUGE" "mf_Name f = name" for l' q f
  proof -
    have t: "?type = ''# '' @ ''TYPE'' @ '' '' @ name @ '' '' @ ''gauge'' @ newline # rest" by simp
    have d: "dropWhile isBlankOrTab ''gauge'' = ''gauge''" by (simp add: isBlankOrTab_def)
    have "the_family (settled_on name q) = f" by (simp add: settled_family q(2))
    then have "state_step arch ReadingType (place CHR ''g'' (''auge'' @ newline # rest) name (Suc l') (settled_on name q))
        = (None, parseError (SecondType name) (place CHR ''g'' (''auge'' @ newline # rest) name (Suc l') (settled_on name q)))"
      by (simp add: readingType_def placed q(3,4) failed_def)
    from parse_stop [OF this] show ?thesis
      unfolding refused_def comment_reads [OF disjI2 [OF refl] n q(1) t] d by (simp add: parseError_def placed)
  qed
  show ?thesis
  proof (cases "dropWhile isBlankOrTab help")
    case Nil
    then have no: "help_of help = None" by (simp only: help_of_def list.case)
    have "leads arch s l p ?type (Suc l) (settled_on name p)"
      unfolding leads_def loop Nil list.case by blast
    moreover have "refused arch ?type (Suc l) (settled_on name p) (ParseError (Suc (Suc l)) (SecondType name))"
      by (rule second [where f = mf]) (simp_all add: fams pl mf)
    ultimately show ?thesis using no leads_refused by simp
  next
    case (Cons c cs)
    note cs = one_line_rest [OF o Cons]
    have some: "help_of help \<noteq> None" by (simp add: help_of_def Cons)
    show ?thesis
    proof (cases h)
      case (Some h')
      then have "state_step arch ReadingHelp (place c (cs @ newline # ?type) name (Suc l) (settled_on name p))
          = (None, parseError (SecondHelp name) (place c (cs @ newline # ?type) name (Suc l) (settled_on name p)))"
        by (simp add: readingHelp_def placed fam mf failed_def)
      from parse_stop [OF this] have "refused arch s l p (ParseError (Suc l) (SecondHelp name))"
        unfolding refused_def loop Cons using cs by (simp add: parseError_def placed)
      then show ?thesis using some Some by simp
    next
      case None
      let ?q = "set_family (\<lambda>mf. mf\<lparr>mf_Help := Some (c # cs)\<rparr>) (settled_on name p)"
      have "state_step arch ReadingHelp (place c (cs @ newline # ?type) name (Suc l) (settled_on name p))
          = (Some StartOfLine, place newline ?type (c # cs) (Suc l) ?q)"
        by (simp add: readingHelp_def placed newline_place [OF cs] fam mf None after_def)
      from parse_next [OF this] have "leads arch s l p ?type (Suc l) ?q"
        unfolding leads_def loop Cons using cs by (simp add: Cons) blast
      moreover have "refused arch ?type (Suc l) ?q (ParseError (Suc (Suc l)) (SecondType name))"
      proof (rule second)
        show "gm_get (tp_families ?q) name = Some (mf\<lparr>mf_Help := Some (c # cs)\<rparr>)"
          by (simp add: fams fam gm_get_set)
        have "GetType (mf\<lparr>mf_Help := Some (c # cs)\<rparr>) = GAUGE" by (simp add: GetType_def mf(4))
        then show "plain_families (tp_families ?q)"
          using pl unfolding plain_families_def by (auto simp: fams fam gm_get_set split: if_splits)
      qed (simp_all add: mf)
      ultimately show ?thesis using None leads_refused by simp
    qed
  qed
qed

section \<open>Whole expositions\<close>

text \<open>A family with its header and its series: the labels and the value of each.\<close>

record exposed =
  ex_Name :: string
  ex_Help :: string
  ex_Series :: "((string \<times> string) list \<times> float64) list"

definition exposed_line :: "string \<Rightarrow> (string \<times> string) list \<times> float64 \<Rightarrow> string" where
  "exposed_line name kx = name @ series_head (fst kx) @ format_f (snd kx) @ [newline]"

definition exposed_text :: "exposed \<Rightarrow> string" where
  "exposed_text e = ''# HELP '' @ ex_Name e @ '' '' @ ex_Help e @ [newline]
     @ ''# TYPE '' @ ex_Name e @ '' gauge'' @ [newline] @ concat (map (exposed_line (ex_Name e)) (ex_Series e))"

text \<open>What the program sees to: word characters in label names, values that were parsed.\<close>

definition exposed_wf :: "exposed \<Rightarrow> bool" where
  "exposed_wf e \<longleftrightarrow> name_ok (ex_Name e) \<and> one_line (ex_Help e)
     \<and> (\<forall>(kvs, x) \<in> set (ex_Series e). kvs \<noteq> [] \<and> (\<forall>kv \<in> set kvs. word_key (fst kv)) \<and> float_wf x)"

text \<open>What it does not: good label names, each once, and valid label values.\<close>

definition labels_good :: "(string \<times> string) list \<Rightarrow> bool" where
  "labels_good kvs \<longleftrightarrow> (\<forall>kv \<in> set kvs. label_ok kv) \<and> distinct (map fst kvs)"

definition series_good :: "exposed \<Rightarrow> bool" where
  "series_good e \<longleftrightarrow> (\<forall>(kvs, x) \<in> set (ex_Series e). labels_good kvs)"

text \<open>The value as it reads back: the double nearest to its six decimals.\<close>

definition reread :: "float64 \<Rightarrow> float64" where
  "reread x = (case ParseFloat (format_f x) of None \<Rightarrow> NaN | Some y \<Rightarrow> y)"

lemma ParseFloat_reread: "float_wf x \<Longrightarrow> ParseFloat (format_f x) = Some (reread x)"
  using format_f_reads [of x] by (auto simp: reread_def)

definition exposed_metrics :: "exposed \<Rightarrow> dto_metric list" where
  "exposed_metrics e = map (\<lambda>(kvs, x). gauge_metric kvs (reread x)) (ex_Series e)"

definition exposed_view :: "exposed \<Rightarrow> family_view" where
  "exposed_view e = (help_of (ex_Help e), Some GAUGE, exposed_metrics e)"

lemma gauges_update: "gauges M \<Longrightarrow> k = None \<or> k = Some GAUGE \<Longrightarrow> gauges (M(name \<mapsto> (h, k, ms)))"
  by (auto simp: gauges_def)

lemma reaches_refl: "parser_wf p \<Longrightarrow> reaches arch s l p s l (parsed p)"
  using leads_refl by (blast intro: reachesI)

lemma lines_reach:
  assumes "name_ok name" and "\<forall>(kvs, x) \<in> set ss. kvs \<noteq> [] \<and> labels_good kvs \<and> float_wf x"
    and "parser_wf p" and "gauges (parsed p)" and "parsed p name = Some (h, Some GAUGE, ms)"
  shows "reaches arch (concat (map (exposed_line name) ss) @ rest) l p rest (l + length ss)
    ((parsed p)(name \<mapsto> (h, Some GAUGE, ms @ map (\<lambda>(kvs, x). gauge_metric kvs (reread x)) ss)))"
  using assms(2-)
proof (induction ss arbitrary: p l ms)
  case Nil
  then have "(parsed p)(name \<mapsto> (h, Some GAUGE, ms)) = parsed p" by (intro fun_upd_idem)
  with Nil show ?case using reaches_refl [of p arch rest l] by simp
next
  case (Cons kx ss)
  obtain kvs x where kx: "kx = (kvs, x)" by fastforce
  have kvs: "kvs \<noteq> []" "\<forall>kv \<in> set kvs. label_ok kv" "distinct (map fst kvs)" "ParseFloat (format_f x) = Some (reread x)"
    using Cons.prems(1) ParseFloat_reread by (auto simp: kx labels_good_def)
  let ?rest = "concat (map (exposed_line name) ss) @ rest"
  let ?M = "(parsed p)(name \<mapsto> (h, Some GAUGE, ms @ [gauge_metric kvs (reread x)]))"
  have "reaches arch (name @ series_head kvs @ format_f x @ newline # ?rest) l p ?rest (Suc l) ?M"
    using series_reaches [OF assms(1) Cons.prems(2-4) kvs] .
  moreover have bytes: "concat (map (exposed_line name) (kx # ss)) @ rest = name @ series_head kvs @ format_f x @ newline # ?rest"
    by (simp add: exposed_line_def kx)
  ultimately have "reaches arch (concat (map (exposed_line name) (kx # ss)) @ rest) l p ?rest (Suc l) ?M"
    by (simp only: bytes)
  then have "reaches arch (concat (map (exposed_line name) (kx # ss)) @ rest) l p rest (Suc l + length ss)
      (?M(name \<mapsto> (h, Some GAUGE, (ms @ [gauge_metric kvs (reread x)]) @ map (\<lambda>(kvs, x). gauge_metric kvs (reread x)) ss)))"
  proof (rule reaches_trans)
    fix q assume q: "parser_wf q" "parsed q = ?M"
    show "reaches arch (concat (map (exposed_line name) ss) @ rest) (Suc l) q rest (Suc l + length ss)
      (?M(name \<mapsto> (h, Some GAUGE, (ms @ [gauge_metric kvs (reread x)]) @ map (\<lambda>(kvs, x). gauge_metric kvs (reread x)) ss)))"
    proof -
      have ss: "\<forall>(kvs, x) \<in> set ss. kvs \<noteq> [] \<and> labels_good kvs \<and> float_wf x" using Cons.prems(1) by simp
      have "gauges (parsed q)" unfolding q(2) by (rule gauges_update [OF Cons.prems(3)]) simp
      moreover have "parsed q name = Some (h, Some GAUGE, ms @ [gauge_metric kvs (reread x)])" unfolding q(2) by (rule fun_upd_same)
      ultimately show ?thesis unfolding q(2) [symmetric] by (rule Cons.IH [OF ss q(1)])
    qed
  qed
  moreover have "?M(name \<mapsto> (h, Some GAUGE, (ms @ [gauge_metric kvs (reread x)]) @ map (\<lambda>(kvs, x). gauge_metric kvs (reread x)) ss))
      = (parsed p)(name \<mapsto> (h, Some GAUGE, ms @ map (\<lambda>(kvs, x). gauge_metric kvs (reread x)) (kx # ss)))"
    by (simp only: fun_upd_upd list.map kx prod.case append.assoc append_Cons append_Nil)
  ultimately show ?case by (simp only: list.size add_Suc_right add_Suc add_0_right)
qed

lemma family_reaches:
  assumes "exposed_wf e" and "series_good e" and "parser_wf p" and "gauges (parsed p)" and "parsed p (ex_Name e) = None"
  shows "reaches arch (exposed_text e @ rest) l p rest (l + 2 + length (ex_Series e))
    ((parsed p)(ex_Name e \<mapsto> exposed_view e))"
proof -
  let ?n = "ex_Name e" and ?lines = "concat (map (exposed_line (ex_Name e)) (ex_Series e)) @ rest"
  let ?M1 = "(parsed p)(?n \<mapsto> (help_of (ex_Help e), None, []))"
  let ?M2 = "(parsed p)(?n \<mapsto> (help_of (ex_Help e), Some GAUGE, []))"
  have wf: "name_ok ?n" "one_line (ex_Help e)"
    and ss: "\<forall>(kvs, x) \<in> set (ex_Series e). kvs \<noteq> [] \<and> labels_good kvs \<and> float_wf x"
    using assms(1,2) by (auto simp: exposed_wf_def series_good_def)
  have g1: "gauges ?M1" and g2: "gauges ?M2" by (rule gauges_update [OF assms(4)], simp)+
  have bytes: "exposed_text e @ rest = ''# HELP '' @ ?n @ '' '' @ ex_Help e @ newline
      # ''# TYPE '' @ ?n @ '' gauge'' @ newline # ?lines"
    by (simp add: exposed_text_def)
  show ?thesis
    unfolding bytes
  proof (rule reaches_trans [OF help_reaches [OF wf(1) assms(3-5) wf(2)]])
    fix q assume q: "parser_wf q" "parsed q = ?M1"
    have "reaches arch (''# TYPE '' @ ?n @ '' gauge'' @ newline # ?lines) (Suc l) q ?lines (Suc (Suc l))
        ((parsed q)(?n \<mapsto> (help_of (ex_Help e), Some GAUGE, [])))"
      by (rule type_reaches [OF wf(1) q(1)]) (simp_all only: q(2) g1 fun_upd_same)
    then have t: "reaches arch (''# TYPE '' @ ?n @ '' gauge'' @ newline # ?lines) (Suc l) q ?lines (Suc (Suc l)) ?M2"
      by (simp only: q(2) fun_upd_upd)
    show "reaches arch (''# TYPE '' @ ?n @ '' gauge'' @ newline # ?lines) (Suc l) q rest (l + 2 + length (ex_Series e))
        ((parsed p)(?n \<mapsto> exposed_view e))"
    proof (rule reaches_trans [OF t])
      fix r assume r: "parser_wf r" "parsed r = ?M2"
      have "reaches arch ?lines (Suc (Suc l)) r rest (Suc (Suc l) + length (ex_Series e))
          ((parsed r)(?n \<mapsto> (help_of (ex_Help e), Some GAUGE, [] @ exposed_metrics e)))"
        unfolding exposed_metrics_def
        by (rule lines_reach [OF wf(1) ss r(1)]) (simp_all only: r(2) g2 fun_upd_same)
      then show "reaches arch ?lines (Suc (Suc l)) r rest (l + 2 + length (ex_Series e)) ((parsed p)(?n \<mapsto> exposed_view e))"
        by (simp add: r(2) exposed_view_def)
    qed
  qed
qed

text \<open>The families with different names, one after the other.\<close>

definition views :: "exposed list \<Rightarrow> string \<Rightarrow> family_view option" where
  "views es = map_of (map (\<lambda>e. (ex_Name e, exposed_view e)) es)"

lemma views_gauges: "gauges (views es)"
  by (induction es) (auto simp: views_def gauges_def exposed_view_def)

lemma views_snoc:
  "ex_Name e \<notin> ex_Name ` set es \<Longrightarrow> views (es @ [e]) = (views es)(ex_Name e \<mapsto> exposed_view e)"
  by (auto simp: views_def map_add_def fun_eq_iff split: option.split dest!: map_of_SomeD)

lemma views_None: "views es name = None \<longleftrightarrow> name \<notin> ex_Name ` set es"
  by (force simp: views_def map_of_eq_None_iff)

definition exposed_lines :: "exposed list \<Rightarrow> nat" where
  "exposed_lines es = sum_list (map (\<lambda>e. 2 + length (ex_Series e)) es)"

abbreviation exposition :: "exposed list \<Rightarrow> string" where
  "exposition es \<equiv> concat (map exposed_text es)"

lemma exposition_reaches:
  assumes "\<forall>e \<in> set es. exposed_wf e \<and> series_good e" and "distinct (map ex_Name es)"
    and "parser_wf p" and "parsed p = Map.empty"
  shows "reaches arch (exposition es @ rest) l p rest (l + exposed_lines es) (views es)"
  using assms(1,2)
proof (induction es arbitrary: rest rule: rev_induct)
  case Nil
  then show ?case using reaches_refl [OF assms(3)] by (simp add: exposed_lines_def views_def assms(4))
next
  case (snoc e es)
  have ih: "reaches arch (exposition es @ exposed_text e @ rest) l p (exposed_text e @ rest) (l + exposed_lines es) (views es)"
    using snoc by simp
  have fresh: "ex_Name e \<notin> ex_Name ` set es" using snoc.prems(2) by simp
  have "reaches arch (exposition es @ exposed_text e @ rest) l p rest (l + exposed_lines (es @ [e])) (views (es @ [e]))"
  proof (rule reaches_trans [OF ih])
    fix q assume q: "parser_wf q" "parsed q = views es"
    have "reaches arch (exposed_text e @ rest) (l + exposed_lines es) q rest
        (l + exposed_lines es + 2 + length (ex_Series e)) ((parsed q)(ex_Name e \<mapsto> exposed_view e))"
      using snoc.prems(1) q fresh
      by (intro family_reaches) (simp_all add: views_gauges views_None)
    then show "reaches arch (exposed_text e @ rest) (l + exposed_lines es) q rest
        (l + exposed_lines (es @ [e])) (views (es @ [e]))"
      by (simp add: q(2) views_snoc [OF fresh] exposed_lines_def add.assoc)
  qed
  then show ?case by simp
qed

section \<open>What is refused\<close>

lemma exposed_text_header: "exposed_text e @ rest = ''# HELP '' @ ex_Name e @ '' '' @ ex_Help e @ newline
    # ''# TYPE '' @ ex_Name e @ '' gauge'' @ newline # concat (map (exposed_line (ex_Name e)) (ex_Series e)) @ rest"
  by (simp add: exposed_text_def)

lemma split_first:
  assumes "\<exists>x \<in> set xs. \<not> P x"
  obtains pre x post where "xs = pre @ x # post" and "\<forall>y \<in> set pre. P y" and "\<not> P x"
  using assms split_list_first_prop [of xs "\<lambda>x. \<not> P x"] by blast

text \<open>A family with a series that is not good, all before it good.\<close>

lemma family_refused:
  assumes wf: "exposed_wf e" and bad: "\<not> series_good e" and p: "parser_wf p" "gauges (parsed p)" "parsed p (ex_Name e) = None"
  shows "\<exists>line msg. refused arch (exposed_text e @ rest) l p (ParseError line msg)"
proof -
  let ?n = "ex_Name e"
  obtain good kx post where split: "ex_Series e = good @ kx # post"
    "\<forall>(kvs, x) \<in> set good. labels_good kvs" "\<not> (case kx of (kvs, x) \<Rightarrow> labels_good kvs)"
  proof -
    have "\<exists>kx \<in> set (ex_Series e). \<not> (case kx of (kvs, x) \<Rightarrow> labels_good kvs)"
      using bad unfolding series_good_def by blast
    then show thesis by (rule split_first) (rule that)
  qed
  obtain kvs x where kx: "kx = (kvs, x)" by fastforce
  let ?rest = "concat (map (exposed_line ?n) (kx # post)) @ rest"
  let ?e = "e\<lparr>ex_Series := good\<rparr>"
  have e: "exposed_wf ?e" "series_good ?e"
    using wf split by (auto simp: exposed_wf_def series_good_def)
  have bytes: "exposed_text e @ rest = exposed_text ?e @ ?rest"
    unfolding exposed_text_header by (simp add: split(1))
  have "reaches arch (exposed_text ?e @ ?rest) l p ?rest (l + 2 + length (ex_Series ?e)) ((parsed p)(ex_Name ?e \<mapsto> exposed_view ?e))"
    using e p by (intro family_reaches) simp_all
  then have r: "reaches arch (exposed_text ?e @ ?rest) l p ?rest (l + 2 + length good) ((parsed p)(?n \<mapsto> exposed_view ?e))"
    by simp
  have n: "name_ok ?n" "\<forall>kv \<in> set kvs. word_key (fst kv)" "\<not> ((\<forall>kv \<in> set kvs. label_ok kv) \<and> distinct (map fst kvs))"
    using wf split(1,3) by (auto simp: exposed_wf_def kx labels_good_def)
  have line: "?rest = ?n @ series_head kvs @ format_f x @ newline # concat (map (exposed_line ?n) post) @ rest"
    by (simp add: exposed_line_def kx)
  show ?thesis
    unfolding bytes
  proof (rule reaches_refused_somehow [OF r])
    fix q assume q: "parser_wf q" "parsed q = (parsed p)(?n \<mapsto> exposed_view ?e)"
    have "\<exists>msg. refused arch ?rest (l + 2 + length good) q (ParseError (Suc (l + 2 + length good)) msg)"
      unfolding line
    proof (rule series_refused(1) [OF n(1) q(1) _ _ n(2,3)])
      show "gauges (parsed q)" unfolding q(2) exposed_view_def by (rule gauges_update [OF p(2)]) simp
      show "parsed q ?n = Some (help_of (ex_Help ?e), Some GAUGE, exposed_metrics ?e)" unfolding q(2) exposed_view_def by (rule fun_upd_same)
    qed
    then show "\<exists>line msg. refused arch ?rest (l + 2 + length good) q (ParseError line msg)" by blast
  qed
qed

lemma views_Some:
  assumes "name \<in> ex_Name ` set es"
  obtains e where "e \<in> set es" and "ex_Name e = name" and "views es name = Some (exposed_view e)"
proof -
  obtain v where "views es name = Some v" using assms views_None [of es name] by (cases "views es name") auto
  then show thesis using that by (auto simp: views_def dest!: map_of_SomeD)
qed

text \<open>The first family that has the name of an earlier one.\<close>

lemma second_family_refused:
  assumes "\<forall>e \<in> set es. exposed_wf e \<and> series_good e" and "distinct (map ex_Name es)"
    and "f \<in> set es" and "exposed_wf e" and "ex_Name e = ex_Name f" and "parser_wf p" and "parsed p = Map.empty"
  shows "refused arch (exposition es @ exposed_text e @ rest) l p
    (if help_of (ex_Help f) \<noteq> None \<and> help_of (ex_Help e) \<noteq> None
     then ParseError (Suc (l + exposed_lines es)) (SecondHelp (ex_Name f))
     else ParseError (Suc (Suc (l + exposed_lines es))) (SecondType (ex_Name f)))"
proof (rule reaches_refused [OF exposition_reaches [OF assms(1,2,6,7)]])
  fix q assume q: "parser_wf q" "parsed q = views es"
  have "(ex_Name f, exposed_view f) \<in> set (map (\<lambda>e. (ex_Name e, exposed_view e)) es)" using assms(3) by auto
  then have v: "views es (ex_Name f) = Some (exposed_view f)"
    unfolding views_def by (rule map_of_is_SomeI [rotated]) (simp add: assms(2) comp_def)
  show "refused arch (exposed_text e @ rest) (l + exposed_lines es) q
    (if help_of (ex_Help f) \<noteq> None \<and> help_of (ex_Help e) \<noteq> None
     then ParseError (Suc (l + exposed_lines es)) (SecondHelp (ex_Name f))
     else ParseError (Suc (Suc (l + exposed_lines es))) (SecondType (ex_Name f)))"
    unfolding exposed_text_header assms(5)
  proof (rule header_refused [OF _ q(1) _ _ _ refl])
    show "name_ok (ex_Name f)" "one_line (ex_Help e)" using assms(4,5) by (simp_all add: exposed_wf_def)
    show "gauges (parsed q)" unfolding q(2) by (rule views_gauges)
    show "parsed q (ex_Name f) = Some (help_of (ex_Help f), Some GAUGE, exposed_metrics f)"
      unfolding q(2) v exposed_view_def ..
  qed
qed

lemma exposition_refused:
  assumes "\<forall>e \<in> set es. exposed_wf e" and "\<not> (distinct (map ex_Name es) \<and> (\<forall>e \<in> set es. series_good e))"
    and "parser_wf p" and "parsed p = Map.empty"
  shows "\<exists>line msg. refused arch (exposition es @ rest) l p (ParseError line msg)"
  using assms(1,2)
proof (induction es arbitrary: rest rule: rev_induct)
  case (snoc e es)
  show ?case
  proof (cases "distinct (map ex_Name es) \<and> (\<forall>e \<in> set es. series_good e)")
    case False
    with snoc have "\<exists>line msg. refused arch (exposition es @ exposed_text e @ rest) l p (ParseError line msg)" by simp
    then show ?thesis by simp
  next
    case True
    then have good: "\<forall>e \<in> set es. exposed_wf e \<and> series_good e" "distinct (map ex_Name es)" using snoc.prems(1) by simp_all
    have e: "exposed_wf e" using snoc.prems(1) by simp
    show ?thesis
    proof (cases "ex_Name e \<in> ex_Name ` set es")
      case True
      then obtain f where f: "f \<in> set es" "ex_Name e = ex_Name f" by auto
      have "\<exists>line msg. refused arch (exposition es @ exposed_text e @ rest) l p (ParseError line msg)"
      proof (cases "help_of (ex_Help f) \<noteq> None \<and> help_of (ex_Help e) \<noteq> None")
        case True
        from second_family_refused [OF good f(1) e f(2) assms(3,4), of arch rest l] show ?thesis
          unfolding if_P [OF True] by blast
      next
        case False
        from second_family_refused [OF good f(1) e f(2) assms(3,4), of arch rest l] show ?thesis
          unfolding if_not_P [OF False] by blast
      qed
      then show ?thesis by simp
    next
      case False
      then have bad: "\<not> series_good e" using snoc.prems(2) True by auto
      have r: "reaches arch (exposition es @ exposed_text e @ rest) l p (exposed_text e @ rest) (l + exposed_lines es) (views es)"
        by (rule exposition_reaches [OF good assms(3,4)])
      have "\<exists>line msg. refused arch (exposition es @ exposed_text e @ rest) l p (ParseError line msg)"
      proof (rule reaches_refused_somehow [OF r])
        fix q assume q: "parser_wf q" "parsed q = views es"
        show "\<exists>line msg. refused arch (exposed_text e @ rest) (l + exposed_lines es) q (ParseError line msg)"
          using False by (intro family_refused [OF e bad q(1)]) (simp_all add: q(2) views_gauges views_None)
      qed
      then show ?thesis by simp
    qed
  qed
qed simp

section \<open>The families that are returned\<close>

lemma parse_start: "leads arch text 0 (parser_reset text) s l q \<Longrightarrow>
    \<exists>b t. parse_loop arch StartOfLine (parser_reset text) = parse_loop arch StartOfLine (place b s t l q)"
proof -
  have "parser_reset text = place CHR 0x00 text [] 0 (parser_reset text)"
    by (simp add: parser_reset_def place_def)
  moreover assume "leads arch text 0 (parser_reset text) s l q"
  ultimately show ?thesis unfolding leads_def by metis
qed

lemma parse_end: "parse_loop arch StartOfLine (place b [] t l p) = place CHR 0x00 [] t (Suc l) p"
proof (rule parse_stop)
  have "ReadByte (place b [] t (Suc l) p) = (place CHR 0x00 [] t (Suc l) p)\<lparr>tp_err := Some EOF\<rparr>"
    by (simp add: ReadByte_def placed) (simp add: place_def)
  then have "skipBlankTab (place b [] t (Suc l) p) = (place CHR 0x00 [] t (Suc l) p)\<lparr>tp_err := Some EOF\<rparr>"
    by (subst skipBlankTab.simps) (simp add: Let_def)
  then show "state_step arch StartOfLine (place b [] t l p) = (None, place CHR 0x00 [] t (Suc l) p)"
    by (simp add: startOfLine_def placed Let_def stop_def)
qed

lemma reset_wf: "parser_wf (parser_reset text)" "parsed (parser_reset text) = Map.empty"
  by (auto simp: parser_wf_def parser_reset_def parsed_def)

lemma filtered_get:
  "gm_wf m \<Longrightarrow> gm_get (filter (\<lambda>(k, v). P v) m) k = (case gm_get m k of None \<Rightarrow> None | Some v \<Rightarrow> if P v then Some v else None)"
  by (induction m) (auto split: option.split simp: map_of_eq_None_iff)

lemma parsed_filtered:
  assumes "parser_wf p"
  shows "parsed (p\<lparr>tp_families := filter (\<lambda>(k, mf). length (mf_Metric mf) \<noteq> 0) (tp_families p)\<rparr>) name
    = (case parsed p name of None \<Rightarrow> None | Some (h, k, ms) \<Rightarrow> if ms = [] then None else Some (h, k, ms))"
proof -
  have "gm_wf (tp_families p)" using assms by (simp add: parser_wf_def)
  from filtered_get [OF this, of "\<lambda>mf. length (mf_Metric mf) \<noteq> 0" name] show ?thesis
    by (cases "gm_get (tp_families p) name") (simp_all add: parsed_def family_view_def)
qed

lemma views_filter:
  assumes "distinct (map ex_Name es)"
  shows "(case views es name of None \<Rightarrow> None | Some (h, k, ms) \<Rightarrow> if ms = [] then None else Some (h, k, ms))
    = views (filter (\<lambda>e. ex_Series e \<noteq> []) es) name"
proof -
  let ?f = "\<lambda>e. (ex_Name e, exposed_view e)"
  have "filter (\<lambda>(n, h, k, ms). ms \<noteq> []) (map ?f es) = map ?f (filter (\<lambda>e. ex_Series e \<noteq> []) es)"
    by (induction es) (auto simp: exposed_view_def exposed_metrics_def)
  moreover have "gm_wf (map ?f es)" using assms by (simp add: comp_def)
  ultimately show ?thesis
    using filtered_get [of "map ?f es" "\<lambda>(h, k, ms). ms \<noteq> []" name]
    by (auto simp: views_def split: option.splits)
qed

theorem exposition_parsed:
  assumes "\<forall>e \<in> set es. exposed_wf e \<and> series_good e" and "distinct (map ex_Name es)"
  shows "tp_err (TextToMetricFamilies arch (exposition es)) = None"
    and "parsed (TextToMetricFamilies arch (exposition es)) = views (filter (\<lambda>e. ex_Series e \<noteq> []) es)"
proof -
  let ?p0 = "parser_reset (exposition es)"
  have "reaches arch (exposition es @ []) 0 ?p0 [] (0 + exposed_lines es) (views es)"
    by (rule exposition_reaches [OF assms reset_wf])
  then obtain q where q: "leads arch (exposition es) 0 ?p0 [] (exposed_lines es) q" "parser_wf q" "parsed q = views es"
    unfolding reaches_def by auto
  obtain b t where "parse_loop arch StartOfLine ?p0 = parse_loop arch StartOfLine (place b [] t (exposed_lines es) q)"
    using parse_start [OF q(1)] by blast
  then have loop: "parse_loop arch StartOfLine ?p0 = place CHR 0x00 [] t (Suc (exposed_lines es)) q"
    by (simp only: parse_end)
  let ?q = "place CHR 0x00 [] t (Suc (exposed_lines es)) q"
  let ?r = "?q\<lparr>tp_families := filter (\<lambda>(k, mf). length (mf_Metric mf) \<noteq> 0) (tp_families ?q)\<rparr>"
  have r: "TextToMetricFamilies arch (exposition es) = ?r"
    by (simp add: TextToMetricFamilies_def loop Let_def placed)
  then show "tp_err (TextToMetricFamilies arch (exposition es)) = None" by (simp add: placed)
  have wf: "parser_wf ?q" using q(2) by (simp add: parser_wf_def placed)
  have "parsed ?q = views es" unfolding q(3) [symmetric] by (simp add: fun_eq_iff parsed_def placed)
  with parsed_filtered [OF wf] views_filter [OF assms(2)] show "parsed (TextToMetricFamilies arch (exposition es))
      = views (filter (\<lambda>e. ex_Series e \<noteq> []) es)"
    unfolding r fun_eq_iff by (simp only:) simp
qed

lemma refused_result:
  assumes "refused arch text 0 (parser_reset text) (ParseError line msg)"
  shows "tp_err (TextToMetricFamilies arch text) = Some (ParseError line msg)"
proof -
  have "parser_reset text = place CHR 0x00 text [] 0 (parser_reset text)"
    by (simp add: parser_reset_def place_def)
  then have "tp_err (parse_loop arch StartOfLine (parser_reset text)) = Some (ParseError line msg)"
    using assms unfolding refused_def by metis
  then show ?thesis by (simp add: TextToMetricFamilies_def Let_def)
qed

text \<open>An exposition is accepted when its families have different names and its series are good, and only then.\<close>

theorem exposition_accepted:
  assumes "\<forall>e \<in> set es. exposed_wf e"
  shows "tp_err (TextToMetricFamilies arch (exposition es)) = None
    \<longleftrightarrow> distinct (map ex_Name es) \<and> (\<forall>e \<in> set es. series_good e)"
proof (cases "distinct (map ex_Name es) \<and> (\<forall>e \<in> set es. series_good e)")
  case True
  with assms show ?thesis using exposition_parsed(1) [of es arch] by simp
next
  case False
  have "\<exists>line msg. refused arch (exposition es @ []) 0 (parser_reset (exposition es)) (ParseError line msg)"
    by (rule exposition_refused [OF assms False reset_wf])
  then obtain line msg where "refused arch (exposition es) 0 (parser_reset (exposition es)) (ParseError line msg)" by auto
  from refused_result [OF this] False show ?thesis by auto
qed

end
