(* ===== verification/Exposed_Series.thy ===== *)
theory Exposed_Series
  imports System Exposition
begin

text \<open>
  The texts the stores hold, as series: every text of a family is the lines of the series its
  metrics gave for the object, whatever the state of the family was when the object was added.
  With the headers, what the main server writes is an exposition.
\<close>

section \<open>The series of a metric\<close>

definition metric_series ::
    "sorter \<Rightarrow> cel_engine \<Rightarrow> (nat \<Rightarrow> entry_order) \<Rightarrow> family_type \<Rightarrow> obj \<Rightarrow> metric_type
     \<Rightarrow> ((string \<times> string) list \<times> float64) list" where
  "metric_series srt cel ord f obj m =
     (case family_resolver f (m_Resolver m) of
        None \<Rightarrow> []
      | Some inst \<Rightarrow> (case metric_value cel inst obj m of
          None \<Rightarrow> []
        | Some x \<Rightarrow>
            (let L = metric_labels cel ord inst obj m in
             case sortLabelset srt (map fst L) (map snd L) of
               Inl _ \<Rightarrow> []
             | Inr (ks, vs) \<Rightarrow> [(zip ks vs @ gvk_pairs obj, x)])))"

fun family_series ::
    "sorter \<Rightarrow> cel_engine \<Rightarrow> (nat \<Rightarrow> nat \<Rightarrow> entry_order) \<Rightarrow> family_type \<Rightarrow> obj \<Rightarrow> nat \<Rightarrow> metric_type option list
     \<Rightarrow> ((string \<times> string) list \<times> float64) list" where
  "family_series srt cel ord f obj j [] = []"
| "family_series srt cel ord f obj j (p # ps) =
     (case p of None \<Rightarrow> [] | Some m \<Rightarrow> metric_series srt cel (ord j) f obj (inherit_labels f m))
     @ family_series srt cel ord f obj (Suc j) ps"

definition metric_name :: "family_type \<Rightarrow> string" where
  "metric_name f = kubeCustomResourcePrefix @ f_Name f"

abbreviation series_text :: "string \<Rightarrow> ((string \<times> string) list \<times> float64) list \<Rightarrow> string" where
  "series_text name ss \<equiv> concat (map (exposed_line name) ss)"

text \<open>
  The label loops never panic when every label value has a key; when one has none they may
  still return, if the value resolves to an empty set. Then too the labels that are written
  are those of the values.
\<close>

lemma resolve_labels_Inr:
  assumes "resolve_labels R ord labelKeys i qs ks vs = Inr (ks', vs')"
  shows "ks' = ks @ map fst (labels_from R ord labelKeys i qs) \<and> vs' = vs @ map snd (labels_from R ord labelKeys i qs)"
  using assms
proof (induction qs arbitrary: i ks vs)
  case (Cons q qs)
  have expanded: "\<exists>es'. (ks1, vs1) = (ks @ map fst es', vs @ map snd es') \<and> es' = map (\<lambda>(k, v). (sanitize (labelKeys ! i @ k), v)) es"
    if e: "expand_labels labelKeys i es ks vs = Inr (ks1, vs1)" for es ks1 vs1
  proof (cases "es = []")
    case False
    with e have "i < length labelKeys" using expand_labels_panic [of labelKeys i es ks vs] by (cases "i < length labelKeys") auto
    with e show ?thesis by (auto simp: expand_labels_eq comp_def case_prod_unfold)
  qed (use e in simp)
  show ?case
  proof (cases "gm_get (R q) q")
    case None
    with Cons.prems obtain ks1 vs1 where e: "expand_labels labelKeys i (ord i (R q)) ks vs = Inr (ks1, vs1)"
      and r: "resolve_labels R ord labelKeys (Suc i) qs ks1 vs1 = Inr (ks', vs')"
      by (auto simp: Let_def go_bind_eq_Inr)
    from Cons.IH [OF r] expanded [OF e] None show ?thesis by (auto simp: label_block_def)
  next
    case (Some v)
    with Cons.prems have i: "i < length labelKeys"
      and r: "resolve_labels R ord labelKeys (Suc i) qs (ks @ [sanitize (labelKeys ! i)]) (vs @ [v]) = Inr (ks', vs')"
      by (auto simp: Let_def go_bind_eq_Inr go_nth_eq_Inr)
    from Cons.IH [OF r] Some show ?thesis by (simp add: label_block_def)
  qed
qed simp

lemma metric_raw_series:
  assumes srt: "slice_sort srt" and t: "metric_raw srt cel ord f obj m = Inr t"
  shows "t = series_text (metric_name f) (metric_series srt cel ord f obj m)"
proof (cases "family_resolver f (m_Resolver m)")
  case None
  with t show ?thesis by (simp add: metric_raw_def metric_series_def)
next
  case (Some inst)
  let ?R = "\<lambda>q. Resolve cel inst q obj" and ?L = "metric_labels cel ord inst obj m"
  from t Some obtain ks vs where r: "resolve_labels ?R ord (m_LabelKeys m) 0 (m_LabelValues m) [] [] = Inr (ks, vs)"
    by (auto simp: metric_raw_def Let_def go_bind_eq_Inr)
  have L: "ks = map fst ?L" "vs = map snd ?L"
    using resolve_labels_Inr [OF r] by (simp_all add: metric_labels_def)
  have len: "length (map fst ?L) = length (map snd ?L)" by simp
  obtain ks' vs' where s: "sortLabelset srt (map fst ?L) (map snd ?L) = Inr (ks', vs')"
    using sortLabelset_spec [OF srt len] by blast
  show ?thesis
    using t by (auto simp: metric_raw_def Some r L writeMetricTo_eq [OF srt len s] metric_series_def
        metric_value_def s Let_def gvk_pairs_def exposed_line_def metric_name_def split: option.splits)
qed

lemma raw_metrics_series:
  assumes "slice_sort srt" and "raw_metrics srt cel ord f obj j ps = Inr (ps', raw)"
  shows "raw = series_text (metric_name f) (family_series srt cel ord f obj j ps)"
  using assms(2)
proof (induction ps arbitrary: j ps' raw)
  case (Cons p ps)
  then obtain m t qs rest where p: "p = Some m"
    and t: "metric_raw srt cel (ord j) f obj (inherit_labels f m) = Inr t"
    and r: "raw_metrics srt cel ord f obj (Suc j) ps = Inr (qs, rest)" and eq: "raw = t @ rest"
    by (cases p) (auto simp: go_bind_eq_Inr Let_def)
  from Cons.IH [OF r] metric_raw_series [OF assms(1) t] show ?case by (simp add: p eq)
qed simp

lemma rawFrom_series:
  assumes "slice_sort srt" and "rawFrom srt cel ord f obj = Inr (f', raw)"
  shows "raw = series_text (metric_name f) (family_series srt cel ord f obj 0 (f_Metrics f))"
  using assms by (auto simp: rawFrom_def go_bind_eq_Inr dest: raw_metrics_series)

section \<open>What every series has\<close>

definition series_ok :: "(string \<times> string) list \<times> float64 \<Rightarrow> bool" where
  "series_ok kx \<longleftrightarrow> fst kx \<noteq> [] \<and> (\<forall>kv \<in> set (fst kx). word_key (fst kv)) \<and> float_wf (snd kx)"

lemma to_float_wf: "to_float neg m ex hex = Some x \<Longrightarrow> float_wf x"
  by (auto simp: to_float_def split: if_splits elim!: round_ratio_wf)

lemma special_wf: "special s = Some (x, n) \<Longrightarrow> float_wf x"
  by (auto simp: special_def float_wf_def Let_def split: if_splits list.splits)

lemma ParseFloat_wf: "ParseFloat s = Some x \<Longrightarrow> float_wf x"
  by (auto simp: ParseFloat_def split: option.splits if_splits prod.splits intro: to_float_wf special_wf)

lemma word_key_clean: "clean_key k \<Longrightarrow> word_key k"
  by (auto simp: clean_key_def word_key_def is_word_def isValidLabelNameContinuation_def isValidLabelNameStart_def)

lemma word_key_gvk: "kv \<in> set (gvk_pairs obj) \<Longrightarrow> word_key (fst kv)"
  by (auto simp: gvk_pairs_def gvk_labels_def word_key_def Let_def name_char_defs)

lemma metric_series_ok:
  assumes srt: "slice_sort srt" and kx: "kx \<in> set (metric_series srt cel ord f obj m)"
  shows "series_ok kx"
proof -
  from kx obtain inst where i: "family_resolver f (m_Resolver m) = Some inst"
    by (cases "family_resolver f (m_Resolver m)") (auto simp: metric_series_def)
  let ?L = "metric_labels cel ord inst obj m"
  from kx i obtain x where x: "metric_value cel inst obj m = Some x"
    by (cases "metric_value cel inst obj m") (auto simp: metric_series_def)
  from kx i x obtain ks vs where s: "sortLabelset srt (map fst ?L) (map snd ?L) = Inr (ks, vs)"
    and eq: "kx = (zip ks vs @ gvk_pairs obj, x)"
    by (cases "sortLabelset srt (map fst ?L) (map snd ?L)") (auto simp: metric_series_def Let_def)
  have m: "mset (zip ks vs) = mset ?L"
    using sortLabelset_spec [OF srt, of "map fst ?L" "map snd ?L"] s by (auto simp: zip_map_fst_snd)
  have "\<forall>kv \<in> set (zip ks vs). word_key (fst kv)"
    using mset_eq_setD [OF m] by (auto simp: metric_labels_def dest: labels_from_clean intro: word_key_clean)
  moreover have "float_wf x" using x by (auto simp: metric_value_def bind_eq_Some_conv intro: ParseFloat_wf)
  moreover have "gvk_pairs obj \<noteq> []" by (simp add: gvk_pairs_def gvk_labels_def Let_def)
  ultimately show ?thesis by (auto simp: series_ok_def eq dest: word_key_gvk)
qed

lemma family_series_ok:
  assumes "slice_sort srt"
  shows "kx \<in> set (family_series srt cel ord f obj j ps) \<Longrightarrow> series_ok kx"
  by (induction ps arbitrary: j) (auto split: option.splits intro: metric_series_ok [OF assms])

section \<open>The series of a store\<close>

text \<open>
  What the texts of a store say: \<open>S u k\<close> is the series the object with UID \<open>u\<close> has in the
  family at \<open>k\<close>.
\<close>

type_synonym store_series = "uid \<Rightarrow> nat \<Rightarrow> ((string \<times> string) list \<times> float64) list"

abbreviation family_at :: "store_type \<Rightarrow> nat \<Rightarrow> family_type" where
  "family_at s k \<equiv> the (s_Families s ! k)"

definition exposes :: "store_type \<Rightarrow> store_series \<Rightarrow> bool" where
  "exposes s S \<longleftrightarrow>
     store_shape s \<and> None \<notin> set (s_Families s) \<and> headers s = map (header_of \<circ> the) (s_Families s)
     \<and> (\<forall>e \<in> set (metrics s). snd e =
          map (\<lambda>k. series_text (metric_name (family_at s k)) (S (fst e) k)) [0..<length (s_Families s)])
     \<and> (\<forall>u k. \<forall>kx \<in> set (S u k). series_ok kx)"

definition object_series ::
    "sorter \<Rightarrow> cel_engine \<Rightarrow> range_orders \<Rightarrow> store_type \<Rightarrow> obj \<Rightarrow> nat \<Rightarrow> ((string \<times> string) list \<times> float64) list" where
  "object_series srt cel ord s obj k =
     (if k < length (s_Families s)
      then let f = inherit_family s (family_at s k) in family_series srt cel (ord k) f obj 0 (f_Metrics f)
      else [])"

lemma header_of_keeps: "f_Name g = f_Name f \<Longrightarrow> f_Help g = f_Help f \<Longrightarrow> header_of g = header_of f"
  by (simp add: header_of_def buildHeaders_def Let_def)

lemma metric_name_keeps: "f_Name g = f_Name f \<Longrightarrow> metric_name g = metric_name f"
  by (simp add: metric_name_def)

lemma inherit_family_keeps [simp]:
  "f_Name (inherit_family s f) = f_Name f" "f_Help (inherit_family s f) = f_Help f"
  "f_Metrics (inherit_family s f) = f_Metrics f"
  by (simp_all add: inherit_family_def Let_def)

lemma Add_keeps:
  assumes "Add srt cel ord s (UnstructuredObj obj) = Inr (s', err)"
  shows "length (s_Families s') = length (s_Families s)" and "headers s' = headers s" and "err = None"
    and "k < length (s_Families s) \<Longrightarrow> s_Families s' ! k \<noteq> None \<and> s_Families s ! k \<noteq> None
      \<and> f_Name (family_at s' k) = f_Name (family_at s k) \<and> f_Help (family_at s' k) = f_Help (family_at s k)"
proof -
  from assms obtain fs raws where a: "add_families srt cel ord s obj 0 (s_Families s) = Inr (fs, raws)"
    and s': "s' = s\<lparr>s_Families := fs, metrics := gm_set (GetUID obj) raws (metrics s)\<rparr>" and e: "err = None"
    by (auto simp: Add_def go_bind_eq_Inr)
  show "length (s_Families s') = length (s_Families s)" "headers s' = headers s" "err = None"
    using add_families_Inr [OF a] by (simp_all add: s' e)
  show "s_Families s' ! k \<noteq> None \<and> s_Families s ! k \<noteq> None
      \<and> f_Name (family_at s' k) = f_Name (family_at s k) \<and> f_Help (family_at s' k) = f_Help (family_at s k)"
    if "k < length (s_Families s)"
    using Add_families [OF assms that] by auto
qed

lemma Add_exposes:
  assumes srt: "slice_sort srt" and a: "Add srt cel ord s (UnstructuredObj obj) = Inr (s', err)" and S: "exposes s S"
  shows "exposes s' (S(GetUID obj := object_series srt cel ord s obj))"
proof -
  let ?n = "length (s_Families s)" and ?S = "S(GetUID obj := object_series srt cel ord s obj)"
  note keeps = Add_keeps [OF a]
  have fam: "family_at s' k = g \<Longrightarrow> metric_name g = metric_name (family_at s k)" if "k < ?n" for k g
    using keeps(4) [OF that] by (intro metric_name_keeps) auto
  have shape: "store_shape s'" using a S by (auto simp: exposes_def intro: Add_shape)
  have none: "None \<notin> set (s_Families s')" using keeps(1,4) by (auto simp: in_set_conv_nth)
  have hdr: "headers s' = map (header_of \<circ> the) (s_Families s')"
  proof (rule nth_equalityI)
    show "length (headers s') = length (map (header_of \<circ> the) (s_Families s'))"
      using shape by (simp add: store_shape_def)
    fix k assume "k < length (headers s')"
    then have k: "k < ?n" using shape keeps(1) by (simp add: store_shape_def)
    then have "headers s' ! k = header_of (family_at s k)" using S by (simp add: keeps(2) exposes_def)
    also have "\<dots> = header_of (family_at s' k)" using keeps(4) [OF k] by (intro header_of_keeps) auto
    finally show "headers s' ! k = map (header_of \<circ> the) (s_Families s') ! k" using k keeps(1) by simp
  qed
  obtain fs raws where ad: "add_families srt cel ord s obj 0 (s_Families s) = Inr (fs, raws)"
    and m: "metrics s' = gm_set (GetUID obj) raws (metrics s)"
    using a by (auto simp: Add_def go_bind_eq_Inr)
  have new: "raws = map (\<lambda>k. series_text (metric_name (family_at s' k)) (?S (GetUID obj) k)) [0..<?n]"
  proof (rule nth_equalityI)
    show "length raws = length (map (\<lambda>k. series_text (metric_name (family_at s' k)) (?S (GetUID obj) k)) [0..<?n])"
      using add_families_Inr [OF ad] by simp
    fix k assume "k < length raws"
    then have k: "k < ?n" using add_families_Inr [OF ad] by simp
    with add_families_Inr [OF ad] obtain f f' where f: "s_Families s ! k = Some f"
      and r: "rawFrom srt cel (ord k) (inherit_family s f) obj = Inr (f', raws ! k)" by auto
    have "metric_name (inherit_family s f) = metric_name (family_at s' k)"
      using fam [OF k refl] f by (simp add: metric_name_def)
    with rawFrom_series [OF srt r] f k
    show "raws ! k = map (\<lambda>k. series_text (metric_name (family_at s' k)) (?S (GetUID obj) k)) [0..<?n] ! k"
      by (simp add: object_series_def Let_def)
  qed
  have old: "snd e = map (\<lambda>k. series_text (metric_name (family_at s' k)) (S (fst e) k)) [0..<?n]"
    if "e \<in> set (metrics s)" for e
  proof -
    have "snd e = map (\<lambda>k. series_text (metric_name (family_at s k)) (S (fst e) k)) [0..<?n]"
      using S that by (simp add: exposes_def)
    also have "\<dots> = map (\<lambda>k. series_text (metric_name (family_at s' k)) (S (fst e) k)) [0..<?n]"
      using fam by (intro map_cong) auto
    finally show ?thesis .
  qed
  have "\<forall>e \<in> set (metrics s'). snd e =
      map (\<lambda>k. series_text (metric_name (family_at s' k)) (?S (fst e) k)) [0..<length (s_Families s')]"
    unfolding keeps(1)
  proof
    fix e assume "e \<in> set (metrics s')"
    then have "e = (GetUID obj, raws) \<or> (e \<in> set (metrics s) \<and> fst e \<noteq> GetUID obj)"
      using S by (auto simp: m set_gm_set exposes_def store_shape_def)
    then show "snd e = map (\<lambda>k. series_text (metric_name (family_at s' k)) (?S (fst e) k)) [0..<?n]"
      using new old by auto
  qed
  moreover have "\<forall>u k. \<forall>kx \<in> set (?S u k). series_ok kx"
    using S family_series_ok [OF srt] by (auto simp: exposes_def object_series_def Let_def)
  ultimately show ?thesis using shape none hdr unfolding exposes_def by blast
qed

lemma Delete_exposes: "exposes s S \<Longrightarrow> exposes (fst (Delete s objectI)) S"
  using Delete_shape [of s objectI]
  by (auto simp: exposes_def Delete_def store_shape_def set_gm_del split: any_object.splits)

lemma buildStore_exposes:
  assumes "buildStore x ps nc ls fl rsv ks vs = Inr (s, cfg)"
  shows "exposes s (\<lambda>u k. [])"
proof -
  have "None \<notin> set ps" using assms build_all_headers_panic by (auto simp: buildStore_def Let_def)
  then obtain fs where ps: "ps = map Some fs" using not_None_map_Some by blast
  have "header_of (pinned f) = header_of f" for f by (rule header_of_keeps) (simp_all add: pinned_def)
  with assms buildStore_shape [OF assms] show ?thesis
    by (auto simp: exposes_def ps buildStore_Some newStore_def comp_def)
qed

section \<open>What is written of a store\<close>

definition store_exposed :: "(nat \<Rightarrow> (uid \<times> string list) list \<Rightarrow> (uid \<times> string list) list) \<Rightarrow> store_type \<Rightarrow> store_series \<Rightarrow> exposed list" where
  "store_exposed ord s S =
     map (\<lambda>k. \<lparr>ex_Name = metric_name (family_at s k), ex_Help = f_Help (family_at s k),
                ex_Series = concat (map (\<lambda>e. S (fst e) k) (ord k (metrics s)))\<rparr>) [0..<length (s_Families s)]"

lemma headers_text_nth:
  "headers_text objects i hs = concat (map (\<lambda>k. family_block (objects (i + k)) (i + k) (hs ! k)) [0..<length hs])"
proof (induction hs arbitrary: i)
  case (Cons h hs)
  have "[0..<length (h # hs)] = 0 # map Suc [0..<length hs]"
    by (simp add: upt_conv_Cons map_Suc_upt del: upt_Suc)
  then show ?case by (simp add: Cons.IH comp_def del: upt_Suc)
qed simp

lemma header_of_line:
  "header_line (header_of f) = ''# HELP '' @ metric_name f @ '' '' @ f_Help f @ [newline]
     @ ''# TYPE '' @ metric_name f @ '' gauge'' @ [newline]"
  by (simp add: header_line_def header_of_def buildHeaders_def metricTypeGauge_def metric_name_def Let_def)

lemma concat_series: "concat (map (\<lambda>e. series_text name (S e)) es) = series_text name (concat (map S es))"
  by (induction es) simp_all

lemma store_text_exposed:
  assumes S: "exposes s S" and ord: "\<And>k. is_order (ord k)"
  shows "headers_text (\<lambda>k. ord k (metrics s)) 0 (headers s) = exposition (store_exposed ord s S)"
proof -
  have "family_block (ord k (metrics s)) k (headers s ! k) = exposed_text
      \<lparr>ex_Name = metric_name (family_at s k), ex_Help = f_Help (family_at s k),
       ex_Series = concat (map (\<lambda>e. S (fst e) k) (ord k (metrics s)))\<rparr>" if k: "k < length (s_Families s)" for k
  proof -
    have "snd e ! k = series_text (metric_name (family_at s k)) (S (fst e) k)" if "e \<in> set (ord k (metrics s))" for e
      using S that k by (simp add: exposes_def is_order_set [OF ord])
    then have "map (\<lambda>e. snd e ! k) (ord k (metrics s))
        = map (\<lambda>e. series_text (metric_name (family_at s k)) (S (fst e) k)) (ord k (metrics s))"
      by simp
    then have "concat (map (\<lambda>e. snd e ! k) (ord k (metrics s)))
        = series_text (metric_name (family_at s k)) (concat (map (\<lambda>e. S (fst e) k) (ord k (metrics s))))"
      by (simp only: concat_series)
    moreover have "headers s ! k = header_of (family_at s k)" using S k by (simp add: exposes_def)
    ultimately show ?thesis
      by (simp add: family_block_def header_of_line exposed_text_def)
  qed
  then have "map (\<lambda>k. family_block (ord k (metrics s)) k (headers s ! k)) [0..<length (s_Families s)]
      = map exposed_text (store_exposed ord s S)"
    by (simp add: store_exposed_def comp_def)
  moreover have "length (headers s) = length (s_Families s)" using S by (simp add: exposes_def)
  ultimately show ?thesis by (simp add: headers_text_nth)
qed

text \<open>What the parser relies on of a configuration: good family names, and help on one line.\<close>

definition names_ok :: "store_type \<Rightarrow> bool" where
  "names_ok s \<longleftrightarrow> (\<forall>f. Some f \<in> set (s_Families s) \<longrightarrow> name_ok (metric_name f) \<and> one_line (f_Help f))"

lemma store_exposed_wf:
  assumes S: "exposes s S" and n: "names_ok s"
  shows "\<forall>e \<in> set (store_exposed ord s S). exposed_wf e"
proof -
  have "name_ok (metric_name (family_at s k)) \<and> one_line (f_Help (family_at s k))" if k: "k < length (s_Families s)" for k
  proof -
    have "s_Families s ! k \<noteq> None" using S k nth_mem [OF k] unfolding exposes_def by metis
    then have "Some (family_at s k) \<in> set (s_Families s)" using nth_mem [OF k] by simp
    with n show ?thesis by (simp add: names_ok_def)
  qed
  moreover have "series_ok kx" if "kx \<in> set (S u k)" for kx u k using S that by (auto simp: exposes_def)
  ultimately show ?thesis by (fastforce simp: store_exposed_def exposed_wf_def series_ok_def)
qed

lemma Add_names:
  assumes a: "Add srt cel ord s (UnstructuredObj obj) = Inr (s', err)" and n: "names_ok s"
  shows "names_ok s'"
  unfolding names_ok_def
proof (intro allI impI)
  fix g assume g: "Some g \<in> set (s_Families s')"
  obtain k where k: "k < length (s_Families s)" "s_Families s' ! k = Some g"
    using g Add_keeps(1) [OF a] by (metis in_set_conv_nth)
  obtain f where f: "s_Families s ! k = Some f" "f_Name g = f_Name f" "f_Help g = f_Help f"
    using Add_keeps(4) [OF a k(1)] k(2) by auto
  have "Some f \<in> set (s_Families s)" using nth_mem [OF k(1)] f(1) by simp
  with n f show "name_ok (metric_name g) \<and> one_line (f_Help g)" by (simp add: names_ok_def metric_name_def)
qed

lemma Delete_names: "names_ok s \<Longrightarrow> names_ok (fst (Delete s objectI))"
  by (simp add: names_ok_def Delete_def split: any_object.split)

lemma build_entry_names:
  assumes "build_entry nc sc = Inr (s, cfg)" and "names_ok sc"
  shows "names_ok s"
proof -
  have "None \<notin> set (s_Families sc)"
    using assms(1) build_all_headers_panic by (auto simp: build_entry_def buildStore_def Let_def)
  then obtain fs where fs: "s_Families sc = map Some fs" using not_None_map_Some by blast
  have "s_Families s = map (\<lambda>f. Some (pinned f)) fs"
    using assms(1) by (auto simp: build_entry_def fs buildStore_Some newStore_def)
  with assms(2) show ?thesis by (auto simp: names_ok_def fs pinned_def metric_name_def)
qed

abbreviation family_names :: "store_type \<Rightarrow> string list" where
  "family_names s \<equiv> map (metric_name \<circ> the) (s_Families s)"

lemma store_exposed_names: "map ex_Name (store_exposed ord s S) = family_names s"
  by (rule nth_equalityI) (simp_all add: store_exposed_def)

text \<open>A series that does not parse: it spoils the store, wherever it is.\<close>

definition spoilt :: "store_type \<Rightarrow> store_series \<Rightarrow> bool" where
  "spoilt s S \<longleftrightarrow> (\<exists>e \<in> set (metrics s). \<exists>k < length (s_Families s). \<exists>(kvs, x) \<in> set (S (fst e) k). \<not> labels_good kvs)"

lemma store_exposed_good:
  assumes "\<And>k. is_order (ord k)"
  shows "(\<forall>e \<in> set (store_exposed ord s S). series_good e) \<longleftrightarrow> \<not> spoilt s S"
  by (auto simp: store_exposed_def series_good_def spoilt_def is_order_set [OF assms] split: prod.splits)

section \<open>All stores\<close>

text \<open>The stores, each with its series; with good names the exposition can be read.\<close>

definition exposed_as ::
    "string \<Rightarrow> store_type list \<Rightarrow> (store_type \<Rightarrow> store_series) \<Rightarrow> exposed list \<Rightarrow> bool" where
  "exposed_as text ss T es \<longleftrightarrow> text = exposition es \<and> map ex_Name es = concat (map family_names ss)
     \<and> ((\<forall>s \<in> set ss. names_ok s) \<longrightarrow> (\<forall>e \<in> set es. exposed_wf e))
     \<and> ((\<forall>e \<in> set es. series_good e) \<longleftrightarrow> (\<forall>s \<in> set ss. \<not> spoilt s (T s)))"

lemma exposed_as_append:
  "exposed_as t ss T es \<Longrightarrow> exposed_as t' ss' T es' \<Longrightarrow> exposed_as (t @ t') (ss @ ss') T (es @ es')"
  by (auto simp: exposed_as_def)

lemma store_exposed_as:
  assumes "exposes s (T s)" and "\<And>k. is_order (ord k)"
  shows "exposed_as (headers_text (\<lambda>k. ord k (metrics s)) 0 (headers s)) [s] T (store_exposed ord s (T s))"
  using store_text_exposed [OF assms] store_exposed_wf [OF assms(1)] store_exposed_good [OF assms(2)]
  by (auto simp: exposed_as_def store_exposed_names)

lemma stores_exposed_as:
  assumes "\<forall>s \<in> set ss. exposes s (T s)" and "\<And>j k. is_order (ord j k)"
  shows "\<exists>es. exposed_as (stores_text ord j ss) ss T es"
  using assms(1)
proof (induction ss arbitrary: j)
  case Nil
  then show ?case by (simp add: exposed_as_def)
next
  case (Cons s ss)
  then obtain es where "exposed_as (stores_text ord (Suc j) ss) ss T es" by auto
  with Cons.prems store_exposed_as [of s T "ord j"] assms(2)
  have "exposed_as (stores_text ord j (s # ss)) ([s] @ ss) T (store_exposed (ord j) s (T s) @ es)"
    unfolding stores_text.simps by (intro exposed_as_append) auto
  then show ?case by auto
qed

lemma resources_exposed_as:
  assumes "\<forall>e \<in> set es. \<forall>s \<in> set (load hp (snd e)). exposes s (T s)" and "\<And>u j k. is_order (ord u j k)"
  shows "\<exists>xs. exposed_as (resources_text ord hp es) (concat (map (\<lambda>e. load hp (snd e)) es)) T xs"
  using assms(1)
proof (induction es)
  case Nil
  then show ?case by (simp add: exposed_as_def)
next
  case (Cons e es)
  obtain u as where e: "e = (u, as)" by fastforce
  from Cons obtain xs where "exposed_as (resources_text ord hp es) (concat (map (\<lambda>e. load hp (snd e)) es)) T xs" by auto
  moreover obtain ys where "exposed_as (stores_text (ord u) 0 (load hp as)) (load hp as) T ys"
    using stores_exposed_as [of "load hp as" T "ord u" 0] Cons.prems assms(2) by (auto simp: e)
  ultimately show ?case using exposed_as_append by (fastforce simp: e)
qed

section \<open>The stores of the process\<close>

definition heap_exposes :: "hstate \<Rightarrow> bool" where
  "heap_exposes h \<longleftrightarrow> (\<forall>x \<in> set (heap h). \<exists>S. exposes (fst x) S)"

text \<open>A property of stores that additions and deletions keep is kept by every event.\<close>

lemma handle_event_keeps:
  assumes add: "\<And>ord obj s' err. P s \<Longrightarrow> Add srt cel ord s (UnstructuredObj obj) = Inr (s', err) \<Longrightarrow> P s'"
    and del: "\<And>obj. P s \<Longrightarrow> P (fst (Delete s obj))"
    and e: "handle_event srt cel x event s = Inr s'" and P: "P s"
  shows "P s'"
proof -
  have "P s'" if a: "Add srt cel ord s obj = Inr (s', err)" for ord obj err
  proof (cases obj)
    case NotAnObject
    with a P show ?thesis by (simp add: Add_def)
  qed (use add [OF P] a in blast)
  with del P e show ?thesis
    by (auto simp: handle_event_def Update_def go_bind_eq_Inr
        split: any_object.splits watch_type.splits if_splits)
qed

text \<open>So is one of all stores of the heap that new stores have.\<close>

lemma sys_reach_heap:
  assumes reach: "sys_reach E nc srt cel s"
    and add: "\<And>ord obj s s' err. P s \<Longrightarrow> Add srt cel ord s (UnstructuredObj obj) = Inr (s', err) \<Longrightarrow> P s'"
    and del: "\<And>obj s. P s \<Longrightarrow> P (fst (Delete s obj))"
    and new: "\<And>raw ps sc b. env_yaml E raw = Inr ps \<Longrightarrow> Some sc \<in> set ps \<Longrightarrow> build_entry nc sc = Inr b \<Longrightarrow> P (fst b)"
  shows "\<forall>x \<in> set (heap (c_stores (fst s))). P (fst x)"
proof -
  have stores: "\<forall>x \<in> set (heap h'). P (fst x)"
    if "stores_step nc (env_yaml E) h h'" "\<forall>x \<in> set (heap h). P (fst x)" for h h'
    using that
  proof (induction rule: stores_step.induct)
    case (rebuilt raw ps u h h')
    have y: "env_yaml E raw = Inr ps" using rebuilt(1) by (auto simp: parse_def split: sum.splits)
    from build_heap [OF rebuilt(2)] obtain bs where bs: "heap h' = heap h @ bs"
      "\<forall>b \<in> set bs. \<exists>sc. Some sc \<in> set ps \<and> build_entry nc sc = Inr b" by auto
    with new [OF y] rebuilt(3) show ?case by (auto simp del: split_paired_All)
  qed simp_all
  have event: "\<forall>x \<in> set (heap h'). P (fst x)"
    if r: "reflector_event srt cel a event h = Inr h'" and h: "\<forall>x \<in> set (heap h). P (fst x)" for a event h h'
  proof -
    from reflector_event_eq [OF r] obtain s cfg s' where a: "a < length (heap h)" "heap h ! a = (s, cfg)"
      "handle_event srt cel (rc_expectedGVK cfg) event s = Inr s'" "h' = h\<lparr>heap := (heap h)[a := (s', cfg)]\<rparr>" by blast
    have "P s" using h a(1,2) by (metis fst_conv nth_mem)
    have "P s'"
      by (rule handle_event_keeps [where P = P, OF _ _ a(3) \<open>P s\<close>]) (use add del in blast)+
    with h show ?thesis by (auto simp: a(4) dest!: set_update_subset_insert [THEN subsetD])
  qed
  show ?thesis
    using reach
  proof (induction rule: sys_reach.induct)
    case (start w)
    then show ?case by (simp add: initial_cstate_def)
  next
    case (step s s')
    from step(2) step.IH show ?case
    proof (induction rule: sys_step.induct)
      case (controller s s')
      then show ?case using ctl_step_stores [OF controller(1)] stores by blast
    next
      case (reflector a event c h ws)
      then show ?case using event [OF reflector(1)] by simp
    qed
  qed
qed

lemma sys_reach_exposes:
  assumes "slice_sort srt" and "sys_reach E nc srt cel s"
  shows "heap_exposes (c_stores (fst s))"
  unfolding heap_exposes_def
proof (rule sys_reach_heap [OF assms(2)])
  fix raw ps sc b assume "build_entry nc sc = Inr b"
  then show "\<exists>S. exposes (fst b) S" by (cases b) (auto simp: build_entry_def dest: buildStore_exposes)
qed (use Add_exposes [OF assms(1)] Delete_exposes in blast)+

text \<open>Good names are kept, and new stores have the names of their configurations.\<close>

lemma sys_reach_names:
  assumes "sys_reach E nc srt cel s"
    and "\<And>raw ps sc. env_yaml E raw = Inr ps \<Longrightarrow> Some sc \<in> set ps \<Longrightarrow> names_ok sc"
  shows "\<forall>x \<in> set (heap (c_stores (fst s))). names_ok (fst x)"
proof (rule sys_reach_heap [OF assms(1)])
  fix raw ps sc b assume "env_yaml E raw = Inr ps" "Some sc \<in> set ps" and b: "build_entry nc sc = Inr b"
  then have "names_ok sc" by (intro assms(2))
  with b show "names_ok (fst b)" by (cases b) (auto intro: build_entry_names)
qed (use Add_names Delete_names in blast)+

end
