(* ===== verification/Framework.thy ===== *)
theory Framework
  imports Exposed_Series
begin

text \<open>
  \<^verbatim>\<open>tests/framework/framework.go\<close>, the client of the end-to-end tests: it gets the text of an
  endpoint and reads it with the parser of the text format. The HTTP client is the argument
  \<open>Do\<close>; what it returns of the main server is the server's own handlers behind a connection
  that works. A scrape is then what the parser makes of the families the stores hold.
\<close>

record url =
  u_Scheme :: string
  u_Host :: string
  u_Path :: string

record http_request =
  rq_Method :: string
  rq_URL :: url

text \<open>The last field says that reading the body fails.\<close>

record http_response =
  hr_StatusCode :: nat
  hr_Body :: string
  hr_broken :: bool

text \<open>The embedded client, by the one option that is set on it, in seconds.\<close>

record Runner =
  rn_ResponseHeaderTimeout :: nat

definition NewRunner :: Runner where
  "NewRunner = \<lparr>rn_ResponseHeaderTimeout = 1\<rparr>"

type_synonym http_client = "Runner \<Rightarrow> http_request \<Rightarrow> http_response option"

datatype raw_error = NoResponse | BadStatus nat | CopyFailed

definition GetRaw :: "http_client \<Rightarrow> Runner \<Rightarrow> url \<Rightarrow> raw_error + string" where
  "GetRaw Do r endpoint =
     (case Do r \<lparr>rq_Method = ''GET'', rq_URL = endpoint\<rparr> of
        None \<Rightarrow> Inl NoResponse
      | Some resp \<Rightarrow>
          if hr_StatusCode resp \<noteq> 200 then Inl (BadStatus (hr_StatusCode resp))
          else if hr_broken resp then Inl CopyFailed
          else Inr (hr_Body resp))"

datatype metrics_error = GetFailed raw_error | ParseFailed parser_err

text \<open>The families are returned with the parser that holds their metrics.\<close>

definition GetMetrics ::
    "(float64 \<Rightarrow> 64 word) \<Rightarrow> http_client \<Rightarrow> Runner \<Rightarrow> url \<Rightarrow> metrics_error + text_parser" where
  "GetMetrics arch Do r endpoint =
     (case GetRaw Do r endpoint of
        Inl err \<Rightarrow> Inl (GetFailed err)
      | Inr raw \<Rightarrow>
          (let textualParser = TextToMetricFamilies arch raw in
           case tp_err textualParser of
             Some err \<Rightarrow> Inl (ParseFailed err)
           | None \<Rightarrow> Inr textualParser))"

section \<open>The main server behind a connection\<close>

text \<open>
  A handler that panics ends the connection without a response. The argument \<open>fails\<close> is the
  API server's answer to the probes.
\<close>

definition mainServer_Do ::
    "(string \<Rightarrow> bool) \<Rightarrow> resource_order \<Rightarrow> (uid \<Rightarrow> object_order) \<Rightarrow> hstate \<Rightarrow> http_client" where
  "mainServer_Do fails uord ord h r req =
     (case serve_mux (main_routes ''main'') (u_Path (rq_URL req)) of
        Metrics \<Rightarrow>
          (case metricsHandler builder_write uord ord h [] of
             Inl _ \<Rightarrow> None
           | Inr (body, errs) \<Rightarrow> Some \<lparr>hr_StatusCode = 200, hr_Body = body, hr_broken = False\<rparr>)
      | Probe p \<Rightarrow>
          (let rs = genericProbe fails p in
           Some \<lparr>hr_StatusCode = rs_StatusCode rs, hr_Body = rs_Body rs, hr_broken = False\<rparr>)
      | _ \<Rightarrow> Some \<lparr>hr_StatusCode = 404, hr_Body = ''404 page not found'' @ [newline], hr_broken = False\<rparr>)"

definition main_metrics_url :: "string \<Rightarrow> url" where
  "main_metrics_url mainPort = \<lparr>u_Scheme = ''http'', u_Host = ''localhost:'' @ mainPort, u_Path = ''/metrics''\<rparr>"

text \<open>The stores as they are written: with series, and families the parser can name.\<close>

definition scrapeable :: "hstate \<Rightarrow> bool" where
  "scrapeable h \<longleftrightarrow> (\<forall>s \<in> set (active_stores h). (\<exists>S. exposes s S) \<and> names_ok s)"

lemma GetRaw_main:
  assumes "\<forall>s \<in> set (active_stores h). store_shape s" and "is_order uord" and "\<And>u j i. is_order (ord u j i)"
  shows "GetRaw (mainServer_Do fails uord ord h) r (main_metrics_url port)
    = Inr (resources_text ord (heap h) (uord (stores_map h)))"
proof -
  have "serve_mux (main_routes ''main'') ''/metrics'' = Metrics" by code_simp
  then show ?thesis
    by (simp add: GetRaw_def mainServer_Do_def main_metrics_url_def metricsHandler_builder [OF assms])
qed

lemma mset_concat_sum: "mset (concat (map f xs)) = (\<Sum>x \<in># mset xs. mset (f x))"
  by (induction xs) simp_all

lemma mset_concat_perm: "mset xs = mset ys \<Longrightarrow> mset (concat (map f xs)) = mset (concat (map f ys))"
  by (simp only: mset_concat_sum)

lemma active_stores_order:
  assumes "is_order uord"
  shows "mset (concat (map (\<lambda>e. load (heap h) (snd e)) (uord (stores_map h)))) = mset (active_stores h)"
  unfolding active_stores_def by (rule mset_concat_perm) (simp add: is_order_mset [OF assms])

text \<open>The response is an exposition of the active stores, whichever series their texts are read as.\<close>

lemma scrape_exposed:
  assumes "\<forall>s \<in> set (active_stores h). exposes s (T s)"
    and "is_order uord" and "\<And>u j i. is_order (ord u j i)"
  obtains es where "GetRaw (mainServer_Do fails uord ord h) r (main_metrics_url port) = Inr (exposition es)"
    and "mset (map ex_Name es) = mset (concat (map family_names (active_stores h)))"
    and "(\<forall>s \<in> set (active_stores h). names_ok s) \<longrightarrow> (\<forall>e \<in> set es. exposed_wf e)"
    and "(\<forall>e \<in> set es. series_good e) \<longleftrightarrow> (\<forall>s \<in> set (active_stores h). \<not> spoilt s (T s))"
proof -
  let ?ss = "concat (map (\<lambda>e. load (heap h) (snd e)) (uord (stores_map h)))"
  have m: "mset ?ss = mset (active_stores h)" by (rule active_stores_order [OF assms(2)])
  have set: "set ?ss = set (active_stores h)" by (rule mset_eq_setD [OF m])
  have "\<forall>e \<in> set (uord (stores_map h)). \<forall>s \<in> set (load (heap h) (snd e)). exposes s (T s)"
    using assms(1) set by auto
  from resources_exposed_as [where ord = ord, OF this assms(3)] obtain es where
    es: "exposed_as (resources_text ord (heap h) (uord (stores_map h))) ?ss T es" by blast
  have "mset (concat (map family_names ?ss)) = mset (concat (map family_names (active_stores h)))"
    using m by (rule mset_concat_perm)
  moreover have "\<forall>s \<in> set (active_stores h). store_shape s" using assms(1) by (simp add: exposes_def)
  moreover from calculation have "GetRaw (mainServer_Do fails uord ord h) r (main_metrics_url port)
      = Inr (resources_text ord (heap h) (uord (stores_map h)))"
    by (intro GetRaw_main assms(2,3)) simp
  moreover note es [unfolded exposed_as_def set]
  ultimately show thesis by (intro that [of es]) simp_all
qed

section \<open>When a scrape is accepted\<close>

lemma GetMetrics_text:
  assumes "GetRaw Do r endpoint = Inr raw"
  shows "GetMetrics arch Do r endpoint =
    (case tp_err (TextToMetricFamilies arch raw) of
       Some err \<Rightarrow> Inl (ParseFailed err) | None \<Rightarrow> Inr (TextToMetricFamilies arch raw))"
  by (simp add: GetMetrics_def assms Let_def)

lemma exposition_error:
  assumes "\<forall>e \<in> set es. exposed_wf e" and "\<not> (distinct (map ex_Name es) \<and> (\<forall>e \<in> set es. series_good e))"
  shows "\<exists>line msg. tp_err (TextToMetricFamilies arch (exposition es)) = Some (ParseError line msg)"
proof -
  have "\<exists>line msg. refused arch (exposition es @ []) 0 (parser_reset (exposition es)) (ParseError line msg)"
    by (rule exposition_refused [OF assms reset_wf])
  then obtain line msg where "refused arch (exposition es) 0 (parser_reset (exposition es)) (ParseError line msg)" by auto
  from refused_result [OF this] show ?thesis by blast
qed

lemma GetMetrics_exposition:
  assumes raw: "GetRaw Do r endpoint = Inr (exposition es)" and wf: "\<forall>e \<in> set es. exposed_wf e"
  shows "if distinct (map ex_Name es) \<and> (\<forall>e \<in> set es. series_good e)
    then \<exists>p. GetMetrics arch Do r endpoint = Inr p \<and> parsed p = views (filter (\<lambda>e. ex_Series e \<noteq> []) es)
    else \<exists>line msg. GetMetrics arch Do r endpoint = Inl (ParseFailed (ParseError line msg))"
proof (cases "distinct (map ex_Name es) \<and> (\<forall>e \<in> set es. series_good e)")
  case True
  then have "\<forall>e \<in> set es. exposed_wf e \<and> series_good e" and d: "distinct (map ex_Name es)" using wf by simp_all
  from exposition_parsed [OF this, of arch] True show ?thesis by (simp add: GetMetrics_text [OF raw])
next
  case False
  with exposition_error [OF wf False, of arch] show ?thesis by (auto simp: GetMetrics_text [OF raw])
qed

lemma scrape_spoilt:
  assumes T: "\<forall>s \<in> set (active_stores h). exposes s (T s) \<and> names_ok s"
    and o: "is_order uord" "\<And>u j i. is_order (ord u j i)"
    and bad: "\<not> distinct (concat (map family_names (active_stores h))) \<or> (\<exists>s \<in> set (active_stores h). spoilt s (T s))"
  shows "\<exists>line msg. GetMetrics arch (mainServer_Do fails uord ord h) r (main_metrics_url port)
    = Inl (ParseFailed (ParseError line msg))"
proof -
  obtain es where raw: "GetRaw (mainServer_Do fails uord ord h) r (main_metrics_url port) = Inr (exposition es)"
    and names: "mset (map ex_Name es) = mset (concat (map family_names (active_stores h)))"
    and wf: "\<forall>e \<in> set es. exposed_wf e"
    and good: "(\<forall>e \<in> set es. series_good e) \<longleftrightarrow> (\<forall>s \<in> set (active_stores h). \<not> spoilt s (T s))"
    using scrape_exposed [where ord = ord, OF _ o(1) o(2), of h T fails r port thesis] T by blast
  have "\<not> (distinct (map ex_Name es) \<and> (\<forall>e \<in> set es. series_good e))"
    using bad good mset_eq_imp_distinct_iff [OF names] by auto
  with GetMetrics_exposition [OF raw wf, of arch] show ?thesis by (simp only: if_False)
qed

text \<open>The active stores are stores of the heap, so whatever holds of these holds of those.\<close>

lemma sys_reach_active:
  assumes "sys_reach E nc srt cel s" and "\<forall>x \<in> set (heap (c_stores (fst s))). P (fst x)"
  shows "\<forall>x \<in> set (active_stores (c_stores (fst s))). P x"
proof -
  have "hstate_wf (c_stores (fst s))" using sys_reach_inv [OF assms(1)] by blast
  then have "x \<in> fst ` set (heap (c_stores (fst s)))" if "x \<in> set (active_stores (c_stores (fst s)))" for x
    using that by (fastforce simp: set_active_stores load_def hstate_wf_def)
  with assms(2) show ?thesis by auto
qed

lemma sys_reach_active_exposes:
  assumes "slice_sort srt" and "sys_reach E nc srt cel s"
  shows "\<forall>x \<in> set (active_stores (c_stores (fst s))). \<exists>S. exposes x S"
  by (rule sys_reach_active [OF assms(2)]) (use sys_reach_exposes [OF assms] in \<open>simp add: heap_exposes_def\<close>)

end
