(* ===== verification/Scrape.thy ===== *)
theory Scrape
  imports Framework "HOL-Library.Code_Target_Numeral"
begin

text \<open>
  From the objects that are added to a store to what a scrape returns: without labels on store
  and family a scrape gives back each object's own series, whatever was added before; with
  such labels the second object makes the whole scrape fail.
\<close>

section \<open>Stores without labels to hand down\<close>










section \<open>What a scrape gives back\<close>













section \<open>Labels that are handed down twice\<close>













section \<open>The stores of the examples\<close>










section \<open>The second object\<close>





end
