(* ===== verification/Spec2Isabelle.thy ===== *)
theory Spec2Isabelle
  imports System Options Lifecycle Deep_Copy Informers Clients Reconcile Assembly Scrape
begin

text \<open>
  A verification development for crdmetrics, a Kubernetes controller that turns custom
  resources into Prometheus metrics. A managed resource (\<^verbatim>\<open>CRDMetricsResource\<close>) carries a
  configuration. An informer follows the managed resources of the API server and calls the
  controller back, which queues them; a worker takes an item from the queue and hands the
  resource to the event handler; for each entry of its configuration the handler builds a
  store and starts a reflector, which feeds the store with the objects of one kind; an HTTP
  server writes out what the stores hold.

  \<^bold>\<open>How the program is cut into theories.\<close> From the leaves up, with the code each one models:

    \<^item> \<open>Prelude\<close>: Go's two outcomes (\<open>'a go\<close>: \<open>Inr\<close> a value, \<open>Inl\<close> a panic), Go maps as
      association lists with distinct keys, and the order in which a \<^verbatim>\<open>range\<close> loop visits one.
    \<^item> \<open>Go_Strings\<close>, \<open>Go_Float\<close>: what the program uses of \<^verbatim>\<open>strings\<close>, \<^verbatim>\<open>regexp\<close>, \<^verbatim>\<open>strconv\<close> and
      \<^verbatim>\<open>fmt\<close>; strings are byte lists, floats are exact dyadic values with correct rounding.
    \<^item> \<open>Go_Value\<close>, \<open>Unstructured\<close>: dynamic values, nested lookup, object metadata and kinds
      (vendored apimachinery).
    \<^item> \<open>Resolver\<close>: \<^verbatim>\<open>pkg/resolver\<close>. The CEL engine is the parameter \<open>cel\<close>.
    \<^item> \<open>Sorting_Slices\<close>: the contract of \<^verbatim>\<open>sort.Slice\<close>, a parameter of what follows, and the
      insertion sort that Go uses on short slices as its instance.
    \<^item> \<open>Metric\<close>, \<open>Family\<close>: \<^verbatim>\<open>internal/metric.go\<close>, \<^verbatim>\<open>internal/family.go\<close>.
    \<^item> \<open>Cache_Store\<close>, \<open>Store\<close>: the contract a reflector has with its store, and
      \<^verbatim>\<open>internal/store.go\<close>.
    \<^item> \<open>Writer\<close>: \<^verbatim>\<open>internal/writer.go\<close> over any \<^verbatim>\<open>io.Writer\<close>.
    \<^item> \<open>Builder\<close>, \<open>Reflector\<close>: \<^verbatim>\<open>internal/builder.go\<close> and the event loop of client-go's reflector.
    \<^item> \<open>Api_Types\<close>, \<open>Config\<close>, \<open>Events\<close>: \<^verbatim>\<open>types.go\<close>, \<^verbatim>\<open>internal/config.go\<close>, \<^verbatim>\<open>internal/events.go\<close>. The
      YAML library, the API server and the clock are parameters.
    \<^item> \<open>Api_Server\<close>: what the handler relies on of the API server, and its effect derived from that.
    \<^item> \<open>Deep_Copy\<close>: \<^verbatim>\<open>zz_generated.deepcopy.go\<close>, and the methods of the object metadata it calls, over an
      explicit memory of cells that pointers, maps and slices refer to.
    \<^item> \<open>Workqueue\<close>, \<open>Controller\<close>: client-go's rate limited work queue and
      \<^verbatim>\<open>internal/controller.go\<close>, with the transition systems \<open>wq_step\<close> and \<open>ctl_step\<close>.
    \<^item> \<open>Server\<close>: \<^verbatim>\<open>internal/server.go\<close>, \<^verbatim>\<open>internal/probe.go\<close>.
    \<^item> \<open>System\<close>: controller, reflectors and stores as one transition system \<open>sys_step\<close>.
    \<^item> \<open>Options\<close>, \<open>Lifecycle\<close>: \<^verbatim>\<open>internal/options.go\<close>, \<^verbatim>\<open>main.go\<close>, \<^verbatim>\<open>pkg/signals\<close> and the shutdown in
      \<^verbatim>\<open>Controller.Run\<close>, as the process of main, its goroutines and what the system does to it.
    \<^item> \<open>Scheme\<close>: \<^verbatim>\<open>pkg/apis/.../register.go\<close> and the registrations of apimachinery's scheme.
    \<^item> \<open>Informers\<close>, \<open>Clients\<close>: the generated informer factory, \<^verbatim>\<open>pkg/generated/informers\<close>, and the
      generated clientset, \<^verbatim>\<open>pkg/generated/clientset/versioned\<close>, with its configuration, rate
      limiters and request paths.
    \<^item> \<open>Assembly\<close>: \<^verbatim>\<open>NewController\<close> and which client each part of the program is given.
    \<^item> \<open>Object_Tracker\<close>, \<open>Fake_Client\<close>, \<open>Fake_Server\<close>, \<open>Fake_Watched\<close>: the generated fake clientset,
      \<^verbatim>\<open>pkg/generated/clientset/versioned/fake\<close>, with client-go's object tracker: its calls, as a
      map while no watcher is full, and with watchers that read what they are sent.
    \<^item> \<open>Indexer\<close>, \<open>Listers\<close>: client-go's indexed store and the generated lister that reads it,
      \<^verbatim>\<open>pkg/generated/listers\<close>.
    \<^item> \<open>Delta_Fifo\<close>, \<open>Informer_Run\<close>: client-go's queue of deltas, what the informer makes of them,
      and the runs in which its reflector and its loop alternate.
    \<^item> \<open>Fake_Informer\<close>, \<open>Reconcile\<close>: the informer that follows the fake clientset, and the way of a
      resource from the server through cache, queue, worker and handler to its stores and its
      status.
    \<^item> \<open>Text_Parser\<close>: the vendored parser of the text format, \<^verbatim>\<open>expfmt/text_parse.go\<close>, state by state.
      \<open>Go_Decimal\<close>, \<open>Text_Reading\<close>, \<open>Exposition\<close> show what it makes of a rendered float, of one line,
      and of a whole exposition, good or bad.
    \<^item> \<open>Exposed_Series\<close>: the texts in the stores as series, in every reachable state. \<open>Framework\<close>:
      \<^verbatim>\<open>tests/framework\<close>, the client that gets and parses the response of the main server. \<open>Scrape\<close>:
      from the objects that are added to what a scrape gives back.

  \<^bold>\<open>State.\<close> A store is the record \<open>store_type\<close>; its \<open>metrics\<close> map goes from an object's UID to
  one text per family. The stores live in \<open>heap\<close>, a list that only grows, next to what their
  reflectors ask for; the controller's \<open>stores_map\<close> holds addresses of the heap under the UID
  of the managed resource, as \<^verbatim>\<open>crdmetricsUIDToStores\<close> holds pointers. Pointers that may be
  \<^verbatim>\<open>nil\<close> in a parsed configuration are options, and dereferencing \<open>None\<close> panics. Families and
  metrics are changed in place by the code when an object is added; \<open>Add\<close> returns the store
  with them changed. The informer's cache is a \<open>thread_safe_map\<close> with its index by namespace,
  its queue a \<open>delta_fifo\<close>; the fake clientset is a \<open>fake\<close> whose tracker holds objects, lists of
  watchers, and the channel of each watcher.

  \<^bold>\<open>Interfaces.\<close> The locale \<open>resolver\<close> (an answer is a map) is interpreted by both resolvers;
  \<open>slice_sort\<close> (a sorted permutation) by insertion sort; \<open>object_store\<close> (additions and deletions
  change one key, nothing fails) by the store and by the informer's cache; \<open>io_writer\<close> (a write
  takes a prefix, and fails when it does not take all) by \<^verbatim>\<open>strings.Builder\<close> and by a connection
  that breaks; \<open>deep_copier\<close> (a copy is new memory that reads the same) by the copies of times,
  numbers, slices, owners, managed fields and, through pointers and slices, whole resources and lists;
  \<open>api_server\<close> (reads answer what is stored, the handler's writes replace it) by the
  fake clientset, unwatched and watched. The handler's and the worker's effect on the server is
  proved once, inside \<open>api_server\<close>.

  \<^bold>\<open>What the lemmas show.\<close> A store's shape (one text per header for every object) holds in every
  reachable state, so that a scrape never panics; a well-formed store, one without nil pointers
  and with a key for every label value, never panics on any sequence of events and holds
  exactly the objects its events left alive; a series reads back as its labels and its value;
  the text of a family depends neither on map order nor on the sorting algorithm while its
  label names are different. The work queue works on no item twice at once. The controller's
  map holds valid, unshared addresses. The fake clientset is a map of resources, and its
  watchers are sent what turns one state of it into a later one; the index of the cache always
  agrees with a search of it; the informer's cache ends up with what lists and watches add up
  to, so that the lister gets what the server holds, and a worker that takes a resource from the
  queue leaves it with its stores built and its status on the server, without queueing it again.
  What the main server writes is read by the parser of the text format. As long as the names of the
  families are valid and their help texts are one line, it is accepted when no two families have one
  name and the labels of every series are good and different, and then every family comes back with
  its help and exactly its series; otherwise all of it is refused. A label that a store or family
  hands down, and that resolves to something, leads there with the second object.
  Deep copies share nothing with their originals; each informer is run at most once; after a
  signal the process ends. Other theorems pin down where the program departs from
  its comments: labels that accumulate with every addition, 64-bit integers that CEL maps and
  lists lose, entries that outlive missed deletions, stores that outlive their resource,
  tombstones that have no key, and configurations that end the process.

  \<^bold>\<open>Steps and fuel.\<close> A step of the system is one handled work item or one handled watch event:
  the store's mutex makes the latter atomic in the code; for the former the theorem on
  interleaved rebuilds shows what a finer grain adds. A step of the process of \<open>Lifecycle\<close> is one
  statement of main or of a goroutine that matters for its end: ten steps of its own after a
  signal are enough. A step of the informer is one call of its reflector or one item popped, as
  the mutex of its queue has it. No definition runs on fuel except the small reader of one series
  in \<open>Metric\<close>, which is given the length of its input, more than the number of labels in it. The
  loop of the text parser ends by a measure: the bytes left, then the state.

  \<^bold>\<open>What is left out.\<close> Logging and contexts; the telemetry registry and profiling; TLS and HTTP
  transports, which the clients get as parameters, and the native and dynamic clients; the
  event recorder; the reflector's retries and resource versions (the list and watch functions
  ignore what it asks for) and an informer's resync, which the program turns off; the fake's
  discovery, and its reaction chains other than those it is made with; the logging library's four
  flags with values of its own types; the locking that the code
  does or does not do around the stores map; and the end-to-end tests other than their client,
  which compare the responses of a deployed cluster.
\<close>

section \<open>Properties\<close>

text \<open>A state the examples use: an added resource has been handled, and one store was built.\<close>

lemma sample_handled:
  "\<exists>h' w'. syncHandler sample_env False (lister_Get [(''r'', sample_resource)]) ''r'' ''addEvent''
      \<lparr>heap = [], stores_map = []\<rparr> (Some sample_resource) = Inr (False, h', w')
    \<and> stores_at (stores_map h') ''u'' = [0]"
proof -
  obtain ds q where q: "cr_UID q = ''u''" "cr_Configuration q = ''good''"
    "reaches_switch sample_env ''addEvent'' sample_resource (Some sample_resource)
        (q\<lparr>cr_Conditions := ds\<rparr>) (Some (q\<lparr>cr_Conditions := ds\<rparr>))"
    using sample_reaches by blast
  have y: "env_yaml sample_env (cr_Configuration (q\<lparr>cr_Conditions := ds\<rparr>)) = Inr [Some sample_entry]"
    using q(2) by (simp add: sample_env_def)
  have h: "hstate_wf empty_hstate" by (simp add: hstate_wf_def)
  obtain h' w' where "handleEvent sample_env False ''addEvent'' (ManagedResource sample_resource)
      empty_hstate (Some sample_resource) = Inr (h', w')" "stores_at (stores_map h') ''u'' = [0]"
    using handleEvent_rebuild [OF q(3) _ y _ h, of False] q(1) sample_entry_config
    by (auto simp: upt_rec)
  then show ?thesis
    by (simp add: syncHandler_def handleObject_def SplitMetaNamespaceKey_def lister_Get_def)
qed

lemma sample_running:
  "\<exists>c. sys_reach sample_env False srt cel (c, []) \<and> stores_at (stores_map (c_stores c)) ''u'' = [0]"
proof -
  let ?R = "sys_reach sample_env False srt cel"
  let ?i = "(''r'', ''addEvent'')"
  let ?c0 = "initial_cstate (Some sample_resource)"
  let ?c1 = "?c0\<lparr>c_indexer := [(''r'', sample_resource)]\<rparr>"
  let ?c2 = "?c1\<lparr>c_queue := AddFunc (InformerResource sample_resource) (c_queue ?c1)\<rparr>"
  let ?q = "\<lparr>wq_queue = [], wq_dirty = [], wq_processing = [?i], wq_shuttingDown = False, wq_drain = False\<rparr>"
  let ?c3 = "?c2\<lparr>c_queue := (c_queue ?c2)\<lparr>rq_typed := ?q\<rparr>\<rparr>"
  have "?R (?c0, [])" by (rule sys_reach.start)
  then have "?R (?c1, [])" by (rule sys_reach.step) (intro sys_step.controller ctl_step.informer)
  then have r2: "?R (?c2, [])" by (rule sys_reach.step) (intro sys_step.controller ctl_step.added)
  have "wq_Get (rq_typed (c_queue ?c2)) = Some (Item ?i, ?q)"
    by (simp add: AddFunc_def enqueueCRDMetrics_def MetaNamespaceKeyFunc_def ObjectName_String_def
        MetaObjectToName_def sample_resource_def empty_resource_def wq_Add_def wq_Get_def
        initial_cstate_def newRateLimitingQueue_def newQueue_def)
  with r2 have r3: "?R (?c3, [?i])"
    by (intro sys_reach.step [OF r2] sys_step.controller ctl_step.take)
  obtain h' w' where s: "syncHandler sample_env False (lister_Get [(''r'', sample_resource)]) ''r'' ''addEvent''
      \<lparr>heap = [], stores_map = []\<rparr> (Some sample_resource) = Inr (False, h', w')"
    and at: "stores_at (stores_map h') ''u'' = [0]"
    using sample_handled by blast
  from s have "\<exists>c4. process_item sample_env False 0 0 ?i ?c3 = Inr c4 \<and> c_stores c4 = h'"
    by (simp add: process_item_def initial_cstate_def Let_def)
  then obtain c4 where c4: "process_item sample_env False 0 0 ?i ?c3 = Inr c4" "c_stores c4 = h'" by blast
  have "?R (c4, remove1 ?i [?i])"
    using c4(1) by (intro sys_reach.step [OF r3] sys_step.controller ctl_step.handle) simp_all
  with c4(2) at show ?thesis by auto
qed

text \<open>C1: in every reachable state of the process, whatever the configurations are, a scrape does not
  panic, reports no error, and returns, resource by resource, the whole exposition of every
  store in the controller's map: every object of every store has one text per header.\<close>

theorem scrape_complete:
  assumes "sys_reach E nc srt cel (c, ws)" and "is_order uord" and "\<And>u j i. is_order (ord u j i)"
  shows "metricsHandler builder_write uord ord (c_stores c) []
    = Inr (resources_text ord (heap (c_stores c)) (uord (stores_map (c_stores c))), [])"
proof -
  have "hstate_wf (c_stores c)" and "heap_shape (c_stores c)"
    using sys_reach_inv [OF assms(1)] by simp_all
  then have "\<forall>s \<in> set (active_stores (c_stores c)). store_shape s" by (rule active_stores_shape)
  then show ?thesis using assms(2,3) by (rule metricsHandler_builder)
qed

theorem scrape_complete_witness:
  "\<exists>c :: resource option cstate. stores_at (stores_map (c_stores c)) ''u'' = [0]
    \<and> metricsHandler builder_write (\<lambda>m. m) (\<lambda>_ _ _ m. m) (c_stores c) []
      = Inr (resources_text (\<lambda>_ _ _ m. m) (heap (c_stores c)) (stores_map (c_stores c)), [])"
proof -
  obtain c where c: "sys_reach sample_env False insertionSort (\<lambda>_ _ _. EnvError) (c, [])"
    "stores_at (stores_map (c_stores c)) ''u'' = [0]"
    using sample_running by blast
  have "metricsHandler builder_write (\<lambda>m. m) (\<lambda>_ _ _ m. m) (c_stores c) []
      = Inr (resources_text (\<lambda>_ _ _ m. m) (heap (c_stores c)) (stores_map (c_stores c)), [])"
    using c(1) by (rule scrape_complete) simp_all
  with c(2) show ?thesis by blast
qed




text \<open>C11: in every reachable state the controller's map is sound: each address it holds is the
  address of a store, no address stands in it twice, under one resource or under two, and the
  workers hold different items.\<close>

theorem stores_map_sound:
  assumes "sys_reach E nc srt cel (c, ws)"
  shows "(\<forall>u. distinct (stores_at (stores_map (c_stores c)) u)
      \<and> (\<forall>a \<in> set (stores_at (stores_map (c_stores c)) u). a < length (heap (c_stores c))))
    \<and> (\<forall>u v. u = v \<or> set (stores_at (stores_map (c_stores c)) u) \<inter> set (stores_at (stores_map (c_stores c)) v) = {})
    \<and> distinct ws"
proof -
  have "hstate_wf (c_stores c)" and "wq_reach (queue_view (c, ws))"
    using sys_reach_inv [OF assms] by simp_all
  then have "distinct ws" using wq_reach_inv [of "queue_view (c, ws)"] by (simp add: queue_view_def)
  with \<open>hstate_wf (c_stores c)\<close> show ?thesis unfolding hstate_wf_eq by blast
qed

theorem stores_map_sound_witness:
  "\<exists>c :: resource option cstate. stores_at (stores_map (c_stores c)) ''u'' = [0] \<and> 0 < length (heap (c_stores c))"
proof -
  obtain c where c: "sys_reach sample_env False insertionSort (\<lambda>_ _ _. EnvError) (c, [])"
    "stores_at (stores_map (c_stores c)) ''u'' = [0]"
    using sample_running by blast
  from stores_map_sound [OF c(1)] have "\<forall>a \<in> set (stores_at (stores_map (c_stores c)) ''u''). a < length (heap (c_stores c))"
    by blast
  with c(2) show ?thesis by auto
qed

text \<open>Reflectors are started and never stopped: no step of the process takes a store out of the
  heap or changes what its reflector lists and watches, so the reflector of a store that was
  dropped from the map goes on.\<close>

theorem reflectors_persist:
  assumes "sys_step E nc srt cel (c, ws) (c', ws')" and "hstate_wf (c_stores c)"
  shows "\<exists>started. map snd (heap (c_stores c')) = map snd (heap (c_stores c)) @ started"
  using assms(1)
proof cases
  case controller
  from stores_step_wf [OF ctl_step_stores [OF this]] assms(2) show ?thesis by auto
next
  case (reflector a event h)
  then show ?thesis using reflector_event_inv(4) by auto
qed

theorem reflectors_persist_witness:
  "\<exists>started. map snd (heap (c_stores (initial_cstate (None :: resource option)\<lparr>c_indexer := [(''r'', sample_resource)]\<rparr>)))
     = map snd (heap (c_stores (initial_cstate (None :: resource option)))) @ started"
proof -
  have s: "sys_step sample_env False insertionSort (\<lambda>_ _ _. EnvError) (initial_cstate None, [])
      (initial_cstate None\<lparr>c_indexer := [(''r'', sample_resource)]\<rparr>, [])"
    by (intro sys_step.controller ctl_step.informer)
  have "hstate_wf (c_stores (initial_cstate (None :: resource option)))"
    by (simp add: initial_cstate_def hstate_wf_def)
  with s show ?thesis by (rule reflectors_persist)
qed

end
